(* ===== verification/Prelude.thy ===== *)
theory Prelude
  imports Main "HOL-Library.Char_ord" "HOL-Library.Sublist" "HOL-Library.Word" "HOL-Library.Multiset"
begin

text \<open>
  Prelude of the development: strings, 32-bit integers, list searches and the lemma
  collections that the component theories share.

  A \<open>QString\<close> / \<open>QStringView\<close> is a list of characters (Latin-1 range); the sequence
  operations the program uses on it (\<open>startsWith\<close>, \<open>mid\<close>, \<open>chop\<close>, \<open>indexOf\<close>,
  \<open>replace\<close>, \<open>toInt\<close>, \<open>number\<close>) are written here once.  Case folding is never fixed:
  where the source compares case-insensitively, the definitions take the folding function as
  an argument.
\<close>

named_theorems code_model_defs \<open>definitions unfolded when a concrete input is evaluated\<close>

section \<open>Fallible steps\<close>

text \<open>Sequencing of steps that return an error (\<open>Inl\<close>) or a result (\<open>Inr\<close>).\<close>

definition pbind :: "'x + 'a \<Rightarrow> ('a \<Rightarrow> 'x + 'b) \<Rightarrow> 'x + 'b" where
  "pbind m f = (case m of Inl e \<Rightarrow> Inl e | Inr a \<Rightarrow> f a)"

lemma pbind_simps [simp]: "pbind (Inr a) f = f a" "pbind (Inl e) f = Inl e"
  by (simp_all add: pbind_def)

lemma pbind_Inr_iff: "pbind m f = Inr b \<longleftrightarrow> (\<exists>a. m = Inr a \<and> f a = Inr b)"
  by (cases m) simp_all

section \<open>Lists\<close>

fun first_index :: "('a \<Rightarrow> bool) \<Rightarrow> 'a list \<Rightarrow> nat option" where
  "first_index P [] = None"
| "first_index P (x # xs) = (if P x then Some 0 else map_option Suc (first_index P xs))"

lemma first_index_None_iff: "first_index P xs = None \<longleftrightarrow> (\<forall>x \<in> set xs. \<not> P x)"
  by (induction xs) auto

lemma first_index_Some_D:
  "first_index P xs = Some i \<Longrightarrow> i < length xs \<and> P (xs ! i) \<and> (\<forall>j < i. \<not> P (xs ! j))"
proof (induction xs arbitrary: i)
  case Nil
  then show ?case by simp
next
  case (Cons x xs)
  show ?case
  proof (cases "P x")
    case True
    with Cons.prems show ?thesis by simp
  next
    case False
    with Cons.prems obtain k where k: "first_index P xs = Some k" "i = Suc k" by auto
    from Cons.IH[OF k(1)] False show ?thesis
      unfolding k(2) by (auto simp: less_Suc_eq_0_disj)
  qed
qed

lemma first_index_Some_iff:
  "first_index P xs = Some i \<longleftrightarrow> i < length xs \<and> P (xs ! i) \<and> (\<forall>j < i. \<not> P (xs ! j))"
proof
  assume R: "i < length xs \<and> P (xs ! i) \<and> (\<forall>j < i. \<not> P (xs ! j))"
  then have "P (xs ! i)" "xs ! i \<in> set xs" by simp_all
  then obtain k where k: "first_index P xs = Some k"
    by (cases "first_index P xs") (simp_all add: first_index_None_iff)
  from first_index_Some_D[OF k] R have "k = i"
    by (metis linorder_neqE_nat)
  with k show "first_index P xs = Some i" by simp
qed (rule first_index_Some_D)

lemma first_index_append_None:
  "\<forall>x \<in> set xs. \<not> P x \<Longrightarrow>
   first_index P (xs @ ys) = map_option (\<lambda>i. length xs + i) (first_index P ys)"
proof (induction xs)
  case Nil
  then show ?case by (simp add: option.map_ident)
next
  case (Cons x xs)
  then show ?case by (simp add: option.map_comp comp_def)
qed

lemma first_index_append_Some:
  "first_index P xs = Some i \<Longrightarrow> first_index P (xs @ ys) = Some i"
  by (simp add: first_index_Some_iff nth_append)

lemma first_index_distinct:
  "distinct xs \<Longrightarrow> i < length xs \<Longrightarrow> first_index (\<lambda>y. y = xs ! i) xs = Some i"
  by (auto simp: first_index_Some_iff nth_eq_iff_index_eq)

text \<open>The last \<open>n\<close> elements of a list.\<close>

definition last_n :: "nat \<Rightarrow> 'a list \<Rightarrow> 'a list" where
  "last_n n xs = drop (length xs - n) xs"

lemma length_last_n [simp]: "length (last_n n xs) = min n (length xs)"
  by (simp add: last_n_def)

lemma last_n_all [simp]: "length xs \<le> n \<Longrightarrow> last_n n xs = xs"
  by (simp add: last_n_def)

lemma last_n_0 [simp]: "last_n 0 xs = []"
  by (simp add: last_n_def)

lemma set_last_n_subset: "set (last_n n xs) \<subseteq> set xs"
  by (simp add: last_n_def set_drop_subset)

lemma last_n_split: "take (length xs - n) xs @ last_n n xs = xs"
  by (simp add: last_n_def)

lemma last_n_append_last_n: "last_n n (last_n n xs @ ys) = last_n n (xs @ ys)"
  by (cases "n \<le> length xs") (simp_all add: last_n_def add.commute)

lemma last_n_tl: "length xs = n \<Longrightarrow> 0 < n \<Longrightarrow> last_n n (xs @ [x]) = tl xs @ [x]"
  by (cases xs) (simp_all add: last_n_def Suc_diff_le)

section \<open>Characters\<close>

definition code :: "char \<Rightarrow> nat" where
  "code c = of_char c"

lemma code_eq_iff [simp]: "code a = code b \<longleftrightarrow> a = b"
  by (simp add: code_def)

lemma code_less_256: "code c < 256"
  by (simp add: code_def)

definition isDigit :: "char \<Rightarrow> bool" where
  "isDigit c \<longleftrightarrow> 48 \<le> code c \<and> code c \<le> 57"

text \<open>\<open>QChar::isSpace\<close> on the Latin-1 range.\<close>

definition isSpace :: "char \<Rightarrow> bool" where
  "isSpace c \<longleftrightarrow> code c = 32 \<or> (9 \<le> code c \<and> code c \<le> 13) \<or> code c = 133 \<or> code c = 160"

definition digitVal :: "char \<Rightarrow> nat" where
  "digitVal c = code c - 48"

definition digitChar :: "nat \<Rightarrow> char" where
  "digitChar d = char_of (48 + d)"

lemma code_digitChar [simp]: "d < 10 \<Longrightarrow> code (digitChar d) = 48 + d"
  by (simp add: code_def digitChar_def)

lemma isDigit_digitChar [simp]: "d < 10 \<Longrightarrow> isDigit (digitChar d)"
  by (simp add: isDigit_def)

lemma digitVal_digitChar [simp]: "d < 10 \<Longrightarrow> digitVal (digitChar d) = d"
  by (simp add: digitVal_def)

lemma isDigit_not_isSpace [simp]: "isDigit c \<Longrightarrow> \<not> isSpace c"
  by (auto simp: isDigit_def isSpace_def)

section \<open>Strings\<close>

definition startsWith :: "string \<Rightarrow> string \<Rightarrow> bool" where
  "startsWith s p \<longleftrightarrow> take (length p) s = p"

definition endsWith :: "string \<Rightarrow> string \<Rightarrow> bool" where
  "endsWith s p \<longleftrightarrow> length p \<le> length s \<and> drop (length s - length p) s = p"

fun indexOf :: "string \<Rightarrow> string \<Rightarrow> nat option" where
  "indexOf s p = (if startsWith s p then Some 0 else
     (case s of [] \<Rightarrow> None | c # cs \<Rightarrow> map_option Suc (indexOf cs p)))"

declare indexOf.simps [simp del]

definition containsStr :: "string \<Rightarrow> string \<Rightarrow> bool" where
  "containsStr s p \<longleftrightarrow> indexOf s p \<noteq> None"

text \<open>\<open>mid(pos, n)\<close>, \<open>mid(pos)\<close> and \<open>chop(n)\<close>.\<close>

definition mid :: "string \<Rightarrow> nat \<Rightarrow> nat \<Rightarrow> string" where
  "mid s pos n = take n (drop pos s)"

definition midFrom :: "string \<Rightarrow> nat \<Rightarrow> string" where
  "midFrom s pos = drop pos s"

definition chop :: "string \<Rightarrow> nat \<Rightarrow> string" where
  "chop s n = take (length s - n) s"

text \<open>\<open>QString::replace(before, after)\<close> for a non-empty \<open>before\<close>: left to right, without
  overlaps.\<close>

fun replaceAll :: "string \<Rightarrow> string \<Rightarrow> string \<Rightarrow> string" where
  "replaceAll b a [] = []"
| "replaceAll b a (c # cs) =
     (if b \<noteq> [] \<and> startsWith (c # cs) b
      then a @ replaceAll b a (drop (length b - 1) cs)
      else c # replaceAll b a cs)"

text \<open>\<open>QStringView::trimmed\<close>.\<close>

definition trimmed :: "string \<Rightarrow> string" where
  "trimmed s = rev (dropWhile isSpace (rev (dropWhile isSpace s)))"

fun joinStr :: "string \<Rightarrow> string list \<Rightarrow> string" where
  "joinStr sep [] = []"
| "joinStr sep [s] = s"
| "joinStr sep (s # t # ss) = s @ sep @ joinStr sep (t # ss)"

text \<open>\<open>QString::split\<close> at a character, empty parts kept.\<close>

fun splitOn :: "'c \<Rightarrow> 'c list \<Rightarrow> 'c list list" where
  "splitOn sep [] = [[]]"
| "splitOn sep (c # cs) =
     (if c = sep then [] # splitOn sep cs
      else (case splitOn sep cs of [] \<Rightarrow> [[c]] | w # ws \<Rightarrow> (c # w) # ws))"

fun joinOn :: "'c \<Rightarrow> 'c list list \<Rightarrow> 'c list" where
  "joinOn sep [] = []"
| "joinOn sep [w] = w"
| "joinOn sep (w # v # ws) = w @ sep # joinOn sep (v # ws)"

lemma startsWith_append [simp]: "startsWith (p @ s) p"
  by (simp add: startsWith_def)

lemma startsWith_Nil [simp]: "startsWith s []"
  by (simp add: startsWith_def)

lemma startsWith_Cons [simp]:
  "startsWith [] (a # p) = False"
  "startsWith (c # s) (a # p) = (c = a \<and> startsWith s p)"
  by (auto simp: startsWith_def)

section \<open>Decimal numbers\<close>

fun natDigits :: "nat \<Rightarrow> string" where
  "natDigits n = (if n < 10 then [digitChar n] else natDigits (n div 10) @ [digitChar (n mod 10)])"

declare natDigits.simps [simp del]

text \<open>\<open>QString::number\<close>.\<close>

definition numberStr :: "int \<Rightarrow> string" where
  "numberStr i = (if i < 0 then CHR ''-'' # natDigits (nat (- i)) else natDigits (nat i))"

definition digitsVal :: "string \<Rightarrow> nat" where
  "digitsVal s = foldl (\<lambda>acc c. acc * 10 + digitVal c) 0 s"

text \<open>\<open>QString::toInt\<close> / \<open>toUInt\<close> in base 10: surrounding white space is skipped, an optional
  sign, at least one digit, nothing else; out of the range of the type the conversion fails.\<close>

definition parseInteger :: "string \<Rightarrow> int option" where
  "parseInteger s0 = (let s = trimmed s0 in
     case s of [] \<Rightarrow> None
     | c # cs \<Rightarrow>
        (if c = CHR ''-'' then (if cs \<noteq> [] \<and> list_all isDigit cs then Some (- int (digitsVal cs)) else None)
         else if c = CHR ''+'' then (if cs \<noteq> [] \<and> list_all isDigit cs then Some (int (digitsVal cs)) else None)
         else if list_all isDigit s then Some (int (digitsVal s)) else None))"

definition toIntOk :: "string \<Rightarrow> int option" where
  "toIntOk s = (case parseInteger s of None \<Rightarrow> None
     | Some i \<Rightarrow> if - (2 ^ 31) \<le> i \<and> i < 2 ^ 31 then Some i else None)"

definition toUInt :: "string \<Rightarrow> nat" where
  "toUInt s = (case parseInteger s of None \<Rightarrow> 0
     | Some i \<Rightarrow> if 0 \<le> i \<and> i < 2 ^ 32 then nat i else 0)"

lemma natDigits_not_Nil [simp]: "natDigits n \<noteq> []"
  by (subst natDigits.simps) simp

lemma natDigits_digits: "list_all isDigit (natDigits n)"
proof (induction n rule: natDigits.induct)
  case (1 n)
  then show ?case
    by (subst natDigits.simps) (simp add: list_all_append)
qed

lemma digitsVal_natDigits [simp]: "digitsVal (natDigits n) = n"
proof (induction n rule: natDigits.induct)
  case (1 n)
  then show ?case
    by (subst natDigits.simps) (simp add: digitsVal_def)
qed

lemma trimmed_no_space:
  "s \<noteq> [] \<Longrightarrow> \<not> isSpace (hd s) \<Longrightarrow> \<not> isSpace (last s) \<Longrightarrow> trimmed s = s"
  by (simp add: trimmed_def dropWhile_eq_self_iff [THEN iffD2] hd_rev)

lemma trimmed_digits: "list_all isDigit s \<Longrightarrow> trimmed s = s"
proof (cases "s = []")
  case False
  assume "list_all isDigit s"
  with False show ?thesis
    by (intro trimmed_no_space) (auto simp: list_all_iff)
qed (simp add: trimmed_def)

lemma not_isDigit_sign [simp]: "\<not> isDigit CHR ''-''" "\<not> isDigit CHR ''+''"
  by (simp_all add: isDigit_def code_def)

lemma parseInteger_digits:
  "s \<noteq> [] \<Longrightarrow> list_all isDigit s \<Longrightarrow> parseInteger s = Some (int (digitsVal s))"
  by (cases s) (auto simp: parseInteger_def trimmed_digits Let_def)

lemma parseInteger_natDigits [simp]: "parseInteger (natDigits n) = Some (int n)"
  by (simp add: parseInteger_digits natDigits_digits)

lemma set_trimmed: "set (trimmed s) \<subseteq> set s"
  by (auto simp: trimmed_def dest!: set_dropWhileD)

lemma no_digits_no_integer: "list_all (\<lambda>c. \<not> isDigit c) s \<Longrightarrow> toIntOk s = None"
proof -
  assume "list_all (\<lambda>c. \<not> isDigit c) s"
  then have "\<forall>c\<in>set (trimmed s). \<not> isDigit c" using set_trimmed[of s] by (auto simp: list_all_iff)
  then show ?thesis by (cases "trimmed s") (auto simp: toIntOk_def parseInteger_def Let_def list_all_iff neq_Nil_conv)
qed

lemma toUInt_natDigits [simp]: "n < 2 ^ 32 \<Longrightarrow> toUInt (natDigits n) = n"
  by (simp add: toUInt_def)

lemma toIntOk_natDigits [simp]: "n < 2 ^ 31 \<Longrightarrow> toIntOk (natDigits n) = Some (int n)"
  by (simp add: toIntOk_def)

lemma toIntOk_range: "toIntOk s = Some i \<Longrightarrow> - (2 ^ 31) \<le> i \<and> i < 2 ^ 31"
  by (auto simp: toIntOk_def split: option.splits if_splits)

section \<open>32-bit integers\<close>

text \<open>\<open>static_cast<int>\<close> of an integer.\<close>

definition to_int32 :: "int \<Rightarrow> int" where
  "to_int32 x = (x + 2 ^ 31) mod 2 ^ 32 - 2 ^ 31"

lemma to_int32_id: "- (2 ^ 31) \<le> x \<Longrightarrow> x < 2 ^ 31 \<Longrightarrow> to_int32 x = x"
  by (simp add: to_int32_def)

text \<open>C++ division and remainder truncate towards zero.\<close>

definition cdiv :: "int \<Rightarrow> int \<Rightarrow> int" where
  "cdiv a b = sgn a * sgn b * (\<bar>a\<bar> div \<bar>b\<bar>)"

definition cmod :: "int \<Rightarrow> int \<Rightarrow> int" where
  "cmod a b = a - cdiv a b * b"

lemma cdiv_nonneg [simp]: "0 \<le> a \<Longrightarrow> 0 < b \<Longrightarrow> cdiv a b = a div b"
  by (auto simp: cdiv_def sgn_if)

lemma cmod_nonneg [simp]: "0 \<le> a \<Longrightarrow> 0 < b \<Longrightarrow> cmod a b = a mod b"
  by (simp add: cmod_def minus_div_mult_eq_mod)

end
