(* ===== verification/FilterTypes.thy ===== *)
theory FilterTypes
  imports Prelude
begin

text \<open>
  Values, types and tokens of the filter language
  (\<open>src/controllers/filters/lang/Types.hpp\<close>, \<open>Types.cpp\<close>, \<open>Tokenizer.hpp\<close>).

  A run-time value is a \<open>QVariant\<close>; the constructors of \<open>qvariant\<close> are the contents the
  filter language uses.  How Qt converts and compares variants, folds case and matches regular
  expressions is not part of the repository: it is the record \<open>qt_ops\<close>, an argument of every
  definition that needs it, with the documented facts the proofs use in the locale
  \<open>qt_variants\<close>.
\<close>

section \<open>Variants\<close>

datatype qcolor = InvalidColor | Rgba nat

datatype qvariant =
    VInvalid
  | VInt int
  | VLongLong int
  | VBool bool
  | VString string
  | VStringList "string list"
  | VList "qvariant list"
  | VColor qcolor
  | VRegex string bool
  | VMap "(string \<times> qvariant) list"

datatype meta_type =
    MUnknown | MInt | MLongLong | MBool | MQString | MQStringList | MQVariantList | MQColor
  | MQRegularExpression | MQVariantMap

fun typeId :: "qvariant \<Rightarrow> meta_type" where
  "typeId VInvalid = MUnknown"
| "typeId (VInt _) = MInt"
| "typeId (VLongLong _) = MLongLong"
| "typeId (VBool _) = MBool"
| "typeId (VString _) = MQString"
| "typeId (VStringList _) = MQStringList"
| "typeId (VList _) = MQVariantList"
| "typeId (VColor _) = MQColor"
| "typeId (VRegex _ _) = MQRegularExpression"
| "typeId (VMap _) = MQVariantMap"

text \<open>\<open>qt_regexMatch pattern caseInsensitive subject\<close> gives the captured groups of the first
  match, group 0 first, and \<open>None\<close> when nothing matches.\<close>

record qt_ops =
  qt_canConvert :: "qvariant \<Rightarrow> meta_type \<Rightarrow> bool"
  qt_convert :: "qvariant \<Rightarrow> meta_type \<Rightarrow> qvariant option"
  qt_equals :: "qvariant \<Rightarrow> qvariant \<Rightarrow> bool"
  qt_foldCase :: "char \<Rightarrow> char"
  qt_regexMatch :: "string \<Rightarrow> bool \<Rightarrow> string \<Rightarrow> string list option"

text \<open>\<open>QVariant\<close> documents: \<open>convert\<close> yields a value of the requested type, is the identity on a
  value that has it already, and succeeds only where \<open>canConvert\<close> holds; integers, booleans and
  colours convert to strings.\<close>

locale qt_variants =
  fixes qt :: qt_ops
  assumes convert_type: "qt_convert qt v t = Some w \<Longrightarrow> typeId w = t"
    and convert_same: "typeId v = t \<Longrightarrow> qt_convert qt v t = Some v"
    and convert_can: "qt_convert qt v t = Some w \<Longrightarrow> qt_canConvert qt v t"
    and can_string: "typeId v \<in> {MInt, MLongLong, MBool, MQColor} \<Longrightarrow> qt_canConvert qt v MQString"

definition toStringV :: "qt_ops \<Rightarrow> qvariant \<Rightarrow> string" where
  "toStringV qt v = (case qt_convert qt v MQString of Some (VString s) \<Rightarrow> s | _ \<Rightarrow> [])"

definition toBoolV :: "qt_ops \<Rightarrow> qvariant \<Rightarrow> bool" where
  "toBoolV qt v = (case qt_convert qt v MBool of Some (VBool b) \<Rightarrow> b | _ \<Rightarrow> False)"

definition toIntV :: "qt_ops \<Rightarrow> qvariant \<Rightarrow> int" where
  "toIntV qt v = (case qt_convert qt v MInt of Some (VInt i) \<Rightarrow> i | _ \<Rightarrow> 0)"

text \<open>\<open>variantIs\<close>, \<open>variantIsNot\<close>, \<open>variantTypesMatch\<close>; \<open>convertVariantTypes\<close> converts in
  place, so the model returns the converted pair, \<open>None\<close> when either conversion fails.\<close>

definition variantIs :: "qvariant \<Rightarrow> meta_type \<Rightarrow> bool" where
  "variantIs a t \<longleftrightarrow> typeId a = t"

definition variantIsNot :: "qvariant \<Rightarrow> meta_type \<Rightarrow> bool" where
  "variantIsNot a t \<longleftrightarrow> typeId a \<noteq> t"

definition convertVariantTypes ::
  "qt_ops \<Rightarrow> qvariant \<Rightarrow> qvariant \<Rightarrow> meta_type \<Rightarrow> (qvariant \<times> qvariant) option" where
  "convertVariantTypes qt a b t =
     (case qt_convert qt a t of None \<Rightarrow> None
      | Some a' \<Rightarrow> (case qt_convert qt b t of None \<Rightarrow> None | Some b' \<Rightarrow> Some (a', b')))"

definition variantTypesMatch :: "qvariant \<Rightarrow> qvariant \<Rightarrow> meta_type \<Rightarrow> bool" where
  "variantTypesMatch a b t \<longleftrightarrow> variantIs a t \<and> variantIs b t"

section \<open>Types\<close>

datatype ftype =
    TyString | TyInt | TyBool | TyColor | TyRegularExpression | TyList | TyStringList
  | TyMatchingSpecifier | TyMap

fun typeToString :: "ftype \<Rightarrow> string" where
  "typeToString TyString = ''String''"
| "typeToString TyInt = ''Int''"
| "typeToString TyBool = ''Bool''"
| "typeToString TyColor = ''Color''"
| "typeToString TyRegularExpression = ''RegularExpression''"
| "typeToString TyList = ''List''"
| "typeToString TyStringList = ''StringList''"
| "typeToString TyMatchingSpecifier = ''MatchingSpecifier''"
| "typeToString TyMap = ''Map''"

section \<open>Token types\<close>

datatype token_type =
    CONTROL_START | T_AND | T_OR | LP | RP | LIST_START | LIST_END | COMMA | CONTROL_END
  | BINARY_START | T_EQ | NEQ | T_LT | T_GT | LTE | GTE | CONTAINS | STARTS_WITH | ENDS_WITH | MATCH | BINARY_END
  | UNARY_START | T_NOT | UNARY_END
  | MATH_START | PLUS | MINUS | MULTIPLY | DIVIDE | T_MOD | MATH_END
  | OTHER_START | STRING | T_INT | IDENTIFIER | REGULAR_EXPRESSION | NONE

fun tokenCode :: "token_type \<Rightarrow> nat" where
  "tokenCode CONTROL_START = 0"
| "tokenCode T_AND = 1"
| "tokenCode T_OR = 2"
| "tokenCode LP = 3"
| "tokenCode RP = 4"
| "tokenCode LIST_START = 5"
| "tokenCode LIST_END = 6"
| "tokenCode COMMA = 7"
| "tokenCode CONTROL_END = 19"
| "tokenCode BINARY_START = 20"
| "tokenCode T_EQ = 21"
| "tokenCode NEQ = 22"
| "tokenCode T_LT = 23"
| "tokenCode T_GT = 24"
| "tokenCode LTE = 25"
| "tokenCode GTE = 26"
| "tokenCode CONTAINS = 27"
| "tokenCode STARTS_WITH = 28"
| "tokenCode ENDS_WITH = 29"
| "tokenCode MATCH = 30"
| "tokenCode BINARY_END = 49"
| "tokenCode UNARY_START = 50"
| "tokenCode T_NOT = 51"
| "tokenCode UNARY_END = 99"
| "tokenCode MATH_START = 100"
| "tokenCode PLUS = 101"
| "tokenCode MINUS = 102"
| "tokenCode MULTIPLY = 103"
| "tokenCode DIVIDE = 104"
| "tokenCode T_MOD = 105"
| "tokenCode MATH_END = 149"
| "tokenCode OTHER_START = 150"
| "tokenCode STRING = 151"
| "tokenCode T_INT = 152"
| "tokenCode IDENTIFIER = 153"
| "tokenCode REGULAR_EXPRESSION = 154"
| "tokenCode NONE = 200"

fun tokenTypeToInfoString :: "token_type \<Rightarrow> string" where
  "tokenTypeToInfoString T_AND = ''And''"
| "tokenTypeToInfoString T_OR = ''Or''"
| "tokenTypeToInfoString LP = ''<left parenthesis>''"
| "tokenTypeToInfoString RP = ''<right parenthesis>''"
| "tokenTypeToInfoString LIST_START = ''<list start>''"
| "tokenTypeToInfoString LIST_END = ''<list end>''"
| "tokenTypeToInfoString COMMA = ''<comma>''"
| "tokenTypeToInfoString PLUS = ''Plus''"
| "tokenTypeToInfoString MINUS = ''Minus''"
| "tokenTypeToInfoString MULTIPLY = ''Multiply''"
| "tokenTypeToInfoString DIVIDE = ''Divide''"
| "tokenTypeToInfoString T_MOD = ''Mod''"
| "tokenTypeToInfoString T_EQ = ''Eq''"
| "tokenTypeToInfoString NEQ = ''NotEq''"
| "tokenTypeToInfoString T_LT = ''LessThan''"
| "tokenTypeToInfoString T_GT = ''GreaterThan''"
| "tokenTypeToInfoString LTE = ''LessThanEq''"
| "tokenTypeToInfoString GTE = ''GreaterThanEq''"
| "tokenTypeToInfoString CONTAINS = ''Contains''"
| "tokenTypeToInfoString STARTS_WITH = ''StartsWith''"
| "tokenTypeToInfoString ENDS_WITH = ''EndsWith''"
| "tokenTypeToInfoString MATCH = ''Match''"
| "tokenTypeToInfoString T_NOT = ''Not''"
| "tokenTypeToInfoString STRING = ''<string>''"
| "tokenTypeToInfoString T_INT = ''<int>''"
| "tokenTypeToInfoString IDENTIFIER = ''<identifier>''"
| "tokenTypeToInfoString _ = ''<unknown>''"

definition typeIsBinaryOp :: "token_type \<Rightarrow> bool" where
  "typeIsBinaryOp t \<longleftrightarrow> tokenCode t > tokenCode BINARY_START \<and> tokenCode t < tokenCode BINARY_END"

definition typeIsUnaryOp :: "token_type \<Rightarrow> bool" where
  "typeIsUnaryOp t \<longleftrightarrow> tokenCode t > tokenCode UNARY_START \<and> tokenCode t < tokenCode UNARY_END"

definition typeIsMathOp :: "token_type \<Rightarrow> bool" where
  "typeIsMathOp t \<longleftrightarrow> tokenCode t > tokenCode MATH_START \<and> tokenCode t < tokenCode MATH_END"

definition typeIsOp :: "token_type \<Rightarrow> bool" where
  "typeIsOp t \<longleftrightarrow> typeIsBinaryOp t \<or> typeIsUnaryOp t \<or> typeIsMathOp t \<or> t = T_AND \<or> t = T_OR"

text \<open>Which tokens the three range tests accept.\<close>

lemma typeIsUnaryOp_iff [simp]: "typeIsUnaryOp t \<longleftrightarrow> t = T_NOT"
  by (cases t) (simp_all add: typeIsUnaryOp_def)

lemma typeIsBinaryOp_iff:
  "typeIsBinaryOp t \<longleftrightarrow>
     t \<in> {T_EQ, NEQ, T_LT, T_GT, LTE, GTE, CONTAINS, STARTS_WITH, ENDS_WITH, MATCH}"
  by (cases t) (simp_all add: typeIsBinaryOp_def)

lemma typeIsMathOp_iff: "typeIsMathOp t \<longleftrightarrow> t \<in> {PLUS, MINUS, MULTIPLY, DIVIDE, T_MOD}"
  by (cases t) (simp_all add: typeIsMathOp_def)

lemma typeIsOp_iff:
  "typeIsOp t \<longleftrightarrow> typeIsBinaryOp t \<or> typeIsMathOp t \<or> t \<in> {T_NOT, T_AND, T_OR}"
  by (auto simp: typeIsOp_def)

section \<open>Placeholders\<close>

text \<open>\<open>QString::arg\<close>: every occurrence of the lowest-numbered place marker (\<open>%\<close>, an optional
  \<open>L\<close>, one or two digits) is replaced by the argument; with no marker the string is unchanged.
  A marker in an already inserted argument counts like any other.\<close>

datatype segment = Lit char | Marker nat string

definition digitsAt :: "string \<Rightarrow> (nat \<times> nat) option" where
  "digitsAt s = (case s of [] \<Rightarrow> None
     | d # r \<Rightarrow>
        (if \<not> isDigit d then None
         else (case r of [] \<Rightarrow> Some (digitVal d, 1)
               | e # _ \<Rightarrow> if isDigit e then Some (10 * digitVal d + digitVal e, 2) else Some (digitVal d, 1))))"

definition markerAt :: "string \<Rightarrow> (nat \<times> nat) option" where
  "markerAt s = (case s of [] \<Rightarrow> None
     | c # r \<Rightarrow>
        (if c \<noteq> CHR ''%'' then None
         else (case r of [] \<Rightarrow> None
               | l # r' \<Rightarrow>
                  (if l = CHR ''L'' then map_option (\<lambda>(k, n). (k, n + 2)) (digitsAt r')
                   else map_option (\<lambda>(k, n). (k, n + 1)) (digitsAt r)))))"

lemma digitsAt_length: "digitsAt s = Some (k, n) \<Longrightarrow> 1 \<le> n \<and> n \<le> length s"
  by (auto simp: digitsAt_def split: list.splits if_splits)

lemma markerAt_length: "markerAt s = Some (k, n) \<Longrightarrow> 2 \<le> n \<and> n \<le> length s"
  by (auto simp: markerAt_def split: list.splits if_splits dest!: digitsAt_length)

function segments :: "string \<Rightarrow> segment list" where
  "segments [] = []"
| "segments (c # cs) =
     (case markerAt (c # cs) of
        Some (k, n) \<Rightarrow> Marker k (take n (c # cs)) # segments (drop n (c # cs))
      | None \<Rightarrow> Lit c # segments cs)"
  by pat_completeness auto
termination
  by (relation "measure length") (auto dest: markerAt_length)

definition markerNumbers :: "segment list \<Rightarrow> nat list" where
  "markerNumbers segs = concat (map (\<lambda>s. case s of Lit _ \<Rightarrow> [] | Marker k _ \<Rightarrow> [k]) segs)"

definition argStr :: "string \<Rightarrow> string \<Rightarrow> string" where
  "argStr s a =
     (let segs = segments s in
      case markerNumbers segs of
        [] \<Rightarrow> s
      | k # ks \<Rightarrow>
         (let m = fold min ks k in
          concat (map (\<lambda>x. case x of Lit c \<Rightarrow> [c] | Marker j t \<Rightarrow> if j = m then a else t) segs)))"

end
