(* ===== verification/FilterExpr.thy ===== *)
theory FilterExpr
  imports FilterTypes
begin

text \<open>
  The expression classes of \<open>src/controllers/filters/lang/expressions/\<close>: the four virtual
  functions \<open>execute\<close>, \<open>synthesizeType\<close>, \<open>debug\<close> and \<open>filterString\<close> of every class.
  An expression tree is a value of \<open>fexpr\<close>; \<open>IllTyped\<close> carries the sub-expression its pointer
  refers to.  Integer arithmetic is that of C++ \<open>int\<close>: dividing by zero and leaving the range of
  \<open>int\<close> are undefined and are errors of the model.
\<close>

section \<open>Expressions\<close>

datatype fexpr =
    ValueExpression qvariant token_type
  | RegexExpression string bool
  | ListExpression "fexpr list"
  | UnaryOperation token_type fexpr
  | BinaryOperation token_type fexpr fexpr

datatype possible_type = TypeClass ftype | IllTyped fexpr string

datatype exec_error = DivisionByZero | SignedOverflow

type_synonym context_map = "string \<rightharpoonup> qvariant"
type_synonym typing_context = "string \<rightharpoonup> ftype"

definition isWellTyped :: "possible_type \<Rightarrow> bool" where
  "isWellTyped p \<longleftrightarrow> (case p of TypeClass _ \<Rightarrow> True | IllTyped _ _ \<Rightarrow> False)"

definition isIllTyped :: "possible_type \<Rightarrow> bool" where
  "isIllTyped p \<longleftrightarrow> (case p of TypeClass _ \<Rightarrow> False | IllTyped _ _ \<Rightarrow> True)"

definition isList :: "possible_type \<Rightarrow> bool" where
  "isList p \<longleftrightarrow> (case p of IllTyped _ _ \<Rightarrow> False
     | TypeClass t \<Rightarrow> t = TyList \<or> t = TyStringList \<or> t = TyMatchingSpecifier)"

definition possibleTypeToString :: "possible_type \<Rightarrow> string" where
  "possibleTypeToString p = (case p of TypeClass t \<Rightarrow> typeToString t | IllTyped _ _ \<Rightarrow> ''IllTyped'')"

section \<open>Evaluation\<close>

text \<open>Qt 6's branch of \<open>looselyCompareVariants\<close>.\<close>

definition looselyCompareVariants :: "qt_ops \<Rightarrow> qvariant \<Rightarrow> qvariant \<Rightarrow> bool" where
  "looselyCompareVariants qt lhs rhs =
     (if typeId lhs \<noteq> typeId rhs then
        (if qt_canConvert qt rhs (typeId lhs) then
           (case qt_convert qt rhs (typeId lhs) of
              None \<Rightarrow> False
            | Some rhs' \<Rightarrow> qt_equals qt lhs rhs')
         else
           (case qt_convert qt lhs (typeId rhs) of
              None \<Rightarrow> False
            | Some lhs' \<Rightarrow> qt_equals qt rhs lhs'))
      else qt_equals qt lhs rhs)"

definition intResult :: "int \<Rightarrow> exec_error + qvariant" where
  "intResult i = (if - (2 ^ 31) \<le> i \<and> i < 2 ^ 31 then Inr (VInt i) else Inl SignedOverflow)"

definition compareCI :: "qt_ops \<Rightarrow> string \<Rightarrow> string \<Rightarrow> bool" where
  "compareCI qt a b \<longleftrightarrow> map (qt_foldCase qt) a = map (qt_foldCase qt) b"

text \<open>The cases \<open>PLUS\<close> to \<open>MOD\<close> of \<open>BinaryOperation::execute\<close>.\<close>

definition execPlus :: "qt_ops \<Rightarrow> qvariant \<Rightarrow> qvariant \<Rightarrow> exec_error + qvariant" where
  "execPlus qt left right =
     (if variantIs left MQString \<and> qt_canConvert qt right MQString
      then Inr (VString (toStringV qt left @ toStringV qt right))
      else (case convertVariantTypes qt left right MInt of
              Some (l, r) \<Rightarrow> intResult (toIntV qt l + toIntV qt r)
            | None \<Rightarrow> Inr (VInt 0)))"

definition execMath :: "qt_ops \<Rightarrow> token_type \<Rightarrow> qvariant \<Rightarrow> qvariant \<Rightarrow> exec_error + qvariant" where
  "execMath qt op left right =
     (case convertVariantTypes qt left right MInt of
        None \<Rightarrow> Inr (VInt 0)
      | Some (l, r) \<Rightarrow>
         (let a = toIntV qt l; b = toIntV qt r in
          case op of
            MINUS \<Rightarrow> intResult (a - b)
          | MULTIPLY \<Rightarrow> intResult (a * b)
          | DIVIDE \<Rightarrow> if b = 0 then Inl DivisionByZero else intResult (cdiv a b)
          | T_MOD \<Rightarrow> if b = 0 then Inl DivisionByZero
                   else if a = - (2 ^ 31) \<and> b = -1 then Inl SignedOverflow
                   else intResult (cmod a b)
          | _ \<Rightarrow> Inr (VBool False)))"

definition execLogic :: "qt_ops \<Rightarrow> token_type \<Rightarrow> qvariant \<Rightarrow> qvariant \<Rightarrow> qvariant" where
  "execLogic qt op left right =
     (case convertVariantTypes qt left right MBool of
        None \<Rightarrow> VBool False
      | Some (l, r) \<Rightarrow>
         (if op = T_OR then VBool (toBoolV qt l \<or> toBoolV qt r)
          else VBool (toBoolV qt l \<and> toBoolV qt r)))"

definition execEq :: "qt_ops \<Rightarrow> qvariant \<Rightarrow> qvariant \<Rightarrow> bool" where
  "execEq qt left right =
     (if variantTypesMatch left right MQString
      then compareCI qt (toStringV qt left) (toStringV qt right)
      else looselyCompareVariants qt left right)"

definition execCompare :: "qt_ops \<Rightarrow> token_type \<Rightarrow> qvariant \<Rightarrow> qvariant \<Rightarrow> qvariant" where
  "execCompare qt op left right =
     (case convertVariantTypes qt left right MInt of
        None \<Rightarrow> VBool False
      | Some (l, r) \<Rightarrow>
         (let a = toIntV qt l; b = toIntV qt r in
          VBool (case op of T_LT \<Rightarrow> a < b | T_GT \<Rightarrow> a > b | LTE \<Rightarrow> a \<le> b | GTE \<Rightarrow> a \<ge> b | _ \<Rightarrow> False)))"

definition execContains :: "qt_ops \<Rightarrow> qvariant \<Rightarrow> qvariant \<Rightarrow> bool" where
  "execContains qt left right =
     (if variantIs left MQStringList \<and> qt_canConvert qt right MQString then
        (case left of VStringList ss \<Rightarrow> list_ex (\<lambda>s. compareCI qt s (toStringV qt right)) ss | _ \<Rightarrow> False)
      else if variantIs left MQVariantMap \<and> qt_canConvert qt right MQString then
        (case left of VMap kvs \<Rightarrow> toStringV qt right \<in> set (map fst kvs) | _ \<Rightarrow> False)
      else if variantIs left MQVariantList then
        (case left of VList vs \<Rightarrow> list_ex (\<lambda>v. qt_equals qt v right) vs | _ \<Rightarrow> False)
      else if qt_canConvert qt left MQString \<and> qt_canConvert qt right MQString then
        containsStr (map (qt_foldCase qt) (toStringV qt left)) (map (qt_foldCase qt) (toStringV qt right))
      else False)"

definition execStartsWith :: "qt_ops \<Rightarrow> qvariant \<Rightarrow> qvariant \<Rightarrow> bool" where
  "execStartsWith qt left right =
     (if variantIs left MQStringList \<and> qt_canConvert qt right MQString then
        (case left of VStringList ss \<Rightarrow> ss \<noteq> [] \<and> compareCI qt (hd ss) (toStringV qt right) | _ \<Rightarrow> False)
      else if variantIs left MQVariantList then
        (case left of VList vs \<Rightarrow> vs \<noteq> [] \<and> qt_equals qt (hd vs) right | _ \<Rightarrow> False)
      else if qt_canConvert qt left MQString \<and> qt_canConvert qt right MQString then
        startsWith (map (qt_foldCase qt) (toStringV qt left)) (map (qt_foldCase qt) (toStringV qt right))
      else False)"

definition execEndsWith :: "qt_ops \<Rightarrow> qvariant \<Rightarrow> qvariant \<Rightarrow> bool" where
  "execEndsWith qt left right =
     (if variantIs left MQStringList \<and> qt_canConvert qt right MQString then
        (case left of VStringList ss \<Rightarrow> ss \<noteq> [] \<and> compareCI qt (last ss) (toStringV qt right) | _ \<Rightarrow> False)
      else if variantIs left MQVariantList then
        (case left of VList vs \<Rightarrow> vs \<noteq> [] \<and> qt_equals qt (last vs) right | _ \<Rightarrow> False)
      else if qt_canConvert qt left MQString \<and> qt_canConvert qt right MQString then
        endsWith (map (qt_foldCase qt) (toStringV qt left)) (map (qt_foldCase qt) (toStringV qt right))
      else False)"

definition execMatch :: "qt_ops \<Rightarrow> qvariant \<Rightarrow> qvariant \<Rightarrow> qvariant" where
  "execMatch qt left right =
     (if \<not> qt_canConvert qt left MQString then VBool False
      else (case right of
              VRegex p ci \<Rightarrow> VBool (qt_regexMatch qt p ci (toStringV qt left) \<noteq> None)
            | VList list \<Rightarrow>
               (if length list \<noteq> 2 then VBool False
                else (case (list ! 0, list ! 1) of
                        (VRegex p ci, VInt n) \<Rightarrow>
                           (case qt_regexMatch qt p ci (toStringV qt left) of
                              Some caps \<Rightarrow> VString (if 0 \<le> n \<and> nat n < length caps then caps ! nat n else [])
                            | None \<Rightarrow> VString [])
                      | _ \<Rightarrow> VBool False))
            | _ \<Rightarrow> VBool False))"

definition execBinary :: "qt_ops \<Rightarrow> token_type \<Rightarrow> qvariant \<Rightarrow> qvariant \<Rightarrow> exec_error + qvariant" where
  "execBinary qt op left right =
     (case op of
        PLUS \<Rightarrow> execPlus qt left right
      | MINUS \<Rightarrow> execMath qt MINUS left right
      | MULTIPLY \<Rightarrow> execMath qt MULTIPLY left right
      | DIVIDE \<Rightarrow> execMath qt DIVIDE left right
      | T_MOD \<Rightarrow> execMath qt T_MOD left right
      | T_OR \<Rightarrow> Inr (execLogic qt T_OR left right)
      | T_AND \<Rightarrow> Inr (execLogic qt T_AND left right)
      | T_EQ \<Rightarrow> Inr (VBool (execEq qt left right))
      | NEQ \<Rightarrow> Inr (VBool (\<not> execEq qt left right))
      | T_LT \<Rightarrow> Inr (execCompare qt T_LT left right)
      | T_GT \<Rightarrow> Inr (execCompare qt T_GT left right)
      | LTE \<Rightarrow> Inr (execCompare qt LTE left right)
      | GTE \<Rightarrow> Inr (execCompare qt GTE left right)
      | CONTAINS \<Rightarrow> Inr (VBool (execContains qt left right))
      | STARTS_WITH \<Rightarrow> Inr (VBool (execStartsWith qt left right))
      | ENDS_WITH \<Rightarrow> Inr (VBool (execEndsWith qt left right))
      | MATCH \<Rightarrow> Inr (execMatch qt left right)
      | _ \<Rightarrow> Inr (VBool False))"

definition execUnary :: "qt_ops \<Rightarrow> token_type \<Rightarrow> qvariant \<Rightarrow> qvariant" where
  "execUnary qt op right =
     (case op of
        T_NOT \<Rightarrow> VBool (qt_canConvert qt right MBool \<and> \<not> toBoolV qt right)
      | _ \<Rightarrow> VBool False)"

definition execValue :: "qt_ops \<Rightarrow> qvariant \<Rightarrow> token_type \<Rightarrow> context_map \<Rightarrow> qvariant" where
  "execValue qt value type context =
     (if type = IDENTIFIER
      then (case context (toStringV qt value) of Some v \<Rightarrow> v | None \<Rightarrow> VInvalid)
      else value)"

definition execList :: "qt_ops \<Rightarrow> qvariant list \<Rightarrow> qvariant" where
  "execList qt results =
     (if list_all (\<lambda>res. \<not> variantIsNot res MQString) results
      then VStringList (map (toStringV qt) results)
      else VList results)"

fun execute :: "qt_ops \<Rightarrow> fexpr \<Rightarrow> context_map \<Rightarrow> exec_error + qvariant"
and executeList :: "qt_ops \<Rightarrow> fexpr list \<Rightarrow> context_map \<Rightarrow> exec_error + qvariant list" where
  "execute qt (ValueExpression value type) context = Inr (execValue qt value type context)"
| "execute qt (RegexExpression p ci) context = Inr (VRegex p ci)"
| "execute qt (ListExpression es) context =
     (case executeList qt es context of Inl err \<Rightarrow> Inl err | Inr results \<Rightarrow> Inr (execList qt results))"
| "execute qt (UnaryOperation op e) context =
     (case execute qt e context of Inl err \<Rightarrow> Inl err | Inr right \<Rightarrow> Inr (execUnary qt op right))"
| "execute qt (BinaryOperation op l r) context =
     (case execute qt l context of
        Inl err \<Rightarrow> Inl err
      | Inr left \<Rightarrow>
         (case execute qt r context of
            Inl err \<Rightarrow> Inl err
          | Inr right \<Rightarrow> execBinary qt op left right))"
| "executeList qt [] context = Inr []"
| "executeList qt (e # es) context =
     (case execute qt e context of
        Inl err \<Rightarrow> Inl err
      | Inr v \<Rightarrow>
         (case executeList qt es context of Inl err \<Rightarrow> Inl err | Inr vs \<Rightarrow> Inr (v # vs)))"

section \<open>Type synthesis\<close>

definition synthBinary :: "fexpr \<Rightarrow> token_type \<Rightarrow> ftype \<Rightarrow> ftype \<Rightarrow> possible_type" where
  "synthBinary this op left right =
     (if op = PLUS then
        (if left = TyString then TypeClass TyString
         else if left = TyInt \<and> right = TyInt then TypeClass TyInt
         else IllTyped this ''Can only add Ints or concatenate a String'')
      else if op \<in> {MINUS, MULTIPLY, DIVIDE, T_MOD} then
        (if left = TyInt \<and> right = TyInt then TypeClass TyInt
         else IllTyped this ''Can only perform operation with Ints'')
      else if op \<in> {T_OR, T_AND} then
        (if left = TyBool \<and> right = TyBool then TypeClass TyBool
         else IllTyped this ''Can only perform logical operations with Bools'')
      else if op \<in> {T_EQ, NEQ} then TypeClass TyBool
      else if op \<in> {T_LT, T_GT, LTE, GTE} then
        (if left = TyInt \<and> right = TyInt then TypeClass TyBool
         else IllTyped this ''Can only perform comparisons with Ints'')
      else if op \<in> {STARTS_WITH, ENDS_WITH} then
        (if isList (TypeClass left) then TypeClass TyBool
         else if left = TyString \<and> right = TyString then TypeClass TyBool
         else IllTyped this ''Can only perform starts/ends with a List or two Strings'')
      else if op = CONTAINS then
        (if isList (TypeClass left) \<or> left = TyMap then TypeClass TyBool
         else if left = TyString \<and> right = TyString then TypeClass TyBool
         else IllTyped this ''Can only perform contains with a List, a Map, or two Strings'')
      else if op = MATCH then
        (if left \<noteq> TyString then IllTyped this ''Left argument of match must be a String''
         else if right = TyRegularExpression then TypeClass TyBool
         else if right = TyMatchingSpecifier then TypeClass TyString
         else IllTyped this ''Can only match on a RegularExpression or a MatchingSpecifier'')
      else IllTyped this ''Not implemented'')"

definition synthUnary :: "fexpr \<Rightarrow> token_type \<Rightarrow> ftype \<Rightarrow> possible_type" where
  "synthUnary this op right =
     (case op of
        T_NOT \<Rightarrow> if right = TyBool then TypeClass TyBool
                else IllTyped this ''Can only negate boolean values''
      | _ \<Rightarrow> IllTyped this ''Not implemented'')"

definition synthValue :: "qt_ops \<Rightarrow> fexpr \<Rightarrow> qvariant \<Rightarrow> token_type \<Rightarrow> typing_context \<Rightarrow> possible_type" where
  "synthValue qt this value type context =
     (case type of
        IDENTIFIER \<Rightarrow> (case context (toStringV qt value) of
                         Some t \<Rightarrow> TypeClass t
                       | None \<Rightarrow> IllTyped this ''Unbound identifier'')
      | T_INT \<Rightarrow> TypeClass TyInt
      | STRING \<Rightarrow> TypeClass TyString
      | _ \<Rightarrow> IllTyped this ''Invalid value type'')"

definition synthList :: "ftype list \<Rightarrow> ftype" where
  "synthList types =
     (if length types = 2 \<and> types ! 0 = TyRegularExpression \<and> types ! 1 = TyInt
      then TyMatchingSpecifier
      else if list_all (\<lambda>t. t = TyString) types then TyStringList else TyList)"

text \<open>\<open>synthesizeTypes\<close> is the loop of \<open>ListExpression::synthesizeType\<close>: it stops at the first
  ill-typed element.\<close>

fun synthesizeType :: "qt_ops \<Rightarrow> fexpr \<Rightarrow> typing_context \<Rightarrow> possible_type"
and synthesizeTypes :: "qt_ops \<Rightarrow> fexpr list \<Rightarrow> typing_context \<Rightarrow> (fexpr \<times> string) + ftype list" where
  "synthesizeType qt (ValueExpression value type) context =
     synthValue qt (ValueExpression value type) value type context"
| "synthesizeType qt (RegexExpression p ci) context = TypeClass TyRegularExpression"
| "synthesizeType qt (ListExpression es) context =
     (case synthesizeTypes qt es context of
        Inl (e, msg) \<Rightarrow> IllTyped e msg
      | Inr types \<Rightarrow> TypeClass (synthList types))"
| "synthesizeType qt (UnaryOperation op e) context =
     (case synthesizeType qt e context of
        IllTyped x msg \<Rightarrow> IllTyped x msg
      | TypeClass right \<Rightarrow> synthUnary (UnaryOperation op e) op right)"
| "synthesizeType qt (BinaryOperation op l r) context =
     (case synthesizeType qt l context of
        IllTyped x msg \<Rightarrow> IllTyped x msg
      | TypeClass left \<Rightarrow>
         (case synthesizeType qt r context of
            IllTyped x msg \<Rightarrow> IllTyped x msg
          | TypeClass right \<Rightarrow> synthBinary (BinaryOperation op l r) op left right))"
| "synthesizeTypes qt [] context = Inr []"
| "synthesizeTypes qt (e # es) context =
     (case synthesizeType qt e context of
        IllTyped x msg \<Rightarrow> Inl (x, msg)
      | TypeClass t \<Rightarrow>
         (case synthesizeTypes qt es context of Inl p \<Rightarrow> Inl p | Inr ts \<Rightarrow> Inr (t # ts)))"

section \<open>Printing\<close>

definition opText :: "token_type \<Rightarrow> string" where
  "opText op =
     (case op of
        T_AND \<Rightarrow> ''&&'' | T_OR \<Rightarrow> ''||'' | PLUS \<Rightarrow> ''+'' | MINUS \<Rightarrow> ''-'' | MULTIPLY \<Rightarrow> ''*''
      | DIVIDE \<Rightarrow> ''/'' | T_MOD \<Rightarrow> ''%'' | T_EQ \<Rightarrow> ''=='' | NEQ \<Rightarrow> ''!='' | T_LT \<Rightarrow> ''<''
      | T_GT \<Rightarrow> ''>'' | LTE \<Rightarrow> ''<='' | GTE \<Rightarrow> ''>='' | CONTAINS \<Rightarrow> ''contains''
      | STARTS_WITH \<Rightarrow> ''startswith'' | ENDS_WITH \<Rightarrow> ''endswith'' | MATCH \<Rightarrow> ''match'' | _ \<Rightarrow> '''')"

definition unaryText :: "token_type \<Rightarrow> string" where
  "unaryText op = (case op of T_NOT \<Rightarrow> ''!'' | _ \<Rightarrow> '''')"

definition quote :: char where
  "quote = CHR 0x22"

definition backslash :: char where
  "backslash = CHR 0x5C"

definition escapeQuotes :: "string \<Rightarrow> string" where
  "escapeQuotes s = replaceAll [quote] [backslash, quote] s"

definition valueFilterString :: "qt_ops \<Rightarrow> qvariant \<Rightarrow> token_type \<Rightarrow> string" where
  "valueFilterString qt value type =
     (case type of
        T_INT \<Rightarrow> numberStr (toIntV qt value)
      | STRING \<Rightarrow> argStr ([quote] @ ''%1'' @ [quote]) (escapeQuotes (toStringV qt value))
      | IDENTIFIER \<Rightarrow> toStringV qt value
      | _ \<Rightarrow> '''')"

definition regexFilterString :: "string \<Rightarrow> bool \<Rightarrow> string" where
  "regexFilterString p ci =
     argStr (argStr (''%1'' @ [quote] @ ''%2'' @ [quote]) (if ci then ''ri'' else ''r'')) (escapeQuotes p)"

fun filterString :: "qt_ops \<Rightarrow> fexpr \<Rightarrow> string" where
  "filterString qt (ValueExpression value type) = valueFilterString qt value type"
| "filterString qt (RegexExpression p ci) = regexFilterString p ci"
| "filterString qt (ListExpression es) = argStr ''{%1}'' (joinStr '', '' (map (filterString qt) es))"
| "filterString qt (UnaryOperation op e) = argStr (argStr ''(%1%2)'' (unaryText op)) (filterString qt e)"
| "filterString qt (BinaryOperation op l r) =
     argStr (argStr (argStr ''(%1 %2 %3)'' (filterString qt l)) (opText op)) (filterString qt r)"

fun debugString :: "qt_ops \<Rightarrow> fexpr \<Rightarrow> typing_context \<Rightarrow> string" where
  "debugString qt (ValueExpression value type) context = argStr ''Val(%1)'' (toStringV qt value)"
| "debugString qt (RegexExpression p ci) context = argStr ''RegEx(%1)'' p"
| "debugString qt (ListExpression es) context =
     argStr ''List(%1)'' (joinStr '', ''
       (map (\<lambda>e. argStr (argStr ''%1 : %2'' (debugString qt e context))
                    (possibleTypeToString (synthesizeType qt e context))) es))"
| "debugString qt (UnaryOperation op e) context =
     argStr (argStr (argStr ''UnaryOp[%1](%2 : %3)'' (tokenTypeToInfoString op)) (debugString qt e context))
       (possibleTypeToString (synthesizeType qt e context))"
| "debugString qt (BinaryOperation op l r) context =
     argStr (argStr (argStr (argStr (argStr ''BinaryOp[%1](%2 : %3, %4 : %5)''
       (tokenTypeToInfoString op)) (debugString qt l context))
       (possibleTypeToString (synthesizeType qt l context))) (debugString qt r context))
       (possibleTypeToString (synthesizeType qt r context))"

section \<open>Type soundness\<close>

text \<open>The run-time contents a static type stands for.\<close>

definition has_type :: "qvariant \<Rightarrow> ftype \<Rightarrow> bool" where
  "has_type v t =
     (case t of
        TyString \<Rightarrow> typeId v = MQString
      | TyInt \<Rightarrow> typeId v \<in> {MInt, MLongLong}
      | TyBool \<Rightarrow> typeId v = MBool
      | TyColor \<Rightarrow> typeId v = MQColor
      | TyRegularExpression \<Rightarrow> typeId v = MQRegularExpression
      | TyList \<Rightarrow> typeId v = MQVariantList
      | TyStringList \<Rightarrow> typeId v = MQStringList
      | TyMatchingSpecifier \<Rightarrow> (\<exists>p ci n. v = VList [VRegex p ci, VInt n])
      | TyMap \<Rightarrow> typeId v = MQVariantMap)"

definition context_typed :: "typing_context \<Rightarrow> context_map \<Rightarrow> bool" where
  "context_typed \<Gamma> \<rho> \<longleftrightarrow> (\<forall>x t. \<Gamma> x = Some t \<longrightarrow> (\<exists>v. \<rho> x = Some v \<and> has_type v t))"

text \<open>Trees as the parser builds them.\<close>

definition wf_value :: "qvariant \<Rightarrow> token_type \<Rightarrow> bool" where
  "wf_value v type =
     (case type of
        T_INT \<Rightarrow> (case v of VInt i \<Rightarrow> 0 \<le> i \<and> i < 2 ^ 31 | _ \<Rightarrow> False)
      | STRING \<Rightarrow> typeId v = MQString
      | IDENTIFIER \<Rightarrow> typeId v = MQString
      | _ \<Rightarrow> False)"

fun wf_fexpr :: "fexpr \<Rightarrow> bool" where
  "wf_fexpr (ValueExpression v type) = wf_value v type"
| "wf_fexpr (RegexExpression p ci) = True"
| "wf_fexpr (ListExpression es) = (\<forall>e \<in> set es. wf_fexpr e)"
| "wf_fexpr (UnaryOperation op e) = (op = T_NOT \<and> wf_fexpr e)"
| "wf_fexpr (BinaryOperation op l r) =
     ((typeIsBinaryOp op \<or> typeIsMathOp op \<or> op \<in> {T_AND, T_OR}) \<and> wf_fexpr l \<and> wf_fexpr r)"

text \<open>Every concatenation to a \<open>String\<close> has a right operand that converts to a string, and the
  group number of a matching specifier is not an identifier (whose value may be a \<open>qlonglong\<close>).\<close>

fun isIdentifier :: "fexpr \<Rightarrow> bool" where
  "isIdentifier (ValueExpression v type) = (type = IDENTIFIER)"
| "isIdentifier _ = False"

fun operands_ok :: "qt_ops \<Rightarrow> typing_context \<Rightarrow> fexpr \<Rightarrow> bool" where
  "operands_ok qt \<Gamma> (ValueExpression v type) = True"
| "operands_ok qt \<Gamma> (RegexExpression p ci) = True"
| "operands_ok qt \<Gamma> (ListExpression es) = ((\<forall>e \<in> set es. operands_ok qt \<Gamma> e)
     \<and> (synthesizeType qt (ListExpression es) \<Gamma> = TypeClass TyMatchingSpecifier \<longrightarrow> \<not> isIdentifier (es ! 1)))"
| "operands_ok qt \<Gamma> (UnaryOperation op e) = operands_ok qt \<Gamma> e"
| "operands_ok qt \<Gamma> (BinaryOperation op l r) =
     (operands_ok qt \<Gamma> l \<and> operands_ok qt \<Gamma> r \<and>
      (op = PLUS \<and> synthesizeType qt l \<Gamma> = TypeClass TyString \<longrightarrow>
       synthesizeType qt r \<Gamma> \<in> TypeClass ` {TyString, TyInt, TyBool, TyColor}))"

lemma has_type_typeId:
  "has_type v TyString \<longleftrightarrow> typeId v = MQString" "has_type v TyInt \<longleftrightarrow> typeId v \<in> {MInt, MLongLong}"
  "has_type v TyBool \<longleftrightarrow> typeId v = MBool" "has_type v TyColor \<longleftrightarrow> typeId v = MQColor"
  "has_type v TyRegularExpression \<longleftrightarrow> typeId v = MQRegularExpression"
  "has_type v TyList \<longleftrightarrow> typeId v = MQVariantList"
  "has_type v TyStringList \<longleftrightarrow> typeId v = MQStringList"
  "has_type v TyMap \<longleftrightarrow> typeId v = MQVariantMap"
  "has_type v TyMatchingSpecifier \<longleftrightarrow> (\<exists>p ci n. v = VList [VRegex p ci, VInt n])"
  by (simp_all add: has_type_def)

lemma typeId_simps [simp]:
  "typeId v = MInt \<longleftrightarrow> (\<exists>i. v = VInt i)" "typeId v = MLongLong \<longleftrightarrow> (\<exists>i. v = VLongLong i)"
  "typeId v = MBool \<longleftrightarrow> (\<exists>b. v = VBool b)"
  "typeId v = MQString \<longleftrightarrow> (\<exists>s. v = VString s)" "typeId v = MQStringList \<longleftrightarrow> (\<exists>ss. v = VStringList ss)"
  "typeId v = MQVariantList \<longleftrightarrow> (\<exists>vs. v = VList vs)" "typeId v = MQColor \<longleftrightarrow> (\<exists>c. v = VColor c)"
  "typeId v = MQRegularExpression \<longleftrightarrow> (\<exists>p ci. v = VRegex p ci)"
  "typeId v = MQVariantMap \<longleftrightarrow> (\<exists>m. v = VMap m)" "typeId v = MUnknown \<longleftrightarrow> v = VInvalid"
  by (cases v; auto)+

lemma has_type_string_iff:
  "has_type v t \<Longrightarrow> typeId v = MQString \<longleftrightarrow> t = TyString"
  by (cases t) (auto simp: has_type_def)

context qt_variants
begin

lemma to_same [simp]:
  "toIntV qt (VInt i) = i" "toBoolV qt (VBool b) = b" "toStringV qt (VString s) = s"
  by (simp_all add: toIntV_def toBoolV_def toStringV_def convert_same)

lemma convert_same_types:
  "convertVariantTypes qt (VInt i) (VInt j) MInt = Some (VInt i, VInt j)"
  "convertVariantTypes qt (VBool b) (VBool c) MBool = Some (VBool b, VBool c)"
  by (simp_all add: convertVariantTypes_def convert_same)

lemma can_same: "typeId v = t \<Longrightarrow> qt_canConvert qt v t"
  using convert_same convert_can by blast

lemma intResult_int: "intResult i = Inr v \<Longrightarrow> \<exists>j. v = VInt j"
  by (auto simp: intResult_def split: if_splits)

lemma execPlus_int: "\<not> variantIs a MQString \<Longrightarrow> execPlus qt a b = Inr v \<Longrightarrow> \<exists>i. v = VInt i"
  by (auto simp: execPlus_def dest!: intResult_int split: option.splits)

lemma execMath_int:
  "op \<in> {MINUS, MULTIPLY, DIVIDE, T_MOD} \<Longrightarrow> execMath qt op a b = Inr v \<Longrightarrow> \<exists>i. v = VInt i"
  by (auto simp: execMath_def Let_def dest!: intResult_int split: if_splits option.splits)

lemma execPlus_typed:
  assumes "has_type a s" and "has_type b t" and "synthBinary e PLUS s t = TypeClass u"
    and "s = TyString \<Longrightarrow> t \<in> {TyString, TyInt, TyBool, TyColor}"
    and "execPlus qt a b = Inr v"
  shows "has_type v u"
proof (cases "s = TyString")
  case True
  then have "qt_canConvert qt b MQString" "u = TyString"
    using assms can_string[of b] can_same[of b MQString]
    by (auto simp: has_type_typeId synthBinary_def)
  with True assms show ?thesis by (auto simp: execPlus_def variantIs_def has_type_typeId)
next
  case False
  then have "s = TyInt" "u = TyInt"
    using assms(3) by (auto simp: synthBinary_def split: if_splits)
  then show ?thesis using assms(1,5) execPlus_int[of a b v]
    by (auto simp: variantIs_def has_type_typeId)
qed

lemma execMatch_typed:
  assumes "has_type a TyString" and "has_type b t" and "synthBinary e MATCH TyString t = TypeClass u"
  shows "has_type (execMatch qt a b) u"
  using assms can_same[of a MQString]
  by (auto simp: execMatch_def has_type_typeId synthBinary_def split: if_splits option.splits)

lemma execBinary_typed:
  assumes "has_type a s" and "has_type b t" and "synthBinary e op s t = TypeClass u"
    and "op = PLUS \<Longrightarrow> s = TyString \<Longrightarrow> t \<in> {TyString, TyInt, TyBool, TyColor}"
    and "execBinary qt op a b = Inr v"
  shows "has_type v u"
proof -
  consider "op = PLUS" | "op \<in> {MINUS, MULTIPLY, DIVIDE, T_MOD}" | "op = MATCH"
    | "op \<in> {T_OR, T_AND, T_EQ, NEQ, T_LT, T_GT, LTE, GTE, STARTS_WITH, ENDS_WITH, CONTAINS}"
    using assms(3) by (cases op) (simp_all add: synthBinary_def)
  then show ?thesis
  proof cases
    case 1
    then have "execPlus qt a b = Inr v" using assms(5) by (simp add: execBinary_def)
    with 1 assms(3,4) show ?thesis by (intro execPlus_typed[OF assms(1,2)]) simp_all
  next
    case 2
    then have "u = TyInt" "execMath qt op a b = Inr v"
      using assms(3,5) by (cases op; simp add: synthBinary_def execBinary_def split: if_splits)+
    with 2 execMath_int[of op a b v] show ?thesis by (auto simp: has_type_typeId)
  next
    case 3
    then have "s = TyString" "v = execMatch qt a b"
      using assms(3,5) by (auto simp: synthBinary_def execBinary_def split: if_splits)
    with 3 assms show ?thesis using execMatch_typed by blast
  next
    case 4
    have "\<exists>c. execLogic qt op' a b = VBool c" "\<exists>c. execCompare qt op' a b = VBool c" for op'
      by (auto simp: execLogic_def execCompare_def Let_def split: option.split)
    with 4 have "u = TyBool" "\<exists>b. v = VBool b"
      using assms(3,5) by (cases op; auto simp: synthBinary_def execBinary_def split: if_splits)+
    then show ?thesis by (auto simp: has_type_typeId)
  qed
qed

lemma execUnary_typed:
  "synthUnary e op s = TypeClass u \<Longrightarrow> has_type (execUnary qt op a) u"
  by (cases op) (auto simp: synthUnary_def execUnary_def has_type_typeId split: if_splits)

lemma execValue_typed:
  assumes "wf_value value type" and "synthValue qt e value type \<Gamma> = TypeClass u"
    and "context_typed \<Gamma> \<rho>"
  shows "has_type (execValue qt value type \<rho>) u"
proof (cases "type = IDENTIFIER")
  case True
  then obtain s where "value = VString s" "\<Gamma> s = Some u"
    using assms(1,2) by (auto simp: wf_value_def synthValue_def split: option.splits)
  with True assms(3) show ?thesis by (fastforce simp: execValue_def context_typed_def)
next
  case False
  with assms show ?thesis
    by (cases type) (auto simp: wf_value_def synthValue_def execValue_def has_type_typeId
        split: qvariant.splits)
qed

lemma execList_typed:
  assumes "list_all2 has_type vs ts"
    and "synthList ts = TyMatchingSpecifier \<Longrightarrow> \<exists>i. vs ! 1 = VInt i"
  shows "has_type (execList qt vs) (synthList ts)"
proof -
  have strings: "list_all (\<lambda>res. \<not> variantIsNot res MQString) vs \<longleftrightarrow> list_all (\<lambda>t. t = TyString) ts"
    using assms(1) by (induction rule: list_all2_induct)
      (simp_all add: variantIsNot_def has_type_string_iff del: typeId_simps)
  show ?thesis
  proof (cases "length ts = 2 \<and> ts ! 0 = TyRegularExpression \<and> ts ! 1 = TyInt")
    case True
    then obtain v w where "vs = [v, w]" "has_type v TyRegularExpression" "has_type w TyInt"
      using assms(1) by (auto simp: list_all2_conv_all_nth length_Suc_conv numeral_2_eq_2 less_Suc_eq
          all_conj_distrib)
    moreover from True assms(2) obtain i where "vs ! 1 = VInt i" by (auto simp: synthList_def)
    ultimately show ?thesis
      using True by (auto simp: execList_def synthList_def has_type_typeId variantIsNot_def)
  next
    case False
    with strings show ?thesis
      by (auto simp: execList_def synthList_def has_type_typeId)
  qed
qed

text \<open>Only an identifier evaluates to a \<open>qlonglong\<close>.\<close>

lemma execBinary_no_longlong:
  assumes "execBinary qt op a b = Inr v"
  shows "v \<noteq> VLongLong n"
proof -
  have plus: "execPlus qt a b = Inr w \<Longrightarrow> w \<noteq> VLongLong n" for w
    by (auto simp: execPlus_def dest!: intResult_int split: option.splits if_splits)
  have math: "op' \<in> {MINUS, MULTIPLY, DIVIDE, T_MOD} \<Longrightarrow> execMath qt op' a b = Inr w \<Longrightarrow> w \<noteq> VLongLong n"
    for op' w using execMath_int[of op' a b w] by blast
  have "execLogic qt op' a b \<noteq> VLongLong n" "execCompare qt op' a b \<noteq> VLongLong n"
      "execMatch qt a b \<noteq> VLongLong n" for op'
    by (simp_all add: execLogic_def execCompare_def execMatch_def Let_def split: option.split qvariant.split)
  with assms plus math show ?thesis by (cases op) (auto simp: execBinary_def)
qed

lemma execute_int:
  assumes "wf_fexpr e" and "\<not> isIdentifier e" and "execute qt e \<rho> = Inr v" and "has_type v TyInt"
  shows "\<exists>i. v = VInt i"
proof -
  have "v \<noteq> VLongLong n" for n
  proof (cases e)
    case (ValueExpression x ty)
    with assms(1-3) show ?thesis
      by (cases ty) (auto simp: wf_value_def execValue_def split: qvariant.splits)
  next
    case (ListExpression es)
    with assms(3) show ?thesis by (auto simp: execList_def split: sum.splits if_splits)
  next
    case (UnaryOperation op r)
    with assms(3) show ?thesis
      by (cases op) (auto simp: execUnary_def split: sum.splits)
  next
    case (BinaryOperation op l r)
    with assms(3) show ?thesis by (auto split: sum.splits dest: execBinary_no_longlong)
  qed (use assms(3) in auto)
  with assms(4) show ?thesis by (auto simp: has_type_typeId)
qed

text \<open>Soundness of \<open>synthesizeType\<close> for \<open>execute\<close>, with the list loops alongside.\<close>

lemma execute_typed:
  "wf_fexpr e \<Longrightarrow> operands_ok qt \<Gamma> e \<Longrightarrow> context_typed \<Gamma> \<rho> \<Longrightarrow>
   synthesizeType qt e \<Gamma> = TypeClass t \<Longrightarrow> execute qt e \<rho> = Inr v \<Longrightarrow> has_type v t"
proof (induction e arbitrary: t v)
  case (ValueExpression x ty)
  then show ?case using execValue_typed[of x ty _ \<Gamma> t \<rho>] by auto
next
  case (RegexExpression p ci)
  then show ?case by (auto simp: has_type_typeId)
next
  case (ListExpression es)
  have elems: "list_all2 has_type vs ts"
    if "synthesizeTypes qt es' \<Gamma> = Inr ts" "executeList qt es' \<rho> = Inr vs" "set es' \<subseteq> set es" for es' vs ts
    using that
  proof (induction es' arbitrary: vs ts)
    case Nil
    then show ?case by simp
  next
    case (Cons e es')
    then show ?case
      using ListExpression.IH[of e] ListExpression.prems(1-3)
      by (auto split: possible_type.splits sum.splits)
  qed
  from ListExpression.prems(4,5) obtain ts vs where
    "synthesizeTypes qt es \<Gamma> = Inr ts" "t = synthList ts"
    "executeList qt es \<rho> = Inr vs" "v = execList qt vs"
    by (auto split: sum.splits)
  note lists = this
  have "\<exists>i. vs ! 1 = VInt i" if spec: "synthList ts = TyMatchingSpecifier"
  proof -
    from lists(1) spec obtain a b where es: "es = [a, b]"
      by (cases es; cases "tl es"; cases "tl (tl es)")
         (auto simp: synthList_def split: if_splits possible_type.splits sum.splits)
    with lists(1) spec have "synthesizeType qt b \<Gamma> = TypeClass TyInt"
      by (auto simp: synthList_def split: if_splits possible_type.splits sum.splits)
    moreover from es lists(3) obtain w where w: "execute qt b \<rho> = Inr w" "vs ! 1 = w"
      by (auto split: sum.splits)
    moreover have "\<not> isIdentifier b" "wf_fexpr b" "operands_ok qt \<Gamma> b"
      using ListExpression.prems(1,2,4) es lists(2) spec by auto
    ultimately show ?thesis
      using ListExpression.IH[of b TyInt w] ListExpression.prems(3) es execute_int by auto
  qed
  with elems[OF lists(1,3)] lists(2,4) show ?case using execList_typed[of vs ts] by simp
next
  case (UnaryOperation op e)
  then show ?case
    using execUnary_typed by (auto split: sum.splits possible_type.splits)
next
  case (BinaryOperation op l r)
  from BinaryOperation.prems obtain s1 s2 where
    syn: "synthesizeType qt l \<Gamma> = TypeClass s1" "synthesizeType qt r \<Gamma> = TypeClass s2"
      "synthBinary (BinaryOperation op l r) op s1 s2 = TypeClass t"
    by (auto split: possible_type.splits)
  from BinaryOperation.prems obtain a b where
    ex: "execute qt l \<rho> = Inr a" "execute qt r \<rho> = Inr b" "execBinary qt op a b = Inr v"
    by (auto split: sum.splits)
  have "has_type a s1" "has_type b s2"
    using BinaryOperation.IH BinaryOperation.prems syn ex by auto
  moreover have "op = PLUS \<Longrightarrow> s1 = TyString \<Longrightarrow> s2 \<in> {TyString, TyInt, TyBool, TyColor}"
    using BinaryOperation.prems(2) syn by auto
  ultimately show ?case using execBinary_typed syn(3) ex(3) by blast
qed

end

text \<open>The only errors are those of integer arithmetic.\<close>

fun no_int_arith :: "qt_ops \<Rightarrow> typing_context \<Rightarrow> fexpr \<Rightarrow> bool" where
  "no_int_arith qt \<Gamma> (ValueExpression v ty) = True"
| "no_int_arith qt \<Gamma> (RegexExpression p ci) = True"
| "no_int_arith qt \<Gamma> (ListExpression es) = (\<forall>e \<in> set es. no_int_arith qt \<Gamma> e)"
| "no_int_arith qt \<Gamma> (UnaryOperation op e) = no_int_arith qt \<Gamma> e"
| "no_int_arith qt \<Gamma> (BinaryOperation op l r) =
     ((typeIsMathOp op \<longrightarrow> op = PLUS \<and> synthesizeType qt l \<Gamma> = TypeClass TyString)
      \<and> no_int_arith qt \<Gamma> l \<and> no_int_arith qt \<Gamma> r)"

lemma execBinary_total:
  "\<not> typeIsMathOp op \<Longrightarrow> \<exists>v. execBinary qt op a b = Inr v"
  by (cases op) (simp_all add: execBinary_def typeIsMathOp_iff)

context qt_variants
begin

lemma execPlus_total:
  assumes "has_type a TyString" and "has_type b s" and "s \<in> {TyString, TyInt, TyBool, TyColor}"
  shows "\<exists>v. execBinary qt PLUS a b = Inr v"
proof -
  have "qt_canConvert qt b MQString"
    using assms can_string[of b] can_same[of b MQString] by (auto simp: has_type_typeId)
  then show ?thesis using assms(1) by (auto simp: execBinary_def execPlus_def variantIs_def has_type_typeId)
qed

lemma execute_total:
  assumes "wf_fexpr e" and "operands_ok qt \<Gamma> e" and "context_typed \<Gamma> \<rho>" and "no_int_arith qt \<Gamma> e"
    and "synthesizeType qt e \<Gamma> = TypeClass t"
  shows "\<exists>v. execute qt e \<rho> = Inr v"
  using assms
proof (induction e arbitrary: t)
  case (ListExpression es)
  have "\<exists>vs. executeList qt es' \<rho> = Inr vs" if "synthesizeTypes qt es' \<Gamma> = Inr ts" "set es' \<subseteq> set es" for es' ts
    using that
  proof (induction es' arbitrary: ts)
    case (Cons e es')
    then obtain s ts' where "synthesizeType qt e \<Gamma> = TypeClass s" "synthesizeTypes qt es' \<Gamma> = Inr ts'"
      by (auto split: possible_type.splits sum.splits)
    then have "\<exists>v. execute qt e \<rho> = Inr v" "\<exists>vs. executeList qt es' \<rho> = Inr vs"
      using ListExpression.IH[of e s] ListExpression.prems(1-4) Cons by auto
    then show ?case by auto
  qed simp
  moreover obtain ts where "synthesizeTypes qt es \<Gamma> = Inr ts"
    using ListExpression.prems(5) by (auto split: sum.splits)
  ultimately obtain vs where "executeList qt es \<rho> = Inr vs" by blast
  then show ?case by simp
next
  case (UnaryOperation op e)
  then obtain s where "synthesizeType qt e \<Gamma> = TypeClass s" by (auto split: possible_type.splits)
  with UnaryOperation obtain v where "execute qt e \<rho> = Inr v" by fastforce
  then show ?case by simp
next
  case (BinaryOperation op l r)
  from BinaryOperation.prems obtain s1 s2 where
    syn: "synthesizeType qt l \<Gamma> = TypeClass s1" "synthesizeType qt r \<Gamma> = TypeClass s2"
    by (auto split: possible_type.splits)
  have ok: "wf_fexpr l" "operands_ok qt \<Gamma> l" "no_int_arith qt \<Gamma> l"
      "wf_fexpr r" "operands_ok qt \<Gamma> r" "no_int_arith qt \<Gamma> r"
    using BinaryOperation.prems(1,2,4) by simp_all
  obtain a where a: "execute qt l \<rho> = Inr a"
    using BinaryOperation.IH(1)[OF ok(1,2) assms(3) ok(3) syn(1)] by blast
  obtain b where b: "execute qt r \<rho> = Inr b"
    using BinaryOperation.IH(2)[OF ok(4,5) assms(3) ok(6) syn(2)] by blast
  have "\<exists>v. execBinary qt op a b = Inr v"
  proof (cases "typeIsMathOp op")
    case True
    then have "op = PLUS" "s1 = TyString" "s2 \<in> {TyString, TyInt, TyBool, TyColor}"
      using BinaryOperation.prems(2,4) syn by auto
    moreover have "has_type a s1" "has_type b s2"
      using execute_typed[OF ok(1,2) assms(3) syn(1) a] execute_typed[OF ok(4,5) assms(3) syn(2) b] .
    ultimately show ?thesis using execPlus_total by blast
  qed (rule execBinary_total)
  with a b show ?case by simp
qed simp_all

end

section \<open>A reference for the conversions\<close>

text \<open>Conversions of the shape Qt documents, for evaluating concrete filters.\<close>

definition simple_convert :: "qvariant \<Rightarrow> meta_type \<Rightarrow> qvariant option" where
  "simple_convert v t =
     (if typeId v = t then Some v
      else case (v, t) of
        (VInt i, MQString) \<Rightarrow> Some (VString (numberStr i))
      | (VLongLong i, MQString) \<Rightarrow> Some (VString (numberStr i))
      | (VLongLong i, MInt) \<Rightarrow> Some (VInt (to_int32 i))
      | (VBool b, MQString) \<Rightarrow> Some (VString (if b then ''true'' else ''false''))
      | (VColor c, MQString) \<Rightarrow> Some (VString (case c of InvalidColor \<Rightarrow> ''#000000'' | Rgba n \<Rightarrow> numberStr (int n)))
      | (VString s, MInt) \<Rightarrow> map_option VInt (toIntOk s)
      | (VBool b, MInt) \<Rightarrow> Some (VInt (if b then 1 else 0))
      | (VInt i, MBool) \<Rightarrow> Some (VBool (i \<noteq> 0))
      | (VString s, MBool) \<Rightarrow> Some (VBool (s \<notin> {'''', ''0'', ''false''}))
      | _ \<Rightarrow> None)"

definition simple_qt :: qt_ops where
  "simple_qt = \<lparr>
     qt_canConvert = (\<lambda>v t. simple_convert v t \<noteq> None),
     qt_convert = simple_convert,
     qt_equals = (=),
     qt_foldCase = id,
     qt_regexMatch = (\<lambda>p ci s. if containsStr s p then Some [p] else None)\<rparr>"

lemma simple_qt_simps [simp]:
  "qt_canConvert simple_qt v t \<longleftrightarrow> simple_convert v t \<noteq> None"
  "qt_convert simple_qt = simple_convert"
  "qt_equals simple_qt = (=)"
  "qt_foldCase simple_qt = id"
  by (simp_all add: simple_qt_def)

interpretation simple_qt: qt_variants simple_qt
proof unfold_locales
  fix v t w
  show "typeId w = t" if "qt_convert simple_qt v t = Some w"
    using that by (cases v; cases t) (auto simp: simple_convert_def split: if_splits)
  show "qt_convert simple_qt v t = Some v" if "typeId v = t"
    using that by (simp add: simple_convert_def)
  show "qt_canConvert simple_qt v t" if "qt_convert simple_qt v t = Some w"
    using that by simp
  show "qt_canConvert simple_qt v MQString" if "typeId v \<in> {MInt, MLongLong, MBool, MQColor}"
    using that by (cases v) (auto simp: simple_convert_def)
qed

section \<open>Properties\<close>

text \<open>C1. Type soundness of the filter language, within two restrictions (\<open>operands_ok\<close>): what is concatenated to a string has one
  of the types String, Int, Bool and Color, and the group number of a matching specifier is not an identifier.  An expression within them
  that \<open>synthesizeType\<close> accepts evaluates, in a context with the declared types, to a value of the synthesised type unless the evaluation
  ends with an error, and it does not when no operator computes with integers (\<open>no_int_arith\<close>: the only arithmetic operator is \<open>+\<close>
  on strings).  \<open>string_plus_regex_is_an_int\<close> and \<open>message_length_specifier\<close> show that without the restrictions
  the value can have another type.\<close>

theorem filter_type_soundness:
  assumes "qt_variants qt" and "wf_fexpr e" and "operands_ok qt \<Gamma> e" and "context_typed \<Gamma> \<rho>"
    and "synthesizeType qt e \<Gamma> = TypeClass t"
  shows "(\<forall>v. execute qt e \<rho> = Inr v \<longrightarrow> has_type v t)
       \<and> (no_int_arith qt \<Gamma> e \<longrightarrow> (\<exists>v. execute qt e \<rho> = Inr v \<and> has_type v t))"
  using qt_variants.execute_typed[OF assms] qt_variants.execute_total[OF assms(1-4) _ assms(5)] by blast

theorem filter_type_soundness_witness:
  "\<exists>v. execute simple_qt
         (BinaryOperation T_EQ (BinaryOperation PLUS (ValueExpression (VString ''a'') STRING) (ValueExpression (VInt 1) T_INT))
                              (ValueExpression (VString ''author.name'') IDENTIFIER))
         [''author.name'' \<mapsto> VString ''a''] = Inr v \<and> has_type v TyBool"
proof -
  let ?e = "BinaryOperation T_EQ (BinaryOperation PLUS (ValueExpression (VString ''a'') STRING) (ValueExpression (VInt 1) T_INT))
                              (ValueExpression (VString ''author.name'') IDENTIFIER)"
  let ?\<Gamma> = "[''author.name'' \<mapsto> TyString]" and ?\<rho> = "[''author.name'' \<mapsto> VString ''a'']"
  have h: "wf_fexpr ?e" "operands_ok simple_qt ?\<Gamma> ?e" "context_typed ?\<Gamma> ?\<rho>"
      "synthesizeType simple_qt ?e ?\<Gamma> = TypeClass TyBool" "no_int_arith simple_qt ?\<Gamma> ?e"
    by (simp_all add: wf_value_def typeIsBinaryOp_iff typeIsMathOp_iff context_typed_def
        has_type_typeId synthValue_def synthBinary_def synthList_def isList_def)
  from filter_type_soundness[OF simple_qt.qt_variants_axioms h(1-4)] h(5) show ?thesis by blast
qed

text \<open>Without the first restriction the type system is unsound: \<open>"a" + r"b"\<close> has the type
  String, but where a regular expression converts neither to a string nor to an integer it
  evaluates to the integer 0.\<close>

theorem string_plus_regex_is_an_int:
  assumes "qt_variants qt"
    and "\<not> qt_canConvert qt (VRegex p ci) MQString" and "\<not> qt_canConvert qt (VRegex p ci) MInt"
  shows "synthesizeType qt (BinaryOperation PLUS (ValueExpression (VString s) STRING) (RegexExpression p ci)) \<Gamma>
           = TypeClass TyString
       \<and> execute qt (BinaryOperation PLUS (ValueExpression (VString s) STRING) (RegexExpression p ci)) \<rho>
           = Inr (VInt 0)"
proof -
  have "qt_convert qt (VRegex p ci) MInt = None"
    using assms(1,3) qt_variants.convert_can by (cases "qt_convert qt (VRegex p ci) MInt") auto
  with assms(2) show ?thesis
    by (auto simp: synthValue_def synthBinary_def execValue_def execBinary_def execPlus_def
        convertVariantTypes_def split: option.splits)
qed

theorem string_plus_regex_is_an_int_witness:
  "execute simple_qt (BinaryOperation PLUS (ValueExpression (VString ''a'') STRING) (RegexExpression ''b'' False))
     Map.empty = Inr (VInt 0)"
proof -
  have "\<not> qt_canConvert simple_qt (VRegex ''b'' False) MQString"
       "\<not> qt_canConvert simple_qt (VRegex ''b'' False) MInt"
    by (simp_all add: simple_convert_def)
  from string_plus_regex_is_an_int[OF simple_qt.qt_variants_axioms this]
  show ?thesis by blast
qed

end
