(* ===== verification/Tokenizer.thy ===== *)
theory Tokenizer
  imports FilterExpr
begin

text \<open>
  \<open>src/controllers/filters/lang/Tokenizer.cpp\<close>: the lexer of the filter language.

  The token expression is the literal \<open>TOKEN_REGEX\<close> of the source.  \<open>matchToken\<close> is its
  leftmost match at the current position, alternative by alternative and with the
  backtracking that the string alternative needs; \<open>scanTokens\<close> is \<open>globalMatch\<close>, which skips
  characters where nothing matches.
\<close>

section \<open>The token expression\<close>

text \<open>Escaped quotes or other characters, then a quote: the longest match, giving up escaped
  quotes from the right when the text has no later quote.\<close>

fun strBody :: "string \<Rightarrow> nat option" where
  "strBody [] = None"
| "strBody (c # cs) =
     (if c = quote then Some 1
      else if c = backslash then
        (case cs of
           [] \<Rightarrow> None
         | d # ds \<Rightarrow>
             if d = quote
             then (case strBody ds of Some n \<Rightarrow> Some (n + 2) | None \<Rightarrow> Some 2)
             else map_option Suc (strBody cs))
      else map_option Suc (strBody cs))"

declare strBody.simps(2) [simp del]

definition strPrefix :: "string \<Rightarrow> nat option" where
  "strPrefix s =
     (if startsWith s [CHR ''r'', quote] then Some 2
      else if startsWith s [CHR ''r'', CHR ''i'', quote] then Some 3
      else if startsWith s [quote] then Some 1
      else None)"

definition matchString :: "string \<Rightarrow> nat option" where
  "matchString s = (case strPrefix s of None \<Rightarrow> None
     | Some k \<Rightarrow> map_option (\<lambda>n. k + n) (strBody (drop k s)))"

definition isIdentChar :: "char \<Rightarrow> bool" where
  "isIdentChar c \<longleftrightarrow> isDigit c \<or> (65 \<le> code c \<and> code c \<le> 90) \<or> (97 \<le> code c \<and> code c \<le> 122)
     \<or> c = CHR ''_'' \<or> c = CHR ''.''"

text \<open>The operator alternatives: \<open>< > !\<close> with an optional \<open>=\<close>, doubled \<open>= | &\<close>, and the
  single characters.\<close>

definition optEqChar :: "char \<Rightarrow> bool" where
  "optEqChar c \<longleftrightarrow> c \<in> set ''<>!''"

definition doubledChar :: "char \<Rightarrow> bool" where
  "doubledChar c \<longleftrightarrow> c \<in> set ''=|&''"

definition singleOpChar :: "char \<Rightarrow> bool" where
  "singleOpChar c \<longleftrightarrow> c \<in> set ''+-*/%''"

definition bracketChar :: "char \<Rightarrow> bool" where
  "bracketChar c \<longleftrightarrow> c \<in> set ''(){},''"

definition opLen :: "string \<Rightarrow> nat" where
  "opLen s = (case s of [] \<Rightarrow> 0
     | c # r \<Rightarrow>
        (if optEqChar c then (if startsWith r ''='' then 2 else 1)
         else if doubledChar c then (if startsWith r [c] then 2 else 0)
         else if singleOpChar c then 1
         else 0))"

lemma opLen_le: "opLen s \<le> length s"
  by (cases s; cases "tl s") (simp_all add: opLen_def)

function opRun :: "string \<Rightarrow> nat" where
  "opRun s = (if opLen s = 0 then 0 else opLen s + opRun (drop (opLen s) s))"
  by pat_completeness auto
termination
proof (relation "measure length")
  fix s
  assume "opLen s \<noteq> 0"
  then show "(drop (opLen s) s, s) \<in> measure length"
    using opLen_le[of s] by (cases s) auto
qed simp

declare opRun.simps [simp del]

definition matchToken :: "string \<Rightarrow> nat option" where
  "matchToken s =
     (case matchString s of
        Some n \<Rightarrow> Some n
      | None \<Rightarrow>
         (let w = length (takeWhile isIdentChar s); r = opRun s in
          if 0 < w then Some w
          else if 0 < r then Some r
          else (case s of [] \<Rightarrow> None
                | c # _ \<Rightarrow> if bracketChar c then Some 1 else None)))"

lemma strBody_pos: "strBody s = Some n \<Longrightarrow> 0 < n"
proof (induction s arbitrary: n rule: strBody.induct)
  case (2 c cs)
  from "2.prems" show ?case
    unfolding strBody.simps(2)[of c cs] by (auto split: if_splits list.splits option.splits)
qed simp

lemma strPrefix_pos: "strPrefix s = Some k \<Longrightarrow> 0 < k"
  unfolding strPrefix_def by (simp split: if_split_asm)

lemma matchString_pos: "matchString s = Some n \<Longrightarrow> 0 < n"
  unfolding matchString_def by (cases "strPrefix s") (auto dest: strPrefix_pos)

lemma matchToken_pos: "matchToken s = Some n \<Longrightarrow> 0 < n"
proof (cases "matchString s")
  case None
  define w where "w = length (takeWhile isIdentChar s)"
  define r where "r = opRun s"
  assume "matchToken s = Some n"
  with None have "(if 0 < w then Some w else if 0 < r then Some r
      else (case s of [] \<Rightarrow> None | c # _ \<Rightarrow> if bracketChar c then Some 1 else None)) = Some n"
    by (simp only: matchToken_def w_def r_def Let_def option.case)
  then show ?thesis by (simp split: if_split_asm list.split_asm)
next
  case (Some m)
  assume "matchToken s = Some n"
  with Some show ?thesis using matchString_pos by (simp add: matchToken_def)
qed

function scanTokens :: "string \<Rightarrow> string list" where
  "scanTokens [] = []"
| "scanTokens (c # cs) =
     (case matchToken (c # cs) of
        Some n \<Rightarrow> take n (c # cs) # scanTokens (drop n (c # cs))
      | None \<Rightarrow> scanTokens cs)"
  by pat_completeness auto
termination
proof (relation "measure length")
  fix c cs n
  assume "matchToken (c # cs) = Some n"
  then have "0 < n" by (rule matchToken_pos)
  then show "(drop n (c # cs), c # cs) \<in> measure length" by simp
qed simp_all

declare scanTokens.simps(2) [simp del]

section \<open>Identifiers\<close>

definition VALID_IDENTIFIERS_MAP :: "(string \<times> string) list" where
  "VALID_IDENTIFIERS_MAP =
    [(''author.badges'', ''author badges''),
     (''author.external_badges'', ''author external badges''),
     (''author.color'', ''author color''),
     (''author.name'', ''author name''),
     (''author.user_id'', ''author user id''),
     (''author.no_color'', ''author has no color?''),
     (''author.subbed'', ''author subscribed?''),
     (''author.sub_length'', ''author sub length''),
     (''channel.name'', ''channel name''),
     (''channel.watching'', ''/watching channel?''),
     (''channel.live'', ''channel live?''),
     (''flags.action'', ''action/me message?''),
     (''flags.highlighted'', ''highlighted?''),
     (''flags.points_redeemed'', ''redeemed points?''),
     (''flags.sub_message'', ''sub/resub message?''),
     (''flags.system_message'', ''system message?''),
     (''flags.reward_message'', ''channel point reward message?''),
     (''flags.first_message'', ''first message?''),
     (''flags.elevated_message'', ''hype chat message?''),
     (''flags.hype_chat'', ''hype chat message?''),
     (''flags.cheer_message'', ''cheer message?''),
     (''flags.whisper'', ''whisper message?''),
     (''flags.reply'', ''reply message?''),
     (''flags.automod'', ''automod message?''),
     (''flags.restricted'', ''restricted message?''),
     (''flags.monitored'', ''monitored message?''),
     (''flags.shared'', ''shared message?''),
     (''flags.similar'', ''r9k filtered message?''),
     (''message.content'', ''message text''),
     (''message.length'', ''message length''),
     (''reward.title'', ''point reward title''),
     (''reward.cost'', ''point reward cost''),
     (''reward.id'', ''point reward id'')]"

definition validIdentifiers :: "string list" where
  "validIdentifiers = map fst VALID_IDENTIFIERS_MAP"

section \<open>Classification\<close>

definition tokenize :: "string \<Rightarrow> token_type" where
  "tokenize text =
     (if text = ''&&'' then T_AND
      else if text = ''||'' then T_OR
      else if text = ''('' then LP
      else if text = '')'' then RP
      else if text = ''{'' then LIST_START
      else if text = ''}'' then LIST_END
      else if text = '','' then COMMA
      else if text = ''+'' then PLUS
      else if text = ''-'' then MINUS
      else if text = ''*'' then MULTIPLY
      else if text = ''/'' then DIVIDE
      else if text = ''=='' then T_EQ
      else if text = ''!='' then NEQ
      else if text = ''%'' then T_MOD
      else if text = ''<'' then T_LT
      else if text = ''>'' then T_GT
      else if text = ''<='' then LTE
      else if text = ''>='' then GTE
      else if text = ''contains'' then CONTAINS
      else if text = ''startswith'' then STARTS_WITH
      else if text = ''endswith'' then ENDS_WITH
      else if text = ''match'' then MATCH
      else if text = ''!'' then T_NOT
      else if (startsWith text [CHR ''r'', quote] \<or> startsWith text [CHR ''r'', CHR ''i'', quote])
              \<and> last text = quote then REGULAR_EXPRESSION
      else if hd text = quote \<and> last text = quote then STRING
      else if text \<in> set validIdentifiers then IDENTIFIER
      else if toIntOk text \<noteq> None then T_INT
      else NONE)"

section \<open>The token stream\<close>

text \<open>\<open>QList::at\<close> out of range is an error of the model.\<close>

datatype parse_error = TokenOutOfRange | AssertionFailed | OutOfFuel

record tokenizer =
  tk_i :: nat
  tk_tokens :: "string list"
  tk_types :: "token_type list"

definition Tokenizer :: "string \<Rightarrow> tokenizer" where
  "Tokenizer text = \<lparr>tk_i = 0, tk_tokens = scanTokens text, tk_types = map tokenize (scanTokens text)\<rparr>"

definition tk_hasNext :: "tokenizer \<Rightarrow> bool" where
  "tk_hasNext t \<longleftrightarrow> tk_i t < length (tk_tokens t)"

definition tk_at :: "'a list \<Rightarrow> nat \<Rightarrow> parse_error + 'a" where
  "tk_at xs i = (if i < length xs then Inr (xs ! i) else Inl TokenOutOfRange)"

definition tk_next :: "tokenizer \<Rightarrow> parse_error + (string \<times> tokenizer)" where
  "tk_next t = (let t' = t\<lparr>tk_i := tk_i t + 1\<rparr> in
     case tk_at (tk_tokens t') (tk_i t' - 1) of Inl e \<Rightarrow> Inl e | Inr s \<Rightarrow> Inr (s, t'))"

definition tk_current :: "tokenizer \<Rightarrow> parse_error + string" where
  "tk_current t = (if tk_i t = 0 then Inl TokenOutOfRange else tk_at (tk_tokens t) (tk_i t - 1))"

definition tk_preview :: "tokenizer \<Rightarrow> string" where
  "tk_preview t = (if tk_hasNext t then tk_tokens t ! tk_i t else '''')"

definition tk_nextTokenType :: "tokenizer \<Rightarrow> parse_error + token_type" where
  "tk_nextTokenType t = tk_at (tk_types t) (tk_i t)"

definition tk_tokenType :: "tokenizer \<Rightarrow> parse_error + token_type" where
  "tk_tokenType t = (if tk_i t = 0 then Inl TokenOutOfRange else tk_at (tk_types t) (tk_i t - 1))"

definition tk_allTokens :: "tokenizer \<Rightarrow> string list" where
  "tk_allTokens t = tk_tokens t"

end
