(* ===== verification/FilterParser.thy ===== *)
theory FilterParser
  imports Tokenizer
begin

text \<open>
  \<open>src/controllers/filters/lang/FilterParser.cpp\<close>: the recursive-descent parser of the filter
  language.

  The member functions recurse into each other through \<open>parseExpression\<close> (inside parentheses)
  and \<open>parseValue\<close> (inside lists); these two calls are arguments (\<open>pe\<close>, \<open>pv\<close>) of the function
  bodies, and \<open>parseExpressionF\<close> / \<open>parseValueF\<close> tie the knot with a bound on the nesting depth.
  The loops get the number of remaining tokens as their bound.  \<open>OutOfFuel\<close> is the error of a
  bound that was too small; \<open>parser_contract\<close> and its interpretation show that a depth above the
  number of remaining tokens is always enough, so that the error never appears.
\<close>

section \<open>State\<close>

record fparser =
  fp_tokenizer :: tokenizer
  fp_parseLog :: "string list"
  fp_valid :: bool

type_synonym parse_result = "parse_error + (fexpr \<times> fparser)"

definition errorLog :: "fparser \<Rightarrow> string \<Rightarrow> fparser" where
  "errorLog p text = p\<lparr>fp_valid := False,
     fp_parseLog := (if fp_parseLog p = [] then fp_parseLog p @ [text] else fp_parseLog p)\<rparr>"

definition hasNext :: "fparser \<Rightarrow> bool" where
  "hasNext p = tk_hasNext (fp_tokenizer p)"

definition nextTokenType :: "fparser \<Rightarrow> parse_error + token_type" where
  "nextTokenType p = tk_nextTokenType (fp_tokenizer p)"

definition nextToken :: "fparser \<Rightarrow> parse_error + (string \<times> fparser)" where
  "nextToken p = pbind (tk_next (fp_tokenizer p)) (\<lambda>(s, t). Inr (s, p\<lparr>fp_tokenizer := t\<rparr>))"

definition preview :: "fparser \<Rightarrow> string" where
  "preview p = tk_preview (fp_tokenizer p)"

definition remaining :: "fparser \<Rightarrow> nat" where
  "remaining p = length (tk_tokens (fp_tokenizer p)) - tk_i (fp_tokenizer p)"

section \<open>The grammar\<close>

definition parseParentheses :: "(fparser \<Rightarrow> parse_result) \<Rightarrow> fparser \<Rightarrow> parse_result" where
  "parseParentheses pe p =
     pbind (nextTokenType p) (\<lambda>t.
     if t \<noteq> LP then Inl AssertionFailed else
     pbind (nextToken p) (\<lambda>(_, p1).
     pbind (pe p1) (\<lambda>(e, p2).
     if hasNext p2 then
       pbind (nextTokenType p2) (\<lambda>t2.
       if t2 = RP then pbind (nextToken p2) (\<lambda>(_, p3). Inr (e, p3))
       else Inr (e, errorLog p2 (argStr ''Missing closing parentheses: got %1'' (preview p2))))
     else Inr (e, errorLog p2 ''Missing closing parentheses at end of statement''))))"

text \<open>The loop of \<open>parseList\<close>: \<open>Some list\<close> when the closing brace is reached, \<open>None\<close> when the
  loop is left otherwise.\<close>

fun listLoop ::
  "nat \<Rightarrow> (fparser \<Rightarrow> parse_result) \<Rightarrow> fexpr list \<Rightarrow> bool \<Rightarrow> fparser \<Rightarrow> parse_error + (fexpr list option \<times> fparser)" where
  "listLoop 0 pv list first p = Inl OutOfFuel"
| "listLoop (Suc k) pv list first p =
     (if \<not> hasNext p then Inr (None, p) else
      pbind (nextTokenType p) (\<lambda>t.
      if t = LIST_END then pbind (nextToken p) (\<lambda>(_, p1). Inr (Some list, p1))
      else if t = COMMA \<and> \<not> first then
        pbind (nextToken p) (\<lambda>(_, p1).
        pbind (pv p1) (\<lambda>(e, p2). listLoop k pv (list @ [e]) False p2))
      else if first then pbind (pv p) (\<lambda>(e, p2). listLoop k pv (list @ [e]) False p2)
      else Inr (None, p)))"

definition parseList :: "(fparser \<Rightarrow> parse_result) \<Rightarrow> fparser \<Rightarrow> parse_result" where
  "parseList pv p =
     pbind (nextTokenType p) (\<lambda>t.
     if t \<noteq> LIST_START then Inl AssertionFailed else
     pbind (nextToken p) (\<lambda>(_, p1).
     pbind (listLoop (Suc (remaining p1)) pv [] True p1) (\<lambda>(res, p2).
     case res of
       Some list \<Rightarrow> Inr (ListExpression list, p2)
     | None \<Rightarrow> Inr (ListExpression [],
         errorLog p2 (if hasNext p2 then argStr ''Missing closing list braces: got %1'' (preview p2)
                      else ''Missing closing list braces at end of statement'')))))"

text \<open>\<open>mid(k)\<close>, \<open>chop(1)\<close>, \<open>replace("\\\"", "\"")\<close>.\<close>

definition unquote :: "nat \<Rightarrow> string \<Rightarrow> string" where
  "unquote k before = replaceAll [backslash, quote] [quote] (chop (midFrom before k) 1)"

definition parseValue ::
  "(fparser \<Rightarrow> parse_result) \<Rightarrow> (fparser \<Rightarrow> parse_result) \<Rightarrow> fparser \<Rightarrow> parse_result" where
  "parseValue pe pv p =
     (if \<not> hasNext p
      then Inr (ValueExpression (VInt 0) T_INT, errorLog p ''Unexpected end of statement'')
      else
      pbind (nextTokenType p) (\<lambda>type.
      if type = T_INT then
        pbind (nextToken p) (\<lambda>(s, p1).
        Inr (ValueExpression (VInt (case toIntOk s of Some i \<Rightarrow> i | None \<Rightarrow> 0)) type, p1))
      else if type = STRING then
        pbind (nextToken p) (\<lambda>(before, p1).
        Inr (ValueExpression (VString (unquote 1 before)) type, p1))
      else if type = IDENTIFIER then
        pbind (nextToken p) (\<lambda>(s, p1). Inr (ValueExpression (VString s) type, p1))
      else if type = REGULAR_EXPRESSION then
        pbind (nextToken p) (\<lambda>(before, p1).
        let caseInsensitive = startsWith before ''ri'' in
        Inr (RegexExpression (unquote (if caseInsensitive then 3 else 2) before) caseInsensitive, p1))
      else if type = LP then parseParentheses pe p
      else if type = LIST_START then parseList pv p
      else
        pbind (nextToken p) (\<lambda>(s, p1).
        Inr (ValueExpression (VInt 0) T_INT,
             errorLog p1 (argStr (argStr ''Expected value but got %1 %2'' s) (tokenTypeToInfoString type))))))"

text \<open>The loop of \<open>parseCondition\<close> after the first value.\<close>

fun conditionLoop ::
  "nat \<Rightarrow> (fparser \<Rightarrow> parse_result) \<Rightarrow> fexpr \<Rightarrow> fparser \<Rightarrow> parse_result" where
  "conditionLoop 0 value_parser value p = Inl OutOfFuel"
| "conditionLoop (Suc k) value_parser value p =
     (if \<not> hasNext p then Inr (value, p) else
      pbind (nextTokenType p) (\<lambda>t.
      if typeIsBinaryOp t then
        pbind (nextToken p) (\<lambda>(_, p1).
        pbind (tk_tokenType (fp_tokenizer p1)) (\<lambda>type.
        pbind (value_parser p1) (\<lambda>(nextValue, p2). Inr (BinaryOperation type value nextValue, p2))))
      else if typeIsMathOp t then
        pbind (nextToken p) (\<lambda>(_, p1).
        pbind (tk_tokenType (fp_tokenizer p1)) (\<lambda>type.
        pbind (value_parser p1) (\<lambda>(nextValue, p2).
        conditionLoop k value_parser (BinaryOperation type value nextValue) p2)))
      else if t = RP then Inr (value, p)
      else if \<not> typeIsOp t then
        Inr (value, errorLog p (argStr (argStr ''Expected an operator but got %1 %2'' (preview p))
                                       (tokenTypeToInfoString t)))
      else Inr (value, p)))"

definition parseCondition ::
  "(fparser \<Rightarrow> parse_result) \<Rightarrow> (fparser \<Rightarrow> parse_result) \<Rightarrow> fparser \<Rightarrow> parse_result" where
  "parseCondition pe pv p =
     pbind (if hasNext p
            then pbind (nextTokenType p) (\<lambda>t.
                 if t = LP then parseParentheses pe p else parseValue pe pv p)
            else parseValue pe pv p) (\<lambda>(value, p1).
     conditionLoop (Suc (remaining p1)) (parseValue pe pv) value p1)"

definition parseUnary ::
  "(fparser \<Rightarrow> parse_result) \<Rightarrow> (fparser \<Rightarrow> parse_result) \<Rightarrow> fparser \<Rightarrow> parse_result" where
  "parseUnary pe pv p =
     (if hasNext p then
        pbind (nextTokenType p) (\<lambda>t.
        if typeIsUnaryOp t then
          pbind (nextToken p) (\<lambda>(_, p1).
          pbind (tk_tokenType (fp_tokenizer p1)) (\<lambda>type.
          pbind (parseCondition pe pv p1) (\<lambda>(nextCondition, p2).
          Inr (UnaryOperation type nextCondition, p2))))
        else parseCondition pe pv p)
      else parseCondition pe pv p)"

text \<open>The loops of \<open>parseAnd\<close> and \<open>parseExpression\<close> have the same shape: while the next token
  is \<open>op\<close>, parse another operand and combine to the left.\<close>

fun chainLoop ::
  "nat \<Rightarrow> token_type \<Rightarrow> (fparser \<Rightarrow> parse_result) \<Rightarrow> fexpr \<Rightarrow> fparser \<Rightarrow> parse_result" where
  "chainLoop 0 op operand e p = Inl OutOfFuel"
| "chainLoop (Suc k) op operand e p =
     (if \<not> hasNext p then Inr (e, p) else
      pbind (nextTokenType p) (\<lambda>t.
      if t = op then
        pbind (nextToken p) (\<lambda>(_, p1).
        pbind (operand p1) (\<lambda>(e2, p2). chainLoop k op operand (BinaryOperation op e e2) p2))
      else Inr (e, p)))"

definition parseAnd ::
  "(fparser \<Rightarrow> parse_result) \<Rightarrow> (fparser \<Rightarrow> parse_result) \<Rightarrow> fparser \<Rightarrow> parse_result" where
  "parseAnd pe pv p =
     pbind (parseUnary pe pv p) (\<lambda>(e, p1).
     chainLoop (Suc (remaining p1)) T_AND (parseUnary pe pv) e p1)"

definition parseExpression ::
  "(fparser \<Rightarrow> parse_result) \<Rightarrow> (fparser \<Rightarrow> parse_result) \<Rightarrow> bool \<Rightarrow> fparser \<Rightarrow> parse_result" where
  "parseExpression pe pv isTop p =
     pbind (parseAnd pe pv p) (\<lambda>(e, p1).
     pbind (chainLoop (Suc (remaining p1)) T_OR (parseAnd pe pv) e p1) (\<lambda>(e2, p2).
     if hasNext p2 \<and> isTop
     then Inr (e2, errorLog p2 (argStr ''Unexpected token at end: %1'' (preview p2)))
     else Inr (e2, p2)))"

fun parseExpressionF :: "nat \<Rightarrow> bool \<Rightarrow> fparser \<Rightarrow> parse_result"
and parseValueF :: "nat \<Rightarrow> fparser \<Rightarrow> parse_result" where
  "parseExpressionF 0 isTop p = Inl OutOfFuel"
| "parseExpressionF (Suc n) isTop p = parseExpression (parseExpressionF n False) (parseValueF n) isTop p"
| "parseValueF 0 p = Inl OutOfFuel"
| "parseValueF (Suc n) p = parseValue (parseExpressionF n False) (parseValueF n) p"

section \<open>Progress of the token stream\<close>

text \<open>Tokens as the tokenizer makes them: an \<open>INT\<close> token reads as a non-negative \<open>int\<close>.\<close>

definition token_ok :: "string \<Rightarrow> token_type \<Rightarrow> bool" where
  "token_ok s t \<longleftrightarrow> (t = T_INT \<longrightarrow> (\<exists>i. toIntOk s = Some i \<and> 0 \<le> i))"

definition fp_wf :: "fparser \<Rightarrow> bool" where
  "fp_wf p \<longleftrightarrow> list_all2 token_ok (tk_tokens (fp_tokenizer p)) (tk_types (fp_tokenizer p))
     \<and> tk_i (fp_tokenizer p) \<le> length (tk_tokens (fp_tokenizer p))
     \<and> (fp_valid p \<longleftrightarrow> fp_parseLog p = [])"

text \<open>\<open>advances p p'\<close>: the same tokens, read further, and no error forgotten.\<close>

definition advances :: "fparser \<Rightarrow> fparser \<Rightarrow> bool" where
  "advances p p' \<longleftrightarrow> tk_tokens (fp_tokenizer p') = tk_tokens (fp_tokenizer p)
     \<and> tk_types (fp_tokenizer p') = tk_types (fp_tokenizer p)
     \<and> tk_i (fp_tokenizer p) \<le> tk_i (fp_tokenizer p')
     \<and> tk_i (fp_tokenizer p') \<le> length (tk_tokens (fp_tokenizer p))
     \<and> (fp_valid p' \<longrightarrow> fp_valid p) \<and> (fp_valid p' \<longleftrightarrow> fp_parseLog p' = [])"

definition parse_ok :: "fparser \<Rightarrow> parse_result \<Rightarrow> bool" where
  "parse_ok p r \<longleftrightarrow> (\<exists>e p'. r = Inr (e, p') \<and> advances p p' \<and> wf_fexpr e
     \<and> (hasNext p \<longrightarrow> remaining p' < remaining p))"

lemma advances_refl [simp]: "fp_wf p \<Longrightarrow> advances p p"
  by (simp add: advances_def fp_wf_def)

lemma advances_trans: "advances p q \<Longrightarrow> advances q r \<Longrightarrow> advances p r"
  by (auto simp: advances_def)

lemma advances_wf: "fp_wf p \<Longrightarrow> advances p p' \<Longrightarrow> fp_wf p'"
  by (simp add: advances_def fp_wf_def)

lemma advances_remaining: "advances p p' \<Longrightarrow> remaining p' \<le> remaining p"
  by (auto simp: advances_def remaining_def)

lemma advances_errorLog [simp]: "fp_wf p \<Longrightarrow> advances p (errorLog p msg)"
  by (simp add: advances_def fp_wf_def errorLog_def)

lemma advances_errorLog_trans: "fp_wf p \<Longrightarrow> advances p q \<Longrightarrow> advances p (errorLog q msg)"
  using advances_trans advances_errorLog advances_wf by blast

lemma remaining_errorLog [simp]: "remaining (errorLog p msg) = remaining p"
  by (simp add: remaining_def errorLog_def)

lemma hasNext_remaining: "hasNext p \<longleftrightarrow> 0 < remaining p"
  by (auto simp: hasNext_def tk_hasNext_def remaining_def)

lemma nextToken_cases:
  assumes "fp_wf p" and "hasNext p"
  obtains s t p1 where "nextTokenType p = Inr t" and "nextToken p = Inr (s, p1)"
    and "tk_tokenType (fp_tokenizer p1) = Inr t" and "token_ok s t"
    and "fp_wf p1" and "advances p p1" and "remaining p = Suc (remaining p1)"
proof -
  let ?t = "fp_tokenizer p"
  let ?i = "tk_i ?t"
  have i: "?i < length (tk_tokens ?t)" "?i < length (tk_types ?t)"
    using assms by (auto simp: fp_wf_def hasNext_def tk_hasNext_def list_all2_lengthD)
  show thesis
  proof (rule that)
    show "nextTokenType p = Inr (tk_types ?t ! ?i)"
      using i by (simp add: nextTokenType_def tk_nextTokenType_def tk_at_def)
    show "nextToken p = Inr (tk_tokens ?t ! ?i, p\<lparr>fp_tokenizer := ?t\<lparr>tk_i := ?i + 1\<rparr>\<rparr>)"
      using i by (simp add: nextToken_def tk_next_def tk_at_def)
    show "token_ok (tk_tokens ?t ! ?i) (tk_types ?t ! ?i)"
      using assms(1) i by (simp add: fp_wf_def list_all2_nthD)
  qed (use i assms(1) in \<open>simp_all add: tk_tokenType_def tk_at_def fp_wf_def advances_def remaining_def\<close>)
qed

section \<open>The contract of the two recursive calls\<close>

text \<open>What the function bodies need of the calls \<open>pe\<close> and \<open>pv\<close>: on a stream with fewer than
  \<open>n\<close> tokens left they return, without reading out of range, a well-formed tree.\<close>

locale parser_contract =
  fixes pe pv :: "fparser \<Rightarrow> parse_result" and n :: nat
  assumes pe_ok: "fp_wf p \<Longrightarrow> remaining p < n \<Longrightarrow> parse_ok p (pe p)"
    and pv_ok: "fp_wf p \<Longrightarrow> remaining p < n \<Longrightarrow> parse_ok p (pv p)"
begin

lemma parseParentheses_ok:
  assumes wf: "fp_wf p" and has: "hasNext p" and lp: "nextTokenType p = Inr LP" and n: "remaining p \<le> n"
  shows "parse_ok p (parseParentheses pe p)"
proof -
  obtain s t p1 where p1: "nextTokenType p = Inr t" "nextToken p = Inr (s, p1)" "fp_wf p1"
      "advances p p1" "remaining p = Suc (remaining p1)"
    using nextToken_cases[OF wf has] by metis
  have "remaining p1 < n" using p1(5) n by simp
  then obtain e p2 where p2: "pe p1 = Inr (e, p2)" "advances p1 p2" "wf_fexpr e"
    using pe_ok[OF p1(3)] by (auto simp: parse_ok_def)
  have adv: "advances p p2" "fp_wf p2" "remaining p2 < remaining p"
    using advances_trans[OF p1(4) p2(2)] advances_wf[OF p1(3) p2(2)] advances_remaining[OF p2(2)] p1(5)
    by simp_all
  show ?thesis
  proof (cases "hasNext p2")
    case False
    then show ?thesis
      using lp p1 p2 adv advances_errorLog_trans[OF wf adv(1)]
      by (simp add: parseParentheses_def parse_ok_def)
  next
    case True
    obtain s2 t2 p3 where p3: "nextTokenType p2 = Inr t2" "nextToken p2 = Inr (s2, p3)"
        "advances p2 p3" "remaining p2 = Suc (remaining p3)"
      using nextToken_cases[OF adv(2) True] by metis
    have "advances p p3" using adv(1) p3(3) advances_trans by blast
    with True show ?thesis
      using lp p1 p2 p3 adv advances_errorLog_trans[OF wf adv(1)]
      by (auto simp: parseParentheses_def parse_ok_def)
  qed
qed

lemma listLoop_ok:
  assumes "fp_wf p" and "remaining p < k" and "remaining p < n" and "\<forall>e \<in> set es. wf_fexpr e"
  shows "\<exists>res p'. listLoop k pv es first p = Inr (res, p') \<and> advances p p'
     \<and> (\<forall>list. res = Some list \<longrightarrow> (\<forall>e \<in> set list. wf_fexpr e))"
  using assms
proof (induction k arbitrary: es first p)
  case (Suc k)
  show ?case
  proof (cases "hasNext p")
    case False
    with Suc.prems(1) show ?thesis by simp
  next
    case True
    obtain s t p1 where p1: "nextTokenType p = Inr t" "nextToken p = Inr (s, p1)" "fp_wf p1"
        "advances p p1" "remaining p = Suc (remaining p1)"
      using nextToken_cases[OF Suc.prems(1) True] by metis
    have element: "\<exists>res p'. pbind (pv q) (\<lambda>(e, p2). listLoop k pv (es @ [e]) False p2) = Inr (res, p')
          \<and> advances p p' \<and> (\<forall>list. res = Some list \<longrightarrow> (\<forall>e \<in> set list. wf_fexpr e))"
      if q: "fp_wf q" "advances p q" "remaining q < n" "q = p \<or> remaining q < k" for q
    proof -
      obtain e p2 where p2: "pv q = Inr (e, p2)" "advances q p2" "wf_fexpr e"
          "hasNext q \<longrightarrow> remaining p2 < remaining q"
        using pv_ok[OF q(1,3)] by (auto simp: parse_ok_def)
      have "fp_wf p2" "remaining p2 < k" "remaining p2 < n"
        using p2 q True Suc.prems(2) advances_wf advances_remaining[OF p2(2)] by auto
      moreover have "\<forall>x \<in> set (es @ [e]). wf_fexpr x" using Suc.prems(4) p2(3) by auto
      ultimately obtain res p' where l: "listLoop k pv (es @ [e]) False p2 = Inr (res, p')" "advances p2 p'"
          "\<forall>list. res = Some list \<longrightarrow> (\<forall>e \<in> set list. wf_fexpr e)"
        using Suc.IH by blast
      have "advances p p'" using advances_trans[OF q(2) advances_trans[OF p2(2) l(2)]] .
      with p2(1) l(1,3) show ?thesis by simp
    qed
    have "remaining p1 < n" "remaining p1 < k" using p1(5) Suc.prems by auto
    then have after: "\<exists>res p'. pbind (pv p1) (\<lambda>(e, p2). listLoop k pv (es @ [e]) False p2) = Inr (res, p')
          \<and> advances p p' \<and> (\<forall>list. res = Some list \<longrightarrow> (\<forall>e \<in> set list. wf_fexpr e))"
      using p1(3,4) by (intro element) simp_all
    have here: "\<exists>res p'. pbind (pv p) (\<lambda>(e, p2). listLoop k pv (es @ [e]) False p2) = Inr (res, p')
          \<and> advances p p' \<and> (\<forall>list. res = Some list \<longrightarrow> (\<forall>e \<in> set list. wf_fexpr e))"
      using Suc.prems by (intro element) simp_all
    consider "t = LIST_END" | "t \<noteq> LIST_END" "t = COMMA \<and> \<not> first"
      | "t \<noteq> LIST_END" "\<not> (t = COMMA \<and> \<not> first)" "first"
      | "t \<noteq> LIST_END" "\<not> (t = COMMA \<and> \<not> first)" "\<not> first" by blast
    then show ?thesis
    proof cases
      case 1
      with True p1 Suc.prems(4) show ?thesis by simp
    next
      case 2
      then show ?thesis using True p1(1,2) after by simp
    next
      case 3
      then show ?thesis using True p1(1) here by simp
    next
      case 4
      then show ?thesis using True p1(1) Suc.prems(1) by simp
    qed
  qed
qed simp

lemma parseList_ok:
  assumes wf: "fp_wf p" and has: "hasNext p" and start: "nextTokenType p = Inr LIST_START"
    and n: "remaining p \<le> n"
  shows "parse_ok p (parseList pv p)"
proof -
  obtain s t p1 where p1: "nextTokenType p = Inr t" "nextToken p = Inr (s, p1)" "fp_wf p1"
      "advances p p1" "remaining p = Suc (remaining p1)"
    using nextToken_cases[OF wf has] by metis
  have "remaining p1 < Suc (remaining p1)" "remaining p1 < n" using p1(5) n by simp_all
  then obtain res p2 where l: "listLoop (Suc (remaining p1)) pv [] True p1 = Inr (res, p2)"
      "advances p1 p2" "\<forall>list. res = Some list \<longrightarrow> (\<forall>e \<in> set list. wf_fexpr e)"
    using listLoop_ok[OF p1(3), of "Suc (remaining p1)" "[]" True] by auto
  have adv: "advances p p2" "remaining p2 < remaining p"
    using advances_trans[OF p1(4) l(2)] advances_remaining[OF l(2)] p1(5) by simp_all
  show ?thesis
    using start p1(2) l(1,3) adv advances_errorLog_trans[OF wf adv(1)]
    by (cases res) (simp_all add: parseList_def parse_ok_def)
qed

lemma parseValue_ok:
  assumes wf: "fp_wf p" and n: "remaining p \<le> n"
  shows "parse_ok p (parseValue pe pv p)"
proof (cases "hasNext p")
  case False
  with wf show ?thesis by (simp add: parseValue_def parse_ok_def wf_value_def)
next
  case True
  obtain s t p1 where p1: "nextTokenType p = Inr t" "nextToken p = Inr (s, p1)" "token_ok s t"
      "fp_wf p1" "advances p p1" "remaining p = Suc (remaining p1)"
    using nextToken_cases[OF wf True] by metis
  have err: "advances p (errorLog p1 msg)" for msg
    by (rule advances_errorLog_trans[OF wf p1(5)])
  consider "t = LP" | "t = LIST_START" | "t = T_INT" | "t \<notin> {LP, LIST_START, T_INT}" by blast
  then show ?thesis
  proof cases
    case 1
    then show ?thesis using parseParentheses_ok[OF wf True _ n] p1(1) True by (simp add: parseValue_def)
  next
    case 2
    then show ?thesis using parseList_ok[OF wf True _ n] p1(1) True by (simp add: parseValue_def)
  next
    case 3
    then obtain i where "toIntOk s = Some i" "0 \<le> i" using p1(3) by (auto simp: token_ok_def)
    with 3 True p1 show ?thesis
      by (auto simp: parseValue_def parse_ok_def wf_value_def dest: toIntOk_range)
  next
    case 4
    with True p1(1,2,5,6) err show ?thesis
      by (simp add: parseValue_def parse_ok_def wf_value_def Let_def)
  qed
qed

lemma operand_step:
  assumes "fp_wf p" and "hasNext p" and "remaining p \<le> n"
    and op: "\<And>q. fp_wf q \<Longrightarrow> remaining q \<le> n \<Longrightarrow> parse_ok q (f q)"
  obtains s t p1 e p2 where "nextTokenType p = Inr t" and "nextToken p = Inr (s, p1)"
    and "tk_tokenType (fp_tokenizer p1) = Inr t" and "f p1 = Inr (e, p2)" and "wf_fexpr e"
    and "fp_wf p2" and "advances p p2" and "remaining p2 < remaining p"
proof -
  obtain s t p1 where p1: "nextTokenType p = Inr t" "nextToken p = Inr (s, p1)"
      "tk_tokenType (fp_tokenizer p1) = Inr t" "fp_wf p1"
      "advances p p1" "remaining p = Suc (remaining p1)"
    using nextToken_cases[OF assms(1,2)] by metis
  have "remaining p1 \<le> n" using p1(6) assms(3) by simp
  then obtain e p2 where p2: "f p1 = Inr (e, p2)" "advances p1 p2" "wf_fexpr e"
    using op[OF p1(4)] by (auto simp: parse_ok_def)
  show thesis
    using that[OF p1(1-3) p2(1,3) advances_wf[OF p1(4) p2(2)] advances_trans[OF p1(5) p2(2)]]
      advances_remaining[OF p2(2)] p1(6) by simp
qed

lemma conditionLoop_ok:
  assumes "fp_wf p" and "remaining p < k" and "remaining p \<le> n" and "wf_fexpr value"
  shows "\<exists>e p'. conditionLoop k (parseValue pe pv) value p = Inr (e, p') \<and> advances p p' \<and> wf_fexpr e"
  using assms
proof (induction k arbitrary: "value" p)
  case (Suc k)
  show ?case
  proof (cases "hasNext p")
    case False
    with Suc.prems show ?thesis by simp
  next
    case True
    obtain s t p1 e p2 where st: "nextTokenType p = Inr t" "nextToken p = Inr (s, p1)"
        "tk_tokenType (fp_tokenizer p1) = Inr t" "parseValue pe pv p1 = Inr (e, p2)" "wf_fexpr e"
        "fp_wf p2" "advances p p2" "remaining p2 < remaining p"
      using operand_step[OF Suc.prems(1) True Suc.prems(3) parseValue_ok] by metis
    show ?thesis
    proof (cases "typeIsMathOp t \<and> \<not> typeIsBinaryOp t")
      case math: True
      have "remaining p2 < k" "remaining p2 \<le> n" "wf_fexpr (BinaryOperation t value e)"
        using st(5,8) Suc.prems math by auto
      then obtain e' p' where "conditionLoop k (parseValue pe pv) (BinaryOperation t value e) p2 = Inr (e', p')"
          "advances p2 p'" "wf_fexpr e'"
        using Suc.IH[OF st(6)] by blast
      with math True st(1-4) advances_trans[OF st(7)] show ?thesis by auto
    next
      case False
      with True st Suc.prems show ?thesis by auto
    qed
  qed
qed simp

lemma parseCondition_ok:
  assumes wf: "fp_wf p" and n: "remaining p \<le> n"
  shows "parse_ok p (parseCondition pe pv p)"
proof -
  define first where "first =
     (if hasNext p
      then pbind (nextTokenType p) (\<lambda>t. if t = LP then parseParentheses pe p else parseValue pe pv p)
      else parseValue pe pv p)"
  have "parse_ok p first"
  proof (cases "hasNext p")
    case True
    then obtain t where "nextTokenType p = Inr t" using nextToken_cases[OF wf True] by metis
    with True show ?thesis
      using parseParentheses_ok[OF wf True _ n] parseValue_ok[OF wf n] by (simp add: first_def)
  qed (simp add: first_def parseValue_ok[OF wf n])
  then obtain e p1 where p1: "first = Inr (e, p1)" "advances p p1" "wf_fexpr e"
      "hasNext p \<longrightarrow> remaining p1 < remaining p" by (auto simp: parse_ok_def)
  have "fp_wf p1" "remaining p1 \<le> n"
    using advances_wf[OF wf p1(2)] advances_remaining[OF p1(2)] n by simp_all
  then obtain e' p' where "conditionLoop (Suc (remaining p1)) (parseValue pe pv) e p1 = Inr (e', p')"
      "advances p1 p'" "wf_fexpr e'"
    using conditionLoop_ok[of p1 "Suc (remaining p1)" e] p1(3) by auto
  then show ?thesis
    using p1 advances_trans[OF p1(2)] advances_remaining[of p1 p']
    unfolding parseCondition_def first_def[symmetric] parse_ok_def by auto
qed

lemma parseUnary_ok:
  assumes wf: "fp_wf p" and n: "remaining p \<le> n"
  shows "parse_ok p (parseUnary pe pv p)"
proof (cases "hasNext p")
  case False
  then show ?thesis using parseCondition_ok[OF wf n] by (simp add: parseUnary_def)
next
  case True
  obtain s t p1 e p2 where st: "nextTokenType p = Inr t" "nextToken p = Inr (s, p1)"
      "tk_tokenType (fp_tokenizer p1) = Inr t" "parseCondition pe pv p1 = Inr (e, p2)" "wf_fexpr e"
      "advances p p2" "remaining p2 < remaining p"
    using operand_step[OF wf True n parseCondition_ok] by metis
  with True parseCondition_ok[OF wf n] show ?thesis
    by (simp add: parseUnary_def parse_ok_def)
qed

lemma chainLoop_ok:
  assumes "fp_wf p" and "remaining p < k" and "remaining p \<le> n" and "wf_fexpr e" and "op \<in> {T_AND, T_OR}"
    and operand: "\<And>q. fp_wf q \<Longrightarrow> remaining q \<le> n \<Longrightarrow> parse_ok q (operand q)"
  shows "\<exists>e' p'. chainLoop k op operand e p = Inr (e', p') \<and> advances p p' \<and> wf_fexpr e'"
  using assms(1-5)
proof (induction k arbitrary: e p)
  case (Suc k)
  show ?case
  proof (cases "hasNext p")
    case False
    with Suc.prems show ?thesis by simp
  next
    case True
    obtain s t p1 e2 p2 where st: "nextTokenType p = Inr t" "nextToken p = Inr (s, p1)"
        "operand p1 = Inr (e2, p2)" "wf_fexpr e2" "fp_wf p2" "advances p p2" "remaining p2 < remaining p"
      using operand_step[OF Suc.prems(1) True Suc.prems(3) operand] by metis
    show ?thesis
    proof (cases "t = op")
      case t: True
      have "remaining p2 < k" "remaining p2 \<le> n" "wf_fexpr (BinaryOperation op e e2)"
        using st(4,7) Suc.prems by auto
      then obtain e' p' where "chainLoop k op operand (BinaryOperation op e e2) p2 = Inr (e', p')"
          "advances p2 p'" "wf_fexpr e'"
        using Suc.IH[OF st(5)] Suc.prems(5) by blast
      with t True st(1-3) advances_trans[OF st(6)] show ?thesis by auto
    next
      case False
      with True st(1) Suc.prems show ?thesis by simp
    qed
  qed
qed simp

lemma chain_ok:
  assumes operand: "\<And>q. fp_wf q \<Longrightarrow> remaining q \<le> n \<Longrightarrow> parse_ok q (operand q)"
    and "fp_wf p" and "remaining p \<le> n" and "op \<in> {T_AND, T_OR}"
  shows "parse_ok p (pbind (operand p) (\<lambda>(e, p1). chainLoop (Suc (remaining p1)) op operand e p1))"
proof -
  obtain e p1 where p1: "operand p = Inr (e, p1)" "advances p p1" "wf_fexpr e"
      "hasNext p \<longrightarrow> remaining p1 < remaining p"
    using operand[OF assms(2,3)] by (auto simp: parse_ok_def)
  have "fp_wf p1" "remaining p1 \<le> n"
    using advances_wf[OF assms(2) p1(2)] advances_remaining[OF p1(2)] assms(3) by simp_all
  then obtain e' p' where "chainLoop (Suc (remaining p1)) op operand e p1 = Inr (e', p')"
      "advances p1 p'" "wf_fexpr e'"
    using chainLoop_ok[of p1 "Suc (remaining p1)" e op operand] p1(3) assms(4) operand by auto
  then show ?thesis
    using p1 advances_trans[OF p1(2)] advances_remaining[of p1 p'] unfolding parse_ok_def by auto
qed

lemma parseAnd_ok:
  "fp_wf p \<Longrightarrow> remaining p \<le> n \<Longrightarrow> parse_ok p (parseAnd pe pv p)"
  unfolding parseAnd_def by (rule chain_ok[OF parseUnary_ok]) simp_all

lemma parseExpression_ok:
  assumes wf: "fp_wf p" and n: "remaining p \<le> n"
  shows "parse_ok p (parseExpression pe pv isTop p)"
proof -
  obtain e p' where r: "pbind (parseAnd pe pv p)
        (\<lambda>(e, p1). chainLoop (Suc (remaining p1)) T_OR (parseAnd pe pv) e p1) = Inr (e, p')"
      "advances p p'" "wf_fexpr e" "hasNext p \<longrightarrow> remaining p' < remaining p"
    using chain_ok[OF parseAnd_ok wf n, of T_OR] by (auto simp: parse_ok_def)
  then obtain e1 p1 where "parseAnd pe pv p = Inr (e1, p1)"
      "chainLoop (Suc (remaining p1)) T_OR (parseAnd pe pv) e1 p1 = Inr (e, p')"
    by (cases "parseAnd pe pv p") auto
  then show ?thesis
    using r(2-4) advances_errorLog_trans[OF wf r(2)] by (simp add: parseExpression_def parse_ok_def)
qed

end

text \<open>The model's own recursion keeps the contract at every depth.\<close>

lemma parse_levels_ok:
  "fp_wf p \<Longrightarrow> remaining p < n \<Longrightarrow>
   parse_ok p (parseExpressionF n isTop p) \<and> parse_ok p (parseValueF n p)"
proof (induction n arbitrary: p isTop)
  case (Suc n)
  then have interpret_level: "parser_contract (parseExpressionF n False) (parseValueF n) n"
    by unfold_locales auto
  show ?case
    using parser_contract.parseExpression_ok[OF interpret_level]
      parser_contract.parseValue_ok[OF interpret_level] Suc.prems by simp
qed simp

interpretation level: parser_contract "parseExpressionF n False" "parseValueF n" n for n
  by unfold_locales (use parse_levels_ok in blast)+

section \<open>The constructor\<close>

text \<open>\<open>explainIllType\<close>; the chained \<open>arg\<close> calls are those of the source.\<close>

definition explainIllType :: "qt_ops \<Rightarrow> fexpr \<Rightarrow> string \<Rightarrow> string" where
  "explainIllType qt expr message =
     argStr (argStr (''%1'' @ [CHR 0x0A, CHR 0x0A] @ ''Problem occurred here:'' @ [CHR 0x0A] @ ''%2'') message)
       (filterString qt expr)"

record filter_parser =
  fpr_text :: string
  fpr_state :: fparser
  fpr_builtExpression :: fexpr
  fpr_returnType :: ftype

definition fparser_init :: "string \<Rightarrow> fparser" where
  "fparser_init text = \<lparr>fp_tokenizer = Tokenizer text, fp_parseLog = [], fp_valid = True\<rparr>"

text \<open>The parsing part of the constructor, and its typing part.  The nesting depth is bounded by
  the number of tokens.\<close>

definition parseText :: "string \<Rightarrow> parse_result" where
  "parseText text = (let p = fparser_init text in parseExpressionF (Suc (remaining p)) True p)"

definition FilterParser :: "qt_ops \<Rightarrow> typing_context \<Rightarrow> string \<Rightarrow> parse_error + filter_parser" where
  "FilterParser qt typingContext text =
     pbind (parseText text) (\<lambda>(e, p).
     if \<not> fp_valid p
     then Inr \<lparr>fpr_text = text, fpr_state = p, fpr_builtExpression = e, fpr_returnType = TyBool\<rparr>
     else case synthesizeType qt e typingContext of
            IllTyped expr message \<Rightarrow>
              Inr \<lparr>fpr_text = text, fpr_state = errorLog p (explainIllType qt expr message),
                   fpr_builtExpression = e, fpr_returnType = TyBool\<rparr>
          | TypeClass t \<Rightarrow>
              Inr \<lparr>fpr_text = text, fpr_state = p, fpr_builtExpression = e, fpr_returnType = t\<rparr>)"

definition fpr_valid :: "filter_parser \<Rightarrow> bool" where
  "fpr_valid f = fp_valid (fpr_state f)"

definition fpr_errors :: "filter_parser \<Rightarrow> string list" where
  "fpr_errors f = fp_parseLog (fpr_state f)"

section \<open>The tokenizer's tokens are well formed\<close>

lemma dropWhile_hd: "\<not> P c \<Longrightarrow> dropWhile P (c # cs) = c # cs"
  by simp

lemma trimmed_hd: "\<not> isSpace c \<Longrightarrow> \<exists>r. trimmed (c # cs) = c # r"
proof -
  assume "\<not> isSpace c"
  then have "dropWhile isSpace (rev (c # cs)) = dropWhile isSpace (rev cs) @ [c]"
    by (induction "rev cs" rule: rev_induct) (auto simp: dropWhile_append)
  with \<open>\<not> isSpace c\<close> show ?thesis by (simp add: trimmed_def)
qed

lemma parseInteger_nonneg:
  assumes "\<not> isSpace c" and "c \<noteq> CHR ''-''" and "parseInteger (c # cs) = Some i"
  shows "0 \<le> i"
proof -
  obtain r where r: "trimmed (c # cs) = c # r" using trimmed_hd[OF assms(1)] by blast
  with assms(2,3) show ?thesis
    by (auto simp: parseInteger_def Let_def split: if_splits)
qed

lemma parseInteger_minus:
  assumes "parseInteger (CHR ''-'' # cs) = Some i"
  shows "\<exists>c \<in> set cs. isDigit c"
proof -
  have ns: "\<not> isSpace CHR ''-''" by (simp add: isSpace_def code_def)
  obtain r where r: "trimmed (CHR ''-'' # cs) = CHR ''-'' # r" using trimmed_hd[OF ns] by blast
  have "set (trimmed (CHR ''-'' # cs)) \<subseteq> set (CHR ''-'' # cs)"
    unfolding trimmed_def by (auto dest!: set_dropWhileD)
  with r have sub: "set r \<subseteq> set (CHR ''-'' # cs)" by auto
  from assms r have "r \<noteq> []" "list_all isDigit r"
    by (auto simp: parseInteger_def Let_def split: if_splits)
  then obtain c where "c \<in> set r" "isDigit c" by (cases r) auto
  with sub show ?thesis by (auto simp: isDigit_def code_def)
qed

lemma opLen_chars: "x \<in> set (take (opLen s) s) \<Longrightarrow> optEqChar x \<or> doubledChar x \<or> singleOpChar x \<or> x = CHR ''=''"
  by (cases s; cases "tl s") (auto simp: opLen_def split: if_splits)

lemma op_chars_not_digit:
  "optEqChar x \<or> doubledChar x \<or> singleOpChar x \<or> x = CHR ''='' \<Longrightarrow> \<not> isDigit x"
  by (auto simp: optEqChar_def doubledChar_def singleOpChar_def isDigit_def code_def)

lemma opRun_no_digit: "x \<in> set (take (opRun s) s) \<Longrightarrow> \<not> isDigit x"
proof (induction s rule: opRun.induct)
  case (1 s)
  show ?case
  proof (cases "opLen s = 0")
    case True
    with "1.prems" show ?thesis by (simp add: opRun.simps[of s])
  next
    case False
    have "take (opRun s) s = take (opLen s) s @ take (opRun (drop (opLen s) s)) (drop (opLen s) s)"
      using False by (simp add: opRun.simps[of s] take_add)
    with 1 False show ?thesis using opLen_chars op_chars_not_digit by fastforce
  qed
qed

lemma token_start_not_space:
  "optEqChar c \<Longrightarrow> \<not> isSpace c" "doubledChar c \<Longrightarrow> \<not> isSpace c" "singleOpChar c \<Longrightarrow> \<not> isSpace c"
  "bracketChar c \<Longrightarrow> \<not> isSpace c" "isIdentChar c \<Longrightarrow> \<not> isSpace c"
proof -
  show "optEqChar c \<Longrightarrow> \<not> isSpace c" by (auto simp: optEqChar_def isSpace_def code_def)
  show "doubledChar c \<Longrightarrow> \<not> isSpace c" by (auto simp: doubledChar_def isSpace_def code_def)
  show "singleOpChar c \<Longrightarrow> \<not> isSpace c" by (auto simp: singleOpChar_def isSpace_def code_def)
  show "bracketChar c \<Longrightarrow> \<not> isSpace c" by (auto simp: bracketChar_def isSpace_def code_def)
  have "\<not> isSpace CHR ''_''" "\<not> isSpace CHR ''.''" by (simp_all add: isSpace_def code_def)
  moreover have "\<not> isSpace c" if "65 \<le> code c \<and> code c \<le> 90 \<or> 97 \<le> code c \<and> code c \<le> 122"
    using that by (auto simp: isSpace_def)
  ultimately show "isIdentChar c \<Longrightarrow> \<not> isSpace c"
    unfolding isIdentChar_def using isDigit_not_isSpace by blast
qed

lemma matchToken_not_space:
  assumes "isSpace c"
  shows "matchToken (c # cs) = None"
proof -
  have q: "\<not> isSpace quote" "\<not> isSpace CHR ''r''" by (simp_all add: isSpace_def code_def quote_def)
  have "c \<noteq> quote" "c \<noteq> CHR ''r''" using assms q by blast+
  moreover have "\<not> isIdentChar c" "\<not> bracketChar c" using assms token_start_not_space by blast+
  moreover have "opLen (c # cs) = 0"
    using assms token_start_not_space[of c] by (auto simp: opLen_def)
  ultimately show ?thesis
    by (simp add: matchToken_def matchString_def strPrefix_def opRun.simps[of "c # cs"])
qed

lemma matchToken_minus:
  assumes "matchToken (CHR ''-'' # cs) = Some n"
  shows "\<forall>c \<in> set (take (n - 1) cs). \<not> isDigit c"
proof -
  have facts: "CHR ''-'' \<noteq> quote" "\<not> isIdentChar CHR ''-''" "\<not> bracketChar CHR ''-''"
    by (simp_all add: quote_def isIdentChar_def isDigit_def bracketChar_def code_def)
  then have n: "n = opRun (CHR ''-'' # cs)" "0 < n"
    using assms by (auto simp: matchToken_def matchString_def strPrefix_def Let_def split: if_splits)
  obtain k where "n = Suc k" using n(2) by (cases n) simp_all
  then have "set (take (n - 1) cs) \<subseteq> set (take n (CHR ''-'' # cs))" by auto
  with n(1) opRun_no_digit show ?thesis by blast
qed

lemma scanTokens_ok: "tok \<in> set (scanTokens s) \<Longrightarrow> token_ok tok (tokenize tok)"
proof (induction s rule: scanTokens.induct)
  case 1
  then show ?case by simp
next
  case (2 c cs)
  show ?case
  proof (cases "matchToken (c # cs)")
    case None
    with 2 show ?thesis by (simp add: scanTokens.simps(2))
  next
    case (Some n)
    have first: "token_ok (take n (c # cs)) (tokenize (take n (c # cs)))"
    proof (unfold token_ok_def, intro impI)
      assume "tokenize (take n (c # cs)) = T_INT"
      then obtain i where i: "toIntOk (take n (c # cs)) = Some i"
        by (auto simp: tokenize_def split: if_splits)
      then have pi: "parseInteger (c # take (n - 1) cs) = Some i"
        using matchToken_pos[OF Some] by (cases n) (auto simp: toIntOk_def split: option.splits if_splits)
      have "\<not> isSpace c" using Some matchToken_not_space by force
      moreover have "c \<noteq> CHR ''-''"
        using parseInteger_minus pi Some matchToken_minus by blast
      ultimately have "0 \<le> i" using parseInteger_nonneg pi by blast
      with i show "\<exists>i. toIntOk (take n (c # cs)) = Some i \<and> 0 \<le> i" by blast
    qed
    with 2 Some show ?thesis by (auto simp: scanTokens.simps(2))
  qed
qed

lemma Tokenizer_wf: "fp_wf (fparser_init s)"
  using scanTokens_ok[of _ s]
  by (simp add: fp_wf_def fparser_init_def Tokenizer_def list_all2_conv_all_nth)

lemma parseText_ok: "parse_ok (fparser_init s) (parseText s)"
  using parse_levels_ok[OF Tokenizer_wf, of s "Suc (remaining (fparser_init s))"]
  by (simp add: parseText_def Let_def)

end
