(* ===== verification/FilterRoundTrip.thy ===== *)
theory FilterRoundTrip
  imports FilterParser
begin

text \<open>
  The printer and the parser of the filter language against each other.

  \<open>printable\<close> are the trees whose literals survive the printer: no place marker of
  \<open>QString::arg\<close> inside, no backslash at the end.  For these \<open>filterString\<close> has the closed form
  \<open>printE\<close>, the tokenizer cuts it into \<open>toks\<close>, and the parser rebuilds the tree.
\<close>

section \<open>Printable trees\<close>

fun plain :: "string \<Rightarrow> bool" where
  "plain [] = True"
| "plain (c # cs) =
     ((c = CHR ''%'' \<longrightarrow> cs \<noteq> [] \<and> \<not> isDigit (hd cs) \<and> hd cs \<noteq> CHR ''L'') \<and> plain cs)"

definition literal_ok :: "string \<Rightarrow> bool" where
  "literal_ok s \<longleftrightarrow> plain (s @ [quote]) \<and> (s = [] \<or> last s \<noteq> backslash)"

definition printable_value :: "qvariant \<Rightarrow> token_type \<Rightarrow> bool" where
  "printable_value v type =
     (case type of
        T_INT \<Rightarrow> (case v of VInt i \<Rightarrow> 0 \<le> i \<and> i < 2 ^ 31 | _ \<Rightarrow> False)
      | STRING \<Rightarrow> (case v of VString s \<Rightarrow> literal_ok s | _ \<Rightarrow> False)
      | IDENTIFIER \<Rightarrow> (case v of VString s \<Rightarrow> s \<in> set validIdentifiers | _ \<Rightarrow> False)
      | _ \<Rightarrow> False)"

fun printable :: "fexpr \<Rightarrow> bool" where
  "printable (ValueExpression v type) = printable_value v type"
| "printable (RegexExpression p ci) = literal_ok p"
| "printable (ListExpression es) = (\<forall>e \<in> set es. printable e)"
| "printable (UnaryOperation op e) = (op = T_NOT \<and> printable e)"
| "printable (BinaryOperation op l r) =
     ((typeIsBinaryOp op \<or> typeIsMathOp op \<or> op \<in> {T_AND, T_OR}) \<and> printable l \<and> printable r)"

definition strLit :: "string \<Rightarrow> string" where
  "strLit s = quote # escapeQuotes s @ [quote]"

definition printValue :: "qvariant \<Rightarrow> token_type \<Rightarrow> string" where
  "printValue v type =
     (case v of VInt i \<Rightarrow> numberStr i
      | VString s \<Rightarrow> (if type = STRING then strLit s else s)
      | _ \<Rightarrow> '''')"

lemma printable_value_cases:
  assumes "printable_value v type"
  obtains (num) n where "v = VInt (int n)" "type = T_INT" "n < 2 ^ 31" "printValue v type = natDigits n"
    | (lit) s where "v = VString s" "type = STRING" "literal_ok s" "printValue v type = strLit s"
    | (ident) s where "v = VString s" "type = IDENTIFIER" "s \<in> set validIdentifiers" "printValue v type = s"
proof (cases "type \<in> {T_INT, STRING, IDENTIFIER}")
  case True
  then consider "type = T_INT" | "type = STRING" | "type = IDENTIFIER" by blast
  then show thesis
  proof cases
    case 1
    then obtain i where "v = VInt i" "0 \<le> i" "i < 2 ^ 31"
      using assms by (cases v) (simp_all add: printable_value_def)
    then show thesis by (intro num[of "nat i"]) (simp_all add: 1 printValue_def numberStr_def nat_less_iff)
  next
    case 2
    then obtain s where "v = VString s" "literal_ok s" using assms by (cases v) (simp_all add: printable_value_def)
    then show thesis by (intro lit[of s]) (simp_all add: 2 printValue_def)
  next
    case 3
    then obtain s where "v = VString s" "s \<in> set validIdentifiers"
      using assms by (cases v) (simp_all add: printable_value_def)
    then show thesis by (intro ident[of s]) (simp_all add: 3 printValue_def)
  qed
next
  case False
  then have "\<not> printable_value v type" by (cases type) (simp_all add: printable_value_def)
  with assms show thesis by blast
qed

definition printRegex :: "string \<Rightarrow> bool \<Rightarrow> string" where
  "printRegex p ci = (if ci then ''ri'' else ''r'') @ strLit p"

fun printE :: "fexpr \<Rightarrow> string" where
  "printE (ValueExpression v type) = printValue v type"
| "printE (RegexExpression p ci) = printRegex p ci"
| "printE (ListExpression es) = ''{'' @ joinStr '', '' (map printE es) @ ''}''"
| "printE (UnaryOperation op e) = ''(!'' @ printE e @ '')''"
| "printE (BinaryOperation op l r) = ''('' @ printE l @ '' '' @ opText op @ '' '' @ printE r @ '')''"

section \<open>Place markers\<close>

lemma markerAt_plain:
  assumes "plain (c # cs)"
  shows "markerAt (c # cs @ t) = None"
proof (cases "c = CHR ''%''")
  case True
  then obtain d ds where "cs = d # ds" "\<not> isDigit d" "d \<noteq> CHR ''L''"
    using assms by (cases cs) auto
  then show ?thesis by (simp add: markerAt_def digitsAt_def)
qed (simp add: markerAt_def)

lemma segments_plain: "plain s \<Longrightarrow> segments (s @ t) = map Lit s @ segments t"
  by (induction s) (auto simp: markerAt_plain)

lemma plain_append: "plain s \<Longrightarrow> plain t \<Longrightarrow> plain (s @ t)"
  by (induction s) (auto simp: hd_append)

lemma plain_no_percent: "CHR ''%'' \<notin> set s \<Longrightarrow> plain s"
  by (induction s) auto

lemma markerNumbers_simps [simp]:
  "markerNumbers [] = []" "markerNumbers (Lit c # r) = markerNumbers r"
  "markerNumbers (Marker k t # r) = k # markerNumbers r"
  "markerNumbers (map Lit s @ r) = markerNumbers r"
  "markerNumbers (map Lit s) = []"
proof -
  show "markerNumbers (map Lit s @ r) = markerNumbers r" for r
    by (induction s) (simp_all add: markerNumbers_def)
  then show "markerNumbers (map Lit s) = []"
    by (metis append_Nil2 concat.simps(1) list.simps(8) markerNumbers_def)
qed (simp_all add: markerNumbers_def)

lemma concat_Lit [simp]:
  "concat (map (\<lambda>x. case x of Lit c \<Rightarrow> [c] | Marker j t \<Rightarrow> f j t) (map Lit s)) = s"
  by (induction s) auto

lemma concat_Lit' [simp]:
  "concat (map ((\<lambda>x. case x of Lit c \<Rightarrow> [c] | Marker j t \<Rightarrow> f j t) \<circ> Lit) s) = s"
  by (induction s) auto

text \<open>The first marker of a text, numbered below the rest.\<close>

lemma argStr_step:
  assumes "plain u" and "segments t = Marker k m # rest" and "\<forall>j \<in> set (markerNumbers rest). k < j"
  shows "argStr (u @ t) a = u @ a @ concat (map (\<lambda>x. case x of Lit c \<Rightarrow> [c] | Marker j t \<Rightarrow> t) rest)"
proof -
  have fold: "fold min ks k = k" if "\<forall>j \<in> set ks. k < j" for ks
    using that by (induction ks) (auto simp: min_def)
  have keep: "concat (map (\<lambda>x. case x of Lit c \<Rightarrow> [c] | Marker j t \<Rightarrow> if j = k then a else t) rest)
       = concat (map (\<lambda>x. case x of Lit c \<Rightarrow> [c] | Marker j t \<Rightarrow> t) rest)"
    using assms(3) by (induction rest) (auto split: segment.splits)
  show ?thesis
    using segments_plain[OF assms(1), of t] assms(2) fold[OF assms(3)] keep
    by (simp add: argStr_def Let_def)
qed

lemma segments_text: "CHR ''%'' \<notin> set s \<Longrightarrow> segments s = map Lit s"
  using segments_plain[OF plain_no_percent, of s "[]"] by simp

lemma codes [simp]: "isDigit CHR ''1''" "isDigit CHR ''2''" "isDigit CHR ''3''"
  "digitVal CHR ''1'' = 1" "digitVal CHR ''2'' = 2" "digitVal CHR ''3'' = 3"
  "\<not> isDigit CHR '' ''" "\<not> isDigit CHR '')''" "\<not> isDigit quote" "\<not> isDigit CHR ''}''" "\<not> isDigit CHR ''%''"
  by (simp_all add: isDigit_def digitVal_def code_def quote_def)

lemma segments_formats:
  "segments (''%1'' @ [quote]) = [Marker 1 ''%1'', Lit quote]"
  "segments ''%1}'' = [Marker 1 ''%1'', Lit CHR ''}'']"
  "segments ''%1%2)'' = [Marker 1 ''%1'', Marker 2 ''%2'', Lit CHR '')'']"
  "segments ''%2)'' = [Marker 2 ''%2'', Lit CHR '')'']"
  "segments ''%1 %2 %3)'' = [Marker 1 ''%1'', Lit CHR '' '', Marker 2 ''%2'', Lit CHR '' '', Marker 3 ''%3'', Lit CHR '')'']"
  "segments ''%2 %3)'' = [Marker 2 ''%2'', Lit CHR '' '', Marker 3 ''%3'', Lit CHR '')'']"
  "segments ''%3)'' = [Marker 3 ''%3'', Lit CHR '')'']"
  "segments (''%1'' @ [quote] @ ''%2'' @ [quote]) = [Marker 1 ''%1'', Lit quote, Marker 2 ''%2'', Lit quote]"
  "segments (''%2'' @ [quote]) = [Marker 2 ''%2'', Lit quote]"
  by (simp_all add: markerAt_def digitsAt_def) (simp_all add: quote_def)

section \<open>The printer's closed form\<close>

lemma escapeQuotes_Cons:
  "escapeQuotes [] = []"
  "escapeQuotes (c # cs) = (if c = quote then [backslash, quote] else [c]) @ escapeQuotes cs"
  by (simp_all add: escapeQuotes_def)

lemma escapeQuotes_hd: "s \<noteq> [] \<Longrightarrow> hd (escapeQuotes s) = (if hd s = quote then backslash else hd s)"
  by (cases s) (simp_all add: escapeQuotes_Cons)

lemma escapeQuotes_Nil_iff [simp]: "escapeQuotes s = [] \<longleftrightarrow> s = []"
  by (cases s) (simp_all add: escapeQuotes_Cons)

lemma quote_consts [simp]:
  "quote \<noteq> backslash" "quote \<noteq> CHR ''%''" "backslash \<noteq> CHR ''%''" "quote \<noteq> CHR ''L''" "backslash \<noteq> CHR ''L''"
  "\<not> isDigit backslash" "CHR ''L'' \<noteq> backslash" "CHR ''L'' \<noteq> quote" "backslash \<noteq> quote"
  by (simp_all add: quote_def backslash_def isDigit_def code_def)

lemma plain_escapeQuotes: "plain (s @ [quote]) \<Longrightarrow> plain (escapeQuotes s @ [quote])"
proof (induction s)
  case (Cons c cs)
  have "hd (escapeQuotes cs @ [quote]) = hd (cs @ [quote]) \<or> hd (escapeQuotes cs @ [quote]) = backslash"
    using escapeQuotes_hd[of cs] by (cases "cs = []") (auto simp: hd_append)
  with Cons show ?case by (auto simp: escapeQuotes_Cons)
qed (simp add: escapeQuotes_Cons)

lemma plain_strLit: "literal_ok s \<Longrightarrow> plain (strLit s)"
  using plain_escapeQuotes by (simp add: literal_ok_def strLit_def)

lemma valid_identifiers_plain:
  "\<forall>s \<in> set validIdentifiers. s \<noteq> [] \<and> CHR ''%'' \<notin> set s \<and> list_all isIdentChar s"
  by (simp add: validIdentifiers_def VALID_IDENTIFIERS_MAP_def isIdentChar_def isDigit_def code_def)

lemma natDigits_no_percent: "CHR ''%'' \<notin> set (natDigits n)"
  using natDigits_digits[of n] by (auto simp: list_all_iff)

lemma numberStr_nonneg: "0 \<le> i \<Longrightarrow> numberStr i = natDigits (nat i)"
  by (simp add: numberStr_def)

lemma plain_opText:
  "typeIsBinaryOp op \<or> typeIsMathOp op \<or> op \<in> {T_AND, T_OR} \<Longrightarrow> plain (opText op @ '' '')"
  by (cases op) (simp_all add: opText_def typeIsBinaryOp_iff typeIsMathOp_iff)

lemma plain_joinStr: "\<forall>s \<in> set ss. plain s \<Longrightarrow> plain (joinStr '', '' ss)"
proof (induction ss rule: induct_list012)
  case (3 s t ss)
  have "plain ('', '' @ joinStr '', '' (t # ss))" using 3 by simp
  with 3 show ?case using plain_append by simp
qed simp_all

lemma printE_plain: "printable e \<Longrightarrow> plain (printE e)"
proof (induction e)
  case (ValueExpression v type)
  show ?case
  proof (cases "type = STRING")
    case True
    with ValueExpression plain_strLit show ?thesis
      by (auto simp: printable_value_def printValue_def split: qvariant.splits)
  next
    case False
    from ValueExpression have "printable_value v type" by simp
    then have "CHR ''%'' \<notin> set (printValue v type)"
      by (cases rule: printable_value_cases)
         (use False valid_identifiers_plain natDigits_no_percent in simp_all)
    then show ?thesis by (simp add: plain_no_percent)
  qed
next
  case (RegexExpression p ci)
  then show ?case using plain_strLit by (simp add: printRegex_def)
next
  case (ListExpression es)
  then have "plain (joinStr '', '' (map printE es))" by (intro plain_joinStr) auto
  then show ?case by (simp add: plain_append)
next
  case (UnaryOperation op e)
  then show ?case by (simp add: plain_append)
next
  case (BinaryOperation op l r)
  then have "plain (printE l)" "plain (printE r)" "plain (opText op @ '' '')"
    using plain_opText by auto
  then have "plain (printE l @ '' '' @ (opText op @ '' '') @ printE r @ '')'')"
    using plain_append[of "printE r" "'')''"] plain_append[of "opText op @ '' ''"]
      plain_append[of "printE l"] by simp
  then show ?case by simp
qed

lemma argStr_unary:
  "plain a \<Longrightarrow> argStr (argStr ''(%1%2)'' ''!'') a = ''(!'' @ a @ '')''"
  using argStr_step[of "''(''" "''%1%2)''" 1 "''%1''" "[Marker 2 ''%2'', Lit CHR '')'']" "''!''"]
    argStr_step[of "''(!''" "''%2)''" 2 "''%2''" "[Lit CHR '')'']" a] segments_formats by simp

lemma argStr_list: "argStr ''{%1}'' a = ''{'' @ a @ ''}''"
  using argStr_step[of "''{''" "''%1}''" 1 "''%1''" "[Lit CHR ''}'']" a] segments_formats by simp

lemma argStr_string: "argStr ([quote] @ ''%1'' @ [quote]) a = quote # a @ [quote]"
  using argStr_step[of "[quote]" "''%1'' @ [quote]" 1 "''%1''" "[Lit quote]" a] segments_formats by simp

lemma argStr_regex:
  assumes "p \<in> {''r'', ''ri''}"
  shows "argStr (argStr (''%1'' @ [quote] @ ''%2'' @ [quote]) p) a = p @ quote # a @ [quote]"
proof -
  have "plain (p @ [quote])" using assms by auto
  with argStr_step[of "[]" "''%1'' @ [quote] @ ''%2'' @ [quote]" 1 "''%1''"
      "[Lit quote, Marker 2 ''%2'', Lit quote]" p]
    argStr_step[of "p @ [quote]" "''%2'' @ [quote]" 2 "''%2''" "[Lit quote]" a]
  show ?thesis using segments_formats(8,9) by simp
qed

lemma argStr_binary:
  assumes "plain a" and "plain (b @ '' '')"
  shows "argStr (argStr (argStr ''(%1 %2 %3)'' a) b) c = ''('' @ a @ '' '' @ b @ '' '' @ c @ '')''"
proof -
  have "plain (''('' @ a @ '' '')" "plain (''('' @ a @ '' '' @ b @ '' '')"
    using assms plain_append[of a "'' '' @ b @ '' ''"] plain_append[of a "'' ''"] by simp_all
  with argStr_step[of "''(''" "''%1 %2 %3)''" 1 "''%1''"
      "[Lit CHR '' '', Marker 2 ''%2'', Lit CHR '' '', Marker 3 ''%3'', Lit CHR '')'']" a]
    argStr_step[of "''('' @ a @ '' ''" "''%2 %3)''" 2 "''%2''" "[Lit CHR '' '', Marker 3 ''%3'', Lit CHR '')'']" b]
    argStr_step[of "''('' @ a @ '' '' @ b @ '' ''" "''%3)''" 3 "''%3''" "[Lit CHR '')'']" c]
  show ?thesis using segments_formats(5-7) by simp
qed

context qt_variants
begin

lemma filterString_printE: "printable e \<Longrightarrow> filterString qt e = printE e"
proof (induction e)
  case (ValueExpression v type)
  then show ?case
    by (auto simp: printable_value_def printValue_def valueFilterString_def strLit_def argStr_string[simplified]
        split: qvariant.splits token_type.splits)
next
  case (RegexExpression p ci)
  then show ?case using argStr_regex[of "if ci then ''ri'' else ''r''" "escapeQuotes p"]
    by (simp add: regexFilterString_def printRegex_def strLit_def)
next
  case (ListExpression es)
  then have es: "map (filterString qt) es = map printE es" by simp
  show ?case unfolding filterString.simps printE.simps es argStr_list by simp
next
  case (UnaryOperation op e)
  then show ?case using argStr_unary[of "printE e"] printE_plain by (simp add: unaryText_def)
next
  case (BinaryOperation op l r)
  then show ?case using argStr_binary[of "printE l" "opText op" "printE r"] printE_plain plain_opText by simp
qed

end

section \<open>Tokens of the printed text\<close>

definition delim :: "string \<Rightarrow> bool" where
  "delim rest \<longleftrightarrow> rest = [] \<or> hd rest \<in> set '' )},''"

definition strTok :: "string \<Rightarrow> string \<Rightarrow> bool" where
  "strTok px s \<longleftrightarrow> px \<in> {[], ''r'', ''ri''} \<and> (s = [] \<or> last s \<noteq> backslash)"

lemma strBody_Cons:
  "strBody (quote # cs) = Some 1"
  "strBody (backslash # quote # ds) = (case strBody ds of Some n \<Rightarrow> Some (n + 2) | None \<Rightarrow> Some 2)"
  "c \<noteq> quote \<Longrightarrow> c \<noteq> backslash \<Longrightarrow> strBody (c # cs) = map_option Suc (strBody cs)"
  "cs \<noteq> [] \<Longrightarrow> hd cs \<noteq> quote \<Longrightarrow> strBody (backslash # cs) = map_option Suc (strBody cs)"
  by (cases cs; simp add: strBody.simps(2))+

lemma strBody_escaped:
  "s = [] \<or> last s \<noteq> backslash \<Longrightarrow>
   strBody (escapeQuotes s @ quote # rest) = Some (Suc (length (escapeQuotes s)))"
proof (induction s)
  case Nil
  then show ?case by (simp add: escapeQuotes_Cons strBody_Cons)
next
  case (Cons c cs)
  then have IH: "strBody (escapeQuotes cs @ quote # rest) = Some (Suc (length (escapeQuotes cs)))"
    by (auto split: if_splits)
  consider "c = quote" | "c = backslash" | "c \<noteq> quote" "c \<noteq> backslash" by blast
  then show ?case
  proof cases
    case 2
    with Cons.prems have ne: "cs \<noteq> []" by auto
    then have "hd (escapeQuotes cs @ quote # rest) \<noteq> quote"
      using escapeQuotes_hd[OF ne] by (simp add: hd_append)
    with 2 IH show ?thesis by (simp add: escapeQuotes_Cons strBody_Cons(4))
  qed (use IH in \<open>simp_all add: escapeQuotes_Cons strBody_Cons\<close>)
qed

lemma matchToken_string:
  assumes "strTok px s"
  shows "matchToken (px @ strLit s @ rest) = Some (length (px @ strLit s))"
proof -
  have k: "strPrefix (px @ strLit s @ rest) = Some (Suc (length px))"
    using assms by (auto simp: strTok_def strPrefix_def strLit_def quote_def)
  have "drop (Suc (length px)) (px @ strLit s @ rest) = escapeQuotes s @ quote # rest"
    by (simp add: strLit_def)
  with k strBody_escaped assms show ?thesis
    by (simp add: matchToken_def matchString_def strTok_def strLit_def)
qed

lemma scan_match:
  assumes "matchToken (w @ rest) = Some (length w)"
  shows "scanTokens (w @ rest) = w # scanTokens rest"
proof -
  have "w \<noteq> []" using matchToken_pos[OF assms] by auto
  then obtain c cs where "w = c # cs" by (cases w) auto
  with assms show ?thesis by (simp add: scanTokens.simps(2))
qed

lemma scan_string: "strTok px s \<Longrightarrow> scanTokens (px @ strLit s @ rest) = (px @ strLit s) # scanTokens rest"
  using matchToken_string[of px s rest] scan_match[of "px @ strLit s" rest] by simp

lemma scan_space: "scanTokens (CHR '' '' # rest) = scanTokens rest"
  by (simp add: scanTokens.simps(2) matchToken_not_space isSpace_def code_def)

lemma not_string_start:
  "c \<noteq> quote \<Longrightarrow> c \<noteq> CHR ''r'' \<Longrightarrow> matchString (c # cs) = None"
  by (simp add: matchString_def strPrefix_def)

lemma bracket_consts:
  assumes "bracketChar c"
  shows "c \<noteq> quote \<and> c \<noteq> CHR ''r'' \<and> \<not> isIdentChar c \<and> opLen (c # cs) = 0"
proof -
  have facts: "d \<noteq> quote \<and> d \<noteq> CHR ''r'' \<and> \<not> isIdentChar d \<and> \<not> optEqChar d \<and> \<not> doubledChar d \<and> \<not> singleOpChar d"
    if "d = CHR ''('' \<or> d = CHR '')'' \<or> d = CHR ''{'' \<or> d = CHR ''}'' \<or> d = CHR '',''" for d
    using that
    by (elim disjE) (simp_all add: isIdentChar_def isDigit_def code_def quote_def optEqChar_def
      doubledChar_def singleOpChar_def)
  have "c = CHR ''('' \<or> c = CHR '')'' \<or> c = CHR ''{'' \<or> c = CHR ''}'' \<or> c = CHR '',''"
    using assms by (simp add: bracketChar_def)
  from facts[OF this] show ?thesis by (simp add: opLen_def)
qed

lemma scan_bracket: "bracketChar c \<Longrightarrow> scanTokens (c # rest) = [c] # scanTokens rest"
  using bracket_consts[of c rest] scan_match[of "[c]" rest]
  by (simp add: matchToken_def not_string_start opRun.simps[of "c # rest"])

lemma startsWith_nth: "startsWith s p \<Longrightarrow> i < length p \<Longrightarrow> i < length s \<and> s ! i = p ! i"
  by (metis startsWith_def nth_take length_take min_less_iff_conj)

lemma scan_ident:
  assumes "w \<noteq> []" and "list_all isIdentChar w" and "delim rest"
  shows "scanTokens (w @ rest) = w # scanTokens rest"
proof -
  have ic: "\<not> isIdentChar quote" "\<not> isIdentChar CHR '' ''" "\<not> isIdentChar CHR '')''"
      "\<not> isIdentChar CHR ''}''" "\<not> isIdentChar CHR '',''"
    by (simp_all add: isIdentChar_def isDigit_def code_def quote_def)
  have rest_hd: "rest \<noteq> [] \<Longrightarrow> hd rest \<noteq> quote \<and> \<not> isIdentChar (hd rest)"
    using assms(3) ic by (auto simp: delim_def quote_def)
  have no_quote: "quote \<notin> set w" using assms(2) ic by (auto simp: list_all_iff)
  have len: "length (takeWhile isIdentChar (w @ rest)) = length w"
    using assms(2) rest_hd by (cases rest) (auto simp: list_all_iff takeWhile_append takeWhile_eq_all_conv[THEN iffD2])
  have "strPrefix (w @ rest) = None"
  proof -
    have nth: "(w @ rest) ! i \<noteq> quote" if "i \<le> length w" "i < length (w @ rest)" for i
      using that no_quote rest_hd by (cases "i < length w") (auto simp: nth_append hd_conv_nth in_set_conv_nth)
    have start: "\<not> startsWith (w @ rest) (p @ [quote])" if "length p \<le> length w" for p
      using startsWith_nth[of "w @ rest" "p @ [quote]" "length p"] nth[OF that] by auto
    show ?thesis
    proof (cases "length w = 1")
      case True
      then obtain c where c: "w = [c]" by (auto simp: length_Suc_conv)
      have "\<not> startsWith (w @ rest) [CHR ''r'', CHR ''i'', quote]"
        using assms(3) c by (cases rest) (auto simp: delim_def)
      with start[of "[]"] start[of "''r''"] True show ?thesis by (simp add: strPrefix_def)
    next
      case False
      with assms(1) have "2 \<le> length w" by (cases w; cases "tl w") auto
      with start[of "[]"] start[of "''r''"] start[of "''ri''"] show ?thesis by (simp add: strPrefix_def)
    qed
  qed
  with len assms(1) show ?thesis
    by (intro scan_match) (simp add: matchToken_def matchString_def)
qed

lemma op_consts: "isSpace CHR '' ''" "\<not> isIdentChar CHR '' ''" "opLen (CHR '' '' # r) = 0"
  by (simp_all add: isSpace_def code_def isIdentChar_def isDigit_def opLen_def optEqChar_def
      doubledChar_def singleOpChar_def)

lemma opLen_symbols:
  "opLen (CHR ''<'' # CHR ''='' # r) = 2" "opLen (CHR ''>'' # CHR ''='' # r) = 2" "opLen (CHR ''!'' # CHR ''='' # r) = 2"
  "opLen (CHR ''<'' # CHR '' '' # r) = 1" "opLen (CHR ''>'' # CHR '' '' # r) = 1"
  "opLen (CHR ''='' # CHR ''='' # r) = 2" "opLen (CHR ''&'' # CHR ''&'' # r) = 2" "opLen (CHR ''|'' # CHR ''|'' # r) = 2"
  "opLen (CHR ''+'' # r) = 1" "opLen (CHR ''-'' # r) = 1" "opLen (CHR ''*'' # r) = 1" "opLen (CHR ''/'' # r) = 1"
  "opLen (CHR ''%'' # r) = 1"
  by (simp_all add: opLen_def optEqChar_def doubledChar_def singleOpChar_def)

lemma symbol_start:
  "\<forall>c \<in> set ''<>!=&|+-*/%''. c \<noteq> quote \<and> c \<noteq> CHR ''r'' \<and> \<not> isIdentChar c"
  by (simp add: quote_def isIdentChar_def isDigit_def code_def)

lemma scan_symbols:
  assumes "c \<in> set ''<>!=&|+-*/%''" and "opRun (c # cs @ rest) = Suc (length cs)"
  shows "scanTokens (c # cs @ rest) = (c # cs) # scanTokens rest"
  using scan_match[of "c # cs" rest] assms(2) symbol_start[rule_format, OF assms(1)]
  by (simp add: matchToken_def not_string_start)

lemma opRun_step: "opLen s = Suc k \<Longrightarrow> opRun s = Suc k + opRun (drop (Suc k) s)"
  by (simp add: opRun.simps[of s])

lemma opRun_0: "opLen s = 0 \<Longrightarrow> opRun s = 0"
  by (simp add: opRun.simps[of s])

lemma opRun_space: "opRun (CHR '' '' # r) = 0"
  by (simp add: opRun_0 op_consts)

lemma words_ident:
  "list_all isIdentChar ''contains'' \<and> list_all isIdentChar ''startswith'' \<and>
   list_all isIdentChar ''endswith'' \<and> list_all isIdentChar ''match''"
  by (simp add: isIdentChar_def isDigit_def code_def)

lemma scan_op:
  assumes "typeIsBinaryOp op \<or> typeIsMathOp op \<or> op \<in> {T_AND, T_OR}"
  shows "scanTokens (opText op @ CHR '' '' # rest) = opText op # scanTokens rest"
proof -
  have delim: "delim (CHR '' '' # rest)" by (simp add: delim_def)
  have words: "scanTokens (w @ CHR '' '' # rest) = w # scanTokens rest"
    if "w \<in> {''contains'', ''startswith'', ''endswith'', ''match''}" for w
    using that scan_ident[OF _ _ delim, of w] words_ident by (auto simp: scan_space)
  have one: "scanTokens (c # CHR '' '' # rest) = [c] # scanTokens rest"
    if "c \<in> set ''<>+-*/%''" for c
  proof -
    have "opLen (c # CHR '' '' # rest) = Suc 0" using that opLen_symbols by auto
    then show ?thesis
      using scan_symbols[of c "[]" "CHR '' '' # rest"] opRun_step[of "c # CHR '' '' # rest" 0] that
      by (auto simp: opRun_space scan_space)
  qed
  have two: "scanTokens (c # d # CHR '' '' # rest) = [c, d] # scanTokens rest"
    if "d = CHR ''='' \<and> c \<in> set ''<>!'' \<or> d = c \<and> c \<in> set ''=&|''" for c d
  proof -
    have "opLen (c # d # CHR '' '' # rest) = Suc 1" using that opLen_symbols by auto
    moreover have "c \<in> set ''<>!=&|+-*/%''" using that by auto
    ultimately show ?thesis
      using scan_symbols[of c "[d]" "CHR '' '' # rest"] opRun_step[of "c # d # CHR '' '' # rest" 1]
      by (auto simp: opRun_space scan_space)
  qed
  from assms have "opText op \<in> {''contains'', ''startswith'', ''endswith'', ''match''}
      \<or> (\<exists>c. opText op = [c] \<and> c \<in> set ''<>+-*/%'')
      \<or> (\<exists>c d. opText op = [c, d] \<and> (d = CHR ''='' \<and> c \<in> set ''<>!'' \<or> d = c \<and> c \<in> set ''=&|''))"
    by (cases op) (simp_all add: opText_def typeIsBinaryOp_iff typeIsMathOp_iff)
  then consider "opText op \<in> {''contains'', ''startswith'', ''endswith'', ''match''}"
    | c where "opText op = [c]" "c \<in> set ''<>+-*/%''"
    | c d where "opText op = [c, d]" "d = CHR ''='' \<and> c \<in> set ''<>!'' \<or> d = c \<and> c \<in> set ''=&|''"
    by blast
  then show ?thesis
    by cases (use words one two in \<open>simp_all only: append_Cons append_Nil\<close>)
qed

lemma scan_not:
  assumes "rest \<noteq> []" and "hd rest \<noteq> CHR ''=''" and "opLen rest = 0"
  shows "scanTokens (CHR ''!'' # rest) = ''!'' # scanTokens rest"
proof -
  have "opLen (CHR ''!'' # rest) = Suc 0"
    using assms by (cases rest) (auto simp: opLen_def optEqChar_def)
  then show ?thesis
    using scan_symbols[of "CHR ''!''" "[]" rest] opRun_step[of "CHR ''!'' # rest" 0] opRun_0[OF assms(3)] by simp
qed

text \<open>The tokens of a printed tree.\<close>

fun commaToks :: "string list list \<Rightarrow> string list" where
  "commaToks [] = []"
| "commaToks [t] = t"
| "commaToks (t # u # ts) = t @ '','' # commaToks (u # ts)"

fun toks :: "fexpr \<Rightarrow> string list" where
  "toks (ValueExpression v type) = [printValue v type]"
| "toks (RegexExpression p ci) = [printRegex p ci]"
| "toks (ListExpression es) = ''{'' # commaToks (map toks es) @ [''}'']"
| "toks (UnaryOperation op e) = ''('' # ''!'' # toks e @ ['')'']"
| "toks (BinaryOperation op l r) = ''('' # toks l @ opText op # toks r @ ['')'']"

lemma brackets: "bracketChar CHR ''(''" "bracketChar CHR '')''" "bracketChar CHR ''{''"
  "bracketChar CHR ''}''" "bracketChar CHR '',''"
  by (simp_all add: bracketChar_def)

lemma printE_start:
  assumes "printable e"
  shows "printE e \<noteq> [] \<and> hd (printE e) \<noteq> CHR ''='' \<and> opLen (printE e @ rest) = 0"
proof -
  have no_op: "opLen (c # cs) = 0 \<and> c \<noteq> CHR ''=''" if "isIdentChar c \<or> c = quote \<or> bracketChar c" for c cs
  proof -
    have "\<not> isIdentChar d \<and> d \<noteq> quote \<and> \<not> bracketChar d" if "optEqChar d \<or> doubledChar d \<or> singleOpChar d" for d
      using that by (auto simp: optEqChar_def doubledChar_def singleOpChar_def isIdentChar_def isDigit_def
          code_def quote_def bracketChar_def)
    with that show ?thesis by (auto simp: opLen_def doubledChar_def)
  qed
  have "\<exists>c cs. printE e = c # cs \<and> (isIdentChar c \<or> c = quote \<or> bracketChar c)"
  proof (cases e)
    case (ValueExpression v type)
    have digits: "natDigits n \<noteq> [] \<and> isDigit (hd (natDigits n))" for n
      using natDigits_digits[of n] by (cases "natDigits n") (auto simp: list_all_iff)
    have idents: "s \<in> set validIdentifiers \<Longrightarrow> s \<noteq> [] \<and> isIdentChar (hd s)" for s
      using valid_identifiers_plain by (cases s) (auto simp: list_all_iff)
    from assms ValueExpression have "printable_value v type" by simp
    then have "printE e \<noteq> [] \<and> (isIdentChar (hd (printE e)) \<or> hd (printE e) = quote)"
      by (cases rule: printable_value_cases)
         (use ValueExpression digits idents in \<open>simp_all add: strLit_def isIdentChar_def\<close>)
    then show ?thesis by (cases "printE e") auto
  next
    case (RegexExpression p ci)
    have "isIdentChar CHR ''r''" by (simp add: isIdentChar_def code_def)
    with RegexExpression show ?thesis by (auto simp: printRegex_def)
  qed (use brackets in auto)
  then obtain c cs where c: "printE e = c # cs" "isIdentChar c \<or> c = quote \<or> bracketChar c" by blast
  with no_op[OF c(2)] show ?thesis by simp
qed

lemma scan_value:
  assumes "printable_value v type" and "delim rest"
  shows "scanTokens (printValue v type @ rest) = printValue v type # scanTokens rest"
proof -
  have digits: "list_all isIdentChar (natDigits n)" for n
    using natDigits_digits[of n] by (auto simp: list_all_iff isIdentChar_def)
  have str: "strTok [] s" if "literal_ok s" for s using that by (simp add: strTok_def literal_ok_def)
  from assms(1) show ?thesis
  proof (cases rule: printable_value_cases)
    case (num n)
    then show ?thesis using scan_ident[OF _ digits assms(2)] by simp
  next
    case (lit s)
    then show ?thesis using scan_string[OF str, of s rest] by simp
  next
    case (ident s)
    then show ?thesis using scan_ident[OF _ _ assms(2)] valid_identifiers_plain by simp
  qed
qed

lemma scan_printE:
  "printable e \<Longrightarrow> delim rest \<Longrightarrow> scanTokens (printE e @ rest) = toks e @ scanTokens rest"
proof (induction e arbitrary: rest)
  case (ValueExpression v type)
  then show ?case by (simp add: scan_value)
next
  case (RegexExpression p ci)
  then have "strTok (if ci then ''ri'' else ''r'') p" by (simp add: strTok_def literal_ok_def)
  from scan_string[OF this, of rest] show ?case by (simp add: printRegex_def)
next
  case (ListExpression es)
  have "scanTokens (joinStr '', '' (map printE es') @ ''}'' @ rest) = commaToks (map toks es') @ ''}'' # scanTokens rest"
    if "set es' \<subseteq> set es" for es'
    using that
  proof (induction es' rule: induct_list012)
    case 1
    then show ?case by (simp add: scan_bracket brackets)
  next
    case (2 e)
    then have "scanTokens (printE e @ ''}'' @ rest) = toks e @ scanTokens (''}'' @ rest)"
      using ListExpression by (intro ListExpression.IH) (auto simp: delim_def)
    then show ?case by (simp add: scan_bracket brackets)
  next
    case (3 e f es')
    let ?r = "'', '' @ joinStr '', '' (map printE (f # es')) @ ''}'' @ rest"
    have "scanTokens (printE e @ ?r) = toks e @ scanTokens ?r"
      using ListExpression 3 by (intro ListExpression.IH) (auto simp: delim_def)
    with 3 show ?case by (simp add: scan_bracket brackets scan_space)
  qed
  then show ?case by (simp add: scan_bracket brackets)
next
  case (UnaryOperation op e)
  then have "scanTokens (printE e @ '')'' @ rest) = toks e @ scanTokens ('')'' @ rest)"
    by (intro UnaryOperation.IH) (auto simp: delim_def)
  moreover have "scanTokens (CHR ''!'' # printE e @ '')'' @ rest) = ''!'' # scanTokens (printE e @ '')'' @ rest)"
    using printE_start[of e "'')'' @ rest"] UnaryOperation.prems by (intro scan_not) auto
  ultimately show ?case by (simp add: scan_bracket brackets)
next
  case (BinaryOperation op l r)
  let ?r = "'' '' @ opText op @ '' '' @ printE r @ '')'' @ rest"
  have "scanTokens (printE l @ ?r) = toks l @ scanTokens ?r"
      "scanTokens (printE r @ '')'' @ rest) = toks r @ scanTokens ('')'' @ rest)"
    using BinaryOperation.prems by (auto simp: delim_def intro!: BinaryOperation.IH)
  then show ?case
    using scan_op[of op] BinaryOperation.prems by (simp add: scan_bracket brackets scan_space)
qed

section \<open>The types of the tokens\<close>

lemma tokenize_identifiers: "\<forall>s \<in> set validIdentifiers. tokenize s = IDENTIFIER"
  by (simp add: validIdentifiers_def VALID_IDENTIFIERS_MAP_def tokenize_def quote_def)

lemma tokenize_op:
  "typeIsBinaryOp op \<or> typeIsMathOp op \<or> op \<in> {T_AND, T_OR} \<Longrightarrow> tokenize (opText op) = op"
  by (cases op) (simp_all add: opText_def typeIsBinaryOp_iff typeIsMathOp_iff tokenize_def)

lemma tokenize_brackets [simp]:
  "tokenize ''('' = LP" "tokenize '')'' = RP" "tokenize ''{'' = LIST_START" "tokenize ''}'' = LIST_END"
  "tokenize '','' = COMMA" "tokenize ''!'' = T_NOT"
  by (simp_all add: tokenize_def)

lemma head_neq: "s \<noteq> [] \<Longrightarrow> hd s \<noteq> c \<Longrightarrow> s \<noteq> c # cs"
  by auto

lemma tokenize_strLit: "tokenize (strLit s) = STRING"
  by (simp add: tokenize_def strLit_def) (simp add: quote_def)

lemma tokenize_regex: "tokenize (printRegex p ci) = REGULAR_EXPRESSION"
  by (simp add: tokenize_def printRegex_def strLit_def)

lemma tokenize_natDigits:
  assumes "n < 2 ^ 31"
  shows "tokenize (natDigits n) = T_INT"
proof -
  obtain d ds where d: "natDigits n = d # ds" "isDigit d"
    using natDigits_digits[of n] by (cases "natDigits n") auto
  have letters: "\<forall>c \<in> set ''&|(){},+-*/=!%<>acsemfr''. \<not> isDigit c" by (simp add: isDigit_def code_def)
  then have neq: "d \<noteq> c" if "c \<in> set ''&|(){},+-*/=!%<>acsemfr''" for c using that d(2) by blast
  have "\<forall>s \<in> set validIdentifiers. hd s \<in> set ''acfmr''"
    by (simp add: validIdentifiers_def VALID_IDENTIFIERS_MAP_def)
  then have "natDigits n \<in> set validIdentifiers \<Longrightarrow> d \<in> set ''acfmr''" using d(1) by (metis list.sel(1))
  moreover have "\<forall>c \<in> set ''acfmr''. \<not> isDigit c" by (simp add: isDigit_def code_def)
  ultimately have "natDigits n \<notin> set validIdentifiers" using d(2) by blast
  moreover have "d \<noteq> quote" using d(2) by auto
  moreover have "toIntOk (natDigits n) = Some (int n)" using assms by simp
  ultimately show ?thesis
    using d(1) neq by (simp add: tokenize_def)
qed

lemma tokenize_value: "printable_value v type \<Longrightarrow> tokenize (printValue v type) = type"
  by (erule printable_value_cases) (simp_all add: tokenize_identifiers tokenize_strLit tokenize_natDigits)

lemma unquote_strLit:
  "unquote 1 (strLit s) = s" "unquote (Suc (length px)) (px @ strLit s) = s"
proof -
  have inv: "replaceAll [backslash, quote] [quote] (escapeQuotes s) = s" for s
  proof (induction s)
    case (Cons c cs)
    have "\<not> startsWith (escapeQuotes cs) [quote]"
      using escapeQuotes_hd[of cs] by (cases "cs = []"; cases "escapeQuotes cs") (auto simp: escapeQuotes_Cons(1) split: if_splits)
    with Cons show ?case by (auto simp: escapeQuotes_Cons)
  qed (simp add: escapeQuotes_Cons)
  have "chop (escapeQuotes s @ [quote]) 1 = escapeQuotes s" by (simp add: chop_def)
  with inv show "unquote 1 (strLit s) = s" "unquote (Suc (length px)) (px @ strLit s) = s"
    by (simp_all add: unquote_def midFrom_def strLit_def)
qed

section \<open>The parser on the tokens of a printed tree\<close>

definition skip :: "nat \<Rightarrow> fparser \<Rightarrow> fparser" where
  "skip n p = p\<lparr>fp_tokenizer := (fp_tokenizer p)\<lparr>tk_i := tk_i (fp_tokenizer p) + n\<rparr>\<rparr>"

definition stream :: "fparser \<Rightarrow> string list \<Rightarrow> bool" where
  "stream p ts \<longleftrightarrow> tk_types (fp_tokenizer p) = map tokenize (tk_tokens (fp_tokenizer p))
     \<and> tk_i (fp_tokenizer p) \<le> length (tk_tokens (fp_tokenizer p))
     \<and> drop (tk_i (fp_tokenizer p)) (tk_tokens (fp_tokenizer p)) = ts"

lemma skip_skip [simp]: "skip m (skip n p) = skip (n + m) p"
  by (simp add: skip_def add.assoc)

lemma skip_valid [simp]: "fp_valid (skip n p) = fp_valid p"
  by (simp add: skip_def)

lemma stream_remaining: "stream p ts \<Longrightarrow> remaining p = length ts"
  by (auto simp: stream_def remaining_def)

lemma stream_Nil: "stream p [] \<Longrightarrow> \<not> hasNext p"
  by (simp add: stream_def hasNext_def tk_hasNext_def)

lemma stream_skip: "stream p (ts @ rest) \<Longrightarrow> stream (skip (length ts) p) rest"
proof -
  assume "stream p (ts @ rest)"
  then have s: "tk_types (fp_tokenizer p) = map tokenize (tk_tokens (fp_tokenizer p))"
      "tk_i (fp_tokenizer p) \<le> length (tk_tokens (fp_tokenizer p))"
      "drop (tk_i (fp_tokenizer p)) (tk_tokens (fp_tokenizer p)) = ts @ rest"
    by (simp_all add: stream_def)
  from arg_cong[OF s(3), of length] arg_cong[OF s(3), of "drop (length ts)"] s(1,2)
  show ?thesis by (simp add: stream_def skip_def add.commute)
qed

lemma stream_Cons:
  assumes "stream p (t # ts)"
  shows "hasNext p" "nextTokenType p = Inr (tokenize t)" "nextToken p = Inr (t, skip 1 p)"
    "stream (skip 1 p) ts" "tk_tokenType (fp_tokenizer (skip 1 p)) = Inr (tokenize t)"
proof -
  let ?i = "tk_i (fp_tokenizer p)" and ?xs = "tk_tokens (fp_tokenizer p)"
  have s: "tk_types (fp_tokenizer p) = map tokenize ?xs" "drop ?i ?xs = t # ts"
    using assms by (simp_all add: stream_def)
  from s(2) have i: "?i < length ?xs" by (metis drop_eq_Nil leI list.distinct(1))
  then have t: "?xs ! ?i = t" using s(2) by (metis Cons_nth_drop_Suc list.inject)
  show "hasNext p" "nextTokenType p = Inr (tokenize t)" "nextToken p = Inr (t, skip 1 p)"
    "tk_tokenType (fp_tokenizer (skip 1 p)) = Inr (tokenize t)"
    using i t s(1)
    by (simp_all add: hasNext_def tk_hasNext_def nextTokenType_def tk_nextTokenType_def tk_at_def
        nextToken_def tk_next_def skip_def tk_tokenType_def Let_def)
  show "stream (skip 1 p) ts" using stream_skip[of p "[t]" ts] assms by simp
qed

text \<open>Where an operand ends.\<close>

definition stops :: "string list \<Rightarrow> token_type set \<Rightarrow> bool" where
  "stops rest T \<longleftrightarrow> rest = [] \<or> tokenize (hd rest) \<in> T"

lemma conditionLoop_stop:
  assumes "stream q rest" and "stops rest {RP, T_AND, T_OR}"
  shows "conditionLoop (Suc k) f v q = Inr (v, q)"
proof (cases rest)
  case Nil
  then show ?thesis using stream_Nil assms(1) by simp
next
  case (Cons t ts)
  with assms(2) have "tokenize t \<in> {RP, T_AND, T_OR}" by (simp add: stops_def)
  with Cons stream_Cons[of q t ts] assms(1) show ?thesis
    by (auto simp: typeIsBinaryOp_iff typeIsMathOp_iff typeIsOp_iff)
qed

lemma chainLoop_stop:
  assumes "stream q rest" and "stops rest T" and "op \<notin> T"
  shows "chainLoop (Suc k) op f v q = Inr (v, q)"
proof (cases rest)
  case Nil
  then show ?thesis using stream_Nil assms(1) by simp
next
  case (Cons t ts)
  with assms(2,3) have "tokenize t \<noteq> op" by (auto simp: stops_def)
  with Cons stream_Cons[of q t ts] assms(1) show ?thesis by simp
qed

lemma stops_mono: "stops rest T \<Longrightarrow> T \<subseteq> T' \<Longrightarrow> stops rest T'"
  by (auto simp: stops_def)

lemma parseCondition_value:
  assumes "stream p (t # ts)"
  shows "parseCondition pe pv p = pbind (parseValue pe pv p)
    (\<lambda>(value, p1). conditionLoop (Suc (remaining p1)) (parseValue pe pv) value p1)"
  using stream_Cons[OF assms] by (simp add: parseCondition_def parseValue_def)

text \<open>An operand at the front of the stream that \<open>parseValue\<close> reads.\<close>

definition operand_at ::
  "(fparser \<Rightarrow> parse_result) \<Rightarrow> (fparser \<Rightarrow> parse_result) \<Rightarrow> fparser \<Rightarrow> fexpr \<Rightarrow> fparser \<Rightarrow> string list \<Rightarrow> bool" where
  "operand_at pe pv p e q rest \<longleftrightarrow> (\<exists>t ts. stream p (t # ts) \<and> tokenize t \<noteq> T_NOT)
     \<and> parseValue pe pv p = Inr (e, q) \<and> stream q rest"

lemma parseUnary_operand:
  assumes "operand_at pe pv p e q rest" and "stops rest {RP, T_AND, T_OR}"
  shows "parseUnary pe pv p = Inr (e, q)"
proof -
  from assms(1) obtain t ts where p: "stream p (t # ts)" "tokenize t \<noteq> T_NOT"
    and val: "parseValue pe pv p = Inr (e, q)" and q: "stream q rest"
    by (auto simp: operand_at_def)
  show ?thesis
    using stream_Cons[OF p(1)] p(2) parseCondition_value[OF p(1), of pe pv] conditionLoop_stop[OF q assms(2)] val
    by (simp add: parseUnary_def)
qed

lemma parseAnd_operand:
  assumes "operand_at pe pv p e q rest" and "stops rest {RP, T_OR}"
  shows "parseAnd pe pv p = Inr (e, q)"
proof -
  have "stream q rest" using assms(1) by (simp add: operand_at_def)
  then show ?thesis
    using parseUnary_operand[OF assms(1)] chainLoop_stop[of q rest "{RP, T_OR}" T_AND] assms(2)
      stops_mono[of rest "{RP, T_OR}" "{RP, T_AND, T_OR}"]
    by (simp add: parseAnd_def)
qed

lemma parseExpression_operand:
  assumes "operand_at pe pv p e q []"
  shows "parseExpression pe pv isTop p = Inr (e, q)"
proof -
  have "stream q []" using assms by (simp add: operand_at_def)
  then show ?thesis
    using parseAnd_operand[OF assms] chainLoop_stop[of q "[]" "{}" T_OR] stream_Nil
    by (simp add: parseExpression_def stops_def)
qed

text \<open>The inside of a parenthesis: one operand behind \<open>!\<close>, or two around an operator.\<close>

lemma parseExpression_not:
  assumes "stream p (''!'' # ts)" and op: "operand_at pe pv (skip 1 p) e q rest" and "stops rest {RP}" and "rest \<noteq> []"
  shows "parseExpression pe pv False p = Inr (UnaryOperation T_NOT e, q)"
proof -
  from op have q: "stream q rest" by (simp add: operand_at_def)
  from op obtain t ts where "stream (skip 1 p) (t # ts)" "parseValue pe pv (skip 1 p) = Inr (e, q)"
    by (auto simp: operand_at_def)
  then have "parseCondition pe pv (skip 1 p) = Inr (e, q)"
    using parseCondition_value conditionLoop_stop[OF q] stops_mono[OF assms(3), of "{RP, T_AND, T_OR}"] by simp
  then have "parseUnary pe pv p = Inr (UnaryOperation T_NOT e, q)"
    using stream_Cons[OF assms(1)] by (simp add: parseUnary_def)
  then show ?thesis
    using chainLoop_stop[OF q assms(3), of T_AND] chainLoop_stop[OF q assms(3), of T_OR]
    by (simp add: parseAnd_def parseExpression_def)
qed

lemma parseExpression_binary:
  assumes op: "typeIsBinaryOp op \<or> typeIsMathOp op \<or> op \<in> {T_AND, T_OR}"
    and l: "operand_at pe pv p l q (opText op # ts)"
    and r: "operand_at pe pv (skip 1 q) r q' rest" and rest: "stops rest {RP}" "rest \<noteq> []"
  shows "parseExpression pe pv False p = Inr (BinaryOperation op l r, q')"
proof -
  from l obtain t ts' where p: "stream p (t # ts')" "tokenize t \<noteq> T_NOT"
    and lval: "parseValue pe pv p = Inr (l, q)" and q: "stream q (opText op # ts)"
    by (auto simp: operand_at_def)
  from r have q': "stream q' rest" and rval: "parseValue pe pv (skip 1 q) = Inr (r, q')"
    by (auto simp: operand_at_def)
  note op_tok = stream_Cons[OF q] tokenize_op[OF op]
  have stop: "stops rest {RP, T_OR}" "stops rest {RP, T_AND, T_OR}"
    using stops_mono[OF rest(1)] by auto
  note ends = conditionLoop_stop[OF q' stop(2)] chainLoop_stop[OF q' rest(1)]
  have more: "\<exists>k. remaining q = Suc k" using stream_remaining[OF q] by simp
  consider "typeIsBinaryOp op" | "typeIsMathOp op" "\<not> typeIsBinaryOp op" | "op = T_AND" | "op = T_OR"
    using op by blast
  then show ?thesis
  proof cases
    case 1
    then have "parseUnary pe pv p = Inr (BinaryOperation op l r, q')"
      using op_tok p stream_Cons[OF p(1)] parseCondition_value[OF p(1), of pe pv] lval rval
      by (simp add: parseUnary_def)
    then show ?thesis using ends by (simp add: parseAnd_def parseExpression_def)
  next
    case 2
    then have "parseUnary pe pv p = Inr (BinaryOperation op l r, q')"
      using op_tok p stream_Cons[OF p(1)] parseCondition_value[OF p(1), of pe pv] lval rval ends more
      by (auto simp: parseUnary_def)
    then show ?thesis using ends by (simp add: parseAnd_def parseExpression_def)
  next
    case 3
    then have "stops (opText op # ts) {RP, T_AND, T_OR}" using op_tok by (simp add: stops_def)
    then have "parseUnary pe pv p = Inr (l, q)" using parseUnary_operand[OF l] by simp
    moreover have "parseUnary pe pv (skip 1 q) = Inr (r, q')" using parseUnary_operand[OF r stop(2)] .
    ultimately have "parseAnd pe pv p = Inr (BinaryOperation op l r, q')"
      using op_tok ends more 3 by (auto simp: parseAnd_def)
    then show ?thesis using ends by (simp add: parseExpression_def)
  next
    case 4
    then have "stops (opText op # ts) {RP, T_OR}" using op_tok by (simp add: stops_def)
    then have "parseAnd pe pv p = Inr (l, q)" using parseAnd_operand[OF l] by simp
    moreover have "parseAnd pe pv (skip 1 q) = Inr (r, q')" using parseAnd_operand[OF r stop(1)] .
    ultimately show ?thesis
      using op_tok ends more 4 by (auto simp: parseExpression_def)
  qed
qed

lemma parseParentheses_closed:
  assumes "stream p (''('' # ts)" and "pe (skip 1 p) = Inr (e, q)" and "stream q ('')'' # rest)"
  shows "parseParentheses pe p = Inr (e, skip 1 q)"
  using stream_Cons[OF assms(1)] stream_Cons[OF assms(3)] assms(2) by (simp add: parseParentheses_def)

text \<open>The elements of a list after the first one.\<close>

definition moreToks :: "fexpr list \<Rightarrow> string list" where
  "moreToks es = concat (map (\<lambda>e. '','' # toks e) es)"

lemma commaToks_Cons: "commaToks (map toks (e # es)) = toks e @ moreToks es"
proof (induction es arbitrary: e)
  case (Cons f es)
  then show ?case by (simp add: moreToks_def)
qed (simp add: moreToks_def)

definition reads :: "(fparser \<Rightarrow> parse_result) \<Rightarrow> fexpr \<Rightarrow> bool" where
  "reads pv e \<longleftrightarrow> (\<forall>p rest. stream p (toks e @ rest) \<longrightarrow> pv p = Inr (e, skip (length (toks e)) p))"

lemma listLoop_more:
  assumes "\<forall>e \<in> set es. reads pv e" and "stream p (moreToks es @ ''}'' # rest)" and "length es < k"
  shows "listLoop k pv acc False p = Inr (Some (acc @ es), skip (Suc (length (moreToks es))) p)"
  using assms
proof (induction es arbitrary: k acc p)
  case Nil
  then obtain k' where "k = Suc k'" by (cases k) auto
  moreover have "stream p (''}'' # rest)" using Nil(2) by (simp add: moreToks_def)
  ultimately show ?case using stream_Cons[of p "''}''" rest] by (simp add: moreToks_def)
next
  case (Cons e es)
  then obtain k' where k: "k = Suc k'" by (cases k) auto
  let ?rest = "moreToks es @ ''}'' # rest"
  have p: "stream p ('','' # toks e @ ?rest)" using Cons.prems(2) by (simp add: moreToks_def)
  note comma = stream_Cons[OF p]
  have "pv (skip 1 p) = Inr (e, skip (length (toks e)) (skip 1 p))"
    using Cons.prems(1) comma(4) by (auto simp: reads_def)
  moreover have "stream (skip (Suc (length (toks e))) p) ?rest" using stream_skip[OF comma(4)] by simp
  then have "listLoop k' pv (acc @ [e]) False (skip (Suc (length (toks e))) p)
      = Inr (Some ((acc @ [e]) @ es), skip (Suc (length (moreToks es))) (skip (Suc (length (toks e))) p))"
    using Cons.prems(1,3) k by (intro Cons.IH) auto
  ultimately show ?case
    using comma k by (simp add: moreToks_def add.assoc)
qed

lemma toks_start:
  assumes "printable e"
  obtains t ts where "toks e = t # ts"
    and "tokenize t \<in> {T_INT, STRING, IDENTIFIER, REGULAR_EXPRESSION, LP, LIST_START}"
proof (cases e)
  case (ValueExpression v type)
  then show ?thesis using assms that tokenize_value[of v type]
    by (auto simp: printable_value_def split: token_type.splits)
qed (use that tokenize_regex in auto)

lemma moreToks_length: "length es \<le> length (moreToks es)"
  by (induction es) (simp_all add: moreToks_def)

lemma parseList_reads:
  assumes es: "\<forall>e \<in> set es. reads pv e \<and> printable e" and p: "stream p (toks (ListExpression es) @ rest)"
  shows "parseList pv p = Inr (ListExpression es, skip (length (toks (ListExpression es))) p)"
proof (cases es)
  case Nil
  with p have p': "stream p (''{'' # ''}'' # rest)" by simp
  note start = stream_Cons[OF p']
  note close = stream_Cons[OF start(4)]
  show ?thesis using start close Nil by (simp add: parseList_def numeral_2_eq_2)
next
  case (Cons e es')
  then have p': "stream p (''{'' # toks e @ moreToks es' @ ''}'' # rest)"
    using p commaToks_Cons[of e es'] by simp
  note start = stream_Cons[OF p']
  obtain t ts where t: "toks e = t # ts"
      "tokenize t \<in> {T_INT, STRING, IDENTIFIER, REGULAR_EXPRESSION, LP, LIST_START}"
    using toks_start[of e] es Cons by auto
  have first: "hasNext (skip 1 p)" "nextTokenType (skip 1 p) = Inr (tokenize t)"
    using stream_Cons[of "skip 1 p" t] start(4) t(1) by auto
  have e: "pv (skip 1 p) = Inr (e, skip (Suc (length (toks e))) p)"
    using es Cons start(4) by (auto simp: reads_def)
  have q: "stream (skip (Suc (length (toks e))) p) (moreToks es' @ ''}'' # rest)"
    using stream_skip[OF start(4)] by simp
  have "length es' < remaining (skip 1 p)"
    using stream_remaining[OF start(4)] moreToks_length[of es'] t(1) by simp
  then have "listLoop (remaining (skip 1 p)) pv [e] False (skip (Suc (length (toks e))) p)
      = Inr (Some ([e] @ es'), skip (Suc (length (moreToks es'))) (skip (Suc (length (toks e))) p))"
    using es Cons by (intro listLoop_more[OF _ q]) auto
  then have "listLoop (Suc (remaining (skip 1 p))) pv [] True (skip 1 p)
      = Inr (Some es, skip (Suc (length (moreToks es')) + Suc (length (toks e))) p)"
    using first e t(2) Cons by (auto simp: add.commute)
  then show ?thesis
    using start commaToks_Cons[of e es'] Cons by (simp add: parseList_def add.commute)
qed

lemma parseValue_reads: "printable e \<Longrightarrow> length (toks e) \<le> n \<Longrightarrow> reads (parseValueF n) e"
proof (induction e arbitrary: n)
  case (ValueExpression v type)
  then obtain m where n: "n = Suc m" by (cases n) auto
  have ty: "tokenize (printValue v type) = type" using ValueExpression tokenize_value by simp
  have "parseValueF n p = Inr (ValueExpression v type, skip 1 p)"
    if p: "stream p (printValue v type # rest)" for p rest
  proof -
    from ValueExpression.prems have "printable_value v type" by simp
    then show ?thesis
      by (cases rule: printable_value_cases)
         (use stream_Cons[OF p] ty n unquote_strLit(1) in \<open>auto simp: parseValue_def\<close>)
  qed
  then show ?case by (simp add: reads_def)
next
  case (RegexExpression r ci)
  then obtain m where n: "n = Suc m" by (cases n) auto
  have ci: "startsWith (printRegex r ci) ''ri'' = ci" by (simp add: printRegex_def strLit_def quote_def)
  have un: "unquote (if ci then 3 else 2) (printRegex r ci) = r"
    using unquote_strLit(2)[of "if ci then ''ri'' else ''r''" r] by (cases ci) (auto simp: printRegex_def numeral_2_eq_2 numeral_3_eq_3)
  have "parseValueF n p = Inr (RegexExpression r ci, skip 1 p)"
    if p: "stream p (printRegex r ci # rest)" for p rest
    using stream_Cons[OF p] tokenize_regex n ci un by (simp add: parseValue_def Let_def)
  then show ?case by (simp add: reads_def)
next
  case (ListExpression es)
  then obtain m where n: "n = Suc m" by (cases n) auto
  have len: "length (toks e) \<le> length (commaToks (map toks es))" if "e \<in> set es" for e
    using that by (induction es rule: induct_list012) auto
  have "\<forall>e \<in> set es. reads (parseValueF m) e \<and> printable e"
    using ListExpression n len by fastforce
  then have "parseValueF n p = Inr (ListExpression es, skip (length (toks (ListExpression es))) p)"
    if p: "stream p (toks (ListExpression es) @ rest)" for p rest
    using parseList_reads[OF _ p] stream_Cons[of p "''{''"] p n by (simp add: parseValue_def)
  then show ?case by (simp add: reads_def)
next
  case (UnaryOperation op e)
  then obtain m where n: "n = Suc (Suc m)" by (cases n; cases "n - 1") auto
  have IH: "reads (parseValueF (Suc m)) e" using UnaryOperation n by simp
  obtain t ts where t: "toks e = t # ts"
      "tokenize t \<in> {T_INT, STRING, IDENTIFIER, REGULAR_EXPRESSION, LP, LIST_START}"
    using toks_start UnaryOperation.prems by auto
  have "parseValueF n p = Inr (UnaryOperation op e, skip (length (toks e) + 3) p)"
    if p: "stream p (''('' # ''!'' # toks e @ '')'' # rest)" for p rest
  proof -
    note lp = stream_Cons[OF p]
    note no = stream_Cons[OF lp(4)]
    let ?q = "skip (length (toks e)) (skip 1 (skip 1 p))"
    have q: "stream ?q ('')'' # rest)" using stream_skip[OF no(4)] .
    have "operand_at (parseExpressionF m False) (parseValueF m) (skip 1 (skip 1 p)) e ?q ('')'' # rest)"
      using IH no(4) q t by (auto simp: operand_at_def reads_def)
    then have "parseExpressionF (Suc m) False (skip 1 p) = Inr (UnaryOperation T_NOT e, ?q)"
      using parseExpression_not[OF lp(4)] by (simp add: stops_def)
    from parseParentheses_closed[where pe = "parseExpressionF (Suc m) False", OF p this q] lp n UnaryOperation.prems
    show ?thesis by (simp add: parseValue_def numeral_3_eq_3)
  qed
  then show ?case by (simp add: reads_def numeral_3_eq_3)
next
  case (BinaryOperation op l r)
  then obtain m where n: "n = Suc (Suc m)" by (cases n; cases "n - 1") auto
  have IH: "reads (parseValueF (Suc m)) l" "reads (parseValueF (Suc m)) r" using BinaryOperation n by simp_all
  obtain t ts where t: "toks l = t # ts"
      "tokenize t \<in> {T_INT, STRING, IDENTIFIER, REGULAR_EXPRESSION, LP, LIST_START}"
    using toks_start[of l] BinaryOperation.prems by auto
  obtain u us where u: "toks r = u # us"
      "tokenize u \<in> {T_INT, STRING, IDENTIFIER, REGULAR_EXPRESSION, LP, LIST_START}"
    using toks_start[of r] BinaryOperation.prems by auto
  have op: "typeIsBinaryOp op \<or> typeIsMathOp op \<or> op \<in> {T_AND, T_OR}" using BinaryOperation.prems by simp
  have "parseValueF n p = Inr (BinaryOperation op l r, skip (length (toks l) + length (toks r) + 3) p)"
    if p: "stream p (''('' # toks l @ opText op # toks r @ '')'' # rest)" for p rest
  proof -
    note lp = stream_Cons[OF p]
    let ?q = "skip (length (toks l)) (skip 1 p)" and ?q' = "skip (length (toks r)) (skip 1 (skip (length (toks l)) (skip 1 p)))"
    have q: "stream ?q (opText op # toks r @ '')'' # rest)" using stream_skip[OF lp(4)] .
    note opt = stream_Cons[OF q]
    have q': "stream ?q' ('')'' # rest)" using stream_skip[OF opt(4)] .
    have "operand_at (parseExpressionF m False) (parseValueF m) (skip 1 p) l ?q (opText op # toks r @ '')'' # rest)"
      using IH(1) lp(4) q t by (auto simp: operand_at_def reads_def)
    moreover have "operand_at (parseExpressionF m False) (parseValueF m) (skip 1 ?q) r ?q' ('')'' # rest)"
      using IH(2) opt(4) q' u by (auto simp: operand_at_def reads_def)
    ultimately have "parseExpressionF (Suc m) False (skip 1 p) = Inr (BinaryOperation op l r, ?q')"
      using parseExpression_binary[OF op] by (simp add: stops_def)
    from parseParentheses_closed[where pe = "parseExpressionF (Suc m) False", OF p this q'] lp n
    show ?thesis by (simp add: parseValue_def numeral_3_eq_3 ac_simps)
  qed
  then show ?case by (simp add: reads_def numeral_3_eq_3)
qed

lemma parseText_printE:
  assumes "printable e"
  shows "\<exists>p. parseText (printE e) = Inr (e, p) \<and> fp_valid p \<and> \<not> hasNext p"
proof -
  let ?p = "fparser_init (printE e)" and ?n = "length (toks e)"
  have "scanTokens (printE e) = toks e"
    using scan_printE[OF assms, of "[]"] by (simp add: delim_def)
  then have p: "stream ?p (toks e @ [])" by (simp add: stream_def fparser_init_def Tokenizer_def)
  obtain t ts where t0: "toks e = t # ts"
      "tokenize t \<in> {T_INT, STRING, IDENTIFIER, REGULAR_EXPRESSION, LP, LIST_START}"
    using toks_start[OF assms] by blast
  then have t: "toks e = t # ts" "tokenize t \<noteq> T_NOT" by auto
  have "parseValueF (Suc ?n) ?p = Inr (e, skip ?n ?p)"
    using parseValue_reads[OF assms, of "Suc ?n"] p unfolding reads_def by (meson lessI less_imp_le)
  then have "operand_at (parseExpressionF ?n False) (parseValueF ?n) ?p e (skip ?n ?p) []"
    using stream_skip[OF p] p t by (auto simp: operand_at_def)
  from parseExpression_operand[OF this, of True] stream_remaining[OF p]
  have "parseText (printE e) = Inr (e, skip ?n ?p)" by (simp add: parseText_def Let_def)
  then show ?thesis using stream_Nil[OF stream_skip[OF p]] by (simp add: fparser_init_def)
qed

section \<open>Properties\<close>

text \<open>C2. The filter parser is total: on every input text it returns, without reading past the last
  token and without a failed assertion, a tree the grammar can build.  It reports an error exactly
  when it is not valid, and a valid parser has read the whole text and typed the tree with the
  type it returns.\<close>

theorem filter_parser_total:
  "\<exists>f. FilterParser qt \<Gamma> input = Inr f \<and> wf_fexpr (fpr_builtExpression f)
     \<and> (fpr_valid f \<longleftrightarrow> fpr_errors f = [])
     \<and> (fpr_valid f \<longrightarrow> \<not> hasNext (fpr_state f)
          \<and> synthesizeType qt (fpr_builtExpression f) \<Gamma> = TypeClass (fpr_returnType f))"
proof -
  obtain e p where p: "parseText input = Inr (e, p)" "advances (fparser_init input) p" "wf_fexpr e"
    using parseText_ok[of input] by (auto simp: parse_ok_def)
  have "fp_valid p \<Longrightarrow> \<not> hasNext p"
    using p(1) by (auto simp: parseText_def Let_def parseExpression_def pbind_def errorLog_def
        split: sum.splits if_splits)
  with p show ?thesis
    by (auto simp: FilterParser_def fpr_valid_def fpr_errors_def advances_def errorLog_def
        split: possible_type.split)
qed

theorem filter_parser_total_witness:
  "\<exists>f. FilterParser simple_qt Map.empty (printE (ValueExpression (VInt 1) T_INT)) = Inr f
     \<and> \<not> hasNext (fpr_state f)
     \<and> synthesizeType simple_qt (fpr_builtExpression f) Map.empty = TypeClass (fpr_returnType f)"
proof -
  let ?e = "ValueExpression (VInt 1) T_INT"
  have "printable ?e" by (simp add: printable_value_def)
  from parseText_printE[OF this] obtain p where p: "parseText (printE ?e) = Inr (?e, p)" "fp_valid p" by blast
  have "\<exists>f. FilterParser simple_qt Map.empty (printE ?e) = Inr f \<and> fpr_valid f"
    using p by (simp add: FilterParser_def fpr_valid_def synthValue_def)
  with filter_parser_total[of simple_qt Map.empty "printE ?e"] show ?thesis by fastforce
qed

text \<open>C3. Printing and parsing a printable filter are inverse: the text that \<open>filterString\<close> prints for a printable
  tree that is well typed is a valid filter that parses to this tree again, with its type.  Printable
  (\<open>printable\<close>) are the trees with the operators of the grammar, known identifiers, integers from 0 below \<open>2^31\<close>, and
  string and regular expression literals that hold no place marker of \<open>QString::arg\<close> (a percent sign followed by a digit or L)
  and end with no backslash; \<open>filterString_place_marker\<close> shows what a place marker does to the printed text.\<close>

theorem filterString_parses_back:
  assumes "qt_variants qt" and "printable e" and "synthesizeType qt e \<Gamma> = TypeClass t"
  shows "\<exists>f. FilterParser qt \<Gamma> (filterString qt e) = Inr f \<and> fpr_valid f
     \<and> fpr_builtExpression f = e \<and> fpr_returnType f = t"
proof -
  obtain p where "parseText (filterString qt e) = Inr (e, p)" "fp_valid p"
    using parseText_printE[OF assms(2)] qt_variants.filterString_printE[OF assms(1,2)] by auto
  with assms(3) show ?thesis by (simp add: FilterParser_def fpr_valid_def)
qed

theorem filterString_parses_back_witness:
  "\<exists>f. FilterParser simple_qt [''author.name'' \<mapsto> TyString]
         (filterString simple_qt (BinaryOperation T_EQ (ValueExpression (VString ''author.name'') IDENTIFIER)
                                   (ValueExpression (VString ''a'') STRING))) = Inr f
     \<and> fpr_valid f \<and> fpr_returnType f = TyBool"
proof -
  let ?e = "BinaryOperation T_EQ (ValueExpression (VString ''author.name'') IDENTIFIER)
              (ValueExpression (VString ''a'') STRING)"
  have "printable ?e"
    by (simp add: printable_value_def literal_ok_def typeIsBinaryOp_iff validIdentifiers_def
        VALID_IDENTIFIERS_MAP_def backslash_def)
  moreover have "synthesizeType simple_qt ?e [''author.name'' \<mapsto> TyString] = TypeClass TyBool"
    by (simp add: synthValue_def synthBinary_def)
  ultimately show ?thesis
    using filterString_parses_back[OF simple_qt.qt_variants_axioms] by blast
qed

text \<open>Without the restriction on place markers the printed text can mean another filter: the
  filter \<open>"%3" == author.name\<close> is printed as \<open>("author.name" == author.name)\<close>, because the
  chained \<open>arg\<close> calls replace the \<open>%3\<close> of the literal as well.\<close>

theorem filterString_place_marker:
  assumes "qt_variants qt"
  shows "filterString qt (BinaryOperation T_EQ (ValueExpression (VString ''%3'') STRING)
                            (ValueExpression (VString ''author.name'') IDENTIFIER))
     = filterString qt (BinaryOperation T_EQ (ValueExpression (VString ''author.name'') STRING)
                            (ValueExpression (VString ''author.name'') IDENTIFIER))"
proof -
  have lit: "filterString qt (ValueExpression (VString s) STRING) = strLit s"
      "filterString qt (ValueExpression (VString s) IDENTIFIER) = s" for s
    using argStr_string qt_variants.to_same(3)[OF assms]
    by (simp_all add: valueFilterString_def strLit_def)
  have seg: "segments [CHR ''('', quote, CHR ''%'', CHR ''3'', quote, CHR '' '', CHR ''%'', CHR ''2'', CHR '' '', CHR ''%'', CHR ''3'', CHR '')'']
      = [Lit CHR ''('', Lit quote, Marker 3 ''%3'', Lit quote, Lit CHR '' '', Marker 2 ''%2'', Lit CHR '' '', Marker 3 ''%3'', Lit CHR '')'']"
    by (simp add: markerAt_def digitsAt_def)
  have seg': "segments [CHR ''('', quote, CHR ''%'', CHR ''3'', quote, CHR '' '', CHR ''='', CHR ''='', CHR '' '', CHR ''%'', CHR ''3'', CHR '')'']
      = [Lit CHR ''('', Lit quote, Marker 3 ''%3'', Lit quote, Lit CHR '' '', Lit CHR ''='', Lit CHR ''='', Lit CHR '' '', Marker 3 ''%3'', Lit CHR '')'']"
    by (simp add: markerAt_def digitsAt_def)
  have "strLit ''%3'' = [quote, CHR ''%'', CHR ''3'', quote]"
    by (simp add: strLit_def escapeQuotes_Cons) (simp add: quote_def)
  then have "filterString qt (BinaryOperation T_EQ (ValueExpression (VString ''%3'') STRING)
        (ValueExpression (VString ''author.name'') IDENTIFIER))
      = ''('' @ quote # ''author.name'' @ quote # '' == author.name)''"
    using lit argStr_step[of "''(''" "''%1 %2 %3)''" 1 "''%1''" "[Lit CHR '' '', Marker 2 ''%2'', Lit CHR '' '',
        Marker 3 ''%3'', Lit CHR '')'']" "strLit ''%3''"] segments_formats(5) seg seg'
    by (simp add: opText_def argStr_def Let_def min_def)
  moreover have "strLit ''author.name'' = quote # ''author.name'' @ [quote]"
    by (simp add: strLit_def escapeQuotes_Cons) (simp add: quote_def)
  moreover have "plain (quote # ''author.name'' @ [quote])" by simp
  ultimately show ?thesis
    using lit argStr_binary[of "quote # ''author.name'' @ [quote]" "''==''" "''author.name''"]
    by (simp add: opText_def)
qed

theorem filterString_place_marker_witness:
  "filterString simple_qt (BinaryOperation T_EQ (ValueExpression (VString ''%3'') STRING)
                            (ValueExpression (VString ''author.name'') IDENTIFIER))
     = filterString simple_qt (BinaryOperation T_EQ (ValueExpression (VString ''author.name'') STRING)
                            (ValueExpression (VString ''author.name'') IDENTIFIER))"
  using filterString_place_marker[OF simple_qt.qt_variants_axioms] .

end
