(* ===== verification/Messages.thy ===== *)
theory Messages
  imports FilterTypes "HOL-Library.Word" "HOL-Library.Option_ord"
begin

unbundle bit_operations_syntax

text \<open>
  Flags and messages: \<open>src/common/FlagsEnum.hpp\<close>, \<open>src/messages/MessageFlag.hpp\<close>,
  \<open>src/messages/Message.hpp\<close>, \<open>Message.cpp\<close> and \<open>MessageThread.cpp\<close>.

  A flag set is the 64-bit word of the underlying integer.  Messages and threads are shared
  objects with mutable members, so they live in a heap addressed by \<open>ptr\<close>; a
  \<open>shared_ptr\<close> is a pointer, equality of \<open>shared_ptr\<close>s is equality of pointers.
\<close>

section \<open>Flag sets\<close>

type_synonym flags = "64 word"

datatype message_flag =
    NoFlag | System | Timeout | Highlighted | DoNotTriggerNotification | Centered | Disabled
  | DisableCompactEmotes | Collapsed | ConnectedMessage | DisconnectedMessage | Untimeout | PubSub
  | Subscription | DoNotLog | AutoMod | RecentMessage | Whisper | HighlightedWhisper | Debug | Similar
  | RedeemedHighlight | RedeemedChannelPointReward | ShowInMentions | FirstMessage | ReplyMessage
  | ElevatedMessage | SubscribedThread | CheerMessage | LiveUpdatesAdd | LiveUpdatesRemove
  | LiveUpdatesUpdate | AutoModOffendingMessageHeader | AutoModOffendingMessage | LowTrustUsers
  | RestrictedMessage | MonitoredMessage | Action | SharedMessage | AutoModBlockedTerm | ClearChat
  | EventSub | ModerationAction | InvalidReplyTarget | WatchStreak

fun flagBit :: "message_flag \<Rightarrow> nat option" where
  "flagBit NoFlag = None"
| "flagBit System = Some 0"
| "flagBit Timeout = Some 1"
| "flagBit Highlighted = Some 2"
| "flagBit DoNotTriggerNotification = Some 3"
| "flagBit Centered = Some 4"
| "flagBit Disabled = Some 5"
| "flagBit DisableCompactEmotes = Some 6"
| "flagBit Collapsed = Some 7"
| "flagBit ConnectedMessage = Some 8"
| "flagBit DisconnectedMessage = Some 9"
| "flagBit Untimeout = Some 10"
| "flagBit PubSub = Some 11"
| "flagBit Subscription = Some 12"
| "flagBit DoNotLog = Some 13"
| "flagBit AutoMod = Some 14"
| "flagBit RecentMessage = Some 15"
| "flagBit Whisper = Some 16"
| "flagBit HighlightedWhisper = Some 17"
| "flagBit Debug = Some 18"
| "flagBit Similar = Some 19"
| "flagBit RedeemedHighlight = Some 20"
| "flagBit RedeemedChannelPointReward = Some 21"
| "flagBit ShowInMentions = Some 22"
| "flagBit FirstMessage = Some 23"
| "flagBit ReplyMessage = Some 24"
| "flagBit ElevatedMessage = Some 25"
| "flagBit SubscribedThread = Some 26"
| "flagBit CheerMessage = Some 27"
| "flagBit LiveUpdatesAdd = Some 28"
| "flagBit LiveUpdatesRemove = Some 29"
| "flagBit LiveUpdatesUpdate = Some 30"
| "flagBit AutoModOffendingMessageHeader = Some 31"
| "flagBit AutoModOffendingMessage = Some 32"
| "flagBit LowTrustUsers = Some 33"
| "flagBit RestrictedMessage = Some 34"
| "flagBit MonitoredMessage = Some 35"
| "flagBit Action = Some 36"
| "flagBit SharedMessage = Some 37"
| "flagBit AutoModBlockedTerm = Some 38"
| "flagBit ClearChat = Some 39"
| "flagBit EventSub = Some 40"
| "flagBit ModerationAction = Some 41"
| "flagBit InvalidReplyTarget = Some 42"
| "flagBit WatchStreak = Some 43"

definition flagValue :: "message_flag \<Rightarrow> flags" where
  "flagValue f = (case flagBit f of None \<Rightarrow> 0 | Some n \<Rightarrow> push_bit n 1)"

text \<open>The constructor and the members of \<open>FlagsEnum\<close>.\<close>

definition flagsOf :: "message_flag list \<Rightarrow> flags" where
  "flagsOf fs = foldr (OR) (map flagValue fs) 0"

definition fl_set :: "flags \<Rightarrow> flags \<Rightarrow> flags" where
  "fl_set v fs = v OR fs"

definition fl_unset :: "flags \<Rightarrow> flags \<Rightarrow> flags" where
  "fl_unset v fs = v AND NOT fs"

definition fl_setTo :: "flags \<Rightarrow> message_flag \<Rightarrow> bool \<Rightarrow> flags" where
  "fl_setTo v f b = (if b then fl_set v (flagValue f) else fl_unset v (flagValue f))"

definition fl_has :: "flags \<Rightarrow> message_flag \<Rightarrow> bool" where
  "fl_has v f \<longleftrightarrow> v AND flagValue f \<noteq> 0"

definition fl_hasAny :: "flags \<Rightarrow> flags \<Rightarrow> bool" where
  "fl_hasAny v fs \<longleftrightarrow> v AND fs \<noteq> 0"

definition fl_hasAll :: "flags \<Rightarrow> flags \<Rightarrow> bool" where
  "fl_hasAll v fs \<longleftrightarrow> v AND fs = fs"

definition fl_hasNone :: "flags \<Rightarrow> flags \<Rightarrow> bool" where
  "fl_hasNone v fs \<longleftrightarrow> v AND fs = 0"

definition fl_isEmpty :: "flags \<Rightarrow> bool" where
  "fl_isEmpty v \<longleftrightarrow> v = 0"

subsection \<open>Flag by flag\<close>

definition flagOfBit :: "nat \<Rightarrow> message_flag" where
  "flagOfBit n = [System, Timeout, Highlighted, DoNotTriggerNotification, Centered, Disabled,
     DisableCompactEmotes, Collapsed, ConnectedMessage, DisconnectedMessage, Untimeout, PubSub,
     Subscription, DoNotLog, AutoMod, RecentMessage, Whisper, HighlightedWhisper, Debug, Similar,
     RedeemedHighlight, RedeemedChannelPointReward, ShowInMentions, FirstMessage, ReplyMessage,
     ElevatedMessage, SubscribedThread, CheerMessage, LiveUpdatesAdd, LiveUpdatesRemove,
     LiveUpdatesUpdate, AutoModOffendingMessageHeader, AutoModOffendingMessage, LowTrustUsers,
     RestrictedMessage, MonitoredMessage, Action, SharedMessage, AutoModBlockedTerm, ClearChat,
     EventSub, ModerationAction, InvalidReplyTarget, WatchStreak] ! n"

lemma flagOfBit_flagBit: "flagBit f = Some n \<Longrightarrow> flagOfBit n = f \<and> n < 44"
  by (cases f) (auto simp: flagOfBit_def)

lemma flagBit_inject: "flagBit f = Some n \<Longrightarrow> flagBit g = Some n \<longleftrightarrow> f = g"
  using flagOfBit_flagBit by metis

lemma flagBit_None: "flagBit f = None \<longleftrightarrow> f = NoFlag"
  by (cases f) simp_all

lemma push_bit_one_bit: "n < 64 \<Longrightarrow> bit (2 ^ n :: flags) k \<longleftrightarrow> k = n"
  by (auto simp: bit_exp_iff possible_bit_word)

lemma and_push_bit: "n < 64 \<Longrightarrow> v AND push_bit n (1 :: flags) = 0 \<longleftrightarrow> \<not> bit v n"
proof
  assume n: "n < 64" and "v AND push_bit n 1 = 0"
  then have "\<not> bit (v AND push_bit n (1 :: flags)) n" by simp
  with n show "\<not> bit v n" by (simp add: bit_and_iff push_bit_one_bit)
next
  assume n: "n < 64" and "\<not> bit v n"
  then show "v AND push_bit n (1 :: flags) = 0"
    by (intro bit_word_eqI) (auto simp: bit_and_iff push_bit_one_bit)
qed

lemma fl_has_bit: "fl_has v f \<longleftrightarrow> (case flagBit f of None \<Rightarrow> False | Some n \<Rightarrow> bit v n)"
  using flagOfBit_flagBit[of f] and_push_bit
  by (auto simp: fl_has_def flagValue_def split: option.split)

lemma bit_flagValue: "flagBit g = Some n \<Longrightarrow> bit (flagValue f) n \<longleftrightarrow> f = g"
  using flagOfBit_flagBit[of f] flagOfBit_flagBit[of g]
  by (auto simp: flagValue_def push_bit_one_bit split: option.split)

lemma bit_flagsOf: "flagBit g = Some n \<Longrightarrow> bit (flagsOf fs) n \<longleftrightarrow> g \<in> set fs"
  by (induction fs) (auto simp: flagsOf_def bit_or_iff bit_flagValue)

lemma fl_has_NoFlag [simp]: "\<not> fl_has v NoFlag"
  by (simp add: fl_has_bit)

lemma fl_has_set: "fl_has (fl_set v (flagsOf fs)) g \<longleftrightarrow> fl_has v g \<or> (g \<in> set fs \<and> g \<noteq> NoFlag)"
  by (cases "flagBit g") (auto simp: fl_has_bit fl_set_def bit_or_iff bit_flagsOf flagBit_None)

lemma fl_has_unset: "fl_has (fl_unset v (flagsOf fs)) g \<longleftrightarrow> fl_has v g \<and> g \<notin> set fs"
proof (cases "flagBit g")
  case (Some n)
  then have "n < 64" using flagOfBit_flagBit[of g] by auto
  with Some show ?thesis by (simp add: fl_has_bit fl_unset_def bit_and_iff bit_not_iff bit_flagsOf)
qed (simp add: fl_has_bit)

lemma flagValue_flagsOf: "flagValue f = flagsOf [f]"
  by (simp add: flagsOf_def)

lemma fl_has_set1: "fl_has (fl_set v (flagValue f)) g \<longleftrightarrow> fl_has v g \<or> (g = f \<and> g \<noteq> NoFlag)"
  unfolding flagValue_flagsOf fl_has_set by auto

lemma fl_has_setTo: "f \<noteq> NoFlag \<Longrightarrow> fl_has (fl_setTo v f b) g \<longleftrightarrow> (if g = f then b else fl_has v g)"
  by (auto simp: fl_setTo_def flagValue_flagsOf fl_has_set fl_has_unset)

lemma bit_flagsOf_ex: "bit (flagsOf fs) n \<Longrightarrow> \<exists>f \<in> set fs. flagBit f = Some n"
proof (induction fs)
  case (Cons f fs)
  have "bit (flagValue f) n \<Longrightarrow> flagBit f = Some n"
    using flagOfBit_flagBit[of f] by (auto simp: flagValue_def push_bit_one_bit split: option.splits)
  with Cons show ?case by (auto simp: flagsOf_def bit_or_iff)
qed (simp add: flagsOf_def)

lemma fl_hasNone_iff: "fl_hasNone v (flagsOf fs) \<longleftrightarrow> (\<forall>f \<in> set fs. \<not> fl_has v f)"
proof
  assume "fl_hasNone v (flagsOf fs)"
  then have none: "\<not> (bit v n \<and> bit (flagsOf fs) n)" for n
    unfolding fl_hasNone_def by (metis bit_and_iff bit_0_eq bot_apply bot_bool_def)
  show "\<forall>f \<in> set fs. \<not> fl_has v f"
  proof
    fix f assume "f \<in> set fs"
    with none bit_flagsOf[of f] show "\<not> fl_has v f" by (auto simp: fl_has_bit split: option.split)
  qed
next
  assume "\<forall>f \<in> set fs. \<not> fl_has v f"
  then have "\<not> (bit v n \<and> bit (flagsOf fs) n)" for n
    using bit_flagsOf_ex[of fs n] by (auto simp: fl_has_bit split: option.splits)
  then show "fl_hasNone v (flagsOf fs)"
    unfolding fl_hasNone_def by (intro bit_word_eqI) (simp add: bit_and_iff)
qed

lemma fl_hasAny_iff: "fl_hasAny v (flagsOf fs) \<longleftrightarrow> (\<exists>f \<in> set fs. fl_has v f)"
  using fl_hasNone_iff[of v fs] by (simp add: fl_hasAny_def fl_hasNone_def)

lemma fl_hasAll_iff: "fl_hasAll v (flagsOf fs) \<longleftrightarrow> (\<forall>f \<in> set fs. f = NoFlag \<or> fl_has v f)"
proof
  assume "fl_hasAll v (flagsOf fs)"
  then have all: "bit (flagsOf fs) n \<Longrightarrow> bit v n" for n
    unfolding fl_hasAll_def by (metis bit_and_iff)
  show "\<forall>f \<in> set fs. f = NoFlag \<or> fl_has v f"
  proof
    fix f assume "f \<in> set fs"
    with all bit_flagsOf[of f] show "f = NoFlag \<or> fl_has v f"
      by (cases "flagBit f") (auto simp: fl_has_bit flagBit_None)
  qed
next
  assume all: "\<forall>f \<in> set fs. f = NoFlag \<or> fl_has v f"
  have "bit (flagsOf fs) n \<Longrightarrow> bit v n" for n
    using bit_flagsOf_ex[of fs n] all by (fastforce simp: fl_has_bit split: option.splits)
  then show "fl_hasAll v (flagsOf fs)"
    unfolding fl_hasAll_def by (intro bit_word_eqI) (auto simp: bit_and_iff)
qed

lemma fl_has_flagsOf: "fl_has (flagsOf fs) g \<longleftrightarrow> g \<in> set fs \<and> g \<noteq> NoFlag"
  by (cases "flagBit g") (auto simp: fl_has_bit bit_flagsOf flagBit_None)

lemmas fl_simps = fl_has_flagsOf fl_has_set fl_has_unset fl_has_set1 fl_hasNone_iff fl_hasAny_iff fl_hasAll_iff

section \<open>Times\<close>

text \<open>A \<open>QDateTime\<close> as milliseconds since the epoch; \<open>None\<close> is the invalid time, which
  compares below every valid one.\<close>

type_synonym qdatetime = "int option"

definition dt_addSecs :: "qdatetime \<Rightarrow> int \<Rightarrow> qdatetime" where
  "dt_addSecs t s = map_option (\<lambda>ms. ms + 1000 * s) t"

definition dt_secsTo :: "qdatetime \<Rightarrow> qdatetime \<Rightarrow> int" where
  "dt_secsTo a b = (case (a, b) of (Some x, Some y) \<Rightarrow> cdiv (y - x) 1000 | _ \<Rightarrow> 0)"

section \<open>Messages and threads\<close>

type_synonym ptr = nat

record point_reward =
  rw_title :: string
  rw_cost :: int
  rw_id :: string

record message =
  m_flags :: flags
  m_parseTime :: int
  m_id :: string
  m_searchText :: string
  m_messageText :: string
  m_loginName :: string
  m_displayName :: string
  m_userID :: string
  m_timeoutUser :: string
  m_channelName :: string
  m_usernameColor :: qcolor
  m_serverReceivedTime :: qdatetime
  m_twitchBadges :: "string list"
  m_twitchBadgeInfos :: "string \<Rightarrow> string option"
  m_externalBadges :: "string list"
  m_highlightColor :: "qcolor option"
  m_replyThread :: "ptr option"
  m_count :: "32 word"
  m_frozen :: bool
  m_reward :: "point_reward option"

text \<open>The state of \<open>Message::Message()\<close> (\<open>now\<close> is \<open>QTime::currentTime\<close>).\<close>

definition newMessage :: "int \<Rightarrow> message" where
  "newMessage now = \<lparr>m_flags = 0, m_parseTime = now, m_id = '''', m_searchText = '''', m_messageText = '''',
     m_loginName = '''', m_displayName = '''', m_userID = '''', m_timeoutUser = '''', m_channelName = '''',
     m_usernameColor = InvalidColor, m_serverReceivedTime = None, m_twitchBadges = [],
     m_twitchBadgeInfos = Map.empty, m_externalBadges = [], m_highlightColor = None,
     m_replyThread = None, m_count = 1, m_frozen = False, m_reward = None\<rparr>"

definition m_has :: "message \<Rightarrow> message_flag \<Rightarrow> bool" where
  "m_has m f = fl_has (m_flags m) f"

definition m_set :: "message_flag list \<Rightarrow> message \<Rightarrow> message" where
  "m_set fs m = m\<lparr>m_flags := fl_set (m_flags m) (flagsOf fs)\<rparr>"

definition m_freeze :: "message \<Rightarrow> message" where
  "m_freeze m = m\<lparr>m_frozen := True\<rparr>"

datatype thread_subscription = SubNone | Subscribed | Unsubscribed

record message_thread =
  mt_rootMessageId :: string
  mt_rootMessage :: ptr
  mt_replies :: "ptr list"
  mt_subscription :: thread_subscription
  mt_updates :: nat

record heap =
  h_msg :: "ptr \<Rightarrow> message"
  h_thread :: "ptr \<Rightarrow> message_thread"

definition h_upd :: "ptr \<Rightarrow> (message \<Rightarrow> message) \<Rightarrow> heap \<Rightarrow> heap" where
  "h_upd p f h = h\<lparr>h_msg := (h_msg h)(p := f (h_msg h p))\<rparr>"

text \<open>\<open>MessageThread\<close>; whether a \<open>weak_ptr\<close> has expired is the argument \<open>alive\<close>, and
  \<open>mt_updates\<close> counts the emissions of \<open>subscriptionUpdated\<close>.\<close>

definition MessageThread :: "(ptr \<Rightarrow> message) \<Rightarrow> ptr \<Rightarrow> message_thread" where
  "MessageThread msg root = \<lparr>mt_rootMessageId = m_id (msg root), mt_rootMessage = root,
     mt_replies = [], mt_subscription = SubNone, mt_updates = 0\<rparr>"

definition addToThread :: "message_thread \<Rightarrow> ptr \<Rightarrow> message_thread" where
  "addToThread t p = t\<lparr>mt_replies := mt_replies t @ [p]\<rparr>"

definition liveCount :: "(ptr \<Rightarrow> bool) \<Rightarrow> message_thread \<Rightarrow> nat" where
  "liveCount alive t = length (filter alive (mt_replies t))"

definition liveCountExcept :: "(ptr \<Rightarrow> bool) \<Rightarrow> message_thread \<Rightarrow> ptr \<Rightarrow> nat" where
  "liveCountExcept alive t exclude = length (filter (\<lambda>p. alive p \<and> p \<noteq> exclude) (mt_replies t))"

definition mt_subscribed :: "message_thread \<Rightarrow> bool" where
  "mt_subscribed t \<longleftrightarrow> mt_subscription t = Subscribed"

definition mt_unsubscribed :: "message_thread \<Rightarrow> bool" where
  "mt_unsubscribed t \<longleftrightarrow> mt_subscription t = Unsubscribed"

definition markSubscribed :: "message_thread \<Rightarrow> message_thread" where
  "markSubscribed t = (if mt_subscription t = Subscribed then t
     else t\<lparr>mt_subscription := Subscribed, mt_updates := mt_updates t + 1\<rparr>)"

definition markUnsubscribed :: "message_thread \<Rightarrow> message_thread" where
  "markUnsubscribed t = (if mt_subscription t = Unsubscribed then t
     else t\<lparr>mt_subscription := Unsubscribed, mt_updates := mt_updates t + 1\<rparr>)"

text \<open>\<open>Message::isReplyable\<close> asks the root of the thread; \<open>None\<close> is the failed assertion
  \<open>this != rootPtr\<close> or an exhausted bound on the chain of roots.\<close>

datatype reply_status =
    NotReplyable | Replyable | ReplyableWithThread | NotReplyableWithThread | NotReplyableDueToThread

definition messageReplyable :: "message \<Rightarrow> qdatetime \<Rightarrow> bool" where
  "messageReplyable m now \<longleftrightarrow>
     \<not> (fl_hasAny (m_flags m) (flagsOf [System, Subscription, Timeout, Whisper, ModerationAction, InvalidReplyTarget])
        \<or> dt_secsTo (m_serverReceivedTime m) now > 24 * 60 * 60)"

fun isReplyable :: "nat \<Rightarrow> heap \<Rightarrow> qdatetime \<Rightarrow> ptr \<Rightarrow> reply_status option" where
  "isReplyable 0 h now p = None"
| "isReplyable (Suc k) h now p =
     (let m = h_msg h p in
      if m_loginName m = '''' then Some NotReplyable
      else case m_replyThread m of
        Some t \<Rightarrow>
          (let root = mt_rootMessage (h_thread h t) in
           if root = p then None
           else (case isReplyable k h now root of
                   None \<Rightarrow> None
                 | Some s \<Rightarrow>
                    if s = NotReplyable then Some NotReplyableDueToThread
                    else if messageReplyable m now then Some ReplyableWithThread
                    else Some NotReplyableWithThread))
      | None \<Rightarrow> if messageReplyable m now then Some Replyable else Some NotReplyable)"

text \<open>\<open>Message::getScrollBarHighlight\<close>: which colour (or the message's own) and which style.\<close>

datatype highlight_source =
    NoHighlight | OwnColor "qcolor option" | WatchStreakColor | SubscriptionColor
  | RedeemedHighlightColor | ElevatedMessageColor | FirstMessageColor | AutomodColor

definition getScrollBarHighlight :: "bool \<Rightarrow> bool \<Rightarrow> message \<Rightarrow> highlight_source" where
  "getScrollBarHighlight enableWatchStreakHighlight enableSubHighlight m =
     (if m_has m Highlighted \<or> m_has m HighlightedWhisper then OwnColor (m_highlightColor m)
      else if m_has m WatchStreak \<and> enableWatchStreakHighlight then WatchStreakColor
      else if m_has m Subscription \<and> enableSubHighlight then SubscriptionColor
      else if m_has m RedeemedHighlight \<or> m_has m RedeemedChannelPointReward then RedeemedHighlightColor
      else if m_has m ElevatedMessage then ElevatedMessageColor
      else if m_has m FirstMessage then FirstMessageColor
      else if m_has m AutoModOffendingMessage \<or> m_has m AutoModOffendingMessageHeader then AutomodColor
      else NoHighlight)"

subsection \<open>Facts\<close>

lemma m_has_set [simp]: "m_has (m_set fs m) g \<longleftrightarrow> m_has m g \<or> (g \<in> set fs \<and> g \<noteq> NoFlag)"
  by (simp add: m_has_def m_set_def fl_has_set)

lemma m_set_fields [simp]:
  "m_loginName (m_set fs m) = m_loginName m" "m_timeoutUser (m_set fs m) = m_timeoutUser m"
  "m_serverReceivedTime (m_set fs m) = m_serverReceivedTime m" "m_id (m_set fs m) = m_id m"
  "m_replyThread (m_set fs m) = m_replyThread m" "m_count (m_set fs m) = m_count m"
  "m_frozen (m_set fs m) = m_frozen m"
  by (simp_all add: m_set_def)

lemma m_freeze_fields [simp]:
  "m_has (m_freeze m) f = m_has m f" "m_flags (m_freeze m) = m_flags m"
  "m_serverReceivedTime (m_freeze m) = m_serverReceivedTime m" "m_id (m_freeze m) = m_id m"
  "m_loginName (m_freeze m) = m_loginName m" "m_timeoutUser (m_freeze m) = m_timeoutUser m"
  "m_count (m_freeze m) = m_count m" "m_frozen (m_freeze m)"
  by (simp_all add: m_freeze_def m_has_def)

lemma h_upd_msg [simp]: "h_msg (h_upd p f h) q = (if q = p then f (h_msg h p) else h_msg h q)"
  by (simp add: h_upd_def)

lemma h_upd_thread [simp]: "h_thread (h_upd p f h) = h_thread h"
  by (simp add: h_upd_def)

text \<open>A message of a thread whose root is no reply itself.\<close>

lemma isReplyable_reply:
  assumes "m_loginName (h_msg h p) \<noteq> ''''" and "m_replyThread (h_msg h p) = Some t"
    and "mt_rootMessage (h_thread h t) = r" and "r \<noteq> p" and "m_replyThread (h_msg h r) = None"
  shows "isReplyable (Suc (Suc k)) h now p = Some
     (if m_loginName (h_msg h r) = '''' \<or> \<not> messageReplyable (h_msg h r) now then NotReplyableDueToThread
      else if messageReplyable (h_msg h p) now then ReplyableWithThread
      else NotReplyableWithThread)"
  using assms by (simp add: Let_def)

section \<open>Properties\<close>

text \<open>A flag set behaves as a set of flags: every flag has its own bit, so that setting and
  clearing a list of flags changes exactly these flags, and \<open>hasAny\<close>, \<open>hasAll\<close> and \<open>hasNone\<close>
  are the corresponding statements about single flags.\<close>

theorem flag_sets_are_sets:
  "(fl_has (fl_set v (flagsOf fs)) g \<longleftrightarrow> fl_has v g \<or> g \<in> set fs - {NoFlag})
   \<and> (fl_has (fl_unset v (flagsOf fs)) g \<longleftrightarrow> fl_has v g \<and> g \<notin> set fs)
   \<and> (fl_hasAny v (flagsOf fs) \<longleftrightarrow> set fs \<inter> {f. fl_has v f} \<noteq> {})
   \<and> (fl_hasNone v (flagsOf fs) \<longleftrightarrow> set fs \<inter> {f. fl_has v f} = {})
   \<and> (fl_hasAll v (flagsOf fs) \<longleftrightarrow> set fs - {NoFlag} \<subseteq> {f. fl_has v f})"
  by (auto simp: fl_simps)

text \<open>Replies follow their thread: a message of a thread whose root is not a reply itself is
  replyable exactly when it and the root are, and the status names the one that is not.\<close>

theorem reply_status_of_thread:
  assumes "m_loginName (h_msg h p) \<noteq> ''''" and "m_replyThread (h_msg h p) = Some t"
    and "mt_rootMessage (h_thread h t) = r" and "r \<noteq> p" and "m_replyThread (h_msg h r) = None"
  shows "(isReplyable 2 h now p = Some ReplyableWithThread \<longleftrightarrow>
            isReplyable 1 h now r = Some Replyable \<and> messageReplyable (h_msg h p) now)
       \<and> (isReplyable 2 h now p = Some NotReplyableDueToThread \<longleftrightarrow> isReplyable 1 h now r = Some NotReplyable)
       \<and> (isReplyable 2 h now p = Some NotReplyableWithThread \<longleftrightarrow>
            isReplyable 1 h now r = Some Replyable \<and> \<not> messageReplyable (h_msg h p) now)"
proof -
  have "isReplyable 1 h now r = Some (if m_loginName (h_msg h r) = '''' \<or> \<not> messageReplyable (h_msg h r) now
      then NotReplyable else Replyable)"
    using assms(5) by (simp add: Let_def)
  moreover have "isReplyable 2 h now p = Some
     (if m_loginName (h_msg h r) = '''' \<or> \<not> messageReplyable (h_msg h r) now then NotReplyableDueToThread
      else if messageReplyable (h_msg h p) now then ReplyableWithThread else NotReplyableWithThread)"
    using isReplyable_reply[OF assms, of 0 now] by (simp only: numeral_2_eq_2)
  ultimately show ?thesis by (simp del: isReplyable.simps)
qed

definition sample_heap :: heap where
  "sample_heap = \<lparr>h_msg = (\<lambda>p. if p = 0 then (newMessage 0)\<lparr>m_loginName := ''a'', m_flags := flagsOf [InvalidReplyTarget]\<rparr>
       else (newMessage 0)\<lparr>m_loginName := ''b'', m_replyThread := Some 0\<rparr>),
     h_thread = (\<lambda>t. MessageThread (\<lambda>p. newMessage 0) 0)\<rparr>"

theorem reply_status_of_thread_witness:
  "isReplyable 2 sample_heap None 1 = Some NotReplyableDueToThread"
proof -
  have h: "m_loginName (h_msg sample_heap 1) \<noteq> ''''" "m_replyThread (h_msg sample_heap 1) = Some 0"
      "mt_rootMessage (h_thread sample_heap 0) = 0" "(0 :: ptr) \<noteq> 1" "m_replyThread (h_msg sample_heap 0) = None"
    by (simp_all add: sample_heap_def newMessage_def MessageThread_def)
  have "isReplyable 1 sample_heap None 0 = Some NotReplyable"
    by (simp add: sample_heap_def newMessage_def messageReplyable_def fl_hasAny_iff fl_has_flagsOf)
  with reply_status_of_thread[OF h] show ?thesis by blast
qed

end
