(* ===== verification/MessageFilter.thy ===== *)
theory MessageFilter
  imports FilterRoundTrip Messages
begin

text \<open>
  Filters on messages: \<open>src/controllers/filters/lang/Filter.cpp\<close>, \<open>FilterRecord.cpp\<close> and
  \<open>FilterSet.cpp\<close>.

  A \<open>QMap\<close> is an association list; \<open>FilterSet::filters_\<close> is kept sorted by key.  A \<open>QUuid\<close> is a
  natural number.
\<close>

section \<open>The variables of a message\<close>

definition MESSAGE_TYPING_CONTEXT :: "(string \<times> ftype) list" where
  "MESSAGE_TYPING_CONTEXT =
    [(''author.badges'', TyStringList),
     (''author.external_badges'', TyStringList),
     (''author.color'', TyColor),
     (''author.name'', TyString),
     (''author.user_id'', TyString),
     (''author.no_color'', TyBool),
     (''author.subbed'', TyBool),
     (''author.sub_length'', TyInt),
     (''channel.name'', TyString),
     (''channel.watching'', TyBool),
     (''channel.live'', TyBool),
     (''flags.action'', TyBool),
     (''flags.highlighted'', TyBool),
     (''flags.points_redeemed'', TyBool),
     (''flags.sub_message'', TyBool),
     (''flags.system_message'', TyBool),
     (''flags.reward_message'', TyBool),
     (''flags.first_message'', TyBool),
     (''flags.elevated_message'', TyBool),
     (''flags.hype_chat'', TyBool),
     (''flags.cheer_message'', TyBool),
     (''flags.whisper'', TyBool),
     (''flags.reply'', TyBool),
     (''flags.automod'', TyBool),
     (''flags.restricted'', TyBool),
     (''flags.monitored'', TyBool),
     (''flags.shared'', TyBool),
     (''flags.similar'', TyBool),
     (''message.content'', TyString),
     (''message.length'', TyInt),
     (''reward.title'', TyString),
     (''reward.cost'', TyInt),
     (''reward.id'', TyString)]"

definition messageTyping :: typing_context where
  "messageTyping = map_of MESSAGE_TYPING_CONTEXT"

text \<open>The channel a message is filtered for: \<open>isEmpty()\<close>, and \<open>isLive()\<close> when the dynamic cast
  to \<open>TwitchChannel\<close> succeeds.\<close>

record filter_channel =
  fc_isEmpty :: bool
  fc_twitchLive :: "bool option"

text \<open>\<open>subscribed\<close> and \<open>subLength\<close> of the loop over the two subscriber badges.\<close>

fun subBadges :: "string list \<Rightarrow> (string \<Rightarrow> string option) \<Rightarrow> string list \<Rightarrow> bool \<times> int \<Rightarrow> bool \<times> int" where
  "subBadges badges infos [] (subscribed, subLength) = (subscribed, subLength)"
| "subBadges badges infos (b # bs) (subscribed, subLength) =
     (if b \<notin> set badges then subBadges badges infos bs (subscribed, subLength)
      else subBadges badges infos bs
             (True, (case infos b of
                       Some v \<Rightarrow> (case toIntOk v of Some i \<Rightarrow> i | None \<Rightarrow> 0)
                     | None \<Rightarrow> subLength)))"

definition watchingChannelIs :: "qt_ops \<Rightarrow> string \<Rightarrow> message \<Rightarrow> bool" where
  "watchingChannelIs qt watchingName m \<longleftrightarrow> watchingName \<noteq> '''' \<and> compareCI qt watchingName (m_channelName m)"

definition authorVars :: "message \<Rightarrow> (string \<times> qvariant) list" where
  "authorVars m =
     (let badges = m_twitchBadges m;
          (subscribed, subLength) = subBadges badges (m_twitchBadgeInfos m) [''subscriber'', ''founder''] (False, 0)
      in
      [(''author.badges'', VStringList badges),
       (''author.external_badges'', VStringList (m_externalBadges m)),
       (''author.color'', VColor (m_usernameColor m)),
       (''author.name'', VString (m_displayName m)),
       (''author.user_id'', VString (m_userID m)),
       (''author.no_color'', VBool (m_usernameColor m = InvalidColor)),
       (''author.subbed'', VBool subscribed),
       (''author.sub_length'', VInt subLength)])"

definition flagVars :: "message \<Rightarrow> (string \<times> qvariant) list" where
  "flagVars m =
      [(''flags.action'', VBool (m_has m Action)),
       (''flags.highlighted'', VBool (m_has m Highlighted)),
       (''flags.points_redeemed'', VBool (m_has m RedeemedHighlight)),
       (''flags.sub_message'', VBool (m_has m Subscription)),
       (''flags.system_message'', VBool (m_has m System)),
       (''flags.reward_message'', VBool (m_has m RedeemedChannelPointReward)),
       (''flags.first_message'', VBool (m_has m FirstMessage)),
       (''flags.elevated_message'', VBool (m_has m ElevatedMessage)),
       (''flags.hype_chat'', VBool (m_has m ElevatedMessage)),
       (''flags.cheer_message'', VBool (m_has m CheerMessage)),
       (''flags.whisper'', VBool (m_has m Whisper)),
       (''flags.reply'', VBool (m_has m ReplyMessage)),
       (''flags.automod'', VBool (m_has m AutoMod)),
       (''flags.restricted'', VBool (m_has m RestrictedMessage)),
       (''flags.monitored'', VBool (m_has m MonitoredMessage)),
       (''flags.shared'', VBool (m_has m SharedMessage)),
       (''flags.similar'', VBool (m_has m Similar))]"

text \<open>\<open>messageText.length()\<close> is a \<open>qsizetype\<close>, so its variant is a \<open>LongLong\<close>.\<close>

definition buildContextMap ::
  "qt_ops \<Rightarrow> string \<Rightarrow> message \<Rightarrow> filter_channel option \<Rightarrow> context_map" where
  "buildContextMap qt watchingName m channel =
     (let vars = map_of (authorVars m
            @ [(''channel.name'', VString (m_channelName m)),
               (''channel.watching'', VBool (watchingChannelIs qt watchingName m))]
            @ flagVars m
            @ [(''message.content'', VString (m_messageText m)),
               (''message.length'', VLongLong (int (length (m_messageText m))))]);
          vars1 = vars(''channel.live'' \<mapsto> VBool (case channel of
                     Some c \<Rightarrow> (case fc_twitchLive c of Some live \<Rightarrow> \<not> fc_isEmpty c \<and> live | None \<Rightarrow> False)
                   | None \<Rightarrow> False))
      in case m_reward m of
           Some r \<Rightarrow> vars1(''reward.title'' \<mapsto> VString (rw_title r), ''reward.cost'' \<mapsto> VInt (rw_cost r),
                           ''reward.id'' \<mapsto> VString (rw_id r))
         | None \<Rightarrow> vars1(''reward.title'' \<mapsto> VString '''', ''reward.cost'' \<mapsto> VInt (-1),
                         ''reward.id'' \<mapsto> VString ''''))"

section \<open>Filters\<close>

record filter_t =
  flt_expression :: fexpr
  flt_returnType :: ftype

datatype filter_result = FilterOk filter_t | FilterError string

definition fromString :: "qt_ops \<Rightarrow> string \<Rightarrow> parse_error + filter_result" where
  "fromString qt str =
     (case FilterParser qt messageTyping str of
        Inl e \<Rightarrow> Inl e
      | Inr parser \<Rightarrow>
         (if fpr_valid parser
          then Inr (FilterOk \<lparr>flt_expression = fpr_builtExpression parser,
                               flt_returnType = fpr_returnType parser\<rparr>)
          else Inr (FilterError (joinStr [CHR 0x0A] (fpr_errors parser)))))"

definition flt_execute :: "qt_ops \<Rightarrow> filter_t \<Rightarrow> context_map \<Rightarrow> exec_error + qvariant" where
  "flt_execute qt f context = execute qt (flt_expression f) context"

definition flt_filterString :: "qt_ops \<Rightarrow> filter_t \<Rightarrow> string" where
  "flt_filterString qt f = filterString qt (flt_expression f)"

definition flt_debugString :: "qt_ops \<Rightarrow> filter_t \<Rightarrow> typing_context \<Rightarrow> string" where
  "flt_debugString qt f context = debugString qt (flt_expression f) context"

text \<open>\<open>FilterRecord\<close>; \<open>filter_\<close> is \<open>nullptr\<close> for a filter that does not parse or is no \<open>Bool\<close>.\<close>

record filter_record =
  fr_name :: string
  fr_filterText :: string
  fr_id :: nat
  fr_filter :: "filter_t option"

definition buildFilter :: "qt_ops \<Rightarrow> string \<Rightarrow> parse_error + filter_t option" where
  "buildFilter qt filterText =
     (case fromString qt filterText of
        Inl e \<Rightarrow> Inl e
      | Inr (FilterOk f) \<Rightarrow> Inr (if flt_returnType f \<noteq> TyBool then None else Some f)
      | Inr (FilterError _) \<Rightarrow> Inr None)"

definition FilterRecord :: "qt_ops \<Rightarrow> string \<Rightarrow> string \<Rightarrow> nat \<Rightarrow> parse_error + filter_record" where
  "FilterRecord qt name text uuid =
     (case buildFilter qt text of
        Inl e \<Rightarrow> Inl e
      | Inr f \<Rightarrow> Inr \<lparr>fr_name = name, fr_filterText = text, fr_id = uuid, fr_filter = f\<rparr>)"

definition fr_valid :: "filter_record \<Rightarrow> bool" where
  "fr_valid r \<longleftrightarrow> fr_filter r \<noteq> None"

datatype filter_error = NotValid | ExecError exec_error

definition fr_filter_message :: "qt_ops \<Rightarrow> filter_record \<Rightarrow> context_map \<Rightarrow> filter_error + bool" where
  "fr_filter_message qt r context =
     (case fr_filter r of
        None \<Rightarrow> Inl NotValid
      | Some f \<Rightarrow>
         (case flt_execute qt f context of
            Inl e \<Rightarrow> Inl (ExecError e)
          | Inr v \<Rightarrow> Inr (toBoolV qt v)))"

section \<open>Filter sets\<close>

fun qm_insert :: "nat \<Rightarrow> 'v \<Rightarrow> (nat \<times> 'v) list \<Rightarrow> (nat \<times> 'v) list" where
  "qm_insert k v [] = [(k, v)]"
| "qm_insert k v ((j, w) # r) =
     (if k < j then (k, v) # (j, w) # r else if k = j then (k, v) # r else (j, w) # qm_insert k v r)"

definition qm_remove :: "nat \<Rightarrow> (nat \<times> 'v) list \<Rightarrow> (nat \<times> 'v) list" where
  "qm_remove k m = filter (\<lambda>(j, _). j \<noteq> k) m"

type_synonym filter_set = "(nat \<times> filter_record) list"

definition FilterSet :: "filter_record list \<Rightarrow> nat list \<Rightarrow> filter_set" where
  "FilterSet settings filterIds =
     foldl (\<lambda>fs f. if fr_id f \<in> set filterIds then qm_insert (fr_id f) f fs else fs) [] settings"

fun filterLoop :: "qt_ops \<Rightarrow> context_map \<Rightarrow> filter_record list \<Rightarrow> filter_error + bool" where
  "filterLoop qt context [] = Inr True"
| "filterLoop qt context (f # fs) =
     (if \<not> fr_valid f then Inr False
      else case fr_filter_message qt f context of
             Inl e \<Rightarrow> Inl e
           | Inr b \<Rightarrow> if \<not> b then Inr False else filterLoop qt context fs)"

definition fs_filter ::
  "qt_ops \<Rightarrow> filter_set \<Rightarrow> string \<Rightarrow> message \<Rightarrow> filter_channel option \<Rightarrow> filter_error + bool" where
  "fs_filter qt fs watchingName m channel =
     (if length fs = 0 then Inr True
      else filterLoop qt (buildContextMap qt watchingName m channel) (map snd fs))"

definition fs_filterIds :: "filter_set \<Rightarrow> nat list" where
  "fs_filterIds fs = map fst fs"

text \<open>The two loops of \<open>reloadFilters\<close>.\<close>

fun reloadKey :: "filter_record list \<Rightarrow> nat \<Rightarrow> filter_set \<times> bool \<Rightarrow> filter_set \<times> bool" where
  "reloadKey [] key (fs, found) = (fs, found)"
| "reloadKey (f # r) key (fs, found) =
     (if fr_id f = key then reloadKey r key (qm_insert key f fs, True) else reloadKey r key (fs, found))"

definition reloadFilters :: "filter_record list \<Rightarrow> filter_set \<Rightarrow> filter_set" where
  "reloadFilters settings fs0 =
     foldl (\<lambda>fs key. let (fs', found) = reloadKey settings key (fs, False) in
              if \<not> found then qm_remove key fs' else fs')
       fs0 (map fst fs0)"

section \<open>The context has the declared types\<close>

lemma identifiers_are_typed: "map fst MESSAGE_TYPING_CONTEXT = validIdentifiers"
  by (simp add: MESSAGE_TYPING_CONTEXT_def validIdentifiers_def VALID_IDENTIFIERS_MAP_def)

lemma dom_messageTyping: "dom messageTyping = set validIdentifiers"
  by (simp add: messageTyping_def dom_map_of_conv_image_fst identifiers_are_typed[symmetric])

lemma authorVars_map:
  obtains sub len where "authorVars m =
      [(''author.badges'', VStringList (m_twitchBadges m)),
       (''author.external_badges'', VStringList (m_externalBadges m)),
       (''author.color'', VColor (m_usernameColor m)),
       (''author.name'', VString (m_displayName m)),
       (''author.user_id'', VString (m_userID m)),
       (''author.no_color'', VBool (m_usernameColor m = InvalidColor)),
       (''author.subbed'', VBool sub),
       (''author.sub_length'', VInt len)]"
  by (cases "subBadges (m_twitchBadges m) (m_twitchBadgeInfos m) [''subscriber'', ''founder''] (False, 0)")
     (simp add: authorVars_def Let_def)

text \<open>The context as one association list, in the order of the typing context.\<close>

definition contextVars ::
  "bool \<Rightarrow> int \<Rightarrow> bool \<Rightarrow> bool \<Rightarrow> point_reward \<Rightarrow> message \<Rightarrow> (string \<times> qvariant) list" where
  "contextVars sub len watching live r m =
      [(''author.badges'', VStringList (m_twitchBadges m)),
       (''author.external_badges'', VStringList (m_externalBadges m)),
       (''author.color'', VColor (m_usernameColor m)),
       (''author.name'', VString (m_displayName m)),
       (''author.user_id'', VString (m_userID m)),
       (''author.no_color'', VBool (m_usernameColor m = InvalidColor)),
       (''author.subbed'', VBool sub),
       (''author.sub_length'', VInt len),
       (''channel.name'', VString (m_channelName m)),
       (''channel.watching'', VBool watching),
       (''channel.live'', VBool live)] @ flagVars m @
      [(''message.content'', VString (m_messageText m)),
       (''message.length'', VLongLong (int (length (m_messageText m)))),
       (''reward.title'', VString (rw_title r)),
       (''reward.cost'', VInt (rw_cost r)),
       (''reward.id'', VString (rw_id r))]"

lemma fst_flagVars: "map fst (flagVars m) =
   [''flags.action'', ''flags.highlighted'', ''flags.points_redeemed'', ''flags.sub_message'', ''flags.system_message'',
    ''flags.reward_message'', ''flags.first_message'', ''flags.elevated_message'', ''flags.hype_chat'', ''flags.cheer_message'',
    ''flags.whisper'', ''flags.reply'', ''flags.automod'', ''flags.restricted'', ''flags.monitored'', ''flags.shared'', ''flags.similar'']"
  by (simp add: flagVars_def)

lemma flagVars_other: "take 6 x \<noteq> ''flags.'' \<Longrightarrow> map_of (flagVars m) x = None"
  unfolding map_of_eq_None_iff set_map[symmetric] fst_flagVars by auto

lemma buildContextMap_vars:
  obtains sub len watching live r where
    "buildContextMap qt w m ch = map_of (contextVars sub len watching live r m)"
proof -
  obtain sub len where a: "authorVars m =
      [(''author.badges'', VStringList (m_twitchBadges m)),
       (''author.external_badges'', VStringList (m_externalBadges m)),
       (''author.color'', VColor (m_usernameColor m)),
       (''author.name'', VString (m_displayName m)),
       (''author.user_id'', VString (m_userID m)),
       (''author.no_color'', VBool (m_usernameColor m = InvalidColor)),
       (''author.subbed'', VBool sub),
       (''author.sub_length'', VInt len)]"
    by (rule authorVars_map)
  define live where "live = (case ch of
       Some c \<Rightarrow> (case fc_twitchLive c of Some live \<Rightarrow> \<not> fc_isEmpty c \<and> live | None \<Rightarrow> False) | None \<Rightarrow> False)"
  define r where "r = (case m_reward m of Some r \<Rightarrow> r | None \<Rightarrow> \<lparr>rw_title = '''', rw_cost = -1, rw_id = ''''\<rparr>)"
  have step: "buildContextMap qt w m ch =
     (map_of (authorVars m
            @ [(''channel.name'', VString (m_channelName m)),
               (''channel.watching'', VBool (watchingChannelIs qt w m))]
            @ flagVars m
            @ [(''message.content'', VString (m_messageText m)),
               (''message.length'', VLongLong (int (length (m_messageText m))))]))
      (''channel.live'' \<mapsto> VBool live, ''reward.title'' \<mapsto> VString (rw_title r),
       ''reward.cost'' \<mapsto> VInt (rw_cost r), ''reward.id'' \<mapsto> VString (rw_id r))"
    by (cases "m_reward m") (simp_all add: buildContextMap_def Let_def live_def r_def)
  have "buildContextMap qt w m ch = map_of (contextVars sub len (watchingChannelIs qt w m) live r m)"
    unfolding step a contextVars_def by (rule ext) (auto simp: map_add_def flagVars_other split: option.splits)
  then show thesis by (rule that)
qed

lemma contextVars_typed:
  "list_all2 (\<lambda>(x, t) (y, v). x = y \<and> has_type v t) MESSAGE_TYPING_CONTEXT (contextVars sub len watching live r m)"
  by (simp add: MESSAGE_TYPING_CONTEXT_def contextVars_def flagVars_def has_type_def)

lemma list_all2_map_of:
  "list_all2 (\<lambda>(x, t) (y, v). x = y \<and> P v t) ts vs \<Longrightarrow>
   map_of ts x = Some t \<Longrightarrow> \<exists>v. map_of vs x = Some v \<and> P v t"
  by (induction rule: list_all2_induct) (auto split: if_splits)

lemma context_is_typed: "context_typed messageTyping (buildContextMap qt w m ch)"
proof -
  obtain sub len watching live r where
    "buildContextMap qt w m ch = map_of (contextVars sub len watching live r m)"
    by (rule buildContextMap_vars)
  then show ?thesis
    using list_all2_map_of[OF contextVars_typed] by (auto simp: context_typed_def messageTyping_def)
qed

lemma dom_context: "dom (buildContextMap qt w m ch) = set validIdentifiers"
proof -
  obtain sub len watching live r where
    "buildContextMap qt w m ch = map_of (contextVars sub len watching live r m)"
    by (rule buildContextMap_vars)
  moreover have "map fst (contextVars sub len watching live r m) = map fst MESSAGE_TYPING_CONTEXT"
    using contextVars_typed[of sub len watching live r m]
    by (simp add: list_all2_conv_all_nth list_eq_iff_nth_eq case_prod_beta)
  ultimately show ?thesis
    using identifiers_are_typed by (simp add: dom_map_of_conv_image_fst flip: set_map)
qed

section \<open>Filter sets as maps\<close>

lemma qm_insert_map: "sorted_wrt (<) (map fst m) \<Longrightarrow> map_of (qm_insert k v m) = (map_of m)(k \<mapsto> v)"
proof (induction k v m rule: qm_insert.induct)
  case (2 k v j w r)
  have "k < j \<Longrightarrow> map_of r k = None"
    using 2(2) by (auto simp: map_of_eq_None_iff)
  with 2 show ?case by (auto simp: fun_eq_iff)
qed simp

lemma qm_insert_keys: "set (map fst (qm_insert k v m)) = insert k (set (map fst m))"
  by (induction k v m rule: qm_insert.induct) auto

lemma qm_insert_sorted: "sorted_wrt (<) (map fst m) \<Longrightarrow> sorted_wrt (<) (map fst (qm_insert k v m))"
  by (induction k v m rule: qm_insert.induct) (auto simp: qm_insert_keys simp flip: set_map)

lemma qm_remove_map: "map_of (qm_remove k m) = (map_of m)(k := None)"
  by (induction m) (auto simp: qm_remove_def fun_eq_iff)

lemma qm_remove_sorted: "sorted_wrt (<) (map fst m) \<Longrightarrow> sorted_wrt (<) (map fst (qm_remove k m))"
  by (induction m) (auto simp: qm_remove_def)

text \<open>The last filter record of the settings with a given id.\<close>

definition settingsFilter :: "filter_record list \<Rightarrow> nat \<Rightarrow> filter_record option" where
  "settingsFilter settings k = map_of (rev (map (\<lambda>f. (fr_id f, f)) settings)) k"

lemma settingsFilter_Cons:
  "settingsFilter (f # r) k = (case settingsFilter r k of None \<Rightarrow> if fr_id f = k then Some f else None | Some g \<Rightarrow> Some g)"
  by (simp add: settingsFilter_def map_add_def split: option.split)

lemma reloadKey_spec:
  "sorted_wrt (<) (map fst fs) \<Longrightarrow> reloadKey settings key (fs, found) = (fs', found') \<Longrightarrow>
   sorted_wrt (<) (map fst fs')
   \<and> found' = (found \<or> settingsFilter settings key \<noteq> None)
   \<and> map_of fs' = (case settingsFilter settings key of None \<Rightarrow> map_of fs | Some f \<Rightarrow> (map_of fs)(key \<mapsto> f))"
proof (induction settings arbitrary: fs found)
  case Nil
  then show ?case by (simp add: settingsFilter_def)
next
  case (Cons f r)
  show ?case
  proof (cases "fr_id f = key")
    case True
    with Cons.prems Cons.IH[of "qm_insert key f fs" True] show ?thesis
      by (auto simp: qm_insert_sorted qm_insert_map settingsFilter_Cons split: option.splits)
  next
    case False
    then show ?thesis using Cons.IH[of fs found] Cons.prems by (simp add: settingsFilter_Cons split: option.split)
  qed
qed

definition reloadStep :: "filter_record list \<Rightarrow> filter_set \<Rightarrow> nat \<Rightarrow> filter_set" where
  "reloadStep settings fs key = (let (fs', found) = reloadKey settings key (fs, False) in
      if \<not> found then qm_remove key fs' else fs')"

lemma reloadStep_spec:
  assumes "sorted_wrt (<) (map fst fs)"
  shows "sorted_wrt (<) (map fst (reloadStep settings fs key))
     \<and> map_of (reloadStep settings fs key) = (map_of fs)(key := settingsFilter settings key)"
proof -
  obtain fs' found where r: "reloadKey settings key (fs, False) = (fs', found)" by fastforce
  from reloadKey_spec[OF assms r] r show ?thesis
    by (cases "settingsFilter settings key")
       (auto simp: reloadStep_def qm_remove_sorted qm_remove_map fun_eq_iff)
qed

lemma reloadSteps_spec:
  "sorted_wrt (<) (map fst fs) \<Longrightarrow>
   sorted_wrt (<) (map fst (foldl (reloadStep settings) fs keys))
   \<and> map_of (foldl (reloadStep settings) fs keys) =
       (\<lambda>k. if k \<in> set keys then settingsFilter settings k else map_of fs k)"
proof (induction keys arbitrary: fs)
  case (Cons key keys)
  from reloadStep_spec[OF Cons.prems] Cons.IH[of "reloadStep settings fs key"] show ?case by auto
qed simp

lemma reloadFilters_spec:
  assumes "sorted_wrt (<) (map fst fs)"
  shows "sorted_wrt (<) (map fst (reloadFilters settings fs))
     \<and> map_of (reloadFilters settings fs) =
         (\<lambda>k. if k \<in> set (map fst fs) then settingsFilter settings k else None)"
proof -
  have "reloadFilters settings fs = foldl (reloadStep settings) fs (map fst fs)"
    by (simp add: reloadFilters_def reloadStep_def[abs_def])
  with reloadSteps_spec[OF assms, of settings "map fst fs"] show ?thesis
    by (auto simp: fun_eq_iff map_of_eq_None_iff)
qed

lemma FilterSet_spec:
  "sorted_wrt (<) (map fst (FilterSet settings ids))
   \<and> map_of (FilterSet settings ids) = (\<lambda>k. if k \<in> set ids then settingsFilter settings k else None)"
proof -
  have "sorted_wrt (<) (map fst acc) \<Longrightarrow>
      sorted_wrt (<) (map fst (foldl (\<lambda>fs f. if fr_id f \<in> set ids then qm_insert (fr_id f) f fs else fs) acc settings))
      \<and> map_of (foldl (\<lambda>fs f. if fr_id f \<in> set ids then qm_insert (fr_id f) f fs else fs) acc settings) =
          (\<lambda>k. case settingsFilter settings k of Some f \<Rightarrow> if k \<in> set ids then Some f else map_of acc k | None \<Rightarrow> map_of acc k)" for acc
  proof (induction settings arbitrary: acc)
    case Nil
    then show ?case by (simp add: settingsFilter_def)
  next
    case (Cons f r)
    show ?case
    proof (cases "fr_id f \<in> set ids")
      case True
      then show ?thesis
        using Cons.IH[OF qm_insert_sorted[OF Cons.prems, of "fr_id f" f]] qm_insert_map[OF Cons.prems, of "fr_id f" f]
        by (auto simp: settingsFilter_Cons fun_eq_iff split: option.split)
    next
      case False
      then show ?thesis
        using Cons.IH[OF Cons.prems] by (auto simp: settingsFilter_Cons fun_eq_iff split: option.split)
    qed
  qed
  from this[of "[]"] show ?thesis
    by (auto simp: FilterSet_def fun_eq_iff split: option.split)
qed

lemma fr_filter_message_valid: "fr_filter_message qt f ctx = Inr b \<Longrightarrow> fr_valid f"
  by (auto simp: fr_filter_message_def fr_valid_def split: option.splits)

lemma filterLoop_spec:
  "filterLoop qt ctx fs = Inr True \<longleftrightarrow> (\<forall>f \<in> set fs. fr_filter_message qt f ctx = Inr True)"
proof (induction fs)
  case (Cons f fs)
  then show ?case
    using fr_filter_message_valid[of qt f ctx]
    by (cases "fr_filter_message qt f ctx"; cases "fr_valid f") auto
qed simp

section \<open>Properties\<close>

text \<open>The three tables of identifiers agree: the identifiers the tokenizer knows are exactly
  those with a declared type and exactly those that \<open>buildContextMap\<close> gives a value, and every
  value has the declared type, for every message and channel.\<close>

theorem identifier_tables_agree:
  "set validIdentifiers = dom messageTyping
   \<and> dom (buildContextMap qt watchingName m channel) = dom messageTyping
   \<and> context_typed messageTyping (buildContextMap qt watchingName m channel)"
  using dom_messageTyping dom_context context_is_typed by metis

lemma fromString_cases:
  assumes "fromString qt str = Inr (FilterOk f)"
  shows "wf_fexpr (flt_expression f)
     \<and> synthesizeType qt (flt_expression f) messageTyping = TypeClass (flt_returnType f)"
proof -
  from assms obtain parser where parser: "FilterParser qt messageTyping str = Inr parser" "fpr_valid parser"
      "f = \<lparr>flt_expression = fpr_builtExpression parser, flt_returnType = fpr_returnType parser\<rparr>"
    by (auto simp: fromString_def split: sum.splits if_splits)
  obtain e p where p: "parseText str = Inr (e, p)" "wf_fexpr e"
    using parseText_ok[of str] by (auto simp: parse_ok_def)
  with parser show ?thesis
    by (auto simp: FilterParser_def fpr_valid_def errorLog_def split: if_splits possible_type.splits)
qed

lemma fromString_printE:
  assumes "printable e" and "synthesizeType qt e messageTyping = TypeClass t"
  shows "fromString qt (printE e) = Inr (FilterOk \<lparr>flt_expression = e, flt_returnType = t\<rparr>)"
proof -
  obtain p where "parseText (printE e) = Inr (e, p)" "fp_valid p"
    using parseText_printE[OF assms(1)] by blast
  with assms(2) show ?thesis by (simp add: fromString_def FilterParser_def fpr_valid_def)
qed

text \<open>C8. From the text to the message: a text that \<open>Filter::fromString\<close> accepts evaluates on
  every message, in every channel, to a value of the type the filter reports, when no operator
  computes with integers and it respects the two restrictions of the type system.\<close>

theorem accepted_filter_evaluates:
  assumes "qt_variants qt" and "fromString qt str = Inr (FilterOk f)"
    and "operands_ok qt messageTyping (flt_expression f)" and "no_int_arith qt messageTyping (flt_expression f)"
  shows "\<exists>v. flt_execute qt f (buildContextMap qt watchingName m channel) = Inr v
     \<and> has_type v (flt_returnType f)"
proof -
  from fromString_cases[OF assms(2)] have f: "wf_fexpr (flt_expression f)"
      "synthesizeType qt (flt_expression f) messageTyping = TypeClass (flt_returnType f)" by auto
  obtain v where "execute qt (flt_expression f) (buildContextMap qt watchingName m channel) = Inr v"
    using qt_variants.execute_total[OF assms(1) f(1) assms(3) context_is_typed assms(4) f(2)] by blast
  with qt_variants.execute_typed[OF assms(1) f(1) assms(3) context_is_typed f(2)]
  show ?thesis by (auto simp: flt_execute_def)
qed

definition subbed_filter :: fexpr where
  "subbed_filter = BinaryOperation T_OR (ValueExpression (VString ''author.subbed'') IDENTIFIER)
     (BinaryOperation CONTAINS (ValueExpression (VString ''message.content'') IDENTIFIER) (ValueExpression (VString ''a'') STRING))"

lemma subbed_filter_facts:
  "printable subbed_filter" "synthesizeType simple_qt subbed_filter messageTyping = TypeClass TyBool"
  "operands_ok simple_qt messageTyping subbed_filter" "no_int_arith simple_qt messageTyping subbed_filter"
  by (simp_all add: subbed_filter_def printable_value_def literal_ok_def validIdentifiers_def VALID_IDENTIFIERS_MAP_def
      typeIsBinaryOp_iff typeIsMathOp_iff synthValue_def synthBinary_def isList_def messageTyping_def
      MESSAGE_TYPING_CONTEXT_def backslash_def)

theorem accepted_filter_evaluates_witness:
  "\<exists>f v. fromString simple_qt (printE subbed_filter) = Inr (FilterOk f)
     \<and> flt_execute simple_qt f (buildContextMap simple_qt ''b'' (newMessage 0) None) = Inr v
     \<and> has_type v TyBool"
proof -
  let ?f = "\<lparr>flt_expression = subbed_filter, flt_returnType = TyBool\<rparr>"
  have "fromString simple_qt (printE subbed_filter) = Inr (FilterOk ?f)"
    by (rule fromString_printE[OF subbed_filter_facts(1,2)])
  with accepted_filter_evaluates[OF simple_qt.qt_variants_axioms this] subbed_filter_facts(3,4)
  show ?thesis by (metis filter_t.select_convs)
qed

text \<open>The group number of a matching specifier must not be \<open>message.length\<close>: the filter
  \<open>message.content match {r"p", message.length}\<close> has the type String, but \<open>message.length\<close>
  is a \<open>qlonglong\<close> and not an \<open>int\<close>, and the filter evaluates to the boolean false on every
  message.\<close>

theorem message_length_specifier:
  assumes "qt_variants qt"
    and e_def: "e = BinaryOperation MATCH (ValueExpression (VString ''message.content'') IDENTIFIER)
     (ListExpression [RegexExpression p ci, ValueExpression (VString ''message.length'') IDENTIFIER])"
  shows "synthesizeType qt e messageTyping = TypeClass TyString
     \<and> execute qt e (buildContextMap qt watchingName m channel) = Inr (VBool False)"
proof -
  obtain sub len watching live r where
    ctx: "buildContextMap qt watchingName m channel = map_of (contextVars sub len watching live r m)"
    by (rule buildContextMap_vars)
  have vals: "map_of (contextVars sub len watching live r m) ''message.content'' = Some (VString (m_messageText m))"
      "map_of (contextVars sub len watching live r m) ''message.length'' = Some (VLongLong (int (length (m_messageText m))))"
    by (simp_all add: contextVars_def flagVars_other map_add_def)
  have types: "messageTyping ''message.content'' = Some TyString" "messageTyping ''message.length'' = Some TyInt"
    by (simp_all add: messageTyping_def MESSAGE_TYPING_CONTEXT_def)
  show ?thesis
    using vals types qt_variants.to_same(3)[OF assms(1)] qt_variants.can_same[OF assms(1), of "VString (m_messageText m)" MQString]
    by (simp add: e_def ctx synthValue_def synthBinary_def synthList_def execValue_def execBinary_def
        execList_def variantIsNot_def execMatch_def)
qed

theorem message_length_specifier_witness:
  "execute simple_qt (BinaryOperation MATCH (ValueExpression (VString ''message.content'') IDENTIFIER)
     (ListExpression [RegexExpression ''a'' False, ValueExpression (VString ''message.length'') IDENTIFIER]))
     (buildContextMap simple_qt ''b'' ((newMessage 0)\<lparr>m_messageText := ''a''\<rparr>) None) = Inr (VBool False)"
  using message_length_specifier[OF simple_qt.qt_variants_axioms refl] by blast

definition guarded_division :: fexpr where
  "guarded_division =
     BinaryOperation T_AND
       (BinaryOperation NEQ (ValueExpression (VString ''author.sub_length'') IDENTIFIER) (ValueExpression (VInt 0) T_INT))
       (BinaryOperation T_GT
          (BinaryOperation DIVIDE (ValueExpression (VInt 12) T_INT) (ValueExpression (VString ''author.sub_length'') IDENTIFIER))
          (ValueExpression (VInt 2) T_INT))"

lemma guarded_division_accepted:
  assumes "qt_variants qt"
  shows "printable guarded_division" "synthesizeType qt guarded_division messageTyping = TypeClass TyBool"
  using qt_variants.to_same(3)[OF assms]
  by (simp_all add: guarded_division_def printable_value_def validIdentifiers_def VALID_IDENTIFIERS_MAP_def
      typeIsBinaryOp_iff typeIsMathOp_iff synthValue_def synthBinary_def messageTyping_def MESSAGE_TYPING_CONTEXT_def)

text \<open>The logical operators do not protect an operand: the filter
  \<open>((author.sub_length != 0) && ((12 / author.sub_length) > 2))\<close> is accepted as a Bool filter,
  and evaluating it on a message of a user without a subscription divides by zero.\<close>

theorem guarded_division_divides_by_zero:
  assumes "qt_variants qt" and "m_twitchBadges m = []"
    and "FilterRecord qt name (printE guarded_division) uuid = Inr record"
  shows "fr_valid record
     \<and> fs_filter qt [(uuid, record)] watchingName m channel = Inl (ExecError DivisionByZero)"
proof -
  have "fromString qt (printE guarded_division)
      = Inr (FilterOk \<lparr>flt_expression = guarded_division, flt_returnType = TyBool\<rparr>)"
    using guarded_division_accepted[OF assms(1)] by (rule fromString_printE)
  with assms(3) have rec: "fr_filter record = Some \<lparr>flt_expression = guarded_division, flt_returnType = TyBool\<rparr>"
    by (auto simp: FilterRecord_def buildFilter_def)
  have sub: "buildContextMap qt watchingName m channel ''author.sub_length'' = Some (VInt 0)"
    using assms(2) by (cases "m_reward m") (simp_all add: buildContextMap_def Let_def authorVars_def map_add_def flagVars_other)
  have "execute qt guarded_division (buildContextMap qt watchingName m channel) = Inl DivisionByZero"
    using sub qt_variants.to_same[OF assms(1)] qt_variants.convert_same_types(1)[OF assms(1)]
    by (simp add: guarded_division_def execValue_def execBinary_def execMath_def Let_def)
  with rec show ?thesis
    by (simp add: fr_valid_def fs_filter_def fr_filter_message_def flt_execute_def)
qed

theorem guarded_division_divides_by_zero_witness:
  "\<exists>r. FilterRecord simple_qt ''x'' (printE guarded_division) 1 = Inr r \<and> fr_valid r
     \<and> fs_filter simple_qt [(1, r)] ''b'' (newMessage 0) None = Inl (ExecError DivisionByZero)"
proof -
  have "fromString simple_qt (printE guarded_division)
      = Inr (FilterOk \<lparr>flt_expression = guarded_division, flt_returnType = TyBool\<rparr>)"
    using guarded_division_accepted[OF simple_qt.qt_variants_axioms] by (rule fromString_printE)
  then have r: "\<exists>r. FilterRecord simple_qt ''x'' (printE guarded_division) 1 = Inr r"
    by (simp add: FilterRecord_def buildFilter_def)
  have "m_twitchBadges (newMessage 0) = []" by (simp add: newMessage_def)
  with r guarded_division_divides_by_zero[OF simple_qt.qt_variants_axioms] show ?thesis by blast
qed

text \<open>Reloading a filter set: afterwards it has exactly the ids it had that still exist in
  the settings, each with the settings' filter of that id, and it lets a message through exactly
  when each of these filters is valid and evaluates to true.\<close>

theorem reloaded_filter_set:
  assumes "sorted_wrt (<) (map fst fs)"
  shows "set (fs_filterIds (reloadFilters settings fs)) = set (fs_filterIds fs) \<inter> fr_id ` set settings
     \<and> (fs_filter qt (reloadFilters settings fs) watchingName m channel = Inr True \<longleftrightarrow>
          (\<forall>k \<in> set (fs_filterIds fs). \<forall>f. settingsFilter settings k = Some f \<longrightarrow>
             fr_filter_message qt f (buildContextMap qt watchingName m channel) = Inr True))"
proof -
  let ?r = "reloadFilters settings fs"
  have r: "sorted_wrt (<) (map fst ?r)"
      "map_of ?r = (\<lambda>k. if k \<in> set (map fst fs) then settingsFilter settings k else None)"
    using reloadFilters_spec[OF assms, of settings] by auto
  have dom: "settingsFilter settings k \<noteq> None \<longleftrightarrow> k \<in> fr_id ` set settings" for k
    by (auto simp: settingsFilter_def map_of_eq_None_iff image_iff)
  have keys: "set (map fst ?r) = set (map fst fs) \<inter> fr_id ` set settings"
    using dom by (auto simp: dom_map_of_conv_image_fst[symmetric] dom_def r(2) split: if_splits)
  have "distinct (map fst ?r)" using r(1) by (simp add: strict_sorted_iff)
  then have vals: "snd ` set ?r = ran (map_of ?r)" by (simp add: ran_distinct)
  have "fs_filter qt ?r watchingName m channel = Inr True \<longleftrightarrow>
      (\<forall>f \<in> snd ` set ?r. fr_filter_message qt f (buildContextMap qt watchingName m channel) = Inr True)"
    by (cases "?r = []") (simp_all add: fs_filter_def filterLoop_spec)
  also have "\<dots> \<longleftrightarrow> (\<forall>k \<in> set (map fst fs). \<forall>f. settingsFilter settings k = Some f \<longrightarrow>
             fr_filter_message qt f (buildContextMap qt watchingName m channel) = Inr True)"
    unfolding vals r(2) ran_def by (auto split: if_splits)
  finally show ?thesis using keys by (simp add: fs_filterIds_def)
qed

theorem reloaded_filter_set_witness:
  "set (fs_filterIds (reloadFilters [\<lparr>fr_name = ''x'', fr_filterText = '''', fr_id = 2, fr_filter = None\<rparr>]
     [(1, \<lparr>fr_name = ''y'', fr_filterText = '''', fr_id = 1, fr_filter = None\<rparr>),
      (2, \<lparr>fr_name = ''z'', fr_filterText = '''', fr_id = 2, fr_filter = None\<rparr>)])) = {2}"
proof -
  let ?fs = "[(1 :: nat, \<lparr>fr_name = ''y'', fr_filterText = '''', fr_id = 1, fr_filter = None\<rparr>),
      (2, \<lparr>fr_name = ''z'', fr_filterText = '''', fr_id = 2, fr_filter = None\<rparr>)]"
  have "sorted_wrt (<) (map fst ?fs)" by simp
  from reloaded_filter_set[OF this] show ?thesis by (simp add: fs_filterIds_def)
qed

end
