(* ===== verification/LimitedQueue.thy ===== *)
theory LimitedQueue
  imports Prelude
begin

text \<open>
  \<open>src/messages/LimitedQueue.hpp\<close>: the bounded message store of a channel.

  The storage is a \<open>boost::circular_buffer\<close>, which is not part of the repository: its
  operations are the record \<open>cb_ops\<close>, an argument of every definition that uses them, and
  its documented behaviour is the locale \<open>circular_buffer\<close>.  \<open>cb_items\<close> is the sequence
  from \<open>begin()\<close> to \<open>end()\<close>.  \<open>bounded_queue\<close> is the contract that the queue's own
  client (the channel) relies on; it is a consequence of \<open>circular_buffer\<close>.
  The mutex of the class is held for the whole of each member function, so every operation
  is one atomic step of the model.
\<close>

section \<open>The storage\<close>

record ('b, 'e) cb_ops =
  cb_make :: "nat \<Rightarrow> 'b"
  cb_capacity :: "'b \<Rightarrow> nat"
  cb_items :: "'b \<Rightarrow> 'e list"
  cb_clear :: "'b \<Rightarrow> 'b"
  cb_push_back :: "'b \<Rightarrow> 'e \<Rightarrow> 'b"
  cb_push_front :: "'b \<Rightarrow> 'e \<Rightarrow> 'b"
  cb_insert :: "'b \<Rightarrow> nat \<Rightarrow> 'e \<Rightarrow> 'b"
  cb_assign :: "'b \<Rightarrow> nat \<Rightarrow> 'e \<Rightarrow> 'b"

text \<open>What \<open>boost::circular_buffer\<close> documents: a full buffer overwrites its first element on
  \<open>push_back\<close>, its last on \<open>push_front\<close>, its first on \<open>insert\<close>, and does not insert at
  \<open>begin()\<close> when it is full; with capacity 0 nothing is ever stored.\<close>

locale circular_buffer =
  fixes cb :: "('b, 'e) cb_ops"
  assumes make_items: "cb_items cb (cb_make cb n) = []"
    and make_capacity: "cb_capacity cb (cb_make cb n) = n"
    and size_capacity: "length (cb_items cb b) \<le> cb_capacity cb b"
    and clear_items: "cb_items cb (cb_clear cb b) = []"
    and clear_capacity: "cb_capacity cb (cb_clear cb b) = cb_capacity cb b"
    and push_back_items: "cb_items cb (cb_push_back cb b x) =
          (if cb_capacity cb b = 0 then []
           else if length (cb_items cb b) = cb_capacity cb b then tl (cb_items cb b) @ [x]
           else cb_items cb b @ [x])"
    and push_back_capacity: "cb_capacity cb (cb_push_back cb b x) = cb_capacity cb b"
    and push_front_items: "cb_items cb (cb_push_front cb b x) =
          (if cb_capacity cb b = 0 then []
           else if length (cb_items cb b) = cb_capacity cb b then x # butlast (cb_items cb b)
           else x # cb_items cb b)"
    and push_front_capacity: "cb_capacity cb (cb_push_front cb b x) = cb_capacity cb b"
    and insert_items: "i \<le> length (cb_items cb b) \<Longrightarrow> cb_items cb (cb_insert cb b i x) =
          (if length (cb_items cb b) < cb_capacity cb b
             then take i (cb_items cb b) @ x # drop i (cb_items cb b)
           else if i = 0 then cb_items cb b
           else tl (take i (cb_items cb b)) @ x # drop i (cb_items cb b))"
    and insert_capacity: "cb_capacity cb (cb_insert cb b i x) = cb_capacity cb b"
    and assign_items: "i < length (cb_items cb b) \<Longrightarrow>
          cb_items cb (cb_assign cb b i x) = (cb_items cb b)[i := x]"
    and assign_capacity: "cb_capacity cb (cb_assign cb b i x) = cb_capacity cb b"

section \<open>The queue\<close>

record 'b limited_queue =
  lq_limit :: nat
  lq_buffer :: 'b

text \<open>\<open>front()\<close> of an empty buffer is undefined behaviour; it is a value of the model.\<close>

datatype lq_error = FrontOfEmptyBuffer

definition LimitedQueue :: "('b, 'e) cb_ops \<Rightarrow> nat \<Rightarrow> 'b limited_queue" where
  "LimitedQueue cb limit = \<lparr>lq_limit = limit, lq_buffer = cb_make cb limit\<rparr>"

definition lq_items :: "('b, 'e) cb_ops \<Rightarrow> 'b limited_queue \<Rightarrow> 'e list" where
  "lq_items cb q = cb_items cb (lq_buffer q)"

definition lq_full :: "('b, 'e) cb_ops \<Rightarrow> 'b limited_queue \<Rightarrow> bool" where
  "lq_full cb q \<longleftrightarrow> length (lq_items cb q) = cb_capacity cb (lq_buffer q)"

definition lq_space :: "('b, 'e) cb_ops \<Rightarrow> 'b limited_queue \<Rightarrow> nat" where
  "lq_space cb q = lq_limit q - length (lq_items cb q)"

definition lq_empty :: "('b, 'e) cb_ops \<Rightarrow> 'b limited_queue \<Rightarrow> bool" where
  "lq_empty cb q \<longleftrightarrow> lq_items cb q = []"

definition lq_size :: "('b, 'e) cb_ops \<Rightarrow> 'b limited_queue \<Rightarrow> nat" where
  "lq_size cb q = length (lq_items cb q)"

definition lq_get :: "('b, 'e) cb_ops \<Rightarrow> 'b limited_queue \<Rightarrow> nat \<Rightarrow> 'e option" where
  "lq_get cb q index = (if length (lq_items cb q) \<le> index then None else Some (lq_items cb q ! index))"

definition lq_first :: "('b, 'e) cb_ops \<Rightarrow> 'b limited_queue \<Rightarrow> 'e option" where
  "lq_first cb q = (if lq_items cb q = [] then None else Some (hd (lq_items cb q)))"

definition lq_last :: "('b, 'e) cb_ops \<Rightarrow> 'b limited_queue \<Rightarrow> 'e option" where
  "lq_last cb q = (if lq_items cb q = [] then None else Some (last (lq_items cb q)))"

definition lq_clear :: "('b, 'e) cb_ops \<Rightarrow> 'b limited_queue \<Rightarrow> 'b limited_queue" where
  "lq_clear cb q = q\<lparr>lq_buffer := cb_clear cb (lq_buffer q)\<rparr>"

text \<open>\<open>pushBack(item, deleted)\<close>: the queue, the returned flag, and what was written to the
  out-parameter (\<open>None\<close>: left unchanged).\<close>

definition lq_pushBackDel ::
  "('b, 'e) cb_ops \<Rightarrow> 'b limited_queue \<Rightarrow> 'e \<Rightarrow> lq_error + ('b limited_queue \<times> bool \<times> 'e option)" where
  "lq_pushBackDel cb q item =
     (let full = lq_full cb q in
      if full \<and> lq_items cb q = [] then Inl FrontOfEmptyBuffer
      else Inr (q\<lparr>lq_buffer := cb_push_back cb (lq_buffer q) item\<rparr>, full,
                if full then Some (hd (lq_items cb q)) else None))"

definition lq_pushBack :: "('b, 'e) cb_ops \<Rightarrow> 'b limited_queue \<Rightarrow> 'e \<Rightarrow> 'b limited_queue \<times> bool" where
  "lq_pushBack cb q item =
     (let full = lq_full cb q
      in (q\<lparr>lq_buffer := cb_push_back cb (lq_buffer q) item\<rparr>, full))"

text \<open>\<open>pushFront\<close>: \<open>f\<close> counts up through the items that are returned, \<open>b\<close> down
  through the items that are pushed.\<close>

function lq_pushFront_loop ::
  "('b, 'e) cb_ops \<Rightarrow> 'e list \<Rightarrow> nat \<Rightarrow> nat \<Rightarrow> 'b \<Rightarrow> 'e list \<Rightarrow> 'b \<times> 'e list" where
  "lq_pushFront_loop cb items f b buf pushed =
     (if f < length items
      then lq_pushFront_loop cb items (Suc f) (b - 1)
             (cb_push_front cb buf (items ! b)) (pushed @ [items ! f])
      else (buf, pushed))"
  by pat_completeness auto
termination
  by (relation "measure (\<lambda>(cb, items, f, b, buf, pushed). length items - f)") auto

declare lq_pushFront_loop.simps [simp del]

definition lq_pushFront ::
  "('b, 'e) cb_ops \<Rightarrow> 'b limited_queue \<Rightarrow> 'e list \<Rightarrow> 'b limited_queue \<times> 'e list" where
  "lq_pushFront cb q items =
     (let numToPush = min (length items) (lq_space cb q);
          (buf, pushed) = lq_pushFront_loop cb items (length items - numToPush) (length items - 1)
                            (lq_buffer q) []
      in (q\<lparr>lq_buffer := buf\<rparr>, pushed))"

text \<open>The three overloads of \<open>replaceItem\<close>.  The index is returned as an \<open>int\<close>.\<close>

definition lq_replaceItem ::
  "('b, 'e) cb_ops \<Rightarrow> ('e \<Rightarrow> 'e \<Rightarrow> bool) \<Rightarrow> 'b limited_queue \<Rightarrow> 'e \<Rightarrow> 'e \<Rightarrow> 'b limited_queue \<times> int" where
  "lq_replaceItem cb eq q needle replacement =
     (case first_index (\<lambda>x. eq x needle) (lq_items cb q) of
        Some i \<Rightarrow> (q\<lparr>lq_buffer := cb_assign cb (lq_buffer q) i replacement\<rparr>, to_int32 (int i))
      | None \<Rightarrow> (q, -1))"

definition lq_replaceItemAt ::
  "('b, 'e) cb_ops \<Rightarrow> 'b limited_queue \<Rightarrow> nat \<Rightarrow> 'e \<Rightarrow> 'b limited_queue \<times> 'e option" where
  "lq_replaceItemAt cb q index replacement =
     (if length (lq_items cb q) \<le> index then (q, None)
      else (q\<lparr>lq_buffer := cb_assign cb (lq_buffer q) index replacement\<rparr>, Some (lq_items cb q ! index)))"

definition lq_replaceItemHint ::
  "('b, 'e) cb_ops \<Rightarrow> 'b limited_queue \<Rightarrow> nat \<Rightarrow> 'e \<Rightarrow> 'e \<Rightarrow> 'b limited_queue \<times> int" where
  "lq_replaceItemHint cb q hint needle replacement =
     (if hint < length (lq_items cb q) \<and> lq_items cb q ! hint = needle
      then (q\<lparr>lq_buffer := cb_assign cb (lq_buffer q) hint replacement\<rparr>, to_int32 (int hint))
      else (case first_index (\<lambda>x. x = needle) (lq_items cb q) of
              Some i \<Rightarrow> (q\<lparr>lq_buffer := cb_assign cb (lq_buffer q) i replacement\<rparr>, to_int32 (int i))
            | None \<Rightarrow> (q, -1)))"

definition lq_insertBefore ::
  "('b, 'e) cb_ops \<Rightarrow> ('e \<Rightarrow> 'e \<Rightarrow> bool) \<Rightarrow> 'b limited_queue \<Rightarrow> 'e \<Rightarrow> 'e \<Rightarrow> 'b limited_queue \<times> bool" where
  "lq_insertBefore cb eq q needle item =
     (case first_index (\<lambda>x. eq x needle) (lq_items cb q) of
        Some i \<Rightarrow> (q\<lparr>lq_buffer := cb_insert cb (lq_buffer q) i item\<rparr>, True)
      | None \<Rightarrow> (q, False))"

definition lq_insertAfter ::
  "('b, 'e) cb_ops \<Rightarrow> ('e \<Rightarrow> 'e \<Rightarrow> bool) \<Rightarrow> 'b limited_queue \<Rightarrow> 'e \<Rightarrow> 'e \<Rightarrow> 'b limited_queue \<times> bool" where
  "lq_insertAfter cb eq q needle item =
     (case first_index (\<lambda>x. eq x needle) (lq_items cb q) of
        Some i \<Rightarrow> (q\<lparr>lq_buffer := cb_insert cb (lq_buffer q) (Suc i) item\<rparr>, True)
      | None \<Rightarrow> (q, False))"

definition lq_getSnapshot :: "('b, 'e) cb_ops \<Rightarrow> 'b limited_queue \<Rightarrow> 'e list" where
  "lq_getSnapshot cb q = lq_items cb q"

definition lq_lastN :: "('b, 'e) cb_ops \<Rightarrow> 'b limited_queue \<Rightarrow> nat \<Rightarrow> 'e list" where
  "lq_lastN cb q nItems =
     (let n = min nItems (length (lq_items cb q)) in drop (length (lq_items cb q) - n) (lq_items cb q))"

definition lq_lastNBy :: "('b, 'e) cb_ops \<Rightarrow> ('e \<Rightarrow> 'u) \<Rightarrow> 'b limited_queue \<Rightarrow> nat \<Rightarrow> 'u list" where
  "lq_lastNBy cb f q nItems =
     (let n = min nItems (length (lq_items cb q)) in map f (drop (length (lq_items cb q) - n) (lq_items cb q)))"

definition lq_firstN :: "('b, 'e) cb_ops \<Rightarrow> 'b limited_queue \<Rightarrow> nat \<Rightarrow> 'e list" where
  "lq_firstN cb q nItems = take (min nItems (length (lq_items cb q))) (lq_items cb q)"

definition lq_find :: "('b, 'e) cb_ops \<Rightarrow> 'b limited_queue \<Rightarrow> ('e \<Rightarrow> bool) \<Rightarrow> 'e option" where
  "lq_find cb q pred = map_option (\<lambda>i. lq_items cb q ! i) (first_index pred (lq_items cb q))"

definition lq_findHint ::
  "('b, 'e) cb_ops \<Rightarrow> 'b limited_queue \<Rightarrow> nat \<Rightarrow> ('e \<Rightarrow> bool) \<Rightarrow> (nat \<times> 'e) option" where
  "lq_findHint cb q hint predicate =
     (if hint < length (lq_items cb q) \<and> predicate (lq_items cb q ! hint)
      then Some (hint, lq_items cb q ! hint)
      else map_option (\<lambda>i. (i, lq_items cb q ! i)) (first_index predicate (lq_items cb q)))"

definition lq_rfind :: "('b, 'e) cb_ops \<Rightarrow> 'b limited_queue \<Rightarrow> ('e \<Rightarrow> bool) \<Rightarrow> 'e option" where
  "lq_rfind cb q pred =
     map_option (\<lambda>i. rev (lq_items cb q) ! i) (first_index pred (rev (lq_items cb q)))"

section \<open>The contract of the queue\<close>

definition lq_wf :: "('b, 'e) cb_ops \<Rightarrow> 'b limited_queue \<Rightarrow> bool" where
  "lq_wf cb q \<longleftrightarrow> cb_capacity cb (lq_buffer q) = lq_limit q"

text \<open>What a client of the queue relies on, over any representation \<open>'q\<close>.\<close>

locale bounded_queue =
  fixes items :: "'q \<Rightarrow> 'e list"
    and limit :: "'q \<Rightarrow> nat"
    and wf :: "'q \<Rightarrow> bool"
    and push_back :: "'q \<Rightarrow> 'e \<Rightarrow> lq_error + ('q \<times> bool \<times> 'e option)"
    and push_front :: "'q \<Rightarrow> 'e list \<Rightarrow> 'q \<times> 'e list"
  assumes size_limit: "wf q \<Longrightarrow> length (items q) \<le> limit q"
    and push_back_law: "wf q \<Longrightarrow> 0 < limit q \<Longrightarrow>
          \<exists>q'. push_back q x = Inr (q', length (items q) = limit q,
                 if length (items q) = limit q then Some (hd (items q)) else None)
             \<and> wf q' \<and> limit q' = limit q
             \<and> items q' = last_n (limit q) (items q @ [x])"
    and push_front_law: "wf q \<Longrightarrow> \<exists>q'.
          push_front q xs = (q', last_n (limit q - length (items q)) xs)
             \<and> wf q' \<and> limit q' = limit q
             \<and> items q' = last_n (limit q - length (items q)) xs @ items q"

fun pushBackAll ::
  "('q \<Rightarrow> 'e \<Rightarrow> lq_error + ('q \<times> bool \<times> 'e option)) \<Rightarrow> 'q \<Rightarrow> 'e list \<Rightarrow> lq_error + ('q \<times> 'e list)" where
  "pushBackAll pb q [] = Inr (q, [])"
| "pushBackAll pb q (x # xs) =
     (case pb q x of
        Inl e \<Rightarrow> Inl e
      | Inr (q1, full, del) \<Rightarrow>
          (case pushBackAll pb q1 xs of
             Inl e \<Rightarrow> Inl e
           | Inr (q2, dels) \<Rightarrow> Inr (q2, (case del of None \<Rightarrow> [] | Some d \<Rightarrow> [d]) @ dels)))"

context bounded_queue
begin

lemma push_back_deleted:
  assumes "wf q" and "0 < limit q"
  obtains q' del where "push_back q x = Inr (q', length (items q) = limit q, del)"
    and "wf q'" and "limit q' = limit q"
    and "items q' = last_n (limit q) (items q @ [x])"
    and "(case del of None \<Rightarrow> [] | Some d \<Rightarrow> [d]) @ items q' = items q @ [x]"
proof -
  obtain q' where q': "push_back q x = Inr (q', length (items q) = limit q,
        if length (items q) = limit q then Some (hd (items q)) else None)"
      "wf q'" "limit q' = limit q" "items q' = last_n (limit q) (items q @ [x])"
    using push_back_law[OF assms] by blast
  show thesis
  proof (cases "length (items q) = limit q")
    case True
    then have "items q \<noteq> []" using assms(2) by auto
    with True q' assms show thesis
      by (intro that[OF q'(1-4)]) (simp add: last_n_tl)
  next
    case False
    with size_limit[OF assms(1)] have "length (items q @ [x]) \<le> limit q" by simp
    with False q' show thesis
      by (intro that[OF q'(1-4)]) (simp add: last_n_all)
  qed
qed

lemma pushBackAll_history:
  assumes "wf q" and "0 < limit q"
  shows "\<exists>q' dels. pushBackAll push_back q xs = Inr (q', dels)
     \<and> wf q' \<and> limit q' = limit q
     \<and> dels @ items q' = items q @ xs \<and> items q' = last_n (limit q) (items q @ xs)"
  using assms
proof (induction xs arbitrary: q)
  case Nil
  then show ?case by (simp add: size_limit)
next
  case (Cons x xs)
  obtain q1 del where q1: "push_back q x = Inr (q1, length (items q) = limit q, del)"
      "wf q1" "limit q1 = limit q" "items q1 = last_n (limit q) (items q @ [x])"
      "(case del of None \<Rightarrow> [] | Some d \<Rightarrow> [d]) @ items q1 = items q @ [x]"
    using push_back_deleted[OF Cons.prems] by metis
  obtain q2 dels where q2: "pushBackAll push_back q1 xs = Inr (q2, dels)"
      "wf q2" "limit q2 = limit q1" "dels @ items q2 = items q1 @ xs"
      "items q2 = last_n (limit q1) (items q1 @ xs)"
    using Cons.IH[OF q1(2)] q1(3) Cons.prems(2) by auto
  have "items q2 = last_n (limit q) (items q @ x # xs)"
    using q2(5) q1(3,4) by (simp add: last_n_append_last_n)
  moreover have "(case del of None \<Rightarrow> [] | Some d \<Rightarrow> [d]) @ dels @ items q2 = items q @ x # xs"
    using q2(4) q1(5) by (metis append.assoc append_Cons append_Nil)
  ultimately show ?case using q1 q2 by simp
qed

end

context circular_buffer
begin

lemma wf_full: "lq_wf cb q \<Longrightarrow> lq_full cb q \<longleftrightarrow> length (lq_items cb q) = lq_limit q"
  by (simp add: lq_wf_def lq_full_def)

lemma wf_size: "lq_wf cb q \<Longrightarrow> length (lq_items cb q) \<le> lq_limit q"
  using size_capacity[of "lq_buffer q"] by (simp add: lq_wf_def lq_items_def)

lemma pushBackDel_law:
  assumes wf: "lq_wf cb q" and lim: "0 < lq_limit q"
  shows "\<exists>q'. lq_pushBackDel cb q x = Inr (q', length (lq_items cb q) = lq_limit q,
                 if length (lq_items cb q) = lq_limit q then Some (hd (lq_items cb q)) else None)
             \<and> lq_wf cb q' \<and> lq_limit q' = lq_limit q
             \<and> lq_items cb q' = last_n (lq_limit q) (lq_items cb q @ [x])"
proof -
  have cap: "cb_capacity cb (lq_buffer q) = lq_limit q" using wf by (simp add: lq_wf_def)
  have ne: "length (lq_items cb q) = lq_limit q \<Longrightarrow> lq_items cb q \<noteq> []" using lim by auto
  have items: "cb_items cb (cb_push_back cb (lq_buffer q) x) = last_n (lq_limit q) (lq_items cb q @ [x])"
    using lim wf_size[OF wf]
    by (cases "length (lq_items cb q) = lq_limit q")
       (simp_all add: push_back_items cap last_n_tl lq_items_def)
  show ?thesis
    using ne wf lim items
    by (auto simp: lq_pushBackDel_def Let_def wf_full lq_wf_def push_back_capacity lq_items_def)
qed

lemma pushFront_loop_law:
  assumes "length (cb_items cb buf) + (length xs - f) \<le> cb_capacity cb buf"
    and "f \<le> length xs" and "f < length xs \<Longrightarrow> Suc b + f = f0 + length xs" and "f0 \<le> f"
  shows "\<exists>buf'. lq_pushFront_loop cb xs f b buf pushed = (buf', pushed @ drop f xs)
     \<and> cb_capacity cb buf' = cb_capacity cb buf
     \<and> cb_items cb buf' = take (length xs - f) (drop f0 xs) @ cb_items cb buf"
  using assms
proof (induction "length xs - f" arbitrary: f b buf pushed)
  case 0
  then show ?case by (simp add: lq_pushFront_loop.simps)
next
  case (Suc n)
  define buf1 where "buf1 = cb_push_front cb buf (xs ! b)"
  have f: "f < length xs" using Suc.hyps(2) by simp
  then have "Suc b + f = f0 + length xs" by (rule Suc.prems(3))
  with f Suc.prems(4) have b: "b = f0 + (length xs - Suc f)" "b < length xs" by auto
  have buf1: "cb_items cb buf1 = xs ! b # cb_items cb buf"
      "cb_capacity cb buf1 = cb_capacity cb buf"
    using f Suc.prems(1) by (auto simp: buf1_def push_front_items push_front_capacity)
  obtain buf' where buf': "lq_pushFront_loop cb xs (Suc f) (b - 1) buf1 (pushed @ [xs ! f])
        = (buf', (pushed @ [xs ! f]) @ drop (Suc f) xs)"
      "cb_capacity cb buf' = cb_capacity cb buf1"
      "cb_items cb buf' = take (length xs - Suc f) (drop f0 xs) @ cb_items cb buf1"
  proof -
    have "n = length xs - Suc f" "Suc f \<le> length xs" "f0 \<le> Suc f"
      using Suc.hyps(2) f Suc.prems(4) by auto
    moreover have "length (cb_items cb buf1) + (length xs - Suc f) \<le> cb_capacity cb buf1"
      using buf1 Suc.prems(1) f by simp
    moreover have "Suc (b - 1) + Suc f = f0 + length xs" if "Suc f < length xs"
      using that b by arith
    ultimately show thesis
      using Suc.hyps(1)[of "Suc f" buf1 "b - 1" "pushed @ [xs ! f]"] that by blast
  qed
  have "take (length xs - f) (drop f0 xs) = take (length xs - Suc f) (drop f0 xs) @ [xs ! b]"
    using f b take_Suc_conv_app_nth[of "length xs - Suc f" "drop f0 xs"]
    by (simp add: Suc_diff_Suc)
  then show ?case
    using buf' buf1 f
    by (subst lq_pushFront_loop.simps) (auto simp: buf1_def Cons_nth_drop_Suc)
qed

lemma pushFront_law:
  assumes wf: "lq_wf cb q"
  shows "\<exists>q'. lq_pushFront cb q xs = (q', last_n (lq_limit q - length (lq_items cb q)) xs)
     \<and> lq_wf cb q' \<and> lq_limit q' = lq_limit q
     \<and> lq_items cb q' = last_n (lq_limit q - length (lq_items cb q)) xs @ lq_items cb q"
proof -
  define n where "n = min (length xs) (lq_space cb q)"
  have n: "n \<le> length xs" "n + length (lq_items cb q) \<le> lq_limit q"
    using wf_size[OF wf] by (auto simp: n_def lq_space_def)
  have eq: "drop (length xs - n) xs = last_n (lq_limit q - length (lq_items cb q)) xs"
    by (auto simp: last_n_def n_def lq_space_def min_def)
  have cap: "cb_capacity cb (lq_buffer q) = lq_limit q" using wf by (simp add: lq_wf_def)
  obtain buf where buf: "lq_pushFront_loop cb xs (length xs - n) (length xs - 1) (lq_buffer q) []
        = (buf, drop (length xs - n) xs)"
      "cb_capacity cb buf = lq_limit q"
      "cb_items cb buf = take n (drop (length xs - n) xs) @ lq_items cb q"
  proof -
    have "Suc (length xs - 1) + (length xs - n) = (length xs - n) + length xs"
      if "length xs - n < length xs" using that by arith
    moreover have "length (cb_items cb (lq_buffer q)) + (length xs - (length xs - n))
        \<le> cb_capacity cb (lq_buffer q)" using n cap by (simp add: lq_items_def)
    ultimately show thesis
      using pushFront_loop_law[of "lq_buffer q" xs "length xs - n" "length xs - 1" "length xs - n" "[]"]
        n(1) cap that by (auto simp: lq_items_def)
  qed
  have "take n (drop (length xs - n) xs) = drop (length xs - n) xs"
    using n(1) by simp
  then show ?thesis
    using buf cap eq unfolding lq_pushFront_def n_def[symmetric]
    by (auto simp: Let_def lq_wf_def lq_items_def)
qed

end

sublocale circular_buffer \<subseteq> bounded_queue "lq_items cb" lq_limit "lq_wf cb" "lq_pushBackDel cb" "lq_pushFront cb"
  by unfold_locales (use wf_size pushBackDel_law pushFront_law in blast)+

section \<open>A reference storage\<close>

text \<open>A list with a capacity that behaves as documented; used to evaluate concrete inputs.\<close>

type_synonym 'e list_buffer = "nat \<times> 'e list"

definition list_cb :: "('e list_buffer, 'e) cb_ops" where
  "list_cb = \<lparr>
     cb_make = (\<lambda>n. (n, [])),
     cb_capacity = fst,
     cb_items = (\<lambda>(n, xs). take n xs),
     cb_clear = (\<lambda>(n, xs). (n, [])),
     cb_push_back = (\<lambda>(n, xs) x. (n, if length (take n xs) = n then tl (take n xs) @ [x] else xs @ [x])),
     cb_push_front = (\<lambda>(n, xs) x. (n, x # xs)),
     cb_insert = (\<lambda>(n, xs) i x.
        (n, if length (take n xs) < n then take i xs @ x # drop i xs
            else if i = 0 then xs else tl (take i xs) @ x # drop i xs)),
     cb_assign = (\<lambda>(n, xs) i x. (n, xs[i := x]))\<rparr>"

lemma list_cb_simps [simp]:
  "cb_make list_cb n = (n, [])"
  "cb_capacity list_cb b = fst b"
  "cb_items list_cb b = take (fst b) (snd b)"
  "cb_clear list_cb b = (fst b, [])"
  "cb_push_back list_cb b x = (fst b,
     if length (take (fst b) (snd b)) = fst b then tl (take (fst b) (snd b)) @ [x] else snd b @ [x])"
  "cb_push_front list_cb b x = (fst b, x # snd b)"
  "cb_insert list_cb b i x = (fst b,
     if length (take (fst b) (snd b)) < fst b then take i (snd b) @ x # drop i (snd b)
     else if i = 0 then snd b else tl (take i (snd b)) @ x # drop i (snd b))"
  "cb_assign list_cb b i x = (fst b, (snd b)[i := x])"
  by (simp_all add: list_cb_def case_prod_beta)

interpretation list_cb: circular_buffer "list_cb :: ('e list_buffer, 'e) cb_ops"
proof unfold_locales
  fix b :: "'e list_buffer" and x i
  obtain n xs where b: "b = (n, xs)" by (cases b)
  show "cb_items list_cb (cb_push_back list_cb b x) =
          (if cb_capacity list_cb b = 0 then []
           else if length (cb_items list_cb b) = cb_capacity list_cb b then tl (cb_items list_cb b) @ [x]
           else cb_items list_cb b @ [x])"
    by (cases n) (auto simp: b take_tl)
  show "cb_items list_cb (cb_push_front list_cb b x) =
          (if cb_capacity list_cb b = 0 then []
           else if length (cb_items list_cb b) = cb_capacity list_cb b then x # butlast (cb_items list_cb b)
           else x # cb_items list_cb b)"
    by (cases n) (auto simp: b butlast_take butlast_conv_take min_def)
  show "cb_items list_cb (cb_insert list_cb b i x) =
          (if length (cb_items list_cb b) < cb_capacity list_cb b
             then take i (cb_items list_cb b) @ x # drop i (cb_items list_cb b)
           else if i = 0 then cb_items list_cb b
           else tl (take i (cb_items list_cb b)) @ x # drop i (cb_items list_cb b))"
    if "i \<le> length (cb_items list_cb b)"
  proof (cases "length xs < n")
    case True
    then show ?thesis using that by (simp add: b)
  next
    case False
    then have "i \<le> n" "length (take n xs) = n" "length (take i xs) = i"
      using that by (simp_all add: b)
    then show ?thesis by (cases i) (auto simp: b drop_take Suc_diff_le take_Cons')
  qed
  show "cb_items list_cb (cb_assign list_cb b i x) = (cb_items list_cb b)[i := x]"
    if "i < length (cb_items list_cb b)"
    using that by (simp add: b take_update_swap)
qed (auto simp: min_def)

section \<open>Every operation keeps the bound\<close>

text \<open>One call of a modifying member function.\<close>

inductive lq_step :: "('b, 'e) cb_ops \<Rightarrow> 'b limited_queue \<Rightarrow> 'b limited_queue \<Rightarrow> bool" for cb where
  clear: "lq_step cb q (lq_clear cb q)"
| push_del: "lq_pushBackDel cb q x = Inr (q', r, d) \<Longrightarrow> lq_step cb q q'"
| push: "lq_step cb q (fst (lq_pushBack cb q x))"
| push_front: "lq_step cb q (fst (lq_pushFront cb q xs))"
| replace: "lq_step cb q (fst (lq_replaceItem cb eq q needle x))"
| replace_at: "lq_step cb q (fst (lq_replaceItemAt cb q i x))"
| replace_hint: "lq_step cb q (fst (lq_replaceItemHint cb q i needle x))"
| insert_before: "lq_step cb q (fst (lq_insertBefore cb eq q needle x))"
| insert_after: "lq_step cb q (fst (lq_insertAfter cb eq q needle x))"

inductive lq_reachable :: "('b, 'e) cb_ops \<Rightarrow> nat \<Rightarrow> 'b limited_queue \<Rightarrow> bool" for cb n where
  start: "lq_reachable cb n (LimitedQueue cb n)"
| step: "lq_reachable cb n q \<Longrightarrow> lq_step cb q q' \<Longrightarrow> lq_reachable cb n q'"

context circular_buffer
begin

lemmas capacity_laws = make_capacity clear_capacity push_back_capacity push_front_capacity
  insert_capacity assign_capacity

lemmas pushBack_history = pushBackAll_history

lemma step_wf:
  assumes "lq_step cb q q'" and "lq_wf cb q"
  shows "lq_wf cb q' \<and> lq_limit q' = lq_limit q"
  using assms
proof (induction rule: lq_step.induct)
  case (push_front q xs)
  then show ?case using pushFront_law[of q xs] by auto
qed (auto simp: lq_wf_def lq_clear_def lq_pushBackDel_def lq_pushBack_def lq_replaceItem_def
    lq_replaceItemAt_def lq_replaceItemHint_def lq_insertBefore_def lq_insertAfter_def
    capacity_laws Let_def split: if_splits option.splits)

lemma reachable_wf: "lq_reachable cb n q \<Longrightarrow> lq_wf cb q \<and> lq_limit q = n"
proof (induction rule: lq_reachable.induct)
  case start
  then show ?case by (simp add: LimitedQueue_def lq_wf_def make_capacity)
next
  case (step q q')
  then show ?case using step_wf by blast
qed

lemma replaceItemHint_law:
  assumes "length (lq_items cb q) < 2 ^ 31"
  shows "(\<exists>i. i < length (lq_items cb q) \<and> lq_items cb q ! i = needle
            \<and> (i = hint \<or> (\<forall>j < i. lq_items cb q ! j \<noteq> needle))
            \<and> snd (lq_replaceItemHint cb q hint needle r) = int i
            \<and> lq_items cb (fst (lq_replaceItemHint cb q hint needle r)) = (lq_items cb q)[i := r])
       \<or> (needle \<notin> set (lq_items cb q) \<and> lq_replaceItemHint cb q hint needle r = (q, -1))"
proof (cases "hint < length (lq_items cb q) \<and> lq_items cb q ! hint = needle")
  case True
  then have "snd (lq_replaceItemHint cb q hint needle r) = int hint"
      "lq_items cb (fst (lq_replaceItemHint cb q hint needle r)) = (lq_items cb q)[hint := r]"
    using assms by (simp_all add: lq_replaceItemHint_def lq_items_def assign_items to_int32_id)
  with True show ?thesis by blast
next
  case nohint: False
  show ?thesis
  proof (cases "first_index (\<lambda>x. x = needle) (lq_items cb q)")
    case None
    then have "needle \<notin> set (lq_items cb q)" by (auto simp: first_index_None_iff)
    with None nohint show ?thesis by (auto simp: lq_replaceItemHint_def)
  next
    case (Some i)
    have i: "i < length (lq_items cb q)" "lq_items cb q ! i = needle"
        "\<forall>j < i. lq_items cb q ! j \<noteq> needle"
      using Some by (auto simp: first_index_Some_iff)
    have "snd (lq_replaceItemHint cb q hint needle r) = int i"
        "lq_items cb (fst (lq_replaceItemHint cb q hint needle r)) = (lq_items cb q)[i := r]"
      using nohint Some i assms
      by (auto simp: lq_replaceItemHint_def lq_items_def assign_items to_int32_id)
    with i show ?thesis by blast
  qed
qed

lemma insertBefore_law:
  assumes "lq_wf cb q" and "first_index (\<lambda>x. eq x needle) (lq_items cb q) = Some i"
  shows "snd (lq_insertBefore cb eq q needle x)
     \<and> lq_items cb (fst (lq_insertBefore cb eq q needle x)) =
         (if length (lq_items cb q) < lq_limit q
            then take i (lq_items cb q) @ x # drop i (lq_items cb q)
          else if i = 0 then lq_items cb q
          else tl (take i (lq_items cb q)) @ x # drop i (lq_items cb q))"
  using assms first_index_Some_D[OF assms(2)] insert_items[of i "lq_buffer q" x]
  by (simp add: lq_insertBefore_def lq_items_def lq_wf_def)

lemma insertAfter_law:
  assumes "lq_wf cb q" and "first_index (\<lambda>x. eq x needle) (lq_items cb q) = Some i"
  shows "snd (lq_insertAfter cb eq q needle x)
     \<and> lq_items cb (fst (lq_insertAfter cb eq q needle x)) =
         (if length (lq_items cb q) < lq_limit q
            then take (Suc i) (lq_items cb q) @ x # drop (Suc i) (lq_items cb q)
          else tl (take (Suc i) (lq_items cb q)) @ x # drop (Suc i) (lq_items cb q))"
  using assms first_index_Some_D[OF assms(2)] insert_items[of "Suc i" "lq_buffer q" x]
  by (simp add: lq_insertAfter_def lq_items_def lq_wf_def)

end

section \<open>Properties\<close>

text \<open>C18. Pushing any sequence of items: the items reported as deleted, in order, followed by
  what the queue holds are exactly the items it held followed by the items pushed, and the
  queue holds the last \<open>limit\<close> of them.  Nothing is lost without being reported.\<close>

theorem pushBack_keeps_history:
  assumes "circular_buffer cb" and "lq_wf cb q" and "0 < lq_limit q"
  shows "\<exists>q' dels. pushBackAll (lq_pushBackDel cb) q xs = Inr (q', dels)
     \<and> lq_wf cb q' \<and> lq_limit q' = lq_limit q
     \<and> dels @ lq_items cb q' = lq_items cb q @ xs
     \<and> lq_items cb q' = last_n (lq_limit q) (lq_items cb q @ xs)"
  by (rule circular_buffer.pushBack_history [OF assms])

theorem pushBack_keeps_history_witness:
  "\<exists>q' dels. pushBackAll (lq_pushBackDel list_cb) (LimitedQueue list_cb 2) [1, 2, 3 :: nat] = Inr (q', dels)
     \<and> dels @ lq_items list_cb q' = [1, 2, 3] \<and> lq_items list_cb q' = [2, 3]"
proof -
  have h: "lq_wf list_cb (LimitedQueue list_cb 2 :: nat list_buffer limited_queue)"
      "0 < lq_limit (LimitedQueue list_cb 2 :: nat list_buffer limited_queue)"
      "lq_items list_cb (LimitedQueue list_cb 2 :: nat list_buffer limited_queue) = []"
    by (simp_all add: lq_wf_def LimitedQueue_def lq_items_def)
  from pushBack_keeps_history[OF list_cb.circular_buffer_axioms h(1,2), of "[1, 2, 3]"] h(3)
  show ?thesis by (auto simp: LimitedQueue_def last_n_def)
qed

text \<open>C37. \<open>pushFront\<close> only ever adds: it inserts, in order, exactly the last items that fit
  in the free space, in front of everything the queue holds, returns them, and evicts
  nothing.\<close>

theorem pushFront_never_evicts:
  assumes "circular_buffer cb" and "lq_wf cb q"
  shows "\<exists>q'. lq_pushFront cb q xs = (q', last_n (lq_limit q - length (lq_items cb q)) xs)
     \<and> lq_items cb q' = last_n (lq_limit q - length (lq_items cb q)) xs @ lq_items cb q
     \<and> length (lq_items cb q') \<le> lq_limit q"
  using circular_buffer.pushFront_law[OF assms, of xs] circular_buffer.wf_size[OF assms] by auto

theorem pushFront_never_evicts_witness:
  "\<exists>q'. lq_pushFront list_cb (LimitedQueue list_cb 2) [1, 2, 3 :: nat] = (q', [2, 3])
     \<and> lq_items list_cb q' = [2, 3]"
proof -
  have h: "lq_wf list_cb (LimitedQueue list_cb 2 :: nat list_buffer limited_queue)"
      "lq_space list_cb (LimitedQueue list_cb 2 :: nat list_buffer limited_queue) = 2"
      "lq_items list_cb (LimitedQueue list_cb 2 :: nat list_buffer limited_queue) = []"
      "lq_limit (LimitedQueue list_cb 2 :: nat list_buffer limited_queue) = 2"
    by (simp_all add: lq_wf_def LimitedQueue_def lq_items_def lq_space_def)
  from pushFront_never_evicts[OF list_cb.circular_buffer_axioms h(1), of "[1, 2, 3]"] h(2-4)
  show ?thesis by (auto simp: last_n_def)
qed

text \<open>Whatever sequence of calls a queue created with \<open>limit\<close> has seen, it holds at
  most \<open>limit\<close> items.\<close>

theorem reachable_queue_bounded:
  assumes "circular_buffer cb" and "lq_reachable cb n q"
  shows "lq_limit q = n \<and> length (lq_getSnapshot cb q) \<le> n"
  using circular_buffer.reachable_wf[OF assms] circular_buffer.wf_size[OF assms(1)]
  by (auto simp: lq_getSnapshot_def)

theorem reachable_queue_bounded_witness:
  "\<exists>q. lq_reachable list_cb 1 q \<and> lq_items list_cb q = [7 :: nat] \<and> length (lq_getSnapshot list_cb q) \<le> 1"
proof -
  let ?q = "fst (lq_pushBack list_cb (LimitedQueue list_cb 1) (7 :: nat))"
  have r: "lq_reachable list_cb 1 ?q"
    by (rule lq_reachable.step[OF lq_reachable.start lq_step.push])
  moreover have "lq_items list_cb ?q = [7]"
    by (simp add: lq_pushBack_def lq_items_def LimitedQueue_def Let_def)
  ultimately show ?thesis
    using reachable_queue_bounded[OF list_cb.circular_buffer_axioms r] by blast
qed

text \<open>\<open>replaceItem(hint, needle, replacement)\<close> returns -1 and changes nothing when the
  needle is not in the queue; otherwise it replaces one occurrence (the hinted one if the
  hint is right, the first one if not) and returns its index.\<close>

theorem replaceItemHint_spec:
  assumes "circular_buffer cb" and "length (lq_items cb q) < 2 ^ 31"
  shows "(\<exists>i. i < length (lq_items cb q) \<and> lq_items cb q ! i = needle
            \<and> (i = hint \<or> (\<forall>j < i. lq_items cb q ! j \<noteq> needle))
            \<and> snd (lq_replaceItemHint cb q hint needle r) = int i
            \<and> lq_items cb (fst (lq_replaceItemHint cb q hint needle r)) = (lq_items cb q)[i := r])
       \<or> (needle \<notin> set (lq_items cb q) \<and> lq_replaceItemHint cb q hint needle r = (q, -1))"
  by (rule circular_buffer.replaceItemHint_law [OF assms])

theorem replaceItemHint_spec_witness:
  "snd (lq_replaceItemHint list_cb \<lparr>lq_limit = 5, lq_buffer = (5, [10, 20, 30 :: nat])\<rparr> 0 30 99) = 2"
proof -
  let ?q = "\<lparr>lq_limit = 5, lq_buffer = (5, [10, 20, 30 :: nat])\<rparr>"
  have items: "lq_items list_cb ?q = [10, 20, 30]" by (simp add: lq_items_def)
  obtain i where i: "i < 3" "[10, 20, 30 :: nat] ! i = 30"
      "snd (lq_replaceItemHint list_cb ?q 0 30 99) = int i"
    using replaceItemHint_spec[OF list_cb.circular_buffer_axioms, of ?q 30 0 99] items by auto
  then have "i = 2" by (auto simp: less_Suc_eq numeral_3_eq_3)
  with i show ?thesis by simp
qed

text \<open>On a full queue \<open>insertBefore\<close> the front element reports an insertion although
  nothing is inserted, while an insertion anywhere else drops the oldest item.\<close>

theorem insertBefore_full_queue:
  assumes "circular_buffer cb" and "lq_wf cb q" and "length (lq_items cb q) = lq_limit q"
    and "first_index (\<lambda>x. eq x needle) (lq_items cb q) = Some i"
  shows "snd (lq_insertBefore cb eq q needle x) \<and>
         lq_items cb (fst (lq_insertBefore cb eq q needle x)) =
           (if i = 0 then lq_items cb q
            else tl (take i (lq_items cb q)) @ x # drop i (lq_items cb q))"
  using circular_buffer.insertBefore_law[where eq = eq and needle = needle and x = x,
      OF assms(1,2,4)] assms(3) by simp

theorem insertBefore_full_queue_witness:
  "snd (lq_insertBefore list_cb (=) \<lparr>lq_limit = 2, lq_buffer = (2, [1, 2 :: nat])\<rparr> 1 9) \<and>
   lq_items list_cb (fst (lq_insertBefore list_cb (=) \<lparr>lq_limit = 2, lq_buffer = (2, [1, 2 :: nat])\<rparr> 1 9)) = [1, 2]"
proof -
  let ?q = "\<lparr>lq_limit = 2, lq_buffer = (2, [1, 2 :: nat])\<rparr>"
  have "lq_wf list_cb ?q" "length (lq_items list_cb ?q) = lq_limit ?q"
      "first_index (\<lambda>x. x = 1) (lq_items list_cb ?q) = Some 0"
    by (simp_all add: lq_wf_def lq_items_def)
  from insertBefore_full_queue[where eq = "(=)" and needle = 1 and x = 9,
      OF list_cb.circular_buffer_axioms this]
  show ?thesis by (simp add: lq_items_def)
qed

end
