(* ===== verification/ChannelTypes.thy ===== *)
theory ChannelTypes
  imports Main
begin

text \<open>
  The types of channels of \<open>src/common/Channel.hpp\<close>, which the message lists of channels and the saved window layouts
  share, with their positions in the enumeration; \<open>isTwitchType\<close> compares those.
\<close>

datatype channel_type =
    TypeNone | Direct | Twitch | TwitchWhispers | TwitchWatching | TwitchMentions | TwitchLive
  | TwitchAutomod | TwitchEnd | Misc

fun typeCode :: "channel_type \<Rightarrow> nat" where
  "typeCode TypeNone = 0"
| "typeCode Direct = 1"
| "typeCode Twitch = 2"
| "typeCode TwitchWhispers = 3"
| "typeCode TwitchWatching = 4"
| "typeCode TwitchMentions = 5"
| "typeCode TwitchLive = 6"
| "typeCode TwitchAutomod = 7"
| "typeCode TwitchEnd = 8"
| "typeCode Misc = 9"

end
