(* ===== verification/ChannelMessages.thy ===== *)
theory ChannelMessages
  imports LimitedQueue Messages ChannelTypes "HOL-Library.Sublist"
begin

text \<open>
  The message list of a channel: \<open>src/common/Channel.cpp\<close> with the timeout and clear-chat
  stacking of \<open>src/util/ChannelHelpers.hpp\<close> and the texts that
  \<open>src/messages/MessageBuilder.cpp\<close> gives to stacked messages.

  The state holds the heap of messages, the channel's queue of message pointers and the list of
  emitted signals, calls of the logger and calls of the virtual hook \<open>messageRemovedFromStart\<close> in order.  \<open>cs_next\<close> is the address of the next new message.
  Settings, the current time and the stack style are arguments.
\<close>

section \<open>State\<close>

datatype channel_event =
    LoggedMessage string ptr string
  | MessageRemovedFromStart ptr
  | MessageAppended ptr "flags option"
  | MessagesAddedAtStart "ptr list"
  | FilledInMessages "ptr list"
  | MessageReplaced nat ptr ptr
  | MessagesCleared

datatype message_context = Original | Repost

datatype timeout_stack_style = StackHard | DontStackBeyondUserMessage | DontStack

record 'b channel_state =
  cs_name :: string
  cs_type :: channel_type
  cs_platform :: string
  cs_messages :: "'b limited_queue"
  cs_anythingLogged :: bool
  cs_heap :: heap
  cs_next :: ptr
  cs_events :: "channel_event list"

type_synonym 'b channel_result = "lq_error + 'b channel_state"

definition isTwitchType :: "channel_type \<Rightarrow> bool" where
  "isTwitchType t \<longleftrightarrow> typeCode t \<ge> typeCode Twitch \<and> typeCode t < typeCode TwitchEnd"

definition Channel :: "('b, ptr) cb_ops \<Rightarrow> nat \<Rightarrow> string \<Rightarrow> channel_type \<Rightarrow> heap \<Rightarrow> ptr \<Rightarrow> 'b channel_state" where
  "Channel cb scrollbackSplitLimit name ty h next =
     \<lparr>cs_name = name, cs_type = ty, cs_platform = (if isTwitchType ty then ''twitch'' else ''''),
      cs_messages = LimitedQueue cb scrollbackSplitLimit, cs_anythingLogged = False,
      cs_heap = h, cs_next = next, cs_events = []\<rparr>"

definition ch_isEmpty :: "'b channel_state \<Rightarrow> bool" where
  "ch_isEmpty s \<longleftrightarrow> cs_name s = ''''"

definition ch_hasMessages :: "('b, ptr) cb_ops \<Rightarrow> 'b channel_state \<Rightarrow> bool" where
  "ch_hasMessages cb s \<longleftrightarrow> \<not> lq_empty cb (cs_messages s)"

definition ch_countMessages :: "('b, ptr) cb_ops \<Rightarrow> 'b channel_state \<Rightarrow> nat" where
  "ch_countMessages cb s = lq_size cb (cs_messages s)"

definition ch_snapshot :: "('b, ptr) cb_ops \<Rightarrow> 'b channel_state \<Rightarrow> ptr list" where
  "ch_snapshot cb s = lq_getSnapshot cb (cs_messages s)"

definition ch_snapshotN :: "('b, ptr) cb_ops \<Rightarrow> 'b channel_state \<Rightarrow> nat \<Rightarrow> ptr list" where
  "ch_snapshotN cb s n = lq_lastN cb (cs_messages s) n"

definition ch_getLastMessage :: "('b, ptr) cb_ops \<Rightarrow> 'b channel_state \<Rightarrow> ptr option" where
  "ch_getLastMessage cb s = lq_last cb (cs_messages s)"

definition ch_isWritable :: "'b channel_state \<Rightarrow> bool" where
  "ch_isWritable s \<longleftrightarrow> cs_type s \<noteq> TwitchMentions \<and> cs_type s \<noteq> TwitchLive \<and> cs_type s \<noteq> TwitchAutomod"

definition ch_shouldIgnoreHighlights :: "'b channel_state \<Rightarrow> bool" where
  "ch_shouldIgnoreHighlights s \<longleftrightarrow>
     cs_type s = TwitchAutomod \<or> cs_type s = TwitchMentions \<or> cs_type s = TwitchWhispers"

definition emit :: "channel_event \<Rightarrow> 'b channel_state \<Rightarrow> 'b channel_state" where
  "emit e s = s\<lparr>cs_events := cs_events s @ [e]\<rparr>"

definition updMsg :: "ptr \<Rightarrow> (message \<Rightarrow> message) \<Rightarrow> 'b channel_state \<Rightarrow> 'b channel_state" where
  "updMsg p f s = s\<lparr>cs_heap := h_upd p f (cs_heap s)\<rparr>"

definition msgOf :: "'b channel_state \<Rightarrow> ptr \<Rightarrow> message" where
  "msgOf s p = h_msg (cs_heap s) p"

section \<open>Adding, replacing and finding messages\<close>

definition addMessage ::
  "('b, ptr) cb_ops \<Rightarrow> ptr \<Rightarrow> message_context \<Rightarrow> flags option \<Rightarrow> 'b channel_state \<Rightarrow> 'b channel_result" where
  "addMessage cb p ctx overridingFlags s0 =
     (let s1 = updMsg p m_freeze s0;
          isDoNotLogSet = ((case overridingFlags of Some f \<Rightarrow> fl_has f DoNotLog | None \<Rightarrow> False)
                           \<or> m_has (msgOf s1 p) DoNotLog);
          s2 = (if ctx = Original \<and> cs_type s1 \<noteq> TypeNone \<and> \<not> isDoNotLogSet
                then (emit (LoggedMessage (cs_name s1) p (cs_platform s1)) s1)\<lparr>cs_anythingLogged := True\<rparr>
                else s1)
      in case lq_pushBackDel cb (cs_messages s2) p of
           Inl e \<Rightarrow> Inl e
         | Inr (q, full, deleted) \<Rightarrow>
            (let s3 = s2\<lparr>cs_messages := q\<rparr>;
                 s4 = (case deleted of Some d \<Rightarrow> if full then emit (MessageRemovedFromStart d) s3 else s3 | None \<Rightarrow> s3)
             in Inr (emit (MessageAppended p overridingFlags) s4)))"

definition replaceMessage ::
  "('b, ptr) cb_ops \<Rightarrow> ptr \<Rightarrow> ptr \<Rightarrow> 'b channel_state \<Rightarrow> 'b channel_state" where
  "replaceMessage cb p replacement s0 =
     (let s1 = updMsg replacement m_freeze s0;
          (q, index) = lq_replaceItem cb (=) (cs_messages s1) p replacement;
          s2 = s1\<lparr>cs_messages := q\<rparr>
      in if index \<ge> 0 then emit (MessageReplaced (nat index) p replacement) s2 else s2)"

definition replaceMessageAt ::
  "('b, ptr) cb_ops \<Rightarrow> nat \<Rightarrow> ptr \<Rightarrow> 'b channel_state \<Rightarrow> 'b channel_state" where
  "replaceMessageAt cb index replacement s0 =
     (let s1 = updMsg replacement m_freeze s0;
          (q, prev) = lq_replaceItemAt cb (cs_messages s1) index replacement;
          s2 = s1\<lparr>cs_messages := q\<rparr>
      in case prev of Some p \<Rightarrow> emit (MessageReplaced index p replacement) s2 | None \<Rightarrow> s2)"

text \<open>The signal of the third overload carries the hint, as in the source.\<close>

definition replaceMessageHint ::
  "('b, ptr) cb_ops \<Rightarrow> nat \<Rightarrow> ptr \<Rightarrow> ptr \<Rightarrow> 'b channel_state \<Rightarrow> 'b channel_state" where
  "replaceMessageHint cb hint p replacement s0 =
     (let s1 = updMsg replacement m_freeze s0;
          (q, index) = lq_replaceItemHint cb (cs_messages s1) hint p replacement;
          s2 = s1\<lparr>cs_messages := q\<rparr>
      in if index \<ge> 0 then emit (MessageReplaced hint p replacement) s2 else s2)"

definition findMessageByID :: "('b, ptr) cb_ops \<Rightarrow> 'b channel_state \<Rightarrow> string \<Rightarrow> ptr option" where
  "findMessageByID cb s messageID = lq_rfind cb (cs_messages s) (\<lambda>p. m_id (msgOf s p) = messageID)"

definition disableMessage :: "('b, ptr) cb_ops \<Rightarrow> string \<Rightarrow> 'b channel_state \<Rightarrow> 'b channel_state" where
  "disableMessage cb messageID s =
     (case findMessageByID cb s messageID of
        Some p \<Rightarrow> updMsg p (m_set [Disabled]) s
      | None \<Rightarrow> s)"

definition disableAllMessages :: "('b, ptr) cb_ops \<Rightarrow> 'b channel_state \<Rightarrow> 'b channel_state" where
  "disableAllMessages cb s0 =
     foldl (\<lambda>s p. if fl_hasAny (m_flags (msgOf s p)) (flagsOf [System, Timeout, Whisper]) then s
                  else updMsg p (m_set [Disabled]) s) s0 (ch_snapshot cb s0)"

definition clearMessages :: "('b, ptr) cb_ops \<Rightarrow> 'b channel_state \<Rightarrow> 'b channel_state" where
  "clearMessages cb s = emit MessagesCleared (s\<lparr>cs_messages := lq_clear cb (cs_messages s)\<rparr>)"

definition freezeAll :: "ptr list \<Rightarrow> 'b channel_state \<Rightarrow> 'b channel_state" where
  "freezeAll ps s = foldl (\<lambda>s p. updMsg p m_freeze s) s ps"

definition addMessagesAtStart :: "('b, ptr) cb_ops \<Rightarrow> ptr list \<Rightarrow> 'b channel_state \<Rightarrow> 'b channel_state" where
  "addMessagesAtStart cb ps s0 =
     (let s1 = freezeAll ps s0;
          (q, added) = lq_pushFront cb (cs_messages s1) ps;
          s2 = s1\<lparr>cs_messages := q\<rparr>
      in if length added \<noteq> 0 then emit (MessagesAddedAtStart added) s2 else s2)"

section \<open>Filling in missing messages\<close>

definition existingMessageIds :: "'b channel_state \<Rightarrow> ptr list \<Rightarrow> string set" where
  "existingMessageIds s snapshot =
     {m_id (msgOf s p) | p. p \<in> set snapshot \<and> \<not> (m_has (msgOf s p) System \<or> m_id (msgOf s p) = '''')}"

text \<open>The inner loop: the first non-system message of the snapshot received after \<open>p\<close>.\<close>

fun firstAfter :: "heap \<Rightarrow> ptr \<Rightarrow> ptr list \<Rightarrow> ptr option" where
  "firstAfter h p [] = None"
| "firstAfter h p (x # xs) =
     (if m_has (h_msg h x) System then firstAfter h p xs
      else if m_serverReceivedTime (h_msg h p) < m_serverReceivedTime (h_msg h x) then Some x
      else firstAfter h p xs)"

fun fillLoop ::
  "('b, ptr) cb_ops \<Rightarrow> heap \<Rightarrow> string set \<Rightarrow> ptr list \<Rightarrow> ptr list \<Rightarrow> ptr \<Rightarrow> bool \<Rightarrow> 'b limited_queue
     \<Rightarrow> 'b limited_queue \<times> bool" where
  "fillLoop cb h ids snapshot [] lastMsg anyInserted q = (q, anyInserted)"
| "fillLoop cb h ids snapshot (p # ps) lastMsg anyInserted q =
     (if m_id (h_msg h p) \<in> ids then fillLoop cb h ids snapshot ps lastMsg anyInserted q
      else case firstAfter h p snapshot of
             Some x \<Rightarrow> fillLoop cb h ids snapshot ps lastMsg True (fst (lq_insertBefore cb (=) q x p))
           | None \<Rightarrow> fillLoop cb h ids snapshot ps p True (fst (lq_insertAfter cb (=) q lastMsg p)))"

definition fillInMissingMessages :: "('b, ptr) cb_ops \<Rightarrow> ptr list \<Rightarrow> 'b channel_state \<Rightarrow> 'b channel_state" where
  "fillInMissingMessages cb ps s0 =
     (if ps = [] then s0
      else let s1 = freezeAll ps s0; snapshot = ch_snapshot cb s1 in
        if length snapshot = 0
        then emit (FilledInMessages ps) (s1\<lparr>cs_messages := fst (lq_pushFront cb (cs_messages s1) ps)\<rparr>)
        else let (q, anyInserted) = fillLoop cb (cs_heap s1) (existingMessageIds s1 snapshot) snapshot ps
                                      (snapshot ! (length snapshot - 1)) False (cs_messages s1);
                 s2 = s1\<lparr>cs_messages := q\<rparr>
             in if anyInserted then emit (FilledInMessages ps) s2 else s2)"

section \<open>Stacked timeout and clear messages\<close>

text \<open>\<open>appendUser\<close> of the timeout constructor, on \<open>(remainder, messageText)\<close>.\<close>

definition appendUser :: "string \<Rightarrow> string \<times> string \<Rightarrow> string \<times> string" where
  "appendUser name = (\<lambda>(remainder, messageText).
     case indexOf remainder name of
       Some pos \<Rightarrow>
         (if pos > 0 then
            (let start = mid remainder 0 (pos - 1);
                 remainder' = midFrom remainder (pos + length name);
                 text1 = messageText @ start @ '' '' @ name @ '' ''
             in if startsWith remainder' '' '' then (drop 1 remainder', text1)
                else (remainder', butlast text1))
          else (remainder, messageText))
     | None \<Rightarrow> (remainder, messageText))"

definition timeoutStackText :: "string \<Rightarrow> string \<Rightarrow> string \<Rightarrow> string \<Rightarrow> 32 word \<Rightarrow> string" where
  "timeoutStackText timeoutUser sourceUser channel systemMessageText n =
     (let usernameText = takeWhile (\<lambda>c. c \<noteq> CHR '' '') systemMessageText;
          remainder = midFrom systemMessageText (length usernameText + 1);
          timeoutUserIsFirst = (usernameText = ''You'' \<or> timeoutUser = usernameText);
          st0 = (remainder, usernameText @ '' '');
          st1 = (if sourceUser \<noteq> '''' then appendUser (if timeoutUserIsFirst then sourceUser else timeoutUser) st0 else st0);
          (rem2, text2) = (if channel \<noteq> '''' then appendUser channel st1 else st1)
      in text2 @ argStr (argStr ''%1 (%2 times)'' (trimmed rem2)) (numberStr (uint n)) @ '' '')"

definition timeoutReplacement :: "int \<Rightarrow> message \<Rightarrow> 32 word \<Rightarrow> message" where
  "timeoutReplacement parseNow m cnt =
     (let text = timeoutStackText (m_timeoutUser m) (m_loginName m) (m_channelName m) (m_searchText m) cnt
      in (newMessage parseNow)\<lparr>m_messageText := text, m_searchText := text,
            m_serverReceivedTime := m_serverReceivedTime m, m_timeoutUser := m_timeoutUser m,
            m_channelName := m_channelName m, m_count := cnt, m_flags := m_flags m\<rparr>)"

definition makeClearChatMessage :: "int \<Rightarrow> qdatetime \<Rightarrow> string \<Rightarrow> 32 word \<Rightarrow> message" where
  "makeClearChatMessage parseNow now actor cnt =
     (let m0 = (newMessage parseNow)\<lparr>m_count := cnt, m_serverReceivedTime := now,
                  m_flags := flagsOf [System, DoNotTriggerNotification, ClearChat, ModerationAction]\<rparr>;
          (m1, text1) = (if actor = '''' then (m0, ''Chat has been cleared by a moderator. '')
                         else ((m_set [PubSub] m0)\<lparr>m_timeoutUser := actor\<rparr>, actor @ '' '' @ ''cleared the chat. ''));
          text2 = (if cnt > 1 then text1 @ ''('' @ numberStr (uint cnt) @ '' times) '' else text1)
      in m1\<lparr>m_messageText := text2, m_searchText := text2\<rparr>)"

text \<open>What the search through the last messages decides.\<close>

datatype stack_decision = AddIt | DropIt | ReplaceBy nat ptr | StackOn nat ptr

fun timeoutLoop ::
  "timeout_stack_style \<Rightarrow> heap \<Rightarrow> qdatetime \<Rightarrow> message \<Rightarrow> (nat \<times> ptr) list \<Rightarrow> stack_decision" where
  "timeoutLoop style h minimumTime m [] = AddIt"
| "timeoutLoop style h minimumTime m ((i, p) # rest) =
     (let s = h_msg h p in
      if m_serverReceivedTime s < minimumTime then AddIt
      else if m_has s Untimeout \<and> m_timeoutUser s = m_timeoutUser m then AddIt
      else if style = DontStackBeyondUserMessage \<and> m_loginName s = m_timeoutUser m
              \<and> fl_hasNone (m_flags s) (flagsOf [Disabled, ModerationAction]) then AddIt
      else if m_has m SharedMessage \<noteq> m_has s SharedMessage
              \<or> (m_has m SharedMessage \<and> m_channelName m \<noteq> m_channelName s)
        then timeoutLoop style h minimumTime m rest
      else if m_has s Timeout \<and> m_timeoutUser s = m_timeoutUser m then
        (if m_has m PubSub \<and> \<not> m_has s PubSub then ReplaceBy i p
         else if \<not> m_has m PubSub \<and> m_has s PubSub then (if style = DontStack then AddIt else DropIt)
         else StackOn i p)
      else timeoutLoop style h minimumTime m rest)"

fun clearLoop ::
  "timeout_stack_style \<Rightarrow> heap \<Rightarrow> qdatetime \<Rightarrow> message \<Rightarrow> (nat \<times> ptr) list \<Rightarrow> stack_decision" where
  "clearLoop style h minimumTime m [] = AddIt"
| "clearLoop style h minimumTime m ((i, p) # rest) =
     (let s = h_msg h p in
      if m_serverReceivedTime s < minimumTime then AddIt
      else if style = DontStackBeyondUserMessage \<and> \<not> m_has s ClearChat then AddIt
      else if \<not> m_has s ClearChat \<or> m_has m PubSub \<noteq> m_has s PubSub then clearLoop style h minimumTime m rest
      else if style = DontStackBeyondUserMessage \<and> m_has s PubSub \<and> m_timeoutUser s \<noteq> m_timeoutUser m then AddIt
      else StackOn i p)"

text \<open>The indices from the last one down to \<open>end\<close>, with the buffer's messages.\<close>

definition lastMessages :: "ptr list \<Rightarrow> (nat \<times> ptr) list" where
  "lastMessages buffer = rev (drop (length buffer - 20) (enumerate 0 buffer))"

definition allocMsg :: "message \<Rightarrow> 'b channel_state \<Rightarrow> ptr \<times> 'b channel_state" where
  "allocMsg m s = (cs_next s, (updMsg (cs_next s) (\<lambda>_. m) s)\<lparr>cs_next := cs_next s + 1\<rparr>)"

definition disableUser :: "ptr list \<Rightarrow> string \<Rightarrow> 'b channel_state \<Rightarrow> 'b channel_state" where
  "disableUser buffer user s0 =
     foldl (\<lambda>s p. if m_loginName (msgOf s p) = user
                     \<and> fl_hasNone (m_flags (msgOf s p)) (flagsOf [ModerationAction, Whisper])
                  then updMsg p (m_set [InvalidReplyTarget]) (updMsg p (m_set [Disabled]) s) else s) s0 buffer"

definition addOrReplaceChannelTimeout ::
  "timeout_stack_style \<Rightarrow> ptr list \<Rightarrow> ptr \<Rightarrow> qdatetime \<Rightarrow> int
     \<Rightarrow> (nat \<Rightarrow> ptr \<Rightarrow> ptr \<Rightarrow> 'b channel_state \<Rightarrow> 'b channel_state)
     \<Rightarrow> (ptr \<Rightarrow> 'b channel_state \<Rightarrow> 'b channel_result) \<Rightarrow> bool \<Rightarrow> 'b channel_state \<Rightarrow> 'b channel_result" where
  "addOrReplaceChannelTimeout style buffer p now parseNow replace add disableUserMessages s0 =
     (let m = msgOf s0 p;
          decision = timeoutLoop style (cs_heap s0) (dt_addSecs now (-5)) m (lastMessages buffer);
          s1 = (case decision of
                  ReplaceBy i old \<Rightarrow> replace i old p s0
                | StackOn i old \<Rightarrow>
                    (let (r, s) = allocMsg (timeoutReplacement parseNow m (m_count (msgOf s0 old) + 1)) s0
                     in replace i old r s)
                | _ \<Rightarrow> s0);
          s2 = (if disableUserMessages then disableUser buffer (m_timeoutUser m) s1 else s1)
      in if decision = AddIt then add p s2 else Inr s2)"

definition addOrReplaceChannelClear ::
  "timeout_stack_style \<Rightarrow> ptr list \<Rightarrow> ptr \<Rightarrow> qdatetime \<Rightarrow> int
     \<Rightarrow> (nat \<Rightarrow> ptr \<Rightarrow> ptr \<Rightarrow> 'b channel_state \<Rightarrow> 'b channel_state)
     \<Rightarrow> (ptr \<Rightarrow> 'b channel_state \<Rightarrow> 'b channel_result) \<Rightarrow> 'b channel_state \<Rightarrow> 'b channel_result" where
  "addOrReplaceChannelClear style buffer p now parseNow replace add s0 =
     (let m = msgOf s0 p in
      if style = DontStack then add p s0
      else case clearLoop style (cs_heap s0) (dt_addSecs now (-5)) m (lastMessages buffer) of
             StackOn i old \<Rightarrow>
               (let (r, s) = allocMsg ((makeClearChatMessage parseNow (m_serverReceivedTime m) (m_timeoutUser m)
                                          (m_count (msgOf s0 old) + 1))\<lparr>m_flags := m_flags m\<rparr>) s0
                in Inr (replace i old r s))
           | _ \<Rightarrow> add p s0)"

definition addOrReplaceTimeout ::
  "('b, ptr) cb_ops \<Rightarrow> timeout_stack_style \<Rightarrow> ptr \<Rightarrow> qdatetime \<Rightarrow> int \<Rightarrow> 'b channel_state \<Rightarrow> 'b channel_result" where
  "addOrReplaceTimeout cb style p now parseNow s =
     addOrReplaceChannelTimeout style (ch_snapshot cb s) p now parseNow
       (\<lambda>_ old replacement. replaceMessage cb old replacement)
       (\<lambda>p. addMessage cb p Original None) True s"

definition addOrReplaceClearChat ::
  "('b, ptr) cb_ops \<Rightarrow> timeout_stack_style \<Rightarrow> ptr \<Rightarrow> qdatetime \<Rightarrow> int \<Rightarrow> 'b channel_state \<Rightarrow> 'b channel_result" where
  "addOrReplaceClearChat cb style p now parseNow s =
     addOrReplaceChannelClear style (ch_snapshotN cb s 20) p now parseNow
       (\<lambda>_ old replacement. replaceMessage cb old replacement)
       (\<lambda>p. addMessage cb p Original None) s"

end
