(* ===== verification/ChannelOrder.thy ===== *)
theory ChannelOrder
  imports ChannelMessages
begin

text \<open>
  \<open>Channel::fillInMissingMessages\<close> keeps the list of a channel in the order in which the server
  received the messages, and shows no message twice.

  System messages carry no server time of their own, so the order is that of the other messages
  (\<open>shown\<close>).  The loop invariant \<open>fill_inv\<close> says that what is left of the snapshot is still in
  its order and that everything inserted so far came before the message at hand.
\<close>

section \<open>Order\<close>

definition timeOf :: "heap \<Rightarrow> ptr \<Rightarrow> qdatetime" where
  "timeOf h p = m_serverReceivedTime (h_msg h p)"

definition isSystem :: "heap \<Rightarrow> ptr \<Rightarrow> bool" where
  "isSystem h p \<longleftrightarrow> m_has (h_msg h p) System"

definition shown :: "heap \<Rightarrow> ptr list \<Rightarrow> ptr list" where
  "shown h ps = filter (\<lambda>p. \<not> isSystem h p) ps"

definition ordered :: "heap \<Rightarrow> ptr list \<Rightarrow> bool" where
  "ordered h ps \<longleftrightarrow> sorted (map (timeOf h) (shown h ps))"

lemma shown_simps [simp]:
  "shown h [] = []" "shown h (p # ps) = (if isSystem h p then shown h ps else p # shown h ps)"
  "shown h (ps @ qs) = shown h ps @ shown h qs" "set (shown h ps) = {p \<in> set ps. \<not> isSystem h p}"
  by (simp_all add: shown_def)

lemma ordered_append:
  "ordered h (A @ B) \<longleftrightarrow> ordered h A \<and> ordered h B
     \<and> (\<forall>a \<in> set A. \<forall>b \<in> set B. isSystem h a \<or> isSystem h b \<or> timeOf h a \<le> timeOf h b)"
  by (auto simp: ordered_def sorted_append)

lemma ordered_Cons:
  "ordered h (a # B) \<longleftrightarrow> ordered h B \<and> (\<forall>b \<in> set B. isSystem h a \<or> isSystem h b \<or> timeOf h a \<le> timeOf h b)"
  by (auto simp: ordered_def)

lemma ordered_tl: "ordered h A \<Longrightarrow> ordered h (tl A)"
  by (cases A) (auto simp: ordered_Cons)

lemma ordered_drop: "ordered h A \<Longrightarrow> ordered h (drop n A)"
  by (induction n arbitrary: A) (auto simp: drop_Suc ordered_tl)

lemma ordered_insert:
  assumes "ordered h (A @ B)"
    and "\<forall>a \<in> set A. \<not> isSystem h a \<longrightarrow> timeOf h a \<le> timeOf h p"
    and "\<forall>b \<in> set B. \<not> isSystem h b \<longrightarrow> timeOf h p \<le> timeOf h b"
  shows "ordered h (A @ p # B)"
  using assms unfolding ordered_append ordered_Cons by auto

lemma ordered_insert_tl:
  assumes "ordered h (A @ B)"
    and "\<forall>a \<in> set A. \<not> isSystem h a \<longrightarrow> timeOf h a \<le> timeOf h p"
    and "\<forall>b \<in> set B. \<not> isSystem h b \<longrightarrow> timeOf h p \<le> timeOf h b"
  shows "ordered h (tl A @ p # B)"
proof (rule ordered_insert)
  show "ordered h (tl A @ B)" using assms(1) by (auto simp: ordered_append ordered_tl dest: list.set_sel(2)[rotated])
     (metis list.sel(2) list.set_sel(2))
  show "\<forall>a \<in> set (tl A). \<not> isSystem h a \<longrightarrow> timeOf h a \<le> timeOf h p"
    using assms(2) by (cases A) auto
qed (rule assms(3))

section \<open>The search in the snapshot\<close>

lemma firstAfter_Some:
  "firstAfter h p snap = Some x \<Longrightarrow> \<exists>ys zs. snap = ys @ x # zs \<and> \<not> isSystem h x \<and> timeOf h p < timeOf h x
     \<and> (\<forall>y \<in> set ys. \<not> isSystem h y \<longrightarrow> timeOf h y \<le> timeOf h p)"
proof (induction snap)
  case (Cons a snap)
  show ?case
  proof (cases "\<not> isSystem h a \<and> timeOf h p < timeOf h a")
    case True
    with Cons.prems have "x = a" by (simp add: isSystem_def timeOf_def)
    with True have "a # snap = [] @ x # snap \<and> \<not> isSystem h x \<and> timeOf h p < timeOf h x" by simp
    then show ?thesis by fastforce
  next
    case False
    with Cons.prems have "firstAfter h p snap = Some x" by (auto simp: isSystem_def timeOf_def split: if_splits)
    then obtain ys zs where "snap = ys @ x # zs" "\<not> isSystem h x" "timeOf h p < timeOf h x"
        "\<forall>y \<in> set ys. \<not> isSystem h y \<longrightarrow> timeOf h y \<le> timeOf h p"
      using Cons.IH by blast
    with False have "a # snap = (a # ys) @ x # zs \<and> \<not> isSystem h x \<and> timeOf h p < timeOf h x
        \<and> (\<forall>y \<in> set (a # ys). \<not> isSystem h y \<longrightarrow> timeOf h y \<le> timeOf h p)" by auto
    then show ?thesis by blast
  qed
qed simp

lemma firstAfter_None:
  "firstAfter h p snap = None \<Longrightarrow> y \<in> set snap \<Longrightarrow> \<not> isSystem h y \<Longrightarrow> timeOf h y \<le> timeOf h p"
  by (induction snap) (auto simp: isSystem_def timeOf_def split: if_splits)

lemma subseq_subset: "subseq xs ys \<Longrightarrow> set xs \<subseteq> set ys"
  by (induction rule: list_emb.induct) auto

lemma set_tl: "set (tl A) \<subseteq> set A"
  by (cases A) auto

lemma subseq_before:
  "subseq (A @ x # B) (ys @ x # zs) \<Longrightarrow> distinct (ys @ x # zs) \<Longrightarrow> set A \<subseteq> set ys"
proof (induction ys arbitrary: A)
  case Nil
  show ?case
  proof (cases A)
    case (Cons a A')
    with Nil have "subseq (A' @ x # B) zs \<or> subseq (A @ x # B) zs"
      by (auto simp: subseq_Cons2_iff split: if_splits)
    then have "x \<in> set zs" using subseq_subset Cons by fastforce
    with Nil show ?thesis by simp
  qed simp
next
  case (Cons y ys)
  show ?case
  proof (cases A)
    case A: (Cons a A')
    show ?thesis
    proof (cases "a = y")
      case True
      with Cons.prems A have "subseq (A' @ x # B) (ys @ x # zs)" by simp
      with Cons.IH Cons.prems(2) A True show ?thesis by auto
    next
      case False
      with Cons.prems A have "subseq (A @ x # B) (ys @ x # zs)" by (simp add: subseq_Cons2_iff)
      with Cons.IH Cons.prems(2) show ?thesis by auto
    qed
  qed simp
qed

section \<open>The loop\<close>

definition fill_inv :: "heap \<Rightarrow> ptr list \<Rightarrow> ptr set \<Rightarrow> ptr \<Rightarrow> ptr list \<Rightarrow> bool" where
  "fill_inv h snap new lastMsg Q \<longleftrightarrow> distinct Q \<and> ordered h Q \<and> set Q \<subseteq> set snap \<union> new
     \<and> subseq (filter (\<lambda>p. p \<in> set snap) Q) snap \<and> Q \<noteq> [] \<and> last Q = lastMsg"

lemma subseq_filter_new:
  assumes "subseq (filter P (A @ B)) snap" and "\<not> P p"
  shows "subseq (filter P (A @ p # B)) snap" "subseq (filter P (tl A @ p # B)) snap"
proof -
  show "subseq (filter P (A @ p # B)) snap" using assms by simp
  have "subseq (tl A) A" by (cases A) auto
  then have "subseq (filter P (tl A) @ filter P B) (filter P A @ filter P B)"
    by (intro list_emb_append_mono) (auto intro: subseq_filter)
  then have "subseq (filter P (tl A) @ filter P B) snap"
    using assms(1) by (metis filter_append subseq_order.order_trans)
  with assms(2) show "subseq (filter P (tl A @ p # B)) snap" by simp
qed

text \<open>The storage with message pointers as its elements.\<close>

locale channel_buffer = circular_buffer cb
  for cb :: "('b, nat) cb_ops"
begin

lemma insertBefore_inv:
  assumes wf: "lq_wf cb q" and inv: "fill_inv h snap new lastMsg (lq_items cb q)"
    and x: "firstAfter h p snap = Some x" and snap: "distinct snap" "p \<notin> set snap \<union> new"
    and new: "\<forall>d \<in> new. timeOf h d \<le> timeOf h p"
  shows "fill_inv h snap (insert p new) lastMsg (lq_items cb (fst (lq_insertBefore cb (=) q x p)))"
proof -
  let ?Q = "lq_items cb q"
  have I: "distinct ?Q" "ordered h ?Q" "set ?Q \<subseteq> set snap \<union> new"
      "subseq (filter (\<lambda>p. p \<in> set snap) ?Q) snap" "?Q \<noteq> []" "last ?Q = lastMsg"
    using inv by (simp_all add: fill_inv_def)
  show ?thesis
  proof (cases "first_index (\<lambda>y. y = x) ?Q")
    case None
    with I show ?thesis by (auto simp: lq_insertBefore_def fill_inv_def)
  next
    case (Some i)
    define A B C where "A = take i ?Q" and "B = drop i ?Q" and "C = drop (Suc i) ?Q"
    have Q: "?Q = A @ B" by (simp add: A_def B_def)
    have "i < length ?Q" "?Q ! i = x" using first_index_Some_D[OF Some] by auto
    then have B: "B = x # C" by (simp add: B_def C_def Cons_nth_drop_Suc[symmetric])
    obtain ys zs where xs: "snap = ys @ x # zs" "\<not> isSystem h x" "timeOf h p < timeOf h x"
        "\<forall>y \<in> set ys. \<not> isSystem h y \<longrightarrow> timeOf h y \<le> timeOf h p"
      using firstAfter_Some[OF x] by blast
    have pQ: "p \<notin> set ?Q" using I(3) snap(2) by auto
    have before: "\<forall>a \<in> set A. \<not> isSystem h a \<longrightarrow> timeOf h a \<le> timeOf h p"
    proof (intro ballI impI)
      fix a assume a: "a \<in> set A" "\<not> isSystem h a"
      show "timeOf h a \<le> timeOf h p"
      proof (cases "a \<in> set snap")
        case True
        have "x \<in> set snap" using xs(1) by simp
        then have "subseq (filter (\<lambda>p. p \<in> set snap) A @ x # filter (\<lambda>p. p \<in> set snap) C) (ys @ x # zs)"
          using I(4) xs(1) unfolding Q B by simp
        from subseq_before[OF this] snap(1) xs(1) a(1) True have "a \<in> set ys" by auto
        with xs(4) a(2) show ?thesis by blast
      next
        case False
        then have "a \<in> new" using a(1) I(3) Q by (metis Un_iff in_mono in_set_takeD A_def)
        with new show ?thesis by blast
      qed
    qed
    have after: "\<forall>b \<in> set B. \<not> isSystem h b \<longrightarrow> timeOf h p \<le> timeOf h b"
    proof (intro ballI impI)
      fix b assume b: "b \<in> set B" "\<not> isSystem h b"
      have "ordered h B" using I(2) unfolding Q ordered_append by simp
      with b xs(2) have "timeOf h x \<le> timeOf h b" unfolding B by (auto simp: ordered_Cons)
      with xs(3) show "timeOf h p \<le> timeOf h b" by simp
    qed
    have ord: "ordered h (A @ p # B)" "ordered h (tl A @ p # B)"
      using ordered_insert ordered_insert_tl I(2) before after unfolding Q by blast+
    have sub: "subseq (filter (\<lambda>p. p \<in> set snap) (A @ p # B)) snap"
        "subseq (filter (\<lambda>p. p \<in> set snap) (tl A @ p # B)) snap"
      using subseq_filter_new[of "\<lambda>p. p \<in> set snap" A B snap p] I(4) snap(2) unfolding Q by auto
    have dis: "distinct (A @ p # B)" "distinct (tl A @ p # B)"
      using I(1) pQ unfolding Q by (auto simp: distinct_tl dest: list.set_sel(2)[rotated]) (cases A; auto)+
    have sets: "set (A @ p # B) \<subseteq> set snap \<union> insert p new" "set (tl A @ p # B) \<subseteq> set snap \<union> insert p new"
      using I(3) set_tl[of A] unfolding Q by auto
    have lasts: "last (A @ p # B) = lastMsg" "last (tl A @ p # B) = lastMsg" using I(6) B unfolding Q by auto
    have items: "lq_items cb (fst (lq_insertBefore cb (=) q x p)) \<in> {A @ p # B, ?Q, tl A @ p # B}"
      using insertBefore_law[OF wf, of "(=)" x i p] Some by (auto simp: A_def B_def)
    then show ?thesis
      using ord sub dis sets lasts I unfolding fill_inv_def by auto
  qed
qed

end

context channel_buffer
begin

lemma insertAfter_inv:
  assumes wf: "lq_wf cb q" and inv: "fill_inv h snap new lastMsg (lq_items cb q)"
    and none: "firstAfter h p snap = None" and snap: "p \<notin> set snap \<union> new"
    and new: "\<forall>d \<in> new. timeOf h d \<le> timeOf h p"
  shows "fill_inv h snap (insert p new) p (lq_items cb (fst (lq_insertAfter cb (=) q lastMsg p)))"
proof -
  let ?Q = "lq_items cb q"
  have I: "distinct ?Q" "ordered h ?Q" "set ?Q \<subseteq> set snap \<union> new"
      "subseq (filter (\<lambda>p. p \<in> set snap) ?Q) snap" "?Q \<noteq> []" "last ?Q = lastMsg"
    using inv by (simp_all add: fill_inv_def)
  have i: "first_index (\<lambda>y. y = lastMsg) ?Q = Some (length ?Q - 1)"
    unfolding first_index_Some_iff
    using I(1,5,6) by (auto simp: last_conv_nth nth_eq_iff_index_eq)
  have before: "\<forall>a \<in> set ?Q. \<not> isSystem h a \<longrightarrow> timeOf h a \<le> timeOf h p"
    using firstAfter_None[OF none] new I(3) by blast
  have ord: "ordered h (?Q @ [p])" "ordered h (tl ?Q @ [p])"
    using ordered_insert[of h ?Q "[]" p] ordered_insert_tl[of h ?Q "[]" p] I(2) before by simp_all
  have sub: "subseq (filter (\<lambda>p. p \<in> set snap) (?Q @ [p])) snap"
      "subseq (filter (\<lambda>p. p \<in> set snap) (tl ?Q @ [p])) snap"
    using subseq_filter_new[of "\<lambda>p. p \<in> set snap" ?Q "[]" snap p] I(4) snap by auto
  have dis: "distinct (?Q @ [p])" "distinct (tl ?Q @ [p])"
    using I(1,3) snap set_tl[of ?Q] by (auto simp: distinct_tl)
  have sets: "set (?Q @ [p]) \<subseteq> set snap \<union> insert p new" "set (tl ?Q @ [p]) \<subseteq> set snap \<union> insert p new"
    using I(3) set_tl[of ?Q] by auto
  have "lq_items cb (fst (lq_insertAfter cb (=) q lastMsg p)) = ?Q @ [p]
      \<or> lq_items cb (fst (lq_insertAfter cb (=) q lastMsg p)) = tl ?Q @ [p]"
    using insertAfter_law[OF wf, of "(=)" lastMsg "length ?Q - 1" p] i I(5) by auto
  then show ?thesis
    unfolding fill_inv_def using ord sub dis sets by (elim disjE) (simp_all only: last_snoc, simp_all)
qed

lemma insert_keeps_wf:
  "lq_wf cb q \<Longrightarrow> lq_wf cb (fst (lq_insertBefore cb eq q x p))"
  "lq_wf cb q \<Longrightarrow> lq_wf cb (fst (lq_insertAfter cb eq q x p))"
  using step_wf[OF lq_step.insert_before] step_wf[OF lq_step.insert_after] by simp_all

lemma fillLoop_inv:
  assumes "lq_wf cb q" and "fill_inv h snap new lastMsg (lq_items cb q)" and "distinct snap"
    and "sorted (map (timeOf h) ps)" and "distinct ps" and "set ps \<inter> (set snap \<union> new) = {}"
    and "\<forall>d \<in> new. \<forall>p \<in> set ps. timeOf h d \<le> timeOf h p"
  shows "\<exists>last'. fill_inv h snap (new \<union> {p \<in> set ps. m_id (h_msg h p) \<notin> ids}) last'
     (lq_items cb (fst (fillLoop cb h ids snap ps lastMsg ins q)))"
  using assms
proof (induction ps arbitrary: q new lastMsg ins)
  case Nil
  then show ?case by auto
next
  case (Cons p ps)
  have rest: "sorted (map (timeOf h) ps)" "distinct ps" "p \<notin> set snap \<union> new"
      "\<forall>d \<in> new. timeOf h d \<le> timeOf h p" "\<forall>r \<in> set ps. timeOf h p \<le> timeOf h r"
    using Cons.prems(4-7) by auto
  show ?case
  proof (cases "m_id (h_msg h p) \<in> ids")
    case True
    then have eq: "{r \<in> set (p # ps). m_id (h_msg h r) \<notin> ids} = {r \<in> set ps. m_id (h_msg h r) \<notin> ids}" by auto
    have "\<exists>last'. fill_inv h snap (new \<union> {r \<in> set ps. m_id (h_msg h r) \<notin> ids}) last'
        (lq_items cb (fst (fillLoop cb h ids snap ps lastMsg ins q)))"
      using Cons.prems(6,7) by (intro Cons.IH Cons.prems(1-3) rest(1,2)) auto
    with True show ?thesis unfolding eq by simp
  next
    case False
    then have eq: "new \<union> {r \<in> set (p # ps). m_id (h_msg h r) \<notin> ids}
        = insert p new \<union> {r \<in> set ps. m_id (h_msg h r) \<notin> ids}" by auto
    have side: "set ps \<inter> (set snap \<union> insert p new) = {}"
        "\<forall>d \<in> insert p new. \<forall>r \<in> set ps. timeOf h d \<le> timeOf h r"
      using Cons.prems(5-7) rest(5) by auto
    show ?thesis
    proof (cases "firstAfter h p snap")
      case (Some x)
      let ?q = "fst (lq_insertBefore cb (=) q x p)"
      have "\<exists>last'. fill_inv h snap (insert p new \<union> {r \<in> set ps. m_id (h_msg h r) \<notin> ids}) last'
          (lq_items cb (fst (fillLoop cb h ids snap ps lastMsg True ?q)))"
        by (intro Cons.IH insert_keeps_wf Cons.prems(1,3) rest(1,2) side
            insertBefore_inv[OF Cons.prems(1,2) Some Cons.prems(3) rest(3,4)])
      with False Some show ?thesis unfolding eq by simp
    next
      case None
      let ?q = "fst (lq_insertAfter cb (=) q lastMsg p)"
      have "\<exists>last'. fill_inv h snap (insert p new \<union> {r \<in> set ps. m_id (h_msg h r) \<notin> ids}) last'
          (lq_items cb (fst (fillLoop cb h ids snap ps p True ?q)))"
        by (intro Cons.IH insert_keeps_wf Cons.prems(1,3) rest(1,2) side
            insertAfter_inv[OF Cons.prems(1,2) None rest(3,4)])
      with False None show ?thesis unfolding eq by simp
    qed
  qed
qed

end

text \<open>Freezing changes nothing the order looks at.\<close>

lemma freezeAll_msg:
  "msgOf (freezeAll ps s) p = (if p \<in> set ps then m_freeze (msgOf s p) else msgOf s p)"
proof (induction ps arbitrary: s)
  case (Cons a ps)
  have "m_freeze (m_freeze m) = m_freeze m" for m by (simp add: m_freeze_def)
  then show ?case
    using Cons[of "updMsg a m_freeze s"] by (auto simp: freezeAll_def updMsg_def msgOf_def)
qed (simp add: freezeAll_def)

lemma freezeAll_fields [simp]:
  "cs_messages (freezeAll ps s) = cs_messages s" "cs_events (freezeAll ps s) = cs_events s"
  by (induction ps arbitrary: s) (simp_all add: freezeAll_def updMsg_def)

lemma freezeAll_heap:
  "timeOf (cs_heap (freezeAll ps s)) = timeOf (cs_heap s)"
  "isSystem (cs_heap (freezeAll ps s)) = isSystem (cs_heap s)"
  "m_id (h_msg (cs_heap (freezeAll ps s)) p) = m_id (h_msg (cs_heap s) p)"
proof -
  have same: "h_msg (cs_heap (freezeAll ps s)) q \<in> {h_msg (cs_heap s) q, m_freeze (h_msg (cs_heap s) q)}" for q
    using freezeAll_msg[of ps s q] by (simp add: msgOf_def)
  show "timeOf (cs_heap (freezeAll ps s)) = timeOf (cs_heap s)"
  proof
    show "timeOf (cs_heap (freezeAll ps s)) q = timeOf (cs_heap s) q" for q
      using same[of q] by (auto simp: timeOf_def)
  qed
  show "isSystem (cs_heap (freezeAll ps s)) = isSystem (cs_heap s)"
  proof
    show "isSystem (cs_heap (freezeAll ps s)) q = isSystem (cs_heap s) q" for q
      using same[of q] by (auto simp: isSystem_def)
  qed
  show "m_id (h_msg (cs_heap (freezeAll ps s)) p) = m_id (h_msg (cs_heap s) p)"
    using same[of p] by auto
qed

lemma ordered_freezeAll: "ordered (cs_heap (freezeAll ps s)) Q = ordered (cs_heap s) Q"
  by (simp add: ordered_def shown_def freezeAll_heap)

lemma existingMessageIds_freezeAll: "existingMessageIds (freezeAll ps s) snap = existingMessageIds s snap"
  using freezeAll_msg[of ps s] by (auto simp: existingMessageIds_def)

context channel_buffer
begin

lemma fillInMissingMessages_order:
  assumes wf: "lq_wf cb (cs_messages s)" and dis: "distinct (ch_snapshot cb s @ ps)"
    and ord: "ordered (cs_heap s) (ch_snapshot cb s)" and ps: "sorted (map (timeOf (cs_heap s)) ps)"
  defines "s' \<equiv> fillInMissingMessages cb ps s"
  shows "ordered (cs_heap s') (ch_snapshot cb s') \<and> distinct (ch_snapshot cb s')
     \<and> set (ch_snapshot cb s') \<subseteq> set (ch_snapshot cb s)
          \<union> {p \<in> set ps. m_id (msgOf s p) \<notin> existingMessageIds s (ch_snapshot cb s)}"
proof (cases "ps = []")
  case True
  then show ?thesis using ord dis by (simp add: s'_def fillInMissingMessages_def)
next
  case ne: False
  let ?s1 = "freezeAll ps s" and ?snap = "ch_snapshot cb s"
  have snap1: "ch_snapshot cb ?s1 = ?snap" by (simp add: ch_snapshot_def)
  show ?thesis
  proof (cases "?snap = []")
    case True
    obtain q' where q': "lq_pushFront cb (cs_messages s) ps = (q', last_n (lq_limit (cs_messages s)) ps)"
        "lq_items cb q' = last_n (lq_limit (cs_messages s)) ps"
      using pushFront_law[OF wf, of ps] True by (auto simp: ch_snapshot_def lq_getSnapshot_def)
    have s': "s' = emit (FilledInMessages ps) (?s1\<lparr>cs_messages := q'\<rparr>)"
      using ne True snap1 q'(1) by (simp add: s'_def fillInMissingMessages_def Let_def)
    have "ordered (cs_heap s) ps" using ps
      by (simp add: ordered_def shown_def sorted_map sorted_wrt_filter)
    then show ?thesis
      using q'(2) True dis
      by (auto simp: s' emit_def ch_snapshot_def lq_getSnapshot_def ordered_freezeAll last_n_def ordered_drop
          existingMessageIds_def dest: in_set_dropD)
  next
    case False
    let ?h = "cs_heap ?s1" and ?ids = "existingMessageIds s ?snap"
    let ?r = "fillLoop cb ?h ?ids ?snap ps (?snap ! (length ?snap - 1)) False (cs_messages s)"
    have s': "cs_messages s' = fst ?r" "cs_heap s' = ?h"
      using ne False snap1 by (auto simp: s'_def fillInMissingMessages_def Let_def emit_def
          existingMessageIds_freezeAll split: prod.split)
    have items: "lq_items cb (cs_messages s) = ?snap" by (simp add: ch_snapshot_def lq_getSnapshot_def)
    have "fill_inv ?h ?snap {} (?snap ! (length ?snap - 1)) (lq_items cb (cs_messages s))"
      using dis ord False by (simp add: fill_inv_def items ordered_freezeAll last_conv_nth)
    then obtain last' where inv: "fill_inv ?h ?snap ({} \<union> {p \<in> set ps. m_id (h_msg ?h p) \<notin> ?ids}) last'
        (lq_items cb (fst ?r))"
      using fillLoop_inv[OF wf, of ?h ?snap "{}" _ ps ?ids False] dis ps by (auto simp: freezeAll_heap)
    have snap': "ch_snapshot cb s' = lq_items cb (fst ?r)" by (simp add: ch_snapshot_def lq_getSnapshot_def s')
    from inv show ?thesis
      unfolding snap' s'(2) fill_inv_def freezeAll_heap(3) msgOf_def by auto
  qed
qed

end

interpretation list_channel: channel_buffer "list_cb :: (nat list_buffer, nat) cb_ops" ..

section \<open>Properties\<close>

text \<open>C12. Filling in missing messages keeps the channel in order: when the messages of a channel
  are ordered by the time the server received them and the loaded messages are too, then so are
  the messages afterwards, also when the queue is full and drops some, none of them is there
  twice, and only loaded messages whose id was not there yet have been added.\<close>

theorem fill_in_keeps_order:
  assumes "circular_buffer cb" and "lq_wf cb (cs_messages s)" and "distinct (ch_snapshot cb s @ ps)"
    and "ordered (cs_heap s) (ch_snapshot cb s)" and "sorted (map (timeOf (cs_heap s)) ps)"
    and "s' = fillInMissingMessages cb ps s"
  shows "ordered (cs_heap s') (ch_snapshot cb s') \<and> distinct (ch_snapshot cb s')
     \<and> set (ch_snapshot cb s') \<subseteq> set (ch_snapshot cb s)
          \<union> {p \<in> set ps. m_id (msgOf s p) \<notin> existingMessageIds s (ch_snapshot cb s)}"
  using channel_buffer.fillInMissingMessages_order[of cb s ps] assms
  by (simp add: channel_buffer_def)

definition sample_channel :: "nat list \<Rightarrow> nat list_buffer channel_state" where
  "sample_channel ps = (Channel list_cb 5 ''a'' Twitch
       \<lparr>h_msg = (\<lambda>p. (newMessage 0)\<lparr>m_id := numberStr (int p), m_serverReceivedTime := Some (1000 * int p)\<rparr>),
        h_thread = (\<lambda>_. MessageThread (\<lambda>_. newMessage 0) 0)\<rparr> 100)\<lparr>cs_messages := \<lparr>lq_limit = 5, lq_buffer = (5, ps)\<rparr>\<rparr>"

theorem fill_in_keeps_order_witness:
  "ordered (cs_heap (fillInMissingMessages list_cb [2, 4] (sample_channel [1, 3])))
     (ch_snapshot list_cb (fillInMissingMessages list_cb [2, 4] (sample_channel [1, 3])))"
proof -
  let ?s = "sample_channel [1, 3]"
  have "lq_wf list_cb (cs_messages ?s)" "distinct (ch_snapshot list_cb ?s @ [2, 4])"
      "ordered (cs_heap ?s) (ch_snapshot list_cb ?s)" "sorted (map (timeOf (cs_heap ?s)) [2, 4])"
    by (simp_all add: sample_channel_def lq_wf_def ch_snapshot_def lq_getSnapshot_def lq_items_def ordered_def
        shown_def isSystem_def timeOf_def m_has_def newMessage_def fl_has_def Channel_def)
  from fill_in_keeps_order[OF list_cb.circular_buffer_axioms this refl] show ?thesis by blast
qed

end
