(* ===== verification/ChannelSignals.thy ===== *)
theory ChannelSignals
  imports ChannelOrder
begin

text \<open>
  The signals of a channel are enough to follow it: a view that starts from a snapshot and handles
  every emitted signal in order as \<open>ChannelView\<close> does (\<open>replay\<close>) holds the channel's messages
  after any sequence of calls.  The view has a queue of the channel's limit, so it evicts by itself;
  the call of the virtual \<open>messageRemovedFromStart\<close> and the log are no signals and are ignored.
\<close>

section \<open>Following the signals\<close>






lemma updMsg_fields [simp]:
  "cs_messages (updMsg p f s) = cs_messages s" "cs_events (updMsg p f s) = cs_events s"
  "cs_next (updMsg p f s) = cs_next s"
  by (simp_all add: updMsg_def)

lemma emit_fields [simp]:
  "cs_messages (emit e s) = cs_messages s" "cs_events (emit e s) = cs_events s @ [e]"
  "cs_heap (emit e s) = cs_heap s" "cs_next (emit e s) = cs_next s"
  by (simp_all add: emit_def)

lemma foldl_keeps_queue:
  "(\<And>s p. cs_messages (f s p) = cs_messages s \<and> cs_events (f s p) = cs_events s)
     \<Longrightarrow> cs_messages (foldl f s ps) = cs_messages s \<and> cs_events (foldl f s ps) = cs_events s"
  by (induction ps arbitrary: s) simp_all

lemma disable_fields [simp]:
  "cs_messages (disableMessage cb i s) = cs_messages s" "cs_events (disableMessage cb i s) = cs_events s"
  "cs_messages (disableAllMessages cb s) = cs_messages s" "cs_events (disableAllMessages cb s) = cs_events s"
  "cs_messages (disableUser buffer u s) = cs_messages s" "cs_events (disableUser buffer u s) = cs_events s"
  by (simp_all add: disableMessage_def disableAllMessages_def disableUser_def foldl_keeps_queue split: option.split)

lemma allocMsg_fields [simp]:
  "cs_messages (snd (allocMsg m s)) = cs_messages s" "cs_events (snd (allocMsg m s)) = cs_events s"
  "fst (allocMsg m s) = cs_next s"
  by (simp_all add: allocMsg_def)

lemmas snapshot_defs = ch_snapshot_def lq_getSnapshot_def

section \<open>The calls\<close>





section \<open>Properties\<close>




text \<open>With a hint that is stale, the signal carries the hint although the message was replaced elsewhere: a receiver that takes
  it for the index would overwrite another message.  \<open>ChannelView\<close> takes it for a hint.\<close>

theorem stale_hint_signals_wrong_index:
  "ch_snapshot list_cb (replaceMessageHint list_cb 0 3 7 (sample_channel [1, 3])) = [1, 7]
   \<and> cs_events (replaceMessageHint list_cb 0 3 7 (sample_channel [1, 3])) = [MessageReplaced 0 3 7]
   \<and> (ch_snapshot list_cb (sample_channel [1, 3]))[0 := 7] = [7, 3]"
  by (simp add: replaceMessageHint_def lq_replaceItemHint_def sample_channel_def snapshot_defs lq_items_def
      Channel_def Let_def to_int32_def)

end
