(* ===== verification/ChannelStacking.thy ===== *)
theory ChannelStacking
  imports ChannelSignals
begin

text \<open>
  Stacked timeouts: what \<open>addOrReplaceTimeout\<close> does to the messages of a channel, how repeated
  timeouts are counted, and what the stack style changes.
\<close>

section \<open>The search\<close>

lemma lastMessages_mem:
  "(i, p) \<in> set (lastMessages buffer) \<Longrightarrow> i < length buffer \<and> length buffer - 20 \<le> i \<and> p = buffer ! i"
  by (auto simp: lastMessages_def in_set_conv_nth nth_enumerate_eq)

lemma lastMessages_snoc:
  "lastMessages (xs @ [p]) = (length xs, p) # rev (drop (Suc (length xs) - 20) (enumerate 0 xs))"
  by (simp add: lastMessages_def enumerate_append_eq)

text \<open>The messages a timeout can stack on.\<close>

definition stackTarget :: "heap \<Rightarrow> qdatetime \<Rightarrow> message \<Rightarrow> ptr \<Rightarrow> bool" where
  "stackTarget h minimumTime m old \<longleftrightarrow> m_has (h_msg h old) Timeout
     \<and> m_timeoutUser (h_msg h old) = m_timeoutUser m \<and> \<not> m_serverReceivedTime (h_msg h old) < minimumTime
     \<and> m_has m SharedMessage = m_has (h_msg h old) SharedMessage"

lemma timeoutLoop_target:
  "timeoutLoop style h mt m xs = StackOn i old \<Longrightarrow>
     (i, old) \<in> set xs \<and> stackTarget h mt m old \<and> m_has m PubSub = m_has (h_msg h old) PubSub"
  "timeoutLoop style h mt m xs = ReplaceBy i old \<Longrightarrow>
     (i, old) \<in> set xs \<and> stackTarget h mt m old \<and> m_has m PubSub \<and> \<not> m_has (h_msg h old) PubSub"
  by (induction xs) (auto simp: Let_def stackTarget_def split: if_split_asm)

section \<open>What each step changes\<close>

lemma msgOf_updMsg [simp]: "msgOf (updMsg p f s) q = (if q = p then f (msgOf s p) else msgOf s q)"
  by (simp add: msgOf_def updMsg_def)

lemma msgOf_emit [simp]: "msgOf (emit e s) = msgOf s"
  by (simp add: msgOf_def fun_eq_iff)

lemma msgOf_queue [simp]: "msgOf (s\<lparr>cs_messages := q\<rparr>) = msgOf s" "msgOf (s\<lparr>cs_anythingLogged := b\<rparr>) = msgOf s"
  by (simp_all add: msgOf_def fun_eq_iff)

lemma msgOf_allocMsg [simp]: "msgOf (snd (allocMsg m s)) q = (if q = cs_next s then m else msgOf s q)"
  by (simp add: allocMsg_def msgOf_def updMsg_def)

lemma msgOf_replaceMessage:
  "msgOf (replaceMessage cb p r s) q = (if q = r then m_freeze (msgOf s r) else msgOf s q)"
  by (simp add: replaceMessage_def Let_def case_prod_beta)

lemma msgOf_addMessage:
  "addMessage cb p ctx ov s = Inr s' \<Longrightarrow> msgOf s' q = (if q = p then m_freeze (msgOf s p) else msgOf s q)"
  by (auto simp: addMessage_def Let_def split: sum.splits option.splits if_splits)

text \<open>The messages of a user that a timeout disables.\<close>

definition disables :: "string \<Rightarrow> message \<Rightarrow> bool" where
  "disables user m \<longleftrightarrow> m_loginName m = user \<and> \<not> m_has m ModerationAction \<and> \<not> m_has m Whisper"

lemma msgOf_disableUser:
  "distinct buffer \<Longrightarrow> msgOf (disableUser buffer user s) q =
     (if q \<in> set buffer \<and> disables user (msgOf s q)
      then m_set [InvalidReplyTarget] (m_set [Disabled] (msgOf s q)) else msgOf s q)"
proof (induction buffer arbitrary: s)
  case (Cons p buffer)
  then show ?case
    by (auto simp: disableUser_def disables_def fl_hasNone_iff m_has_def)
qed (simp add: disableUser_def)

context channel_buffer
begin

lemma snapshot_replaceMessage:
  assumes "lq_wf cb (cs_messages s)" and "distinct (ch_snapshot cb s)" and "i < length (ch_snapshot cb s)"
  shows "ch_snapshot cb (replaceMessage cb (ch_snapshot cb s ! i) r s) = (ch_snapshot cb s)[i := r]"
  using assms first_index_distinct[of "ch_snapshot cb s" i]
  by (simp add: replaceMessage_def lq_replaceItem_def snapshot_defs Let_def lq_items_def assign_items)

lemma snapshot_addMessage:
  assumes "lq_wf cb (cs_messages s)" and "0 < lq_limit (cs_messages s)"
    and "addMessage cb p ctx ov s = Inr s'"
  shows "ch_snapshot cb s' = last_n (lq_limit (cs_messages s)) (ch_snapshot cb s @ [p])"
  using push_back_law[OF assms(1,2), of p] assms(3)
  by (auto simp: addMessage_def Let_def snapshot_defs split: if_splits)

lemma addMessage_returns:
  assumes "lq_wf cb (cs_messages s)" and "0 < lq_limit (cs_messages s)"
  shows "\<exists>s'. addMessage cb p ctx ov s = Inr s'"
  using push_back_law[OF assms, of p] by (auto simp: addMessage_def Let_def)

end

section \<open>The result of a timeout\<close>

lemma snapshot_updates [simp]:
  "ch_snapshot cb (disableUser buffer user s) = ch_snapshot cb s"
  "ch_snapshot cb (snd (allocMsg m s)) = ch_snapshot cb s"
  by (simp_all add: snapshot_defs)

lemma timeoutReplacement_fields [simp]:
  "m_count (timeoutReplacement t m c) = c" "m_timeoutUser (timeoutReplacement t m c) = m_timeoutUser m"
  "m_flags (timeoutReplacement t m c) = m_flags m"
  "m_serverReceivedTime (timeoutReplacement t m c) = m_serverReceivedTime m"
  "m_channelName (timeoutReplacement t m c) = m_channelName m"
  by (simp_all add: timeoutReplacement_def Let_def)

text \<open>The three outcomes, from the snapshot before.\<close>

definition timeoutOutcome ::
  "nat \<Rightarrow> 'b channel_state \<Rightarrow> ptr list \<Rightarrow> ptr \<Rightarrow> qdatetime \<Rightarrow> 'b channel_state \<Rightarrow> ptr list \<Rightarrow> bool" where
  "timeoutOutcome lim s snap p now s' snap' \<longleftrightarrow>
     snap' = last_n lim (snap @ [p]) \<or> snap' = snap
     \<or> (\<exists>i r. i < length snap \<and> length snap - 20 \<le> i
          \<and> stackTarget (cs_heap s) (dt_addSecs now (-5)) (msgOf s p) (snap ! i)
          \<and> snap' = snap[i := r]
          \<and> (r = p \<or> (r = cs_next s \<and> m_count (msgOf s' r) = m_count (msgOf s (snap ! i)) + 1
                       \<and> m_timeoutUser (msgOf s' r) = m_timeoutUser (msgOf s p)
                       \<and> m_flags (msgOf s' r) = m_flags (msgOf s p))))"

context channel_buffer
begin

lemma addOrReplaceTimeout_outcome:
  assumes wf: "lq_wf cb (cs_messages s)" and lim: "0 < lq_limit (cs_messages s)"
    and dis: "distinct (ch_snapshot cb s)" and p: "p \<notin> set (ch_snapshot cb s)" "p \<noteq> cs_next s"
    and fresh: "cs_next s \<notin> set (ch_snapshot cb s)"
    and r: "addOrReplaceTimeout cb style p now parseNow s = Inr s'"
  shows "timeoutOutcome (lq_limit (cs_messages s)) s (ch_snapshot cb s) p now s' (ch_snapshot cb s')
     \<and> (\<forall>q \<in> set (ch_snapshot cb s). msgOf s' q =
          (if disables (m_timeoutUser (msgOf s p)) (msgOf s q)
           then m_set [InvalidReplyTarget] (m_set [Disabled] (msgOf s q)) else msgOf s q))"
proof -
  let ?snap = "ch_snapshot cb s" and ?m = "msgOf s p"
  let ?d = "timeoutLoop style (cs_heap s) (dt_addSecs now (-5)) ?m (lastMessages ?snap)"
  note unf = addOrReplaceTimeout_def addOrReplaceChannelTimeout_def Let_def
  show ?thesis
  proof (cases ?d)
    case AddIt
    let ?s2 = "disableUser ?snap (m_timeoutUser ?m) s"
    have add: "addMessage cb p Original None ?s2 = Inr s'" using r AddIt unfolding unf by simp
    have "ch_snapshot cb s' = last_n (lq_limit (cs_messages s)) (?snap @ [p])"
      using snapshot_addMessage[OF _ _ add] wf lim by simp
    then show ?thesis
      using p(1) by (auto simp: timeoutOutcome_def msgOf_addMessage[OF add] msgOf_disableUser[OF dis])
  next
    case DropIt
    then have "s' = disableUser ?snap (m_timeoutUser ?m) s" using r unfolding unf by simp
    then show ?thesis by (simp add: timeoutOutcome_def msgOf_disableUser[OF dis])
  next
    case (ReplaceBy i old)
    have t: "i < length ?snap" "length ?snap - 20 \<le> i" "old = ?snap ! i"
        "stackTarget (cs_heap s) (dt_addSecs now (-5)) ?m old"
      using timeoutLoop_target(2)[OF ReplaceBy] lastMessages_mem by blast+
    have s': "s' = disableUser ?snap (m_timeoutUser ?m) (replaceMessage cb old p s)"
      using r ReplaceBy unfolding unf by simp
    have "ch_snapshot cb s' = ?snap[i := p]"
      unfolding s' t(3) using snapshot_replaceMessage[OF wf dis t(1)] by simp
    then have "timeoutOutcome (lq_limit (cs_messages s)) s ?snap p now s' (ch_snapshot cb s')"
      unfolding timeoutOutcome_def using t by blast
    then show ?thesis
      using p(1) by (auto simp: s' msgOf_disableUser[OF dis] msgOf_replaceMessage)
  next
    case (StackOn i old)
    have t: "i < length ?snap" "length ?snap - 20 \<le> i" "old = ?snap ! i"
        "stackTarget (cs_heap s) (dt_addSecs now (-5)) ?m old"
      using timeoutLoop_target(1)[OF StackOn] lastMessages_mem by blast+
    let ?r = "timeoutReplacement parseNow ?m (m_count (msgOf s old) + 1)"
    have s': "s' = disableUser ?snap (m_timeoutUser ?m) (replaceMessage cb old (cs_next s) (snd (allocMsg ?r s)))"
      using r StackOn unfolding unf by (simp add: case_prod_beta)
    have "ch_snapshot cb s' = ?snap[i := cs_next s]"
      unfolding s' using snapshot_replaceMessage[of "snd (allocMsg ?r s)" i "cs_next s"] wf dis t(1,3) by simp
    moreover have "msgOf s' (cs_next s) = m_freeze ?r"
      using fresh by (simp add: s' msgOf_disableUser[OF dis] msgOf_replaceMessage)
    ultimately have "timeoutOutcome (lq_limit (cs_messages s)) s ?snap p now s' (ch_snapshot cb s')"
      unfolding timeoutOutcome_def using t by fastforce
    then show ?thesis
      using fresh by (auto simp: s' msgOf_disableUser[OF dis] msgOf_replaceMessage)
  qed
qed

end


section \<open>Repeated timeouts\<close>

definition likeTimeout :: "flags \<Rightarrow> string \<Rightarrow> string \<Rightarrow> qdatetime \<Rightarrow> message \<Rightarrow> bool" where
  "likeTimeout F u ch mt m \<longleftrightarrow> m_flags m = F \<and> m_timeoutUser m = u \<and> m_channelName m = ch
     \<and> \<not> m_serverReceivedTime m < mt"

definition stackState ::
  "('b, ptr) cb_ops \<Rightarrow> flags \<Rightarrow> string \<Rightarrow> string \<Rightarrow> qdatetime \<Rightarrow> 32 word \<Rightarrow> 'b channel_state \<Rightarrow> bool" where
  "stackState cb F u ch mt c s \<longleftrightarrow>
     lq_wf cb (cs_messages s) \<and> ch_snapshot cb s \<noteq> [] \<and> distinct (ch_snapshot cb s)
     \<and> (\<forall>q \<in> set (ch_snapshot cb s). q < cs_next s)
     \<and> likeTimeout F u ch mt (msgOf s (last (ch_snapshot cb s)))
     \<and> m_count (msgOf s (last (ch_snapshot cb s))) = c"

fun timeouts ::
  "('b, ptr) cb_ops \<Rightarrow> timeout_stack_style \<Rightarrow> ptr list \<Rightarrow> qdatetime \<Rightarrow> int \<Rightarrow> 'b channel_state \<Rightarrow> 'b channel_result" where
  "timeouts cb style [] now t s = Inr s"
| "timeouts cb style (p # ps) now t s =
     (case addOrReplaceTimeout cb style p now t s of Inl e \<Rightarrow> Inl e | Inr s' \<Rightarrow> timeouts cb style ps now t s')"

lemma foldl_keeps_next: "(\<And>s p. cs_next (f s p) = cs_next s) \<Longrightarrow> cs_next (foldl f s ps) = cs_next s"
  by (induction ps arbitrary: s) simp_all

lemma next_fields [simp]:
  "cs_next (replaceMessage cb p r s) = cs_next s" "cs_next (disableUser buffer u s) = cs_next s"
  "cs_next (snd (allocMsg m s)) = Suc (cs_next s)"
  by (simp_all add: replaceMessage_def allocMsg_def disableUser_def foldl_keeps_next Let_def case_prod_beta)

text \<open>A like timeout as the last message is stacked on, whatever the style.\<close>

lemma timeoutLoop_like:
  assumes "likeTimeout F u ch mt (msgOf s p)" and "likeTimeout F u ch mt (msgOf s l)"
    and F: "fl_has F Timeout" "fl_has F ModerationAction" "\<not> fl_has F Untimeout"
  shows "timeoutLoop style (cs_heap s) mt (msgOf s p) (lastMessages (xs @ [l])) = StackOn (length xs) l"
  using assms
  by (auto simp: lastMessages_snoc Let_def likeTimeout_def msgOf_def m_has_def fl_hasNone_iff)

context channel_buffer
begin

lemma stack_one:
  assumes st: "stackState cb F u ch (dt_addSecs now (-5)) c s" and snap: "ch_snapshot cb s = xs @ [l]"
    and p: "p \<notin> set (xs @ [l])" "likeTimeout F u ch (dt_addSecs now (-5)) (msgOf s p)"
    and F: "fl_has F Timeout" "fl_has F ModerationAction" "\<not> fl_has F Untimeout"
  shows "\<exists>s'. addOrReplaceTimeout cb style p now t s = Inr s'
     \<and> ch_snapshot cb s' = xs @ [cs_next s] \<and> stackState cb F u ch (dt_addSecs now (-5)) (c + 1) s'
     \<and> cs_next s' = Suc (cs_next s)
     \<and> (\<forall>q. q \<notin> set (xs @ [l]) \<longrightarrow> q \<noteq> cs_next s \<longrightarrow> msgOf s' q = msgOf s q)"
proof -
  let ?mt = "dt_addSecs now (-5)" and ?m = "msgOf s p"
  have S: "lq_wf cb (cs_messages s)" "distinct (xs @ [l])" "\<forall>q \<in> set (xs @ [l]). q < cs_next s"
      "likeTimeout F u ch ?mt (msgOf s l)" "m_count (msgOf s l) = c"
    using st snap by (simp_all add: stackState_def)
  have d: "timeoutLoop style (cs_heap s) ?mt ?m (lastMessages (xs @ [l])) = StackOn (length xs) l"
    by (rule timeoutLoop_like[OF p(2) S(4) F])
  let ?r = "timeoutReplacement t ?m (c + 1)"
  define s1 where "s1 = replaceMessage cb l (cs_next s) (snd (allocMsg ?r s))"
  define s' where "s' = disableUser (xs @ [l]) (m_timeoutUser ?m) s1"
  have r: "addOrReplaceTimeout cb style p now t s = Inr s'"
    unfolding addOrReplaceTimeout_def addOrReplaceChannelTimeout_def Let_def snap d s'_def s1_def S(5)
    by (simp add: case_prod_beta S(5))
  have snap': "ch_snapshot cb s' = xs @ [cs_next s]"
    unfolding s'_def s1_def using snapshot_replaceMessage[of "snd (allocMsg ?r s)" "length xs" "cs_next s"]
      S(1,2) snap by simp
  have wf': "lq_wf cb (cs_messages s')"
    unfolding s'_def s1_def using S(1)
    by (auto simp: replaceMessage_def lq_replaceItem_def Let_def lq_wf_def assign_capacity split: option.splits)
  have msg: "msgOf s' q = (if q \<in> set (xs @ [l]) \<and> disables (m_timeoutUser ?m) (msgOf s1 q)
      then m_set [InvalidReplyTarget] (m_set [Disabled] (msgOf s1 q)) else msgOf s1 q)" for q
    unfolding s'_def by (rule msgOf_disableUser[OF S(2)])
  have fresh: "cs_next s \<notin> set (xs @ [l])" using S(3) by blast
  then have new: "msgOf s' (cs_next s) = m_freeze ?r" by (simp add: msg s1_def msgOf_replaceMessage)
  have "stackState cb F u ch ?mt (c + 1) s'"
    unfolding stackState_def snap' using wf' S(2,3) fresh new p(2)
    by (auto simp: s'_def s1_def likeTimeout_def m_freeze_def timeoutReplacement_def Let_def)
  moreover have "\<forall>q. q \<notin> set (xs @ [l]) \<longrightarrow> q \<noteq> cs_next s \<longrightarrow> msgOf s' q = msgOf s q"
    by (auto simp: msg s1_def msgOf_replaceMessage)
  ultimately show ?thesis using r snap' by (auto simp: s'_def s1_def)
qed

lemma stack_many:
  assumes "stackState cb F u ch (dt_addSecs now (-5)) c s" and "ch_snapshot cb s = xs @ [l]"
    and "\<forall>p \<in> set ps. p \<notin> set (xs @ [l]) \<and> p < cs_next s \<and> likeTimeout F u ch (dt_addSecs now (-5)) (msgOf s p)"
    and "fl_has F Timeout" and "fl_has F ModerationAction" and "\<not> fl_has F Untimeout"
  shows "\<exists>s' r. timeouts cb style ps now t s = Inr s' \<and> ch_snapshot cb s' = xs @ [r]
     \<and> m_count (msgOf s' r) = c + of_nat (length ps)"
  using assms
proof (induction ps arbitrary: s c l)
  case Nil
  then show ?case by (simp add: stackState_def)
next
  case (Cons p ps)
  obtain s' where s': "addOrReplaceTimeout cb style p now t s = Inr s'" "ch_snapshot cb s' = xs @ [cs_next s]"
      "stackState cb F u ch (dt_addSecs now (-5)) (c + 1) s'" "cs_next s' = Suc (cs_next s)"
      "\<forall>q. q \<notin> set (xs @ [l]) \<longrightarrow> q \<noteq> cs_next s \<longrightarrow> msgOf s' q = msgOf s q"
    using stack_one[OF Cons.prems(1,2), of p style t] Cons.prems(3-6) by auto
  have "\<forall>p \<in> set ps. p \<notin> set (xs @ [cs_next s]) \<and> p < cs_next s'
      \<and> likeTimeout F u ch (dt_addSecs now (-5)) (msgOf s' p)"
    using Cons.prems(3) s'(4,5) by auto
  from Cons.IH[OF s'(3,2) this Cons.prems(4-6)] show ?case
    using s'(1) by (auto simp: add_ac)
qed

end


section \<open>Properties\<close>

text \<open>C19. A timeout either is appended (the oldest message leaves a full queue), or leaves the list
  as it is, or replaces one of the last twenty messages: a timeout of the same user that is at
  most five seconds old, by the new message or by a fresh one with the user and flags of the new
  message and a count one higher.  Every other message keeps its content, except that the user's
  own messages that are neither moderation actions nor whispers get \<open>Disabled\<close> and
  \<open>InvalidReplyTarget\<close>.\<close>

theorem timeout_outcome:
  assumes "circular_buffer cb" and "lq_wf cb (cs_messages s)" and "0 < lq_limit (cs_messages s)"
    and "distinct (ch_snapshot cb s)" and "p \<notin> set (ch_snapshot cb s)" and "p < cs_next s"
    and "\<forall>q \<in> set (ch_snapshot cb s). q < cs_next s"
    and "addOrReplaceTimeout cb style p now parseNow s = Inr s'"
  shows "timeoutOutcome (lq_limit (cs_messages s)) s (ch_snapshot cb s) p now s' (ch_snapshot cb s')
     \<and> (\<forall>q \<in> set (ch_snapshot cb s). msgOf s' q =
          (if disables (m_timeoutUser (msgOf s p)) (msgOf s q)
           then m_set [InvalidReplyTarget] (m_set [Disabled] (msgOf s q)) else msgOf s q))"
proof -
  have "cs_next s \<notin> set (ch_snapshot cb s)" "p \<noteq> cs_next s" using assms(6,7) by blast+
  then show ?thesis
    using channel_buffer.addOrReplaceTimeout_outcome[of cb s p style now parseNow s'] assms
    by (simp add: channel_buffer_def)
qed

text \<open>Repeated timeouts of a user within five seconds are one message: after any number of
  further timeouts like the last message of the channel, in any stack style, the channel has as
  many messages as before and the last one counts them all (modulo \<open>2 ^ 32\<close>).\<close>

theorem repeated_timeouts_stack:
  assumes "circular_buffer cb" and "stackState cb F u ch (dt_addSecs now (-5)) c s"
    and "\<forall>p \<in> set ps. p \<notin> set (ch_snapshot cb s) \<and> p < cs_next s
          \<and> likeTimeout F u ch (dt_addSecs now (-5)) (msgOf s p)"
    and "fl_has F Timeout" and "fl_has F ModerationAction" and "\<not> fl_has F Untimeout"
  shows "\<exists>s' r. timeouts cb style ps now t s = Inr s'
     \<and> ch_snapshot cb s' = butlast (ch_snapshot cb s) @ [r] \<and> m_count (msgOf s' r) = c + of_nat (length ps)"
proof -
  have snap: "ch_snapshot cb s = butlast (ch_snapshot cb s) @ [last (ch_snapshot cb s)]"
    using assms(2) by (simp add: stackState_def)
  show ?thesis
    by (rule channel_buffer.stack_many[OF _ assms(2) snap _ assms(4-6)])
       (use assms(1,3) snap in \<open>simp_all add: channel_buffer_def\<close>)
qed

definition timeout_flags :: flags where
  "timeout_flags = flagsOf [System, Timeout, ModerationAction]"

definition timeout_channel :: "nat list_buffer channel_state" where
  "timeout_channel = (sample_channel [1])\<lparr>cs_heap :=
     \<lparr>h_msg = (\<lambda>p. (newMessage 0)\<lparr>m_timeoutUser := ''u'', m_flags := timeout_flags, m_searchText := ''u x'',
                       m_serverReceivedTime := Some 10000\<rparr>),
      h_thread = (\<lambda>_. MessageThread (\<lambda>_. newMessage 0) 0)\<rparr>\<rparr>"

lemma timeout_channel_ok:
  "circular_buffer (list_cb :: (nat list_buffer, nat) cb_ops)"
  "stackState list_cb timeout_flags ''u'' '''' (dt_addSecs (Some 12000) (-5)) 1 timeout_channel"
  "\<forall>p \<in> set [2, 3]. p \<notin> set (ch_snapshot list_cb timeout_channel) \<and> p < cs_next timeout_channel
     \<and> likeTimeout timeout_flags ''u'' '''' (dt_addSecs (Some 12000) (-5)) (msgOf timeout_channel p)"
  "fl_has timeout_flags Timeout" "fl_has timeout_flags ModerationAction" "\<not> fl_has timeout_flags Untimeout"
  by (simp_all add: list_cb.circular_buffer_axioms stackState_def timeout_channel_def sample_channel_def lq_wf_def
      snapshot_defs lq_items_def Channel_def likeTimeout_def msgOf_def newMessage_def dt_addSecs_def timeout_flags_def
      fl_has_flagsOf)

theorem repeated_timeouts_stack_witness:
  "\<exists>s' r. timeouts list_cb StackHard [2, 3] (Some 12000) 0 timeout_channel = Inr s'
     \<and> ch_snapshot list_cb s' = butlast (ch_snapshot list_cb timeout_channel) @ [r]
     \<and> m_count (msgOf s' r) = 1 + of_nat (length [2::nat, 3])"
  by (rule repeated_timeouts_stack[OF timeout_channel_ok])

lemma timeout_channel_returns:
  "\<exists>s'. addOrReplaceTimeout list_cb style 2 (Some 12000) 0 timeout_channel = Inr s'"
  using list_channel.stack_one[OF timeout_channel_ok(2), of "[]" 1 2 style 0] timeout_channel_ok(3-6)
  by (auto simp: timeout_channel_def sample_channel_def snapshot_defs lq_items_def Channel_def)

theorem timeout_outcome_witness:
  "\<exists>s'. timeoutOutcome 5 timeout_channel [1] 2 (Some 12000) s' (ch_snapshot list_cb s')"
proof -
  obtain s' where s': "addOrReplaceTimeout list_cb StackHard 2 (Some 12000) 0 timeout_channel = Inr s'"
    using timeout_channel_returns by blast
  have snap: "ch_snapshot list_cb timeout_channel = [1]" "lq_limit (cs_messages timeout_channel) = 5"
      "cs_next timeout_channel = 100" "lq_wf list_cb (cs_messages timeout_channel)"
    by (simp_all add: timeout_channel_def sample_channel_def snapshot_defs lq_items_def Channel_def lq_wf_def)
  from timeout_outcome[OF list_cb.circular_buffer_axioms snap(4) _ _ _ _ _ s'] snap show ?thesis by auto
qed

text \<open>The style \<open>DontStack\<close> does not keep timeouts apart: a timeout of a user right after an
  equal one is still merged into it, the channel keeps one message with count two.\<close>

theorem dont_stack_still_stacks:
  assumes "circular_buffer cb" and "stackState cb F u ch (dt_addSecs now (-5)) c s"
    and "p \<notin> set (ch_snapshot cb s)" and "likeTimeout F u ch (dt_addSecs now (-5)) (msgOf s p)"
    and "fl_has F Timeout" and "fl_has F ModerationAction" and "\<not> fl_has F Untimeout"
  shows "\<exists>s'. addOrReplaceTimeout cb DontStack p now t s = Inr s'
     \<and> length (ch_snapshot cb s') = length (ch_snapshot cb s)
     \<and> m_count (msgOf s' (last (ch_snapshot cb s'))) = c + 1"
proof -
  have snap: "ch_snapshot cb s = butlast (ch_snapshot cb s) @ [last (ch_snapshot cb s)]"
    using assms(2) by (simp add: stackState_def)
  then obtain s' where s': "addOrReplaceTimeout cb DontStack p now t s = Inr s'"
      "ch_snapshot cb s' = butlast (ch_snapshot cb s) @ [cs_next s]"
      "stackState cb F u ch (dt_addSecs now (-5)) (c + 1) s'"
    using channel_buffer.stack_one[OF _ assms(2) snap, of p DontStack t] assms by (auto simp: channel_buffer_def)
  have "length (butlast (ch_snapshot cb s) @ [cs_next s]) = length (ch_snapshot cb s)"
    by (subst (2) snap) simp
  with s' show ?thesis by (auto simp: stackState_def)
qed

theorem dont_stack_still_stacks_witness:
  "\<exists>s'. addOrReplaceTimeout list_cb DontStack 2 (Some 12000) 0 timeout_channel = Inr s'
     \<and> m_count (msgOf s' (last (ch_snapshot list_cb s'))) = 2"
  using dont_stack_still_stacks[OF timeout_channel_ok(1,2) _ _ timeout_channel_ok(4-6), of 2 0] timeout_channel_ok(3)
  by auto

end
