(* ===== verification/MessageSimilarity.thy ===== *)
theory MessageSimilarity
  imports ChannelMessages
begin

text \<open>
  Marking messages that repeat earlier ones: \<open>src/messages/MessageSimilarity.cpp\<close>.

  The two loops of \<open>relativeSimilarity\<close> are folds over the indices that update the table and the
  maximum.  The \<open>float\<close> quotient is an argument \<open>fdiv\<close> into any linear order with the value
  \<open>fzero\<close>; the settings are a record.  A \<open>QTime\<close> is the number of milliseconds of the day.
\<close>

section \<open>The longest common substring\<close>

definition simCell :: "string \<Rightarrow> string \<Rightarrow> nat \<Rightarrow> nat list list \<times> nat \<Rightarrow> nat \<Rightarrow> nat list list \<times> nat" where
  "simCell str1 str2 i = (\<lambda>(tree, z) j.
     if str1 ! i = str2 ! j then
       (let v = (if i = 0 \<or> j = 0 then 1 else tree ! (i - 1) ! (j - 1) + 1)
        in (tree[i := (tree ! i)[j := v]], max v z))
     else (tree[i := (tree ! i)[j := 0]], z))"

definition simRow :: "string \<Rightarrow> string \<Rightarrow> nat list list \<times> nat \<Rightarrow> nat \<Rightarrow> nat list list \<times> nat" where
  "simRow str1 str2 st i = foldl (simCell str1 str2 i) st [0..<length str2]"

definition simTable :: "string \<Rightarrow> string \<Rightarrow> nat list list \<times> nat" where
  "simTable str1 str2 =
     foldl (simRow str1 str2) (replicate (length str1) (replicate (length str2) 0), 0) [0..<length str1]"

definition relativeSimilarity ::
  "(nat \<Rightarrow> nat \<Rightarrow> 'f) \<Rightarrow> 'f \<Rightarrow> string \<Rightarrow> string \<Rightarrow> 'f" where
  "relativeSimilarity fdiv fzero str1 str2 =
     (let z = snd (simTable str1 str2)
      in if z = 0 then fzero else fdiv z (max 1 (max (length str1) (length str2))))"

section \<open>The flags\<close>

record 'f similarity_settings =
  similarityEnabled :: bool
  hideSimilarMyself :: bool
  hideSimilarBySameUser :: bool
  hideSimilarMaxDelay :: int
  hideSimilarMaxMessagesToCheck :: nat
  similarityPercentage :: 'f
  colorSimilarDisabled :: bool

definition time_secsTo :: "int \<Rightarrow> int \<Rightarrow> int" where
  "time_secsTo a b = b div 1000 - a div 1000"

fun inMessagesLoop ::
  "(nat \<Rightarrow> nat \<Rightarrow> 'f::linorder) \<Rightarrow> 'f \<Rightarrow> 'f similarity_settings \<Rightarrow> int \<Rightarrow> message \<Rightarrow> message list \<Rightarrow> 'f \<Rightarrow> 'f" where
  "inMessagesLoop fdiv fzero st now msg [] similarityPercent = similarityPercent"
| "inMessagesLoop fdiv fzero st now msg (prevMsg # rest) similarityPercent =
     (if time_secsTo (m_parseTime prevMsg) now \<ge> hideSimilarMaxDelay st then similarityPercent
      else if hideSimilarBySameUser st \<and> m_loginName msg \<noteq> m_loginName prevMsg
      then inMessagesLoop fdiv fzero st now msg rest similarityPercent
      else inMessagesLoop fdiv fzero st now msg rest
             (max similarityPercent (relativeSimilarity fdiv fzero (m_messageText msg) (m_messageText prevMsg))))"

definition inMessages ::
  "(nat \<Rightarrow> nat \<Rightarrow> 'f::linorder) \<Rightarrow> 'f \<Rightarrow> 'f similarity_settings \<Rightarrow> int \<Rightarrow> message \<Rightarrow> message list \<Rightarrow> 'f" where
  "inMessages fdiv fzero st now msg messages =
     inMessagesLoop fdiv fzero st now msg (take (hideSimilarMaxMessagesToCheck st) (rev messages)) fzero"

definition setSimilarityFlags ::
  "(nat \<Rightarrow> nat \<Rightarrow> 'f::linorder) \<Rightarrow> 'f \<Rightarrow> 'f similarity_settings \<Rightarrow> string \<Rightarrow> int \<Rightarrow> message list \<Rightarrow> message
     \<Rightarrow> message" where
  "setSimilarityFlags fdiv fzero st myName now messages message =
     (if similarityEnabled st then
        (if m_loginName message = myName \<and> \<not> hideSimilarMyself st then message
         else if inMessages fdiv fzero st now message messages > similarityPercentage st
         then (let m1 = m_set [Similar] message
               in if colorSimilarDisabled st then m_set [Disabled] m1 else m1)
         else message)
      else message)"

definition applySimilarityFilters ::
  "('b, ptr) cb_ops \<Rightarrow> (nat \<Rightarrow> nat \<Rightarrow> 'f::linorder) \<Rightarrow> 'f \<Rightarrow> 'f similarity_settings \<Rightarrow> string \<Rightarrow> int \<Rightarrow> ptr
     \<Rightarrow> 'b channel_state \<Rightarrow> 'b channel_state" where
  "applySimilarityFilters cb fdiv fzero st myName now p s =
     updMsg p (setSimilarityFlags fdiv fzero st myName now (map (msgOf s) (ch_snapshot cb s))) s"

section \<open>The table\<close>

text \<open>The length of the longest common substring that ends at \<open>i\<close> and \<open>j\<close>.\<close>

fun endsAt :: "string \<Rightarrow> string \<Rightarrow> nat \<Rightarrow> nat \<Rightarrow> nat" where
  "endsAt a b 0 j = (if a ! 0 = b ! j then 1 else 0)"
| "endsAt a b (Suc i) 0 = (if a ! Suc i = b ! 0 then 1 else 0)"
| "endsAt a b (Suc i) (Suc j) = (if a ! Suc i = b ! Suc j then Suc (endsAt a b i j) else 0)"

lemma endsAt_0: "endsAt a b i 0 = (if a ! i = b ! 0 then 1 else 0)"
  by (cases i) auto

lemma endsAt_le: "endsAt a b i j \<le> Suc i \<and> endsAt a b i j \<le> Suc j"
  by (induction a b i j rule: endsAt.induct) auto

lemma endsAt_common:
  "k < endsAt a b i j \<Longrightarrow> a ! (i - k) = b ! (j - k)"
proof (induction a b i j arbitrary: k rule: endsAt.induct)
  case (3 a b i j)
  then show ?case by (cases k) (auto split: if_splits)
qed (auto split: if_splits)

lemma endsAt_longest:
  "n \<le> Suc i \<Longrightarrow> n \<le> Suc j \<Longrightarrow> \<forall>k < n. a ! (i - k) = b ! (j - k) \<Longrightarrow> n \<le> endsAt a b i j"
proof (induction a b i j arbitrary: n rule: endsAt.induct)
  case (3 a b i j)
  show ?case
  proof (cases n)
    case (Suc n')
    have h: "a ! Suc i = b ! Suc j" using "3.prems"(3) Suc by auto
    have "n' \<le> Suc i" "n' \<le> Suc j" using "3.prems"(1,2) Suc by simp_all
    moreover have "\<forall>k < n'. a ! (i - k) = b ! (j - k)"
    proof (intro allI impI)
      fix k assume "k < n'"
      then show "a ! (i - k) = b ! (j - k)" using "3.prems"(3) Suc by (metis Suc_less_eq diff_Suc_Suc)
    qed
    ultimately have "n' \<le> endsAt a b i j" using "3.IH" h by blast
    then show ?thesis using h Suc by simp
  qed simp
next
  case (1 a b j)
  then show ?case by (cases n) (auto simp: le_Suc_eq dest!: spec[of _ 0])
next
  case (2 a b i)
  then show ?case by (cases n) (auto simp: le_Suc_eq dest!: spec[of _ 0])
qed

text \<open>The cells that have been computed when the loops are at row \<open>i\<close>, column \<open>j\<close>.\<close>

definition before :: "nat \<Rightarrow> nat \<Rightarrow> nat \<Rightarrow> (nat \<times> nat) set" where
  "before m i j = {(i', j'). j' < m \<and> (i' < i \<or> (i' = i \<and> j' < j))}"

definition simInv :: "string \<Rightarrow> string \<Rightarrow> nat \<Rightarrow> nat \<Rightarrow> nat list list \<times> nat \<Rightarrow> bool" where
  "simInv a b i j st \<longleftrightarrow>
     length (fst st) = length a \<and> (\<forall>r \<in> set (fst st). length r = length b)
     \<and> (\<forall>(i', j') \<in> before (length b) i j. fst st ! i' ! j' = endsAt a b i' j' \<and> endsAt a b i' j' \<le> snd st)
     \<and> (snd st = 0 \<or> (\<exists>(i', j') \<in> before (length b) i j. endsAt a b i' j' = snd st))"

lemma before_Suc: "j < m \<Longrightarrow> before m i (Suc j) = insert (i, j) (before m i j)"
  by (auto simp: before_def)

lemma before_row: "before m i m = before m (Suc i) 0"
  by (auto simp: before_def)

lemma endsAt_step:
  "endsAt a b i j = (if a ! i = b ! j then (if i = 0 \<or> j = 0 then 1 else endsAt a b (i - 1) (j - 1) + 1) else 0)"
  by (cases i; cases j) auto

lemma simCell_inv:
  assumes inv: "simInv a b i j st" and ij: "i < length a" "j < length b"
  shows "simInv a b i (Suc j) (simCell a b i st j)"
proof -
  obtain tree z where st: "st = (tree, z)" by (cases st)
  have len: "length tree = length a" "\<forall>r \<in> set tree. length r = length b"
    and cells: "\<And>i' j'. (i', j') \<in> before (length b) i j \<Longrightarrow> tree ! i' ! j' = endsAt a b i' j' \<and> endsAt a b i' j' \<le> z"
    and z: "z = 0 \<or> (\<exists>(i', j') \<in> before (length b) i j. endsAt a b i' j' = z)"
    using inv by (auto simp: simInv_def st)
  define v where "v = endsAt a b i j"
  have "tree ! (i - 1) ! (j - 1) = endsAt a b (i - 1) (j - 1)" if "i \<noteq> 0" "j \<noteq> 0"
    using cells[of "i - 1" "j - 1"] that ij by (auto simp: before_def)
  then have cell: "simCell a b i st j = (tree[i := (tree ! i)[j := v]], max v z)"
    using endsAt_step[of a b i j] by (auto simp: simCell_def st v_def Let_def)
  have new: "(tree[i := (tree ! i)[j := v]]) ! i' ! j' = (if i' = i \<and> j' = j then v else tree ! i' ! j')"
    if "i' < length a" "j' < length b" for i' j'
    using that ij len by (auto simp: nth_list_update)
  have len': "\<forall>r \<in> set (tree[i := (tree ! i)[j := v]]). length r = length b"
    using len ij set_update_subset_insert[of tree i "(tree ! i)[j := v]"] nth_mem[of i tree] by auto
  have bl: "i' < length a \<and> j' < length b" if "(i', j') \<in> before (length b) i j" for i' j'
    using that ij by (auto simp: before_def)
  have nb: "(i, j) \<notin> before (length b) i j" by (simp add: before_def)
  have "\<forall>(i', j') \<in> before (length b) i (Suc j).
      (tree[i := (tree ! i)[j := v]]) ! i' ! j' = endsAt a b i' j' \<and> endsAt a b i' j' \<le> max v z"
  proof (intro ballI, clarify)
    fix i' j' assume "(i', j') \<in> before (length b) i (Suc j)"
    then consider "i' = i" "j' = j" | "(i', j') \<in> before (length b) i j" by (auto simp: before_Suc[OF ij(2)])
    then show "(tree[i := (tree ! i)[j := v]]) ! i' ! j' = endsAt a b i' j' \<and> endsAt a b i' j' \<le> max v z"
    proof cases
      case 1
      then show ?thesis using new ij by (simp add: v_def)
    next
      case 2
      with nb have "\<not> (i' = i \<and> j' = j)" by auto
      with 2 show ?thesis using cells[OF 2] new bl[OF 2] by (auto simp: max_def)
    qed
  qed
  moreover have "max v z = 0 \<or> (\<exists>(i', j') \<in> before (length b) i (Suc j). endsAt a b i' j' = max v z)"
    using z unfolding before_Suc[OF ij(2)] by (auto simp: max_def v_def)
  ultimately show ?thesis using len len' unfolding cell simInv_def by simp
qed

lemma simRow_inv:
  assumes "simInv a b i 0 st" and "i < length a"
  shows "simInv a b (Suc i) 0 (simRow a b st i)"
proof -
  have "n \<le> length b \<Longrightarrow> simInv a b i n (foldl (simCell a b i) st [0..<n])" for n
    by (induction n) (use assms simCell_inv in auto)
  then have "simInv a b i (length b) (simRow a b st i)" by (simp add: simRow_def)
  then show ?thesis unfolding simInv_def before_row .
qed

lemma simTable_inv: "simInv a b (length a) 0 (simTable a b)"
proof -
  let ?st = "(replicate (length a) (replicate (length b) (0::nat)), 0::nat)"
  have "n \<le> length a \<Longrightarrow> simInv a b n 0 (foldl (simRow a b) ?st [0..<n])" for n
  proof (induction n)
    case 0
    then show ?case by (auto simp: simInv_def before_def)
  qed (use simRow_inv in auto)
  then show ?thesis by (simp add: simTable_def)
qed

lemma sublist_ends:
  assumes "sublist s a" and "s \<noteq> []"
  obtains i where "i < length a" and "length s \<le> Suc i" and "\<forall>k < length s. a ! (i - k) = s ! (length s - 1 - k)"
proof -
  obtain p q where a: "a = p @ s @ q" using assms(1) by (auto simp: sublist_def)
  show thesis
  proof (rule that[of "length p + length s - 1"])
    show "length p + length s - 1 < length a" by (cases s) (use assms(2) in \<open>simp_all add: a\<close>)
  qed (use assms(2) in \<open>auto simp: a nth_append\<close>)
qed

lemma simTable_longest:
  "\<exists>s. sublist s a \<and> sublist s b \<and> length s = snd (simTable a b)"
  "sublist s a \<Longrightarrow> sublist s b \<Longrightarrow> length s \<le> snd (simTable a b)"
proof -
  have inv: "simInv a b (length a) 0 (simTable a b)" by (rule simTable_inv)
  show "\<exists>s. sublist s a \<and> sublist s b \<and> length s = snd (simTable a b)"
  proof (cases "snd (simTable a b) = 0")
    case False
    then obtain i j where ij: "i < length a" "j < length b" "endsAt a b i j = snd (simTable a b)"
      using inv by (auto simp: simInv_def before_def)
    define n where "n = endsAt a b i j"
    have n: "n \<le> Suc i" "n \<le> Suc j" using endsAt_le n_def by auto
    let ?s = "take n (drop (Suc i - n) a)" and ?t = "take n (drop (Suc j - n) b)"
    have "?s = ?t"
    proof (rule nth_equalityI)
      show "length ?s = length ?t" using n ij by simp
      fix k assume "k < length ?s"
      then have k: "k < n" by simp
      have "a ! (i - (n - 1 - k)) = b ! (j - (n - 1 - k))"
        using k by (intro endsAt_common) (simp add: n_def[symmetric])
      moreover have "i - (n - 1 - k) = Suc i - n + k" "j - (n - 1 - k) = Suc j - n + k" using k n by auto
      ultimately show "?s ! k = ?t ! k" using k n ij by simp
    qed
    moreover have "sublist ?s a" "sublist ?t b" by (meson sublist_drop sublist_order.order_trans sublist_take)+
    moreover have "length ?s = n" using n ij by simp
    ultimately show ?thesis using ij(3) n_def by metis
  qed auto
  show "length s \<le> snd (simTable a b)" if sub: "sublist s a" "sublist s b"
  proof (cases "s = []")
    case False
    obtain i where i: "i < length a" "length s \<le> Suc i" "\<forall>k < length s. a ! (i - k) = s ! (length s - 1 - k)"
      using sublist_ends[OF sub(1) False] by blast
    obtain j where j: "j < length b" "length s \<le> Suc j" "\<forall>k < length s. b ! (j - k) = s ! (length s - 1 - k)"
      using sublist_ends[OF sub(2) False] by blast
    have "length s \<le> endsAt a b i j" using i j by (intro endsAt_longest) auto
    also have "\<dots> \<le> snd (simTable a b)" using inv i(1) j(1) by (auto simp: simInv_def before_def)
    finally show ?thesis .
  qed simp
qed


section \<open>The decision\<close>

text \<open>The earlier messages that count: the last ones, up to the first that is too old, of the same
  user if the setting asks for it.\<close>

definition comparedMessages :: "'f similarity_settings \<Rightarrow> int \<Rightarrow> message \<Rightarrow> message list \<Rightarrow> message list" where
  "comparedMessages st now msg messages =
     filter (\<lambda>m. hideSimilarBySameUser st \<longrightarrow> m_loginName msg = m_loginName m)
       (takeWhile (\<lambda>m. time_secsTo (m_parseTime m) now < hideSimilarMaxDelay st)
          (take (hideSimilarMaxMessagesToCheck st) (rev messages)))"

lemma inMessagesLoop_greater:
  "t < inMessagesLoop fdiv fzero st now msg ms acc \<longleftrightarrow> t < acc
     \<or> (\<exists>m \<in> set (filter (\<lambda>m. hideSimilarBySameUser st \<longrightarrow> m_loginName msg = m_loginName m)
                  (takeWhile (\<lambda>m. time_secsTo (m_parseTime m) now < hideSimilarMaxDelay st) ms)).
           t < relativeSimilarity fdiv fzero (m_messageText msg) (m_messageText m))"
  by (induction ms arbitrary: acc) (auto simp: less_max_iff_disj)

lemma inMessages_greater:
  "\<not> t < fzero \<Longrightarrow> t < inMessages fdiv fzero st now msg messages \<longleftrightarrow>
     (\<exists>m \<in> set (comparedMessages st now msg messages).
        t < relativeSimilarity fdiv fzero (m_messageText msg) (m_messageText m))"
  unfolding inMessages_def comparedMessages_def inMessagesLoop_greater by blast

section \<open>Properties\<close>

text \<open>C36. The similarity of two texts is the length of their longest common substring over the length
  of the longer text: the dynamic program finds a substring of both of the length it divides by
  the longer length, and no common substring is longer.\<close>

theorem similarity_is_longest_common_substring:
  "\<exists>s. sublist s str1 \<and> sublist s str2 \<and> (\<forall>t. sublist t str1 \<and> sublist t str2 \<longrightarrow> length t \<le> length s)
     \<and> relativeSimilarity fdiv fzero str1 str2 =
         (if s = [] then fzero else fdiv (length s) (max (length str1) (length str2)))"
proof -
  obtain s where s: "sublist s str1" "sublist s str2" "length s = snd (simTable str1 str2)"
    using simTable_longest(1) by blast
  have "max 1 (max (length str1) (length str2)) = max (length str1) (length str2)" if "s \<noteq> []"
    using s(1) that by (cases str1) (auto simp: sublist_def)
  then have "relativeSimilarity fdiv fzero str1 str2 =
         (if s = [] then fzero else fdiv (length s) (max (length str1) (length str2)))"
    unfolding relativeSimilarity_def Let_def s(3)[symmetric] by auto
  with s show ?thesis using simTable_longest(2) by metis
qed

theorem similarity_is_longest_common_substring_witness:
  "\<exists>s. sublist s ''abcx'' \<and> sublist s ''zabc'' \<and>
     relativeSimilarity (\<lambda>a b. (a, b)) (0, 1) ''abcx'' ''zabc'' = (if s = [] then (0, 1) else (length s, 4))"
  using similarity_is_longest_common_substring[of "''abcx''" "''zabc''" "\<lambda>a b. (a, b)" "(0, 1)"] by auto

text \<open>A message is marked as similar exactly when the filter is on and applies to its author and
  one of the compared messages (the last ones up to the first that is too old, of the same user
  if so configured) is more similar than the threshold; \<open>Disabled\<close> comes with it when so
  configured, and no other flag changes.\<close>

theorem similar_flag_decision:
  assumes "\<not> similarityPercentage st < fzero" and "f \<noteq> NoFlag"
  shows "m_has (setSimilarityFlags fdiv fzero st myName now messages msg) f \<longleftrightarrow> m_has msg f
     \<or> ((f = Similar \<or> (f = Disabled \<and> colorSimilarDisabled st))
        \<and> similarityEnabled st \<and> (m_loginName msg = myName \<longrightarrow> hideSimilarMyself st)
        \<and> (\<exists>m \<in> set (comparedMessages st now msg messages).
              similarityPercentage st < relativeSimilarity fdiv fzero (m_messageText msg) (m_messageText m)))"
  using inMessages_greater[OF assms(1), of fdiv st now msg messages] assms(2)
  by (auto simp: setSimilarityFlags_def Let_def)

definition sample_similarity :: "nat similarity_settings" where
  "sample_similarity = \<lparr>similarityEnabled = True, hideSimilarMyself = False, hideSimilarBySameUser = True,
     hideSimilarMaxDelay = 5, hideSimilarMaxMessagesToCheck = 3, similarityPercentage = 90, colorSimilarDisabled = True\<rparr>"

theorem similar_flag_decision_witness:
  "\<not> m_has (setSimilarityFlags (\<lambda>a b. 100 * a div b) 0 sample_similarity ''me'' 1000 [] (newMessage 1000)) Similar"
  using similar_flag_decision[of sample_similarity 0 Similar "\<lambda>a b. 100 * a div b" "''me''" 1000 "[]" "newMessage 1000"]
  by (simp add: sample_similarity_def comparedMessages_def m_has_def newMessage_def fl_has_def)

end
