(* ===== verification/Durations.thy ===== *)
theory Durations
  imports Prelude
begin

text \<open>
  Durations as text: \<open>src/util/FormatTime.cpp\<close> (short and long forms) and the parser of
  \<open>src/util/Helpers.cpp\<close> (\<open>parseDurationToSeconds\<close>), with the small string helpers of that file.

  Positions are \<open>qsizetype\<close> values that never leave \<open>0 .. length\<close>; they are naturals here and
  \<open>skipSpace\<close>/\<open>findUnitMultiplierToSec\<close> return the position after the one the code returns (the
  code steps back by one so that its \<open>for\<close> loop steps forward again).  The accumulated value is a
  64-bit word.
\<close>

section \<open>Formatting\<close>

definition appendShortDuration :: "int \<Rightarrow> char \<Rightarrow> string \<Rightarrow> string" where
  "appendShortDuration cnt suff out = (if out \<noteq> [] then out @ '' '' else out) @ numberStr cnt @ [suff]"

definition formatStep :: "int \<Rightarrow> char \<Rightarrow> string \<times> int \<Rightarrow> string \<times> int" where
  "formatStep n suff = (\<lambda>(res, components).
     if n > 0 \<and> components > 0 then (appendShortDuration n suff res, components - 1) else (res, components))"

definition formatTime :: "int \<Rightarrow> int \<Rightarrow> string" where
  "formatTime totalSeconds components =
     (let seconds = cmod totalSeconds 60;
          timeoutMinutes = cdiv totalSeconds 60;
          minutes = cmod timeoutMinutes 60;
          timeoutHours = cdiv timeoutMinutes 60;
          hours = cmod timeoutHours 24;
          days = cdiv timeoutHours 24
      in fst (formatStep seconds CHR ''s'' (formatStep minutes CHR ''m''
               (formatStep hours CHR ''h'' (formatStep days CHR ''d'' ('''', components))))))"

definition formatTimeStr :: "string \<Rightarrow> int \<Rightarrow> string" where
  "formatTimeStr totalSecondsString components =
     (case toIntOk totalSecondsString of Some totalSeconds \<Rightarrow> formatTime totalSeconds components | None \<Rightarrow> ''n/a'')"

definition formatTimeChrono :: "int \<Rightarrow> int \<Rightarrow> string" where
  "formatTimeChrono cnt components = formatTime (max (- (2 ^ 31)) (min (2 ^ 31 - 1) cnt)) components"

section \<open>Parsing\<close>

text \<open>\<open>skipSpace\<close>: one past the position the code returns.\<close>

definition skipSpace :: "string \<Rightarrow> nat \<Rightarrow> nat" where
  "skipSpace view startPos = startPos + length (takeWhile isSpace (drop startPos view))"

definition matchesIgnorePlural :: "string \<Rightarrow> string \<Rightarrow> bool" where
  "matchesIgnorePlural word expected \<longleftrightarrow> startsWith word expected
     \<and> (length word = length expected
        \<or> (length word = length expected + 1 \<and> word ! (length word - 1) = CHR ''s''))"

definition unitEnd :: "string \<Rightarrow> nat \<Rightarrow> nat" where
  "unitEnd view pos = pos + length (takeWhile (\<lambda>c. \<not> (isSpace c \<or> isDigit c)) (drop pos view))"

definition unitMultiplier :: "string \<Rightarrow> nat option" where
  "unitMultiplier unit =
     (if unit = [] then None
      else if unit ! 0 = CHR ''s'' then
        (if length unit = 1 \<or> matchesIgnorePlural unit ''second'' then Some 1 else None)
      else if unit ! 0 = CHR ''m'' then
        (if length unit = 1 \<or> matchesIgnorePlural unit ''minute'' then Some 60
         else if (length unit = 2 \<and> unit ! 1 = CHR ''o'') \<or> matchesIgnorePlural unit ''month''
         then Some (60 * 60 * 24 * 30) else None)
      else if unit ! 0 = CHR ''h'' then
        (if length unit = 1 \<or> matchesIgnorePlural unit ''hour'' then Some (60 * 60) else None)
      else if unit ! 0 = CHR ''d'' then
        (if length unit = 1 \<or> matchesIgnorePlural unit ''day'' then Some (60 * 60 * 24) else None)
      else if unit ! 0 = CHR ''w'' then
        (if length unit = 1 \<or> matchesIgnorePlural unit ''week'' then Some (60 * 60 * 24 * 7) else None)
      else None)"

text \<open>The multiplier, and one past the last position of the unit.\<close>

definition findUnitMultiplierToSec :: "string \<Rightarrow> nat \<Rightarrow> nat option \<times> nat" where
  "findUnitMultiplierToSec view pos =
     (let endIdx = unitEnd view pos in (unitMultiplier (mid view pos (endIdx - pos)), endIdx))"

lemma unitEnd_ge: "pos \<le> unitEnd view pos"
  by (simp add: unitEnd_def)

lemma skipSpace_ge: "pos \<le> skipSpace view pos"
  by (simp add: skipSpace_def)

lemma unitMultiplier_progress:
  "unitMultiplier (mid view pos (unitEnd view pos - pos)) = Some k \<Longrightarrow> pos < unitEnd view pos"
  using unitEnd_ge[of pos view] by (cases "unitEnd view pos = pos") (auto simp: mid_def unitMultiplier_def)

function durationLoop :: "string \<Rightarrow> nat \<Rightarrow> bool \<Rightarrow> nat \<Rightarrow> 64 word \<Rightarrow> (bool \<times> nat \<times> 64 word) option" where
  "durationLoop input pos visitingNumber numberStartIdx currentValue =
     (if pos \<ge> length input then Some (visitingNumber, numberStartIdx, currentValue)
      else let c = input ! pos in
        if visitingNumber \<and> \<not> isDigit c then
          (let parsed = toUInt (mid input numberStartIdx (pos - numberStartIdx));
               pos1 = (if isSpace c then skipSpace input pos else pos)
           in if pos1 \<ge> length input then None
              else case findUnitMultiplierToSec input pos1 of
                     (None, _) \<Rightarrow> None
                   | (Some k, pos2) \<Rightarrow>
                       durationLoop input pos2 False numberStartIdx
                         (currentValue + of_nat parsed * of_nat k))
        else if \<not> visitingNumber \<and> \<not> isSpace c then
          (if \<not> isDigit c then None else durationLoop input (Suc pos) True pos currentValue)
        else durationLoop input (Suc pos) visitingNumber numberStartIdx currentValue)"
  by pat_completeness auto
termination
proof (relation "measure (\<lambda>(input, pos, _). length input - pos)", goal_cases)
  case (2 input pos visitingNumber numberStartIdx currentValue c parsed pos1 r pos2 k)
  then have "pos1 < pos2" "pos \<le> pos1"
    using unitMultiplier_progress[of input pos1 k] skipSpace_ge[of pos input]
    by (auto simp: findUnitMultiplierToSec_def Let_def)
  with 2 show ?case by auto
qed auto

declare durationLoop.simps [simp del]

definition parseDurationToSeconds :: "string \<Rightarrow> 64 word \<Rightarrow> int" where
  "parseDurationToSeconds inputString noUnitMultiplier =
     (if length inputString = 0 then -1
      else let input = trimmed inputString in
        case durationLoop input 0 True 0 0 of
          None \<Rightarrow> -1
        | Some (visitingNumber, numberStartIdx, currentValue) \<Rightarrow>
            if visitingNumber then
              (if numberStartIdx \<noteq> 0 then -1
               else sint (currentValue + of_nat (toUInt input) * noUnitMultiplier))
            else sint currentValue)"


section \<open>Parsing what was formatted\<close>

lemma takeWhile_all: "list_all P xs \<Longrightarrow> takeWhile P (xs @ ys) = xs @ takeWhile P ys"
  by (induction xs) auto

lemma loop_digits:
  "list_all isDigit ds \<Longrightarrow>
     durationLoop (pre @ ds @ rest) (length pre) True start cv
   = durationLoop (pre @ ds @ rest) (length pre + length ds) True start cv"
proof (induction ds arbitrary: pre)
  case (Cons d ds)
  have "durationLoop (pre @ (d # ds) @ rest) (length pre) True start cv
      = durationLoop (pre @ (d # ds) @ rest) (Suc (length pre)) True start cv"
    using Cons.prems by (subst durationLoop.simps) (simp add: nth_append)
  then show ?case using Cons.IH[of "pre @ [d]"] Cons.prems by simp
qed simp

text \<open>A number, a one-letter unit and the end or a space after it.\<close>

lemma loop_unit:
  assumes ds: "ds \<noteq> []" "list_all isDigit ds" and u: "unitMultiplier [u] = Some k" "\<not> isSpace u" "\<not> isDigit u"
    and rest: "rest = [] \<or> isSpace (hd rest)"
  shows "durationLoop (pre @ ds @ u # rest) (length pre) True (length pre) cv
    = durationLoop (pre @ ds @ u # rest) (length pre + length ds + 1) False (length pre)
        (cv + of_nat (toUInt ds) * of_nat k)"
proof -
  have s: "takeWhile (\<lambda>c. \<not> (isSpace c \<or> isDigit c)) (u # rest) = [u]"
    using u rest by (cases rest) auto
  have e: "unitEnd (pre @ ds @ u # rest) (length pre + length ds) = length pre + length ds + 1"
    unfolding unitEnd_def using s by (simp add: drop_append)
  have f: "findUnitMultiplierToSec (pre @ ds @ u # rest) (length pre + length ds)
      = (Some k, length pre + length ds + 1)"
    unfolding findUnitMultiplierToSec_def Let_def e using u by (simp add: mid_def drop_append)
  have "durationLoop (pre @ ds @ u # rest) (length pre + length ds) True (length pre) cv
    = durationLoop (pre @ ds @ u # rest) (length pre + length ds + 1) False (length pre)
        (cv + of_nat (toUInt ds) * of_nat k)"
    using u f by (subst durationLoop.simps) (simp add: nth_append mid_def Let_def)
  then show ?thesis using loop_digits[OF ds(2), of pre "u # rest" "length pre" cv] by simp
qed

lemma loop_space:
  "isSpace c \<Longrightarrow> durationLoop (pre @ c # rest) (length pre) False start cv
     = durationLoop (pre @ c # rest) (Suc (length pre)) False start cv"
  by (subst durationLoop.simps) (simp add: nth_append)

lemma loop_start:
  "isDigit d \<Longrightarrow> durationLoop (pre @ d # rest) (length pre) False start cv
     = durationLoop (pre @ d # rest) (length pre) True (length pre) cv"
  by (subst durationLoop.simps, subst (2) durationLoop.simps) (simp add: nth_append)

lemma loop_end: "durationLoop input (length input) v start cv = Some (v, start, cv)"
  by (subst durationLoop.simps) simp

text \<open>The components of a formatted time.\<close>

definition part :: "int \<times> char \<Rightarrow> string" where
  "part = (\<lambda>(n, c). numberStr n @ [c])"

definition parts :: "int \<Rightarrow> (int \<times> char) list" where
  "parts n = filter (\<lambda>(k, _). k > 0)
     [(n div 60 div 60 div 24, CHR ''d''), (n div 60 div 60 mod 24, CHR ''h''),
      (n div 60 mod 60, CHR ''m''), (n mod 60, CHR ''s'')]"

lemma formatSteps_join:
  "fst (formatStep s CHR ''s'' (formatStep m CHR ''m'' (formatStep h CHR ''h'' (formatStep d CHR ''d'' ('''', 4)))))
   = joinStr '' '' (map part (filter (\<lambda>(k, _). k > 0) [(d, CHR ''d''), (h, CHR ''h''), (m, CHR ''m''), (s, CHR ''s'')]))"
  unfolding formatStep_def appendShortDuration_def part_def
  by (cases "d > 0"; cases "h > 0"; cases "m > 0"; cases "s > 0") simp_all

lemma formatTime_parts: "0 \<le> n \<Longrightarrow> formatTime n 4 = joinStr '' '' (map part (parts n))"
  unfolding formatTime_def parts_def Let_def formatSteps_join[symmetric]
  by (simp only: cdiv_nonneg cmod_nonneg pos_imp_zdiv_nonneg_iff zero_less_numeral)

definition unitOf :: "char \<Rightarrow> nat" where
  "unitOf c = (if c = CHR ''d'' then 86400 else if c = CHR ''h'' then 3600 else if c = CHR ''m'' then 60 else 1)"

definition goodPart :: "int \<times> char \<Rightarrow> bool" where
  "goodPart = (\<lambda>(n, c). 0 < n \<and> n < 2 ^ 32 \<and> c \<in> {CHR ''d'', CHR ''h'', CHR ''m'', CHR ''s''})"

lemma unit_letters:
  "unitMultiplier ''d'' = Some (unitOf CHR ''d'')" "unitMultiplier ''h'' = Some (unitOf CHR ''h'')"
  "unitMultiplier ''m'' = Some (unitOf CHR ''m'')" "unitMultiplier ''s'' = Some (unitOf CHR ''s'')"
  "\<not> isSpace CHR ''d''" "\<not> isSpace CHR ''h''" "\<not> isSpace CHR ''m''" "\<not> isSpace CHR ''s''"
  "\<not> isDigit CHR ''d''" "\<not> isDigit CHR ''h''" "\<not> isDigit CHR ''m''" "\<not> isDigit CHR ''s''"
  by (simp_all add: unitMultiplier_def unitOf_def isSpace_def isDigit_def code_def)

lemma goodPart_unit:
  assumes "goodPart (n, c)"
  shows "unitMultiplier [c] = Some (unitOf c) \<and> \<not> isSpace c \<and> \<not> isDigit c"
proof -
  from assms consider "c = CHR ''d''" | "c = CHR ''h''" | "c = CHR ''m''" | "c = CHR ''s''"
    by (auto simp: goodPart_def)
  then show ?thesis by cases (simp_all add: unit_letters)
qed

lemma numberStr_pos: "0 < n \<Longrightarrow> n < 2 ^ 32 \<Longrightarrow>
   numberStr n \<noteq> [] \<and> list_all isDigit (numberStr n) \<and> toUInt (numberStr n) = nat n"
  by (simp add: numberStr_def natDigits_digits nat_less_iff)

lemma joinStr_Cons: "joinStr sep (s # ss) = s @ (if ss = [] then [] else sep @ joinStr sep ss)"
  by (cases ss) simp_all

lemma isSpace_space [simp]: "isSpace CHR '' ''"
  by (simp add: isSpace_def code_def)

lemma loop_parts:
  "ps \<noteq> [] \<Longrightarrow> list_all goodPart ps \<Longrightarrow>
   \<exists>start'. durationLoop (pre @ joinStr '' '' (map part ps)) (length pre) True (length pre) cv
     = Some (False, start', cv + of_nat (\<Sum>(n, c) \<leftarrow> ps. nat n * unitOf c))"
proof (induction ps arbitrary: pre cv)
  case (Cons p ps)
  obtain n c where p: "p = (n, c)" by (cases p)
  have g: "goodPart (n, c)" using Cons.prems p by simp
  have num: "numberStr n \<noteq> []" "list_all isDigit (numberStr n)" "toUInt (numberStr n) = nat n"
    using g numberStr_pos[of n] by (auto simp: goodPart_def)
  note u = goodPart_unit[OF g]
  define rest where "rest = (if ps = [] then [] else '' '' @ joinStr '' '' (map part ps))"
  define cv1 where "cv1 = cv + of_nat (nat n) * of_nat (unitOf c)"
  have whole: "pre @ joinStr '' '' (map part (p # ps)) = pre @ numberStr n @ c # rest"
    by (simp add: joinStr_Cons p part_def rest_def)
  have first: "durationLoop (pre @ numberStr n @ c # rest) (length pre) True (length pre) cv
      = durationLoop (pre @ numberStr n @ c # rest) (length pre + length (numberStr n) + 1) False (length pre) cv1"
    using loop_unit[OF num(1,2), of c "unitOf c" rest pre cv] u num(3) by (auto simp: cv1_def rest_def)
  show ?case
  proof (cases "ps = []")
    case True
    then have "rest = []" by (simp add: rest_def)
    then show ?thesis
      unfolding whole first using loop_end[of "pre @ numberStr n @ [c]" False "length pre" cv1] True p
      by (simp add: cv1_def)
  next
    case False
    let ?pre = "pre @ numberStr n @ [c, CHR '' '']" and ?t = "joinStr '' '' (map part ps)"
    have rest: "rest = CHR '' '' # ?t" using False by (simp add: rest_def)
    obtain n2 c2 ps2 where ps: "ps = (n2, c2) # ps2" using False by (cases ps) auto
    have "goodPart (n2, c2)" using Cons.prems ps by simp
    then have "numberStr n2 \<noteq> []" "list_all isDigit (numberStr n2)"
      using numberStr_pos[of n2] by (auto simp: goodPart_def)
    then obtain d t where t: "?t = d # t" "isDigit d"
      unfolding ps by (cases "numberStr n2") (auto simp: joinStr_Cons part_def)
    have "durationLoop (pre @ numberStr n @ c # rest) (length pre + length (numberStr n) + 1) False (length pre) cv1
        = durationLoop (?pre @ ?t) (length ?pre) False (length pre) cv1"
      using loop_space[of "CHR '' ''" "pre @ numberStr n @ [c]" ?t "length pre" cv1] by (simp add: rest)
    also have "\<dots> = durationLoop (?pre @ ?t) (length ?pre) True (length ?pre) cv1"
      unfolding t(1) by (rule loop_start[OF t(2)])
    finally have step: "durationLoop (pre @ numberStr n @ c # rest) (length pre + length (numberStr n) + 1) False (length pre) cv1
        = durationLoop (?pre @ ?t) (length ?pre) True (length ?pre) cv1" .
    from Cons.IH[OF False, of ?pre cv1] Cons.prems(2)
    show ?thesis unfolding whole first step by (simp add: p cv1_def add_ac del: append_assoc)
  qed
qed simp

lemma sum_positive_parts:
  "list_all (\<lambda>(k, c). 0 \<le> k) ps \<Longrightarrow>
     int (\<Sum>(k, c) \<leftarrow> filter (\<lambda>(k, _). k > 0) ps. nat k * unitOf c) = (\<Sum>(k, c) \<leftarrow> ps. k * int (unitOf c))"
  by (induction ps) auto

lemma parts_sum:
  assumes "0 \<le> n"
  shows "int (\<Sum>(k, c) \<leftarrow> parts n. nat k * unitOf c) = n"
proof -
  have "int (\<Sum>(k, c) \<leftarrow> parts n. nat k * unitOf c)
     = (n div 60 div 60 div 24) * 86400 + ((n div 60 div 60 mod 24) * 3600 + ((n div 60 mod 60) * 60 + n mod 60))"
    unfolding parts_def using assms
    by (subst sum_positive_parts) (simp_all add: unitOf_def pos_imp_zdiv_nonneg_iff)
  also have "\<dots> = n" by presburger
  finally show ?thesis .
qed

lemma part_bounds:
  fixes n :: int
  assumes "0 \<le> n" and "n < 2 ^ 31"
  shows "n div 60 div 60 div 24 < 2 ^ 32" "n div 60 div 60 mod 24 < 2 ^ 32" "n div 60 mod 60 < 2 ^ 32"
    "n mod 60 < 2 ^ 32"
proof -
  have le: "m div k \<le> m \<and> 0 \<le> m div k" if "0 \<le> m" "0 < k" for m k :: int
    using that zdiv_mono2[of m 1 k] by (simp add: pos_imp_zdiv_nonneg_iff)
  have "n div 60 \<le> n \<and> 0 \<le> n div 60" using le assms(1) by simp
  moreover from this have "n div 60 div 60 \<le> n div 60 \<and> 0 \<le> n div 60 div 60" by (intro le) simp_all
  moreover from this have "n div 60 div 60 div 24 \<le> n div 60 div 60 \<and> 0 \<le> n div 60 div 60 div 24" by (intro le) simp_all
  moreover have "n < 2 ^ 32" using assms(2) by simp
  ultimately show "n div 60 div 60 div 24 < 2 ^ 32" by linarith
  have "n div 60 div 60 mod 24 < 24" "n div 60 mod 60 < 60" "n mod 60 < 60" by simp_all
  then show "n div 60 div 60 mod 24 < 2 ^ 32" "n div 60 mod 60 < 2 ^ 32" "n mod 60 < 2 ^ 32" by simp_all
qed

lemma goodPart_list:
  "d < 2 ^ 32 \<Longrightarrow> h < 2 ^ 32 \<Longrightarrow> m < 2 ^ 32 \<Longrightarrow> s < 2 ^ 32 \<Longrightarrow> list_all goodPart
     (filter (\<lambda>(k, _). k > 0) [(d, CHR ''d''), (h, CHR ''h''), (m, CHR ''m''), (s, CHR ''s'')])"
  by (simp add: goodPart_def)

lemma parts_good: "0 \<le> n \<Longrightarrow> n < 2 ^ 31 \<Longrightarrow> list_all goodPart (parts n)"
  unfolding parts_def by (rule goodPart_list[OF part_bounds])

lemma parts_ne: "0 < n \<Longrightarrow> parts n \<noteq> []"
  using parts_sum[of n] by auto

lemma joined_parts_trimmed:
  "ps \<noteq> [] \<Longrightarrow> list_all goodPart ps \<Longrightarrow> trimmed (joinStr '' '' (map part ps)) = joinStr '' '' (map part ps)
     \<and> joinStr '' '' (map part ps) \<noteq> []"
proof -
  assume a: "ps \<noteq> []" "list_all goodPart ps"
  obtain n c qs where ps: "ps = (n, c) # qs" using a(1) by (cases ps) auto
  with a have "numberStr n \<noteq> []" "list_all isDigit (numberStr n)"
    using numberStr_pos[of n] by (auto simp: goodPart_def)
  then have h: "joinStr '' '' (map part ps) \<noteq> []" "\<not> isSpace (hd (joinStr '' '' (map part ps)))"
    unfolding ps by (cases "numberStr n"; auto simp: joinStr_Cons part_def)+
  have "joinStr '' '' (map part rs) \<noteq> [] \<and> \<not> isSpace (last (joinStr '' '' (map part rs)))"
    if "rs \<noteq> []" "list_all goodPart rs" for rs
    using that
  proof (induction rs)
    case (Cons p rs)
    obtain n c where p: "p = (n, c)" by (cases p)
    from Cons.prems p have "\<not> isSpace c" using goodPart_unit[of n c] by simp
    with Cons show ?case by (cases "rs = []") (simp_all add: joinStr_Cons part_def p)
  qed simp
  with h a show ?thesis by (auto intro: trimmed_no_space)
qed


lemma parse_formatted:
  assumes "0 < n" and "n < 2 ^ 31"
  shows "parseDurationToSeconds (formatTime n 4) k = n"
proof -
  have f: "formatTime n 4 = joinStr '' '' (map part (parts n))" using formatTime_parts assms(1) by simp
  have g: "list_all goodPart (parts n)" "parts n \<noteq> []" using parts_good parts_ne assms by simp_all
  note tr = joined_parts_trimmed[OF g(2,1)]
  obtain st where loop: "durationLoop (joinStr '' '' (map part (parts n))) 0 True 0 0
      = Some (False, st, of_nat (\<Sum>(k, c) \<leftarrow> parts n. nat k * unitOf c))"
    using loop_parts[OF g(2,1), of "[]" 0] by auto
  have "int (\<Sum>(k, c) \<leftarrow> parts n. nat k * unitOf c) = n" using parts_sum assms(1) by simp
  then have "of_nat (\<Sum>(k, c) \<leftarrow> parts n. nat k * unitOf c) = (word_of_int n :: 64 word)"
    by (metis of_int_of_nat_eq)
  moreover have "sint (word_of_int n :: 64 word) = n"
    using assms by (simp add: sint_sbintrunc' signed_take_bit_int_eq_self)
  ultimately show ?thesis
    using tr loop by (simp add: parseDurationToSeconds_def f)
qed

lemma formatTime_nonpos: "n \<le> 0 \<Longrightarrow> formatTime n components = ''''"
proof -
  assume n: "n \<le> 0"
  have c: "cdiv m k \<le> 0 \<and> cmod m k \<le> 0" if "m \<le> 0" "0 < k" for m k :: int
  proof -
    have "cdiv m k = - ((- m) div k)" using that by (auto simp: cdiv_def sgn_if)
    moreover from this have "cmod m k = - ((- m) mod k)"
      by (simp add: cmod_def minus_div_mult_eq_mod [symmetric])
    ultimately show ?thesis using that by (simp add: pos_imp_zdiv_nonneg_iff)
  qed
  have 1: "cdiv n 60 \<le> 0" using c n by simp
  then have 2: "cdiv (cdiv n 60) 60 \<le> 0" using c by simp
  have "\<not> cmod n 60 > 0" "\<not> cmod (cdiv n 60) 60 > 0" "\<not> cmod (cdiv (cdiv n 60) 60) 24 > 0"
      "\<not> cdiv (cdiv (cdiv n 60) 60) 24 > 0"
    using c n 1 2 by (simp_all add: not_less)
  then show ?thesis by (simp add: formatTime_def formatStep_def Let_def)
qed

section \<open>Properties\<close>

text \<open>C35. Parsing inverts formatting: a positive number of seconds of the type \<open>int\<close>, formatted
  with all its components, is parsed back to the same number, whatever the multiplier for numbers
  without a unit is.\<close>

theorem duration_round_trip:
  assumes "0 < n" and "n < 2 ^ 31"
  shows "parseDurationToSeconds (formatTime n 4) noUnitMultiplier = n"
  using assms by (rule parse_formatted)

theorem duration_round_trip_witness: "parseDurationToSeconds (formatTime 93784 4) 60 = 93784"
  by (rule duration_round_trip) simp_all

text \<open>Durations that are not positive have no text: they are formatted as the empty string, for
  any number of components, and the parser rejects it.\<close>

theorem nonpositive_duration:
  assumes "n \<le> 0"
  shows "formatTime n components = '''' \<and> parseDurationToSeconds (formatTime n components) k = -1"
  using formatTime_nonpos[OF assms] by (simp add: parseDurationToSeconds_def)

theorem nonpositive_duration_witness: "parseDurationToSeconds (formatTime (-5) 4) 1 = -1"
  using nonpositive_duration[of "-5" 4 1] by (metis neg_le_0_iff_le zero_le_numeral)

text \<open>Invalid inputs that are accepted as zero seconds: only spaces, a unit without a number,
  and a number that does not fit into 32 bits.\<close>

theorem invalid_durations_are_zero:
  "parseDurationToSeconds ''  '' k = 0 \<and> parseDurationToSeconds ''s'' k = 0
   \<and> parseDurationToSeconds ''4294967296s'' k = 0 \<and> parseDurationToSeconds ''4294967295s'' k = 4294967295"
proof -
  have e: "parseDurationToSeconds ''  '' k = 0"
    by (simp add: parseDurationToSeconds_def trimmed_def durationLoop.simps toUInt_def parseInteger_def)
  have t: "trimmed (ds @ ''s'') = ds @ ''s''" if "list_all isDigit ds" for ds
    using that unit_letters by (intro trimmed_no_space) (cases ds; auto)+
  have l: "parseDurationToSeconds (ds @ ''s'') k = sint (of_nat (toUInt ds) :: 64 word)"
    if "list_all isDigit ds" "ds \<noteq> []" for ds
    using loop_unit[OF that(2,1), of "CHR ''s''" 1 "[]" "[]" 0] loop_end[of "ds @ ''s''"] unit_letters t[OF that(1)]
    by (simp add: parseDurationToSeconds_def unitOf_def)
  have d: "list_all isDigit ''4294967296''" "list_all isDigit ''4294967295''"
    by (simp_all add: isDigit_def code_def)
  have v: "toUInt ''4294967296'' = 0" "toUInt ''4294967295'' = 4294967295"
    using d by (simp_all add: toUInt_def parseInteger_digits digitsVal_def digitVal_def code_def)
  have s: "parseDurationToSeconds ''s'' k = 0"
    using t[of "[]"] unit_letters
    by (simp add: parseDurationToSeconds_def durationLoop.simps findUnitMultiplierToSec_def unitEnd_def mid_def
        unitOf_def toUInt_def parseInteger_def trimmed_def)
  show ?thesis using e s l[OF d(1)] l[OF d(2)] by (simp add: v)
qed

end
