(* ===== verification/LongDurations.thy ===== *)
theory LongDurations
  imports Prelude
begin

text \<open>
  The long form of durations, \<open>formatLongFriendlyDuration\<close> of \<open>src/util/FormatTime.cpp\<close>.

  Dates are day numbers and times are seconds since the epoch.  \<open>boost::gregorian\<close>'s year and month
  iterators are not part of the repository: \<open>it d n\<close> is the date an iterator started at \<open>d\<close> points
  to after \<open>n\<close> increments, an argument of the definitions.  What is assumed of it where a
  property needs it is that it starts at \<open>d\<close>, moves forward, and that a month has at most 31 days.
\<close>

section \<open>Counting years and months\<close>

type_synonym date_iterator = "int \<Rightarrow> nat \<Rightarrow> int"

partial_function (option) countBetween ::
  "date_iterator \<Rightarrow> int \<Rightarrow> int \<Rightarrow> nat \<Rightarrow> 16 word \<Rightarrow> int \<Rightarrow> (16 word \<times> int) option" where
  "countBetween it first second n cnt lastOk =
     (if it first n \<le> second then countBetween it first second (Suc n) (cnt + 1) (it first n)
      else Some (cnt, lastOk))"

definition yearsBetween :: "date_iterator \<Rightarrow> int \<Rightarrow> int \<Rightarrow> (16 word \<times> int) option" where
  "yearsBetween yit first second = countBetween yit first second 1 0 first"

definition monthsBetween :: "date_iterator \<Rightarrow> int \<Rightarrow> int \<Rightarrow> (16 word \<times> int) option" where
  "monthsBetween mit first second = countBetween mit first second 1 0 first"

record balanced_duration =
  bd_years :: "16 word"
  bd_months :: "16 word"
  bd_days :: "16 word"
  bd_hours :: "16 word"
  bd_minutes :: "16 word"
  bd_seconds :: "16 word"

definition durationBetween ::
  "date_iterator \<Rightarrow> date_iterator \<Rightarrow> int \<Rightarrow> int \<Rightarrow> balanced_duration option" where
  "durationBetween yit mit a b =
     (let (from_t, to_t) = (if a > b then (b, a) else (a, b));
          fromD = from_t div 86400;
          toD0 = to_t div 86400;
          toD = (if to_t mod 86400 < from_t mod 86400 then toD0 - 1 else toD0)
      in case yearsBetween yit fromD toD of None \<Rightarrow> None
         | Some (years, yd) \<Rightarrow>
           (case monthsBetween mit yd toD of None \<Rightarrow> None
            | Some (months, md) \<Rightarrow>
               (let rm = to_t - (md * 86400 + from_t mod 86400);
                    hoursAndDays = cdiv rm 3600
                in Some \<lparr>bd_years = years, bd_months = months,
                          bd_days = of_int (cdiv hoursAndDays 24), bd_hours = of_int (cmod hoursAndDays 24),
                          bd_minutes = of_int (cmod (cmod (cdiv rm 60) 60) 60),
                          bd_seconds = of_int (cmod (cmod rm 60) 60)\<rparr>)))"

section \<open>Formatting\<close>

definition bd_COMPONENTS :: "balanced_duration \<Rightarrow> (nat \<times> string) list" where
  "bd_COMPONENTS bd =
     [(unat (bd_years bd), ''year''), (unat (bd_months bd), ''month''), (unat (bd_days bd), ''day''),
      (unat (bd_hours bd), ''hour''), (unat (bd_minutes bd), ''minute''), (unat (bd_seconds bd), ''second'')]"

definition bd_components :: "balanced_duration \<Rightarrow> nat" where
  "bd_components bd = length (filter (\<lambda>(k, _). k \<noteq> 0) (bd_COMPONENTS bd))"

definition friendlySeparator :: "nat \<Rightarrow> nat \<Rightarrow> string \<Rightarrow> string" where
  "friendlySeparator total_n remaining out =
     (if out \<noteq> '''' then
        (if remaining = 1 then (if total_n > 2 then out @ '','' else out) @ '' and '' else out @ '', '')
      else out)"

definition friendlyPart :: "nat \<Rightarrow> string \<Rightarrow> string" where
  "friendlyPart n name = numberStr (int n) @ '' '' @ name @ (if n \<noteq> 1 then ''s'' else '''')"

fun friendlyLoop :: "nat \<Rightarrow> nat \<Rightarrow> string \<Rightarrow> (nat \<times> string) list \<Rightarrow> string" where
  "friendlyLoop total_n remaining out [] = out"
| "friendlyLoop total_n remaining out ((n, name) # cs) =
     (if n = 0 then friendlyLoop total_n remaining out cs
      else let out1 = friendlySeparator total_n remaining out @ friendlyPart n name;
               remaining1 = remaining - 1
           in if remaining1 = 0 then out1 else friendlyLoop total_n remaining1 out1 cs)"

text \<open>\<open>None\<close> for an invalid \<open>QDateTime\<close>.\<close>

definition formatBalanced :: "balanced_duration \<Rightarrow> string" where
  "formatBalanced bd =
     (let remaining = min (bd_components bd) 4
      in if remaining = 0 then ''0 seconds'' else friendlyLoop remaining remaining '''' (bd_COMPONENTS bd))"

definition formatLongFriendlyDuration ::
  "date_iterator \<Rightarrow> date_iterator \<Rightarrow> int option \<Rightarrow> int option \<Rightarrow> string option" where
  "formatLongFriendlyDuration yit mit from_t to_t =
     (case (from_t, to_t) of
        (Some a, Some b) \<Rightarrow> map_option formatBalanced (durationBetween yit mit a b)
      | _ \<Rightarrow> Some ''n/a'')"

section \<open>The counts\<close>

definition calendar :: "date_iterator \<Rightarrow> bool" where
  "calendar it \<longleftrightarrow> (\<forall>d. it d 0 = d) \<and> (\<forall>d n. it d n < it d (Suc n))"

lemma calendar_lower: "calendar it \<Longrightarrow> d + int n \<le> it d n"
proof (induction n)
  case (Suc n)
  then have "it d n < it d (Suc n)" by (simp add: calendar_def)
  with Suc show ?case by simp
qed (simp add: calendar_def)

lemma countBetween_returns:
  assumes it: "calendar it" and "it first n \<le> second"
  shows "\<exists>k \<ge> n. it first k \<le> second \<and> second < it first (Suc k)
     \<and> countBetween it first second (Suc n) (of_nat n) (it first n) = Some (of_nat k, it first k)"
  using assms(2)
proof (induction "nat (second - first) - n" arbitrary: n rule: less_induct)
  case less
  show ?case
  proof (cases "it first (Suc n) \<le> second")
    case False
    then show ?thesis
      using less.prems by (intro exI[of _ n]) (simp add: countBetween.simps not_le)
  next
    case True
    have "nat (second - first) - Suc n < nat (second - first) - n"
      using calendar_lower[OF it, of first "Suc n"] True by simp
    from less.hyps[OF this True] obtain k where k: "k \<ge> Suc n" "it first k \<le> second" "second < it first (Suc k)"
        "countBetween it first second (Suc (Suc n)) (of_nat (Suc n)) (it first (Suc n)) = Some (of_nat k, it first k)"
      by blast
    have "countBetween it first second (Suc n) (of_nat n) (it first n)
        = countBetween it first second (Suc (Suc n)) (of_nat (Suc n)) (it first (Suc n))"
      using True by (subst countBetween.simps) (simp add: add.commute)
    with k show ?thesis by (intro exI[of _ k]) simp
  qed
qed

lemma countBetween_start:
  assumes "calendar it" and "first \<le> second"
  shows "\<exists>k. it first k \<le> second \<and> second < it first (Suc k)
     \<and> countBetween it first second 1 0 first = Some (of_nat k, it first k)"
  using countBetween_returns[OF assms(1), of first 0 second] assms by (auto simp: calendar_def)

section \<open>The text\<close>

text \<open>The form of the text: the largest components, at most four, joined as in a sentence.\<close>

fun sentence :: "string list \<Rightarrow> string" where
  "sentence [] = '''' "
| "sentence [x] = x"
| "sentence [x, y] = x @ '' and '' @ y"
| "sentence (x # y # z # zs) = joinStr '', '' (butlast (x # y # z # zs)) @ '', and '' @ last (z # zs)"

definition shownParts :: "balanced_duration \<Rightarrow> string list" where
  "shownParts bd = map (\<lambda>(n, name). friendlyPart n name) (take 4 (filter (\<lambda>(k, _). k \<noteq> 0) (bd_COMPONENTS bd)))"

lemma friendlyLoop_filter:
  "friendlyLoop t r out (filter (\<lambda>(k, _). k \<noteq> 0) cs) = friendlyLoop t r out cs"
  by (induction t r out cs rule: friendlyLoop.induct) (auto simp: Let_def)

lemma friendlyLoop_take:
  "0 < r \<Longrightarrow> \<forall>(k, _) \<in> set cs. k \<noteq> 0 \<Longrightarrow> friendlyLoop t r out cs = friendlyLoop t r out (take r cs)"
proof (induction cs arbitrary: r out)
  case (Cons c cs)
  obtain n name r' where c: "c = (n, name)" "n \<noteq> 0" "r = Suc r'" using Cons.prems by (cases c; cases r) auto
  show ?case
  proof (cases r')
    case (Suc r2)
    then show ?thesis using Cons.IH[of r'] Cons.prems(2) c by (simp add: Let_def)
  qed (simp add: c Let_def)
qed simp

lemma friendlyPart_ne: "friendlyPart n name \<noteq> []"
  by (simp add: friendlyPart_def)

lemma friendlyLoop_sentence:
  assumes "length cs \<le> 4" and "cs \<noteq> []" and "\<forall>(k, _) \<in> set cs. k \<noteq> 0"
  shows "friendlyLoop (length cs) (length cs) '''' cs = sentence (map (\<lambda>(n, name). friendlyPart n name) cs)"
proof -
  have four: "cs = [] \<or> (\<exists>a. cs = [a]) \<or> (\<exists>a b. cs = [a, b]) \<or> (\<exists>a b c. cs = [a, b, c]) \<or> (\<exists>a b c d. cs = [a, b, c, d])"
    using assms(1) by (cases cs; cases "tl cs"; cases "tl (tl cs)"; cases "tl (tl (tl cs))") auto
  then show ?thesis
    using assms(2,3) by (elim disjE exE) (auto simp: Let_def friendlySeparator_def friendlyPart_ne)
qed

lemma formatBalanced_sentence:
  "formatBalanced bd = (if shownParts bd = [] then ''0 seconds'' else sentence (shownParts bd))"
proof -
  let ?cs = "filter (\<lambda>(k, _). k \<noteq> 0) (bd_COMPONENTS bd)"
  show ?thesis
  proof (cases "?cs = []")
    case True
    then show ?thesis by (simp add: formatBalanced_def bd_components_def shownParts_def)
  next
    case False
    let ?r = "min (length ?cs) 4"
    have r: "0 < ?r" "length (take 4 ?cs) = ?r" using False by auto
    have "formatBalanced bd = (if ?r = 0 then ''0 seconds'' else friendlyLoop ?r ?r '''' (bd_COMPONENTS bd))"
      by (simp only: formatBalanced_def bd_components_def Let_def)
    also have "\<dots> = friendlyLoop ?r ?r '''' (bd_COMPONENTS bd)"
      by (rule if_not_P) (use r(1) in arith)
    also have "\<dots> = friendlyLoop ?r ?r '''' ?cs" by (simp only: friendlyLoop_filter)
    also have "\<dots> = friendlyLoop ?r ?r '''' (take ?r ?cs)" using r(1) by (intro friendlyLoop_take) auto
    also have "take ?r ?cs = take 4 ?cs" by (simp add: min_def)
    also have "friendlyLoop ?r ?r '''' (take 4 ?cs) = sentence (map (\<lambda>(n, name). friendlyPart n name) (take 4 ?cs))"
    proof -
      have "\<forall>(k, _) \<in> set (take 4 ?cs). k \<noteq> 0" using set_take_subset[of 4 ?cs] by auto
      from friendlyLoop_sentence[OF _ _ this] show ?thesis unfolding r(2) using False by simp
    qed
    finally show ?thesis using False by (simp only: shownParts_def) simp
  qed
qed


section \<open>What the balanced duration measures\<close>

lemma balanced_parts:
  fixes r :: int
  assumes "0 \<le> r"
  shows "r = cdiv (cdiv r 3600) 24 * 86400 + cmod (cdiv r 3600) 24 * 3600
           + cmod (cmod (cdiv r 60) 60) 60 * 60 + cmod (cmod r 60) 60"
    and "cdiv (cdiv r 3600) 24 = r div 86400" and "0 \<le> cmod (cdiv r 3600) 24 \<and> cmod (cdiv r 3600) 24 < 24"
    and "0 \<le> cmod (cmod (cdiv r 60) 60) 60 \<and> cmod (cmod (cdiv r 60) 60) 60 < 60"
    and "0 \<le> cmod (cmod r 60) 60 \<and> cmod (cmod r 60) 60 < 60"
proof -
  have d: "cdiv r 3600 = r div 3600" "cdiv r 60 = r div 60" "cmod r 60 = r mod 60"
    using assms by simp_all
  have dd: "0 \<le> r div 3600" "0 \<le> r div 60" "0 \<le> r mod 60" "0 \<le> r div 60 mod 60"
    using assms by (simp_all add: pos_imp_zdiv_nonneg_iff)
  have e: "cdiv (r div 3600) 24 = r div 3600 div 24" "cmod (r div 3600) 24 = r div 3600 mod 24"
      "cmod (r div 60) 60 = r div 60 mod 60" "cmod (r div 60 mod 60) 60 = r div 60 mod 60" "cmod (r mod 60) 60 = r mod 60"
    using dd by simp_all
  show "r = cdiv (cdiv r 3600) 24 * 86400 + cmod (cdiv r 3600) 24 * 3600
           + cmod (cmod (cdiv r 60) 60) 60 * 60 + cmod (cmod r 60) 60"
  proof -
    define q m1 h1 s1 where "q = r div 60" and "m1 = r div 60 mod 60" and "h1 = r div 3600" and "s1 = r mod 60"
    have "r = q * 60 + s1" by (simp add: q_def s1_def)
    moreover have "q = q div 60 * 60 + m1" by (simp add: q_def m1_def)
    moreover have "q div 60 = h1" by (simp add: q_def h1_def div_mult2_eq[symmetric])
    moreover have "h1 = h1 div 24 * 24 + h1 mod 24" by simp
    ultimately have "r = h1 div 24 * 86400 + h1 mod 24 * 3600 + m1 * 60 + s1" by linarith
    then show ?thesis unfolding d e q_def m1_def h1_def s1_def .
  qed
  show "cdiv (cdiv r 3600) 24 = r div 86400" unfolding d e by (simp add: div_mult2_eq[symmetric])
  show "0 \<le> cmod (cdiv r 3600) 24 \<and> cmod (cdiv r 3600) 24 < 24"
    "0 \<le> cmod (cmod (cdiv r 60) 60) 60 \<and> cmod (cmod (cdiv r 60) 60) 60 < 60"
    "0 \<le> cmod (cmod r 60) 60 \<and> cmod (cmod r 60) 60 < 60"
    unfolding d e by simp_all
qed

lemma floor_day: "(if b mod 86400 < a mod 86400 then b div 86400 - 1 else b div 86400) = (b - a mod 86400) div (86400::int)"
proof -
  have b: "b - a mod 86400 = b div 86400 * 86400 + (b mod 86400 - a mod 86400)" by simp
  have m: "0 \<le> a mod 86400" "a mod 86400 < 86400" "0 \<le> b mod 86400" "b mod 86400 < 86400" by simp_all
  show ?thesis
  proof (cases "b mod 86400 < a mod 86400")
    case True
    have "b - a mod 86400 = 86400 * (b div 86400 - 1) + (86400 + b mod 86400 - a mod 86400)" using b by simp
    from int_div_pos_eq[OF this] show ?thesis using True m by simp
  next
    case False
    have "b - a mod 86400 = 86400 * (b div 86400) + (b mod 86400 - a mod 86400)" using b by simp
    from int_div_pos_eq[OF this] show ?thesis using False m by simp
  qed
qed

lemma durationBetween_value:
  assumes y: "calendar yit" and m: "calendar mit" and days: "\<forall>d n. mit d (Suc n) \<le> mit d n + 31" and le: "a \<le> b"
  shows "\<exists>Y M bd. durationBetween yit mit a b = Some bd
     \<and> bd_years bd = of_nat Y \<and> bd_months bd = of_nat M
     \<and> uint (bd_days bd) < 31 \<and> uint (bd_hours bd) < 24 \<and> uint (bd_minutes bd) < 60 \<and> uint (bd_seconds bd) < 60
     \<and> b = (mit (yit (a div 86400) Y) M + uint (bd_days bd)) * 86400 + a mod 86400
            + uint (bd_hours bd) * 3600 + uint (bd_minutes bd) * 60 + uint (bd_seconds bd)
     \<and> b < yit (a div 86400) (Suc Y) * 86400 + a mod 86400
     \<and> b < mit (yit (a div 86400) Y) (Suc M) * 86400 + a mod 86400"
proof -
  define x where "x = b - a mod 86400"
  have first: "a div 86400 \<le> x div 86400"
  proof -
    have "a div 86400 * 86400 \<le> x" using le by (simp add: x_def minus_mod_eq_div_mult[symmetric])
    then show ?thesis by linarith
  qed
  obtain Y where Y: "yit (a div 86400) Y \<le> x div 86400" "x div 86400 < yit (a div 86400) (Suc Y)"
      "yearsBetween yit (a div 86400) (x div 86400) = Some (of_nat Y, yit (a div 86400) Y)"
    using countBetween_start[OF y first] unfolding yearsBetween_def by blast
  define yd where "yd = yit (a div 86400) Y"
  obtain M where M: "mit yd M \<le> x div 86400" "x div 86400 < mit yd (Suc M)"
      "monthsBetween mit yd (x div 86400) = Some (of_nat M, mit yd M)"
    using countBetween_start[OF m Y(1)[folded yd_def]] unfolding monthsBetween_def by blast
  define r where "r = x - mit yd M * 86400"
  have r: "0 \<le> r" "r div 86400 = x div 86400 - mit yd M"
    using M(1) by (simp_all add: r_def)
  note P = balanced_parts[OF r(1)]
  define bd where "bd = \<lparr>bd_years = of_nat Y, bd_months = of_nat M,
     bd_days = of_int (cdiv (cdiv r 3600) 24), bd_hours = of_int (cmod (cdiv r 3600) 24),
     bd_minutes = of_int (cmod (cmod (cdiv r 60) 60) 60), bd_seconds = of_int (cmod (cmod r 60) 60)\<rparr>"
  have eq: "b - (mit yd M * 86400 + a mod 86400) = r" by (simp add: r_def x_def)
  have val: "durationBetween yit mit a b = Some bd"
    using le by (simp add: durationBetween_def Let_def floor_day x_def[symmetric] Y(3) M(3) yd_def[symmetric] eq bd_def)
  have D: "0 \<le> r div 86400" "r div 86400 < 31" using r M days[rule_format, of yd M] by auto
  have u: "uint (of_int k :: 16 word) = k" if "0 \<le> k" "k < 65536" for k
    using that by (simp add: uint_word_of_int)
  have parts: "uint (bd_days bd) = r div 86400" "uint (bd_hours bd) = cmod (cdiv r 3600) 24"
      "uint (bd_minutes bd) = cmod (cmod (cdiv r 60) 60) 60" "uint (bd_seconds bd) = cmod (cmod r 60) 60"
    using P(3-5) D by (auto simp: bd_def P(2) u)
  have sum: "b = (mit yd M + uint (bd_days bd)) * 86400 + a mod 86400
            + uint (bd_hours bd) * 3600 + uint (bd_minutes bd) * 60 + uint (bd_seconds bd)"
    using P(1) eq unfolding parts P(2) by (simp add: algebra_simps)
  have lt: "b < yit (a div 86400) (Suc Y) * 86400 + a mod 86400" "b < mit yd (Suc M) * 86400 + a mod 86400"
    using Y(2) M(2) x_def by linarith+
  have counts: "bd_years bd = of_nat Y" "bd_months bd = of_nat M" by (simp_all add: bd_def)
  have bounds: "uint (bd_days bd) < 31" "uint (bd_hours bd) < 24" "uint (bd_minutes bd) < 60"
      "uint (bd_seconds bd) < 60"
    unfolding parts using P(3-5) D(2) by blast+
  show ?thesis
    by (intro exI[of _ Y] exI[of _ M] exI[of _ bd] conjI val counts bounds sum[unfolded yd_def] lt[unfolded yd_def])
qed

lemma durationBetween_swap: "durationBetween yit mit b a = durationBetween yit mit a b"
  by (cases "a = b") (auto simp: durationBetween_def)


section \<open>Properties\<close>

text \<open>The balanced duration between two times terminates and is exact: counting the years and
  months from the earlier date and adding the days, hours, minutes and seconds gives the later
  time; every part is below its bound, one more year or month would go past the later time, no
  cast to 16 bits loses anything but the number of years and months themselves, and the order of
  the arguments does not matter.\<close>

theorem balanced_duration_is_exact:
  assumes "calendar yit" and "calendar mit" and "\<forall>d n. mit d (Suc n) \<le> mit d n + 31" and "a \<le> b"
  shows "\<exists>Y M bd. durationBetween yit mit a b = Some bd \<and> durationBetween yit mit b a = Some bd
     \<and> bd_years bd = of_nat Y \<and> bd_months bd = of_nat M
     \<and> uint (bd_days bd) < 31 \<and> uint (bd_hours bd) < 24 \<and> uint (bd_minutes bd) < 60 \<and> uint (bd_seconds bd) < 60
     \<and> b = (mit (yit (a div 86400) Y) M + uint (bd_days bd)) * 86400 + a mod 86400
            + uint (bd_hours bd) * 3600 + uint (bd_minutes bd) * 60 + uint (bd_seconds bd)
     \<and> b < yit (a div 86400) (Suc Y) * 86400 + a mod 86400
     \<and> b < mit (yit (a div 86400) Y) (Suc M) * 86400 + a mod 86400"
  using durationBetween_value[OF assms] unfolding durationBetween_swap[of yit mit b a] by blast

definition years_of_365 :: date_iterator where
  "years_of_365 d n = d + 365 * int n"

definition months_of_30 :: date_iterator where
  "months_of_30 d n = d + 30 * int n"

theorem balanced_duration_is_exact_witness:
  "\<exists>bd. durationBetween years_of_365 months_of_30 1000000 50000000 = Some bd \<and> uint (bd_hours bd) < 24"
proof -
  have "calendar years_of_365" "calendar months_of_30" "\<forall>d n. months_of_30 d (Suc n) \<le> months_of_30 d n + 31"
    by (simp_all add: calendar_def years_of_365_def months_of_30_def)
  from balanced_duration_is_exact[OF this, of 1000000 50000000] show ?thesis by auto
qed

text \<open>The text of a duration is a sentence of its largest non-zero parts, at most four, from years
  down to seconds: the last two are joined by ``and'', with a comma before it when there are more
  than two; without any part it is ``0 seconds''.\<close>

theorem long_duration_is_sentence:
  "formatBalanced bd = (if shownParts bd = [] then ''0 seconds'' else sentence (shownParts bd))"
  by (rule formatBalanced_sentence)

text \<open>Three parts are joined with a comma before the ``and'', and minutes and seconds are shown
  when the duration is short.\<close>

theorem long_duration_examples:
  "formatBalanced \<lparr>bd_years = 4, bd_months = 0, bd_days = 5, bd_hours = 8, bd_minutes = 0, bd_seconds = 0\<rparr>
     = ''4 years, 5 days, and 8 hours''
   \<and> formatBalanced \<lparr>bd_years = 0, bd_months = 0, bd_days = 0, bd_hours = 0, bd_minutes = 1, bd_seconds = 1\<rparr>
     = ''1 minute and 1 second''"
  by (simp add: formatBalanced_def bd_components_def bd_COMPONENTS_def friendlySeparator_def friendlyPart_def
      numberStr_def natDigits.simps digitChar_def char_of_def bit_0)

end
