(* ===== verification/LinkParser.thy ===== *)
theory LinkParser
  imports Prelude
begin

text \<open>
  The link parser, \<open>src/common/LinkParser.cpp\<close> and \<open>LinkParser.hpp\<close>.

  A view into the source is its text; \<open>p_offset\<close> is the position of the first character of the link,
  which is all that \<open>prefix\<close> and \<open>suffix\<close> use.  The set of top level domains is read from a
  resource: \<open>isValidTld\<close> is an argument.
\<close>

section \<open>IPv4 addresses and ports\<close>

fun ipv4Loop :: "string \<Rightarrow> nat \<Rightarrow> nat \<Rightarrow> nat \<Rightarrow> bool \<Rightarrow> bool" where
  "ipv4Loop [] sectionValue octetNumber sectionDigits lastWasDot \<longleftrightarrow> octetNumber = 3 \<and> \<not> lastWasDot"
| "ipv4Loop (c # cs) sectionValue octetNumber sectionDigits lastWasDot \<longleftrightarrow>
     (if c = CHR ''.'' then
        (if lastWasDot \<or> octetNumber = 3 then False else ipv4Loop cs 0 (octetNumber + 1) 0 True)
      else if code c > code CHR ''9'' \<or> code c < code CHR ''0'' then False
      else let sectionValue' = sectionValue * 10 + (code c - code CHR ''0''); sectionDigits' = sectionDigits + 1
           in if sectionValue' \<ge> 256 \<or> sectionDigits' > 3 then False
              else ipv4Loop cs sectionValue' octetNumber sectionDigits' False)"

definition isValidIpv4 :: "string \<Rightarrow> bool" where
  "isValidIpv4 host \<longleftrightarrow> ipv4Loop host 0 0 0 True"

definition isPathStart :: "char \<Rightarrow> bool" where
  "isPathStart c \<longleftrightarrow> c = CHR ''/'' \<or> c = CHR ''?'' \<or> c = CHR ''#''"

text \<open>The loop of \<open>startsWithPort\<close> at index \<open>i\<close>, over the first five characters.\<close>

fun portLoop :: "nat \<Rightarrow> string \<Rightarrow> bool" where
  "portLoop i [] = True"
| "portLoop i (c # cs) =
     (if i \<ge> 1 \<and> isPathStart c then True else if \<not> isDigit c then False else portLoop (i + 1) cs)"

definition startsWithPort :: "string \<Rightarrow> bool" where
  "startsWithPort s = portLoop 0 (take 5 s)"

section \<open>Stripping\<close>

definition ignoredStart :: "char \<Rightarrow> bool" where
  "ignoredStart c \<longleftrightarrow> c = CHR ''<'' \<or> c = CHR ''*'' \<or> c = CHR ''_'' \<or> c = CHR ''~'' \<or> c = CHR ''(''"

definition ignoredEnd :: "char \<Rightarrow> bool" where
  "ignoredEnd c \<longleftrightarrow> c = CHR ''>'' \<or> c = CHR ''?'' \<or> c = CHR ''!'' \<or> c = CHR ''.'' \<or> c = CHR '',''
     \<or> c = CHR '':'' \<or> c = CHR ''*'' \<or> c = CHR ''~'' \<or> c = CHR '')''"

fun stripStart :: "string \<Rightarrow> string" where
  "stripStart [] = []"
| "stripStart (c # cs) = (if ignoredStart c then stripStart cs else c # cs)"

function stripEnd :: "string \<Rightarrow> string" where
  "stripEnd s = (if s \<noteq> [] \<and> ignoredEnd (last s) then stripEnd (chop s 1) else s)"
  by pat_completeness auto
termination
  by (relation "measure length") (auto simp: chop_def)

declare stripEnd.simps [simp del]

definition strip :: "string \<Rightarrow> string" where
  "strip source = stripEnd (stripStart source)"

definition isValidDomainChar :: "char \<Rightarrow> bool" where
  "isValidDomainChar c \<longleftrightarrow> code c \<ge> 128 \<or> (code CHR ''0'' \<le> code c \<and> code c \<le> code CHR ''9'')
     \<or> (code CHR ''A'' \<le> code c \<and> code c \<le> code CHR ''Z'') \<or> (code CHR ''a'' \<le> code c \<and> code c \<le> code CHR ''z'')
     \<or> c = CHR ''_'' \<or> c = CHR ''-'' \<or> c = CHR ''.''"

section \<open>Parsing\<close>

record parsed_link =
  p_protocol :: string
  p_host :: string
  p_rest :: string
  p_link :: string
  p_offset :: nat

definition lowerAscii :: "char \<Rightarrow> char" where
  "lowerAscii c = (if 65 \<le> code c \<and> code c \<le> 90 then char_of (code c + 32) else c)"

text \<open>\<open>protocol\<close> and \<open>remaining\<close>.\<close>

definition splitProtocol :: "string \<Rightarrow> string \<times> string" where
  "splitProtocol link =
     (if map lowerAscii (take 4 link) = ''http'' \<and> length link \<ge> 8 then
        (let withProto = midFrom link 4;
             withProto' = (if withProto ! 0 = CHR ''s'' \<or> withProto ! 0 = CHR ''S'' then midFrom withProto 1 else withProto)
         in if startsWith withProto' ''://''
            then (let remaining = midFrom withProto' 3 in (take (length link - length remaining) link, remaining))
            else ('''', link))
      else ('''', link))"

record host_result =
  hr_host :: string
  hr_rest :: string
  hr_lastWasDot :: bool
  hr_lastDotPos :: int
  hr_nDots :: nat

text \<open>The loop at index \<open>i\<close>; the last argument is what is left of \<open>remaining\<close>.\<close>

fun hostLoop :: "string \<Rightarrow> nat \<Rightarrow> bool \<Rightarrow> int \<Rightarrow> nat \<Rightarrow> string \<Rightarrow> host_result option" where
  "hostLoop remaining i lastWasDot lastDotPos nDots [] =
     Some \<lparr>hr_host = remaining, hr_rest = '''', hr_lastWasDot = lastWasDot, hr_lastDotPos = lastDotPos, hr_nDots = nDots\<rparr>"
| "hostLoop remaining i lastWasDot lastDotPos nDots (c # cs) =
     (if c = CHR ''.'' \<and> lastWasDot then None
      else let lastDotPos' = (if c = CHR ''.'' then int i else lastDotPos);
               lastWasDot' = (c = CHR ''.'');
               nDots' = (if c = CHR ''.'' then nDots + 1 else nDots);
               stop = Some \<lparr>hr_host = mid remaining 0 i, hr_rest = midFrom remaining i,
                            hr_lastWasDot = lastWasDot', hr_lastDotPos = lastDotPos', hr_nDots = nDots'\<rparr>
           in if c = CHR '':'' then (if \<not> startsWithPort (midFrom remaining (i + 1)) then None else stop)
              else if isPathStart c then stop
              else if \<not> isValidDomainChar c then None
              else hostLoop remaining (i + 1) lastWasDot' lastDotPos' nDots' cs)"

text \<open>The scan for parentheses from the start of \<open>rest\<close> to the end of the source: the position after
  the last closing one.\<close>

fun closeScan :: "nat \<Rightarrow> nat \<Rightarrow> nat \<Rightarrow> string \<Rightarrow> nat" where
  "closeScan i nestingLevel lastClose [] = lastClose"
| "closeScan i nestingLevel lastClose (c # cs) =
     (if c = CHR ''('' then closeScan (i + 1) (nestingLevel + 1) lastClose cs
      else if nestingLevel \<noteq> 0 \<and> c = CHR '')'' then
        closeScan (i + 1) (nestingLevel - 1) (if nestingLevel - 1 = 0 then i + 1 else lastClose) cs
      else closeScan (i + 1) nestingLevel lastClose cs)"

definition parseLink :: "(string \<Rightarrow> bool) \<Rightarrow> string \<Rightarrow> parsed_link option" where
  "parseLink isValidTld source =
     (let link = strip source;
          offset = length source - length (stripStart source);
          suff = midFrom source (offset + length link);
          (protocol, remaining) = splitProtocol link
      in case hostLoop remaining 0 True (-1) 0 remaining of
           None \<Rightarrow> None
         | Some r \<Rightarrow>
            (if hr_lastWasDot r \<or> hr_lastDotPos r \<le> 0 then None
             else if (hr_nDots r = 3 \<and> isValidIpv4 (hr_host r)) \<or> isValidTld (midFrom (hr_host r) (nat (hr_lastDotPos r + 1)))
             then (let rest = hr_rest r;
                       lastClose = (if suff \<noteq> '''' \<and> rest \<noteq> '''' then closeScan 0 0 (length rest) (rest @ suff)
                                    else length rest);
                       extra = take (max (length rest) lastClose - length rest) suff
                   in Some \<lparr>p_protocol = protocol, p_host = hr_host r, p_rest = rest @ extra,
                            p_link = link @ extra, p_offset = offset\<rparr>)
             else None))"

definition pl_hasPrefix :: "parsed_link \<Rightarrow> string \<Rightarrow> bool" where
  "pl_hasPrefix p source \<longleftrightarrow> p_offset p \<noteq> 0"

definition pl_prefix :: "parsed_link \<Rightarrow> string \<Rightarrow> string" where
  "pl_prefix p source = take (p_offset p) source"

definition pl_hasSuffix :: "parsed_link \<Rightarrow> string \<Rightarrow> bool" where
  "pl_hasSuffix p source \<longleftrightarrow> p_offset p + length (p_link p) \<noteq> length source"

definition pl_suffix :: "parsed_link \<Rightarrow> string \<Rightarrow> string" where
  "pl_suffix p source = drop (p_offset p + length (p_link p)) source"

section \<open>Stripping splits the source\<close>

lemma stripStart_dropWhile: "stripStart s = dropWhile ignoredStart s"
  by (induction s) auto

lemma stripEnd_dropWhile: "stripEnd s = rev (dropWhile ignoredEnd (rev s))"
proof (induction s rule: stripEnd.induct)
  case (1 s)
  show ?case
  proof (cases s rule: rev_cases)
    case (snoc t c)
    then show ?thesis using 1 by (subst stripEnd.simps) (auto simp: chop_def)
  qed (simp add: stripEnd.simps)
qed

lemma strip_split:
  obtains pre suff where "source = pre @ strip source @ suff" and "list_all ignoredStart pre"
    and "list_all ignoredEnd suff" and "length pre = length source - length (stripStart source)"
proof -
  let ?pre = "takeWhile ignoredStart source" and ?m = "stripStart source"
  let ?suff = "rev (takeWhile ignoredEnd (rev ?m))"
  have m: "?m = strip source @ ?suff"
    unfolding strip_def stripEnd_dropWhile by (metis rev_append rev_rev_ident takeWhile_dropWhile_id)
  have s: "source = ?pre @ ?m" by (simp add: stripStart_dropWhile)
  show thesis
  proof (rule that[of ?pre ?suff])
    show "source = ?pre @ strip source @ ?suff" using s m by metis
    show "list_all ignoredStart ?pre" by (auto simp: list_all_iff dest: set_takeWhileD)
    show "list_all ignoredEnd ?suff" by (auto simp: list_all_iff dest: set_takeWhileD)
    show "length ?pre = length source - length ?m" by (subst (2) s) simp
  qed
qed


section \<open>Dotted quads\<close>

fun splitDots :: "string \<Rightarrow> string list" where
  "splitDots [] = [[]]"
| "splitDots (c # cs) = (if c = CHR ''.'' then [] # splitDots cs
     else (c # hd (splitDots cs)) # tl (splitDots cs))"

definition isOctet :: "string \<Rightarrow> bool" where
  "isOctet s \<longleftrightarrow> s \<noteq> [] \<and> list_all isDigit s \<and> length s \<le> 3 \<and> digitsVal s < 256"

lemma splitDots_ne [simp]: "splitDots s \<noteq> []"
  by (cases s) auto

lemma digitsVal_snoc: "digitsVal (ds @ [c]) = digitsVal ds * 10 + digitVal c"
  by (simp add: digitsVal_def)

lemma digitsVal_mono: "digitsVal ds \<le> digitsVal (ds @ es)"
proof (induction es rule: rev_induct)
  case (snoc c es)
  then show ?case using digitsVal_snoc[of "ds @ es" c] by simp
qed simp

lemma digit_range: "(code c > code CHR ''9'' \<or> code c < code CHR ''0'') \<longleftrightarrow> \<not> isDigit c"
  by (auto simp: isDigit_def code_def)

lemma digitVal_code: "code c - code CHR ''0'' = digitVal c"
  by (simp add: digitVal_def code_def)

lemma dot_not_digit: "\<not> isDigit CHR ''.''"
  by (simp add: isDigit_def code_def)

lemma ipv4Loop_octets:
  "list_all isDigit ds \<Longrightarrow> length ds \<le> 3 \<Longrightarrow> digitsVal ds < 256 \<Longrightarrow> n \<le> 3 \<Longrightarrow>
     ipv4Loop s (digitsVal ds) n (length ds) (ds = []) \<longleftrightarrow>
       length (splitDots s) = 4 - n \<and> isOctet (ds @ hd (splitDots s)) \<and> list_all isOctet (tl (splitDots s))"
proof (induction s arbitrary: ds n)
  case Nil
  then show ?case by (auto simp: isOctet_def)
next
  case (Cons c cs)
  consider "c = CHR ''.''" | "c \<noteq> CHR ''.''" "isDigit c" | "c \<noteq> CHR ''.''" "\<not> isDigit c" by blast
  then show ?case
  proof cases
    case 1
    show ?thesis
    proof (cases "ds = [] \<or> n = 3")
      case True
      then show ?thesis using 1 by (cases "splitDots cs") (auto simp: isOctet_def)
    next
      case False
      have all: "list_all isOctet (splitDots cs) \<longleftrightarrow> isOctet (hd (splitDots cs)) \<and> list_all isOctet (tl (splitDots cs))"
        by (cases "splitDots cs") simp_all
      have ih: "ipv4Loop cs 0 (n + 1) 0 True \<longleftrightarrow> length (splitDots cs) = 4 - (n + 1) \<and> list_all isOctet (splitDots cs)"
        using Cons.IH[of "[]" "n + 1"] Cons.prems(4) False all by (simp add: digitsVal_def)
      have oct: "isOctet ds" using Cons.prems False by (simp add: isOctet_def)
      have "ipv4Loop (c # cs) (digitsVal ds) n (length ds) (ds = []) = ipv4Loop cs 0 (n + 1) 0 True"
        using 1 False by simp
      moreover have "(length (splitDots (c # cs)) = 4 - n \<and> isOctet (ds @ hd (splitDots (c # cs)))
          \<and> list_all isOctet (tl (splitDots (c # cs))))
          \<longleftrightarrow> length (splitDots cs) = 4 - (n + 1) \<and> list_all isOctet (splitDots cs)"
        using 1 oct False Cons.prems(4) by auto
      ultimately show ?thesis using ih by blast
    qed
  next
    case 2
    let ?ds = "ds @ [c]"
    have ipv4: "ipv4Loop (c # cs) (digitsVal ds) n (length ds) (ds = []) \<longleftrightarrow>
        (if digitsVal ?ds \<ge> 256 \<or> length ?ds > 3 then False else ipv4Loop cs (digitsVal ?ds) n (length ?ds) (?ds = []))"
      using 2 digit_range[of c] by (simp add: Let_def digitsVal_snoc digitVal_code)
    show ?thesis
    proof (cases "digitsVal ?ds \<ge> 256 \<or> length ?ds > 3")
      case True
      then have "\<not> isOctet (?ds @ hd (splitDots cs))"
        using digitsVal_mono[of ?ds "hd (splitDots cs)"] by (auto simp: isOctet_def)
      then show ?thesis using True 2 unfolding ipv4 by simp
    next
      case False
      then show ?thesis
        using Cons.IH[of ?ds n] Cons.prems 2 unfolding ipv4 by (simp add: not_le)
    qed
  next
    case 3
    have "\<not> ipv4Loop (c # cs) (digitsVal ds) n (length ds) (ds = [])"
      using 3 digit_range[of c] by simp
    moreover have "\<not> isOctet (ds @ hd (splitDots (c # cs)))" using 3 by (simp add: isOctet_def)
    ultimately show ?thesis by blast
  qed
qed

section \<open>The segments of a link\<close>

lemma splitProtocol_append: "splitProtocol link = (protocol, remaining) \<Longrightarrow> protocol @ remaining = link"
proof (cases "map lowerAscii (take 4 link) = ''http'' \<and> length link \<ge> 8")
  case True
  assume a: "splitProtocol link = (protocol, remaining)"
  have "take (length link - length (drop n link)) link @ drop n link = link" for n
    by (cases "n \<le> length link") simp_all
  then show ?thesis using a True
    by (auto simp: splitProtocol_def midFrom_def Let_def split: if_splits)
qed (auto simp: splitProtocol_def)

lemma splitProtocol_form:
  assumes "splitProtocol link = (protocol, remaining)"
  shows "protocol = '''' \<or> map lowerAscii protocol \<in> {''http://'', ''https://''}"
proof (rule ccontr)
  assume no: "\<not> ?thesis"
  define w where "w = drop 4 link"
  have len: "length link \<ge> 8" and four: "map lowerAscii (take 4 link) = ''http''"
    using assms no by (auto simp: splitProtocol_def split: if_splits)
  define k where "k = (if w ! 0 = CHR ''s'' \<or> w ! 0 = CHR ''S'' then 1 else 0 :: nat)"
  have sw: "startsWith (drop k w) ''://''" "protocol = take (length link - length (drop 3 (drop k w))) link"
    using assms no len four
    by (auto simp: splitProtocol_def midFrom_def Let_def k_def w_def split: if_splits)
  then obtain t where t: "drop k w = ''://'' @ t"
    by (metis append_take_drop_id startsWith_def)
  have w: "w = take k w @ ''://'' @ t" using t by (metis append_take_drop_id)
  define X where "X = take 4 link @ take k w @ ''://''"
  have link: "link = X @ t" unfolding X_def using w by (metis append.assoc append_take_drop_id w_def)
  have "drop 3 (drop k w) = t" unfolding t by simp
  then have "protocol = take (length link - length t) link" using sw(2) by simp
  also have "\<dots> = X" by (simp only: link) simp
  finally have p: "protocol = X" .
  have "take k w = [] \<or> take k w = ''s'' \<or> take k w = ''S''"
    by (cases w) (auto simp: k_def)
  moreover have "lowerAscii CHR ''S'' = CHR ''s''" "lowerAscii CHR ''s'' = CHR ''s''"
    by (simp_all add: lowerAscii_def code_def char_of_def bit_0)
  ultimately have "map lowerAscii (take k w) \<in> {'''', ''s''}" by auto
  moreover have "map lowerAscii ''://'' = ''://''" by (simp add: lowerAscii_def code_def)
  moreover have "map lowerAscii protocol = map lowerAscii (take 4 link) @ map lowerAscii (take k w) @ map lowerAscii ''://''"
    unfolding p X_def by (simp only: map_append)
  ultimately show False using no four by auto
qed


lemma hostLoop_result:
  assumes "hostLoop remaining i dot pos nd cs = Some r" and "drop i remaining = cs" and "pos < int i" and "0 \<le> int i"
    and "i \<le> length remaining" and "list_all isValidDomainChar (take i remaining)"
  shows "hr_host r @ hr_rest r = remaining \<and> list_all isValidDomainChar (hr_host r)
     \<and> hr_lastDotPos r < int (length (hr_host r))
     \<and> (hr_rest r = '''' \<or> isPathStart (hd (hr_rest r))
        \<or> (hd (hr_rest r) = CHR '':'' \<and> startsWithPort (tl (hr_rest r))))"
  using assms
proof (induction cs arbitrary: i dot pos nd)
  case Nil
  then show ?case by auto
next
  case (Cons c cs)
  have i: "i < length remaining" using Cons.prems(2) by (metis drop_all list.distinct(1) not_le)
  have c: "remaining ! i = c" "drop (Suc i) remaining = cs"
    using Cons.prems(2) i by (metis Cons_nth_drop_Suc list.inject)+
  have dom: "list_all isValidDomainChar (take (Suc i) remaining)" if "isValidDomainChar c"
    using that Cons.prems(6) c(1) i by (simp add: take_Suc_conv_app_nth)
  show ?case
  proof (cases "c = CHR '':'' \<or> isPathStart c")
    case True
    then have "c \<noteq> CHR ''.''" by (auto simp: isPathStart_def)
    moreover have "take i remaining @ c # cs = remaining" using Cons.prems(2) by (metis append_take_drop_id)
    ultimately show ?thesis
      using True Cons.prems i c by (auto simp: mid_def midFrom_def Let_def split: if_splits)
  next
    case False
    show ?thesis
    proof (cases "c = CHR ''.''")
      case True
      then show ?thesis
        using False Cons.prems c i dom Cons.IH[of "i + 1" True "int i" "nd + 1"] by (auto simp: Let_def split: if_splits)
    next
      case no: False
      then show ?thesis
        using False Cons.prems c i dom Cons.IH[of "i + 1" False pos nd] by (auto simp: Let_def split: if_splits)
    qed
  qed
qed

lemma closeScan_bound: "lc \<le> i + length s \<Longrightarrow> closeScan i n lc s \<le> i + length s"
proof (induction s arbitrary: i n lc)
  case (Cons c s)
  have le: "lc \<le> (i + 1) + length s" "i + 1 \<le> (i + 1) + length s" using Cons.prems by simp_all
  show ?case using Cons.IH[OF le(1)] Cons.IH[OF le(2)] by simp
qed simp

lemma closeScan_no_open: "\<forall>c \<in> set s. c \<noteq> CHR ''('' \<Longrightarrow> closeScan i 0 lc s = lc"
  by (induction s arbitrary: i) auto


lemma hostLoop_dot:
  assumes "hostLoop remaining i dot pos nd cs = Some r" and "drop i remaining = cs" and "i \<le> length remaining"
    and "0 \<le> pos \<longrightarrow> (\<exists>a t. take i remaining = a @ CHR ''.'' # t \<and> length a = nat pos \<and> CHR ''.'' \<notin> set t)"
  shows "0 \<le> hr_lastDotPos r \<longrightarrow>
     (\<exists>a t. hr_host r = a @ CHR ''.'' # t \<and> length a = nat (hr_lastDotPos r) \<and> CHR ''.'' \<notin> set t)"
  using assms
proof (induction cs arbitrary: i dot pos nd)
  case Nil
  have t: "take i remaining = remaining" using Nil.prems(2,3) by simp
  have r: "hr_host r = remaining" "hr_lastDotPos r = pos" using Nil.prems(1) by auto
  show ?case using Nil.prems(4) unfolding t r .
next
  case (Cons c cs)
  have i: "i < length remaining" using Cons.prems(2) by (metis drop_all list.distinct(1) not_le)
  have c: "remaining ! i = c" "drop (Suc i) remaining = cs"
    using Cons.prems(2) i by (metis Cons_nth_drop_Suc list.inject)+
  have take: "take (Suc i) remaining = take i remaining @ [c]" using c(1) i by (simp add: take_Suc_conv_app_nth)
  show ?case
  proof (cases "c = CHR ''.''")
    case True
    then have "\<not> isPathStart c" "c \<noteq> CHR '':''" by (simp_all add: isPathStart_def)
    then have "hostLoop remaining (i + 1) True (int i) (nd + 1) cs = Some r"
      using Cons.prems(1) True by (auto simp: Let_def split: if_splits)
    moreover have "\<exists>a t. take (i + 1) remaining = a @ CHR ''.'' # t \<and> length a = nat (int i) \<and> CHR ''.'' \<notin> set t"
      using take True i by (intro exI[of _ "take i remaining"] exI[of _ "[]"]) simp
    ultimately show ?thesis using Cons.IH[of "i + 1" True "int i" "nd + 1"] c i by simp
  next
    case False
    have ex: "0 \<le> pos \<longrightarrow> (\<exists>a t. take (Suc i) remaining = a @ CHR ''.'' # t \<and> length a = nat pos \<and> CHR ''.'' \<notin> set t)"
    proof
      assume "0 \<le> pos"
      then obtain a t where "take i remaining = a @ CHR ''.'' # t" "length a = nat pos" "CHR ''.'' \<notin> set t"
        using Cons.prems(4) by blast
      then show "\<exists>a t. take (Suc i) remaining = a @ CHR ''.'' # t \<and> length a = nat pos \<and> CHR ''.'' \<notin> set t"
        using False unfolding take by (intro exI[of _ a] exI[of _ "t @ [c]"]) simp
    qed
    show ?thesis
    proof (cases "c = CHR '':'' \<or> isPathStart c")
      case True
      then have r: "hr_host r = take i remaining" "hr_lastDotPos r = pos"
        using Cons.prems(1) False by (auto simp: mid_def Let_def split: if_splits)
      show ?thesis using Cons.prems(4) unfolding r .
    next
      case no: False
      then have "hostLoop remaining (i + 1) False pos nd cs = Some r"
        using Cons.prems(1) False by (auto simp: Let_def split: if_splits)
      from Cons.IH[OF this] show ?thesis using c i ex by simp
    qed
  qed
qed

lemma parseLink_cases:
  assumes "parseLink tld source = Some p" and "source = pre @ strip source @ suff"
    and "length pre = length source - length (stripStart source)"
  obtains protocol remaining r extra where "splitProtocol (strip source) = (protocol, remaining)"
    and "hostLoop remaining 0 True (-1) 0 remaining = Some r" and "0 < hr_lastDotPos r"
    and "isValidIpv4 (hr_host r) \<or> tld (midFrom (hr_host r) (nat (hr_lastDotPos r + 1)))"
    and "extra = take (length extra) suff" and "hr_rest r = '''' \<longrightarrow> extra = ''''"
    and "p = \<lparr>p_protocol = protocol, p_host = hr_host r, p_rest = hr_rest r @ extra,
              p_link = strip source @ extra, p_offset = length pre\<rparr>"
proof -
  obtain protocol remaining where sp: "splitProtocol (strip source) = (protocol, remaining)" by fastforce
  have suff: "midFrom source (length pre + length (strip source)) = suff"
    unfolding midFrom_def by (subst assms(2)) simp
  obtain r where r: "hostLoop remaining 0 True (-1) 0 remaining = Some r"
    using assms(1) sp unfolding parseLink_def Let_def by (auto split: option.splits)
  define rest where "rest = hr_rest r"
  define lastClose where "lastClose = (if suff \<noteq> '''' \<and> rest \<noteq> '''' then closeScan 0 0 (length rest) (rest @ suff)
                                    else length rest)"
  define extra where "extra = take (max (length rest) lastClose - length rest) suff"
  have "\<not> (hr_lastWasDot r \<or> hr_lastDotPos r \<le> 0)"
      "(hr_nDots r = 3 \<and> isValidIpv4 (hr_host r)) \<or> tld (midFrom (hr_host r) (nat (hr_lastDotPos r + 1)))"
      "p = \<lparr>p_protocol = protocol, p_host = hr_host r, p_rest = hr_rest r @ extra,
              p_link = strip source @ extra, p_offset = length pre\<rparr>"
    using assms(1) sp r suff unfolding parseLink_def Let_def assms(3)[symmetric] extra_def lastClose_def rest_def
    by (auto split: if_splits)
  moreover have "extra = take (length extra) suff" by (simp add: extra_def min_def)
  moreover have "extra = ''''" if "hr_rest r = ''''" using that by (simp add: extra_def lastClose_def rest_def)
  ultimately show thesis using that sp r by auto
qed


lemma parseLink_segments:
  assumes "parseLink tld source = Some p"
  shows "p_protocol p @ p_host p @ p_rest p = p_link p
     \<and> pl_prefix p source @ p_link p @ pl_suffix p source = source
     \<and> list_all ignoredStart (pl_prefix p source) \<and> list_all ignoredEnd (pl_suffix p source)
     \<and> (p_protocol p = '''' \<or> map lowerAscii (p_protocol p) \<in> {''http://'', ''https://''})
     \<and> list_all isValidDomainChar (p_host p)
     \<and> (p_rest p = '''' \<or> isPathStart (hd (p_rest p)) \<or> hd (p_rest p) = CHR '':'')
     \<and> (\<exists>a t. p_host p = a @ CHR ''.'' # t \<and> a \<noteq> '''' \<and> CHR ''.'' \<notin> set t \<and> (isValidIpv4 (p_host p) \<or> tld t))"
proof -
  obtain pre suff where s: "source = pre @ strip source @ suff" "list_all ignoredStart pre"
      "list_all ignoredEnd suff" "length pre = length source - length (stripStart source)"
    by (rule strip_split)
  obtain protocol remaining r extra where c: "splitProtocol (strip source) = (protocol, remaining)"
      "hostLoop remaining 0 True (-1) 0 remaining = Some r" "0 < hr_lastDotPos r"
      "isValidIpv4 (hr_host r) \<or> tld (midFrom (hr_host r) (nat (hr_lastDotPos r + 1)))"
      "extra = take (length extra) suff" "hr_rest r = '''' \<longrightarrow> extra = ''''"
      "p = \<lparr>p_protocol = protocol, p_host = hr_host r, p_rest = hr_rest r @ extra,
              p_link = strip source @ extra, p_offset = length pre\<rparr>"
    using parseLink_cases[OF assms s(1,4)] by metis
  have h: "hr_host r @ hr_rest r = remaining" "list_all isValidDomainChar (hr_host r)"
      "hr_rest r = '''' \<or> isPathStart (hd (hr_rest r)) \<or> hd (hr_rest r) = CHR '':''"
    using hostLoop_result[OF c(2)] by auto
  obtain a t where dot: "hr_host r = a @ CHR ''.'' # t" "length a = nat (hr_lastDotPos r)" "CHR ''.'' \<notin> set t"
    using hostLoop_dot[OF c(2)] c(3) by auto
  have tld: "midFrom (hr_host r) (nat (hr_lastDotPos r + 1)) = t"
    using c(3) dot by (simp add: midFrom_def nat_add_distrib)
  define suff' where "suff' = drop (length extra) suff"
  have suff: "suff = extra @ suff'" using c(5) by (metis append_take_drop_id suff'_def)
  have src: "source = pre @ (strip source @ extra) @ suff'" using s(1) suff by simp
  have pieces: "pl_prefix p source = pre" "pl_suffix p source = suff'"
  proof -
    define L where "L = strip source @ extra"
    have s: "source = pre @ L @ suff'" using src by (simp add: L_def)
    have f: "p_offset p = length pre" "p_link p = L" by (simp_all add: c(7) L_def)
    show "pl_prefix p source = pre" unfolding pl_prefix_def f s by simp
    show "pl_suffix p source = suff'" unfolding pl_suffix_def f s by simp
  qed
  have whole: "strip source = protocol @ hr_host r @ hr_rest r"
    using splitProtocol_append[OF c(1)] h(1) by simp
  have p1: "protocol @ hr_host r @ hr_rest r @ extra = strip source @ extra" by (simp only: whole append.assoc)
  have p2: "list_all ignoredEnd suff'" using s(3) suff by simp
  have p3: "a \<noteq> ''''" using dot(2) c(3) by auto
  have p4: "hr_rest r @ extra = '''' \<or> isPathStart (hd (hr_rest r @ extra)) \<or> hd (hr_rest r @ extra) = CHR '':''"
    using h(3) c(6) by (cases "hr_rest r") auto
  have fields: "p_protocol p = protocol" "p_host p = hr_host r" "p_rest p = hr_rest r @ extra"
      "p_link p = strip source @ extra"
    by (simp_all add: c(7))
  have host: "isValidIpv4 (hr_host r) \<or> tld t" using c(4) unfolding tld .
  have "\<exists>a t. hr_host r = a @ CHR ''.'' # t \<and> a \<noteq> '''' \<and> CHR ''.'' \<notin> set t \<and> (isValidIpv4 (hr_host r) \<or> tld t)"
    using dot(1,3) p3 host by blast
  then show ?thesis
    unfolding fields pieces by (intro conjI p1 s(2) p2 src[symmetric] splitProtocol_form[OF c(1)] h(2) p4)
qed

text \<open>Ignored characters around a link.\<close>

lemma strip_affixes:
  assumes "list_all ignoredStart pre" and "list_all ignoredEnd suff" and "l \<noteq> ''''"
    and "\<not> ignoredStart (hd l)" and "\<not> ignoredEnd (last l)"
  shows "strip (pre @ l @ suff) = l \<and> length (pre @ l @ suff) - length (stripStart (pre @ l @ suff)) = length pre"
proof -
  have "dropWhile ignoredStart (pre @ l @ suff) = dropWhile ignoredStart (l @ suff)"
    using assms(1) by (intro dropWhile_append2) (simp add: list_all_iff)
  also have "\<dots> = l @ suff" using assms(3,4) by (cases l) simp_all
  finally have "dropWhile ignoredStart (pre @ l @ suff) = l @ suff" .
  then have start: "stripStart (pre @ l @ suff) = l @ suff" by (simp add: stripStart_dropWhile)
  have "dropWhile ignoredEnd (rev suff @ rev l) = dropWhile ignoredEnd (rev l)"
    using assms(2) by (intro dropWhile_append2) (simp add: list_all_iff)
  also have "\<dots> = rev l" using assms(3,5) by (cases l rule: rev_cases) simp_all
  finally have "dropWhile ignoredEnd (rev suff @ rev l) = rev l" .
  then have "stripEnd (l @ suff) = l" by (simp add: stripEnd_dropWhile)
  with start show ?thesis by (simp add: strip_def)
qed

lemma ignoredEnd_not_open: "list_all ignoredEnd s \<Longrightarrow> \<forall>c \<in> set s. c \<noteq> CHR ''(''"
proof -
  assume s: "list_all ignoredEnd s"
  have "\<not> ignoredEnd CHR ''(''" by (simp add: ignoredEnd_def)
  with s show ?thesis by (auto simp: list_all_iff)
qed

lemma parseLink_affixes:
  assumes pre: "list_all ignoredStart pre" and suff: "list_all ignoredEnd suff" and l: "l \<noteq> ''''"
    and ends: "\<not> ignoredStart (hd l)" "\<not> ignoredEnd (last l)" and parsed: "parseLink tld l = Some p"
    and no_open: "CHR ''('' \<notin> set (p_rest p)"
  shows "parseLink tld (pre @ l @ suff) = Some (p\<lparr>p_offset := length pre\<rparr>)"
proof -
  note st = strip_affixes[OF pre suff l ends]
  note st0 = strip_affixes[of "''''" "''''", OF _ _ l ends, simplified]
  obtain protocol remaining where sp: "splitProtocol l = (protocol, remaining)" by fastforce
  have suff': "midFrom (pre @ l @ suff) (length pre + length l) = suff" "midFrom l (length l) = ''''"
    by (simp_all add: midFrom_def)
  obtain r where r: "hostLoop remaining 0 True (-1) 0 remaining = Some r"
    using parsed st0 sp unfolding parseLink_def Let_def by (auto split: option.splits)
  have ok: "\<not> (hr_lastWasDot r \<or> hr_lastDotPos r \<le> 0)"
      "(hr_nDots r = 3 \<and> isValidIpv4 (hr_host r)) \<or> tld (midFrom (hr_host r) (nat (hr_lastDotPos r + 1)))"
      "p = \<lparr>p_protocol = protocol, p_host = hr_host r, p_rest = hr_rest r, p_link = l, p_offset = 0\<rparr>"
    using parsed st0 sp r suff' unfolding parseLink_def Let_def by (auto split: if_splits)
  have "closeScan 0 0 (length (hr_rest r)) (hr_rest r @ suff) = length (hr_rest r)"
    using no_open ignoredEnd_not_open[OF suff] ok(3) by (intro closeScan_no_open) auto
  then show ?thesis
    using ok st sp r suff' unfolding parseLink_def Let_def by auto
qed


section \<open>Properties\<close>

text \<open>The one-pass check of IPv4 addresses accepts exactly the texts that dots split into four
  octets, each of one to three digits with a value below 256.\<close>

theorem ipv4_is_dotted_quad:
  "isValidIpv4 host \<longleftrightarrow> length (splitDots host) = 4 \<and> (\<forall>s \<in> set (splitDots host). isOctet s)"
proof -
  have "list_all isOctet (splitDots host) \<longleftrightarrow> isOctet (hd (splitDots host)) \<and> list_all isOctet (tl (splitDots host))"
    by (cases "splitDots host") simp_all
  then show ?thesis
    using ipv4Loop_octets[of "[]" 0 host] by (simp add: isValidIpv4_def digitsVal_def list_all_iff)
qed

theorem ipv4_is_dotted_quad_witness: "isValidIpv4 ''127.0.0.1'' \<and> \<not> isValidIpv4 ''1.2.3.256''"
  unfolding ipv4_is_dotted_quad by (simp add: isOctet_def digitsVal_def digitVal_def isDigit_def code_def)

text \<open>C34. A parsed link is a part of the source: protocol, host and rest make up the link, and the
  prefix and suffix around it are ignored characters only.  The protocol is empty or
  \<open>http(s)://\<close> in any case, the host has only domain characters, a dot that is not its first
  character, and is an IPv4 address or ends in a known top level domain after its last dot, and the
  rest is empty or starts with a colon, slash, question mark or hash.\<close>

theorem link_segments:
  assumes "parseLink isTld source = Some p"
  shows "p_protocol p @ p_host p @ p_rest p = p_link p
     \<and> pl_prefix p source @ p_link p @ pl_suffix p source = source
     \<and> list_all ignoredStart (pl_prefix p source) \<and> list_all ignoredEnd (pl_suffix p source)
     \<and> (p_protocol p = '''' \<or> map lowerAscii (p_protocol p) \<in> {''http://'', ''https://''})
     \<and> list_all isValidDomainChar (p_host p)
     \<and> (p_rest p = '''' \<or> isPathStart (hd (p_rest p)) \<or> hd (p_rest p) = CHR '':'')
     \<and> (\<exists>a t. p_host p = a @ CHR ''.'' # t \<and> a \<noteq> '''' \<and> CHR ''.'' \<notin> set t \<and> (isValidIpv4 (p_host p) \<or> isTld t))"
  using assms by (rule parseLink_segments)

definition io_tld :: "string \<Rightarrow> bool" where
  "io_tld t \<longleftrightarrow> map lowerAscii t = ''io''"

lemma sample_links:
  "parseLink io_tld ''(http://a.io/b)'' =
     Some \<lparr>p_protocol = ''http://'', p_host = ''a.io'', p_rest = ''/b'', p_link = ''http://a.io/b'', p_offset = 1\<rparr>"
  "parseLink io_tld ''a.io/b'' =
     Some \<lparr>p_protocol = '''', p_host = ''a.io'', p_rest = ''/b'', p_link = ''a.io/b'', p_offset = 0\<rparr>"
  "parseLink io_tld ''a.io:12345x'' =
     Some \<lparr>p_protocol = '''', p_host = ''a.io'', p_rest = '':12345x'', p_link = ''a.io:12345x'', p_offset = 0\<rparr>"
  "parseLink io_tld ''(a.io/(b))'' =
     Some \<lparr>p_protocol = '''', p_host = ''a.io'', p_rest = ''/(b)'', p_link = ''a.io/(b)'', p_offset = 1\<rparr>"
  by code_simp+

theorem link_segments_witness: "list_all ignoredEnd (pl_suffix
    \<lparr>p_protocol = ''http://'', p_host = ''a.io'', p_rest = ''/b'', p_link = ''http://a.io/b'', p_offset = 1\<rparr> ''(http://a.io/b)'')"
  using link_segments[OF sample_links(1)] by blast

text \<open>Ignored characters around a link do not matter: a link that neither starts nor ends with
  ignored characters and has no opening parenthesis in its rest is parsed to the same segments with
  any ignored characters before and after it, shifted by what stands before it.\<close>

theorem affixes_are_ignored:
  assumes "list_all ignoredStart pre" and "list_all ignoredEnd suff" and "l \<noteq> ''''"
    and "\<not> ignoredStart (hd l)" and "\<not> ignoredEnd (last l)" and "parseLink isTld l = Some p"
    and "CHR ''('' \<notin> set (p_rest p)"
  shows "parseLink isTld (pre @ l @ suff) = Some (p\<lparr>p_offset := length pre\<rparr>)"
  using assms by (rule parseLink_affixes)

theorem affixes_are_ignored_witness:
  "parseLink io_tld (''<_('' @ ''a.io/b'' @ '').,'') =
     Some \<lparr>p_protocol = '''', p_host = ''a.io'', p_rest = ''/b'', p_link = ''a.io/b'', p_offset = 3\<rparr>"
  using affixes_are_ignored[OF _ _ _ _ _ sample_links(2), of "''<_(''" "'').,''"]
  by (simp add: ignoredStart_def ignoredEnd_def)

text \<open>A port of five digits may be followed by anything: the text after the fifth digit is part of
  the link although it starts no path, query or fragment.\<close>

theorem port_then_garbage_is_link:
  "parseLink io_tld ''a.io:12345x'' =
     Some \<lparr>p_protocol = '''', p_host = ''a.io'', p_rest = '':12345x'', p_link = ''a.io:12345x'', p_offset = 0\<rparr>
   \<and> parseLink io_tld ''a.io:1234x'' = None"
  using sample_links(3) by (intro conjI, simp) code_simp

end
