(* ===== verification/PubSub.thy ===== *)
theory PubSub
  imports Prelude
begin

text \<open>
  The pool of live-update connections: \<open>BasicPubSubManager\<close> with its \<open>BasicPubSubClient\<close>s
  (\<open>src/providers/liveupdates\<close>) and \<open>ExponentialBackoff\<close>
  (\<open>src/util/ExponentialBackoff.hpp\<close>).

  The manager is a state; every call of the GUI thread (subscribe, unsubscribe, a connection that
  opens or closes, a retry timer that fires, stop) is a function on it.  What is sent over the
  sockets, the sockets that are created and the delays of the retries are logged in order.  The
  hash containers are lists whose iteration order is an argument: \<open>clientOrder\<close> and \<open>subOrder\<close> give
  the order in which the entries are visited.
\<close>

section \<open>Backoff\<close>

text \<open>\<open>next()\<close>: the delay and the new step; \<open>reset()\<close> sets the step to one.\<close>

definition eb_next :: "nat \<Rightarrow> int \<Rightarrow> nat \<Rightarrow> int \<times> nat" where
  "eb_next maxSteps start step =
     (let d = start * 2 ^ (step - 1); step' = step + 1
      in (d, if step' \<ge> maxSteps then maxSteps else step'))"

definition eb_reset :: nat where
  "eb_reset = 1"

section \<open>State\<close>

record 's client =
  maxSubscriptions :: nat
  subscriptions :: "'s list"
  cl_open :: bool

datatype 's pubsub_event =
    SentSubscribe nat 's
  | SentUnsubscribe nat 's
  | SocketCreated nat
  | RetryAfter int

record 's manager =
  pendingSubscriptions :: "'s list"
  connectBackoff :: nat
  has_pool :: bool
  clients :: "(nat \<times> 's client) list"
  nextId :: nat
  stopping :: bool
  addingClient :: bool
  retryTimers :: nat
  connectionsOpened :: "32 word"
  connectionsClosed :: "32 word"
  connectionsFailed :: "32 word"
  pubsub_log :: "'s pubsub_event list"

record 's hash_orders =
  clientOrder :: "(nat \<times> 's client) list \<Rightarrow> (nat \<times> 's client) list"
  subOrder :: "'s list \<Rightarrow> 's list"

datatype pubsub_error = NullClient

definition BasicPubSubManager :: "'s manager" where
  "BasicPubSubManager = \<lparr>pendingSubscriptions = [], connectBackoff = eb_reset, has_pool = True, clients = [],
     nextId = 0, stopping = False, addingClient = False, retryTimers = 0, connectionsOpened = 0,
     connectionsClosed = 0, connectionsFailed = 0, pubsub_log = []\<rparr>"

definition BasicPubSubClient :: "nat \<Rightarrow> 's client" where
  "BasicPubSubClient n = \<lparr>maxSubscriptions = n, subscriptions = [], cl_open = False\<rparr>"

definition logEvent :: "'s pubsub_event \<Rightarrow> 's manager \<Rightarrow> 's manager" where
  "logEvent e s = s\<lparr>pubsub_log := pubsub_log s @ [e]\<rparr>"

definition setClient :: "nat \<Rightarrow> 's client \<Rightarrow> 's manager \<Rightarrow> 's manager" where
  "setClient cid c s = s\<lparr>clients := map (\<lambda>(i, d). if i = cid then (i, c) else (i, d)) (clients s)\<rparr>"

section \<open>A client\<close>

text \<open>The returned flag, whether a subscription is sent, and the client.\<close>

definition client_subscribe :: "'s \<Rightarrow> 's client \<Rightarrow> bool \<times> bool \<times> 's client" where
  "client_subscribe x c =
     (if length (subscriptions c) \<ge> maxSubscriptions c then (False, False, c)
      else if x \<in> set (subscriptions c) then (True, False, c)
      else (True, True, c\<lparr>subscriptions := subscriptions c @ [x]\<rparr>))"

definition client_unsubscribe :: "'s \<Rightarrow> 's client \<Rightarrow> bool \<times> 's client" where
  "client_unsubscribe x c =
     (if x \<notin> set (subscriptions c) then (False, c)
      else (True, c\<lparr>subscriptions := remove1 x (subscriptions c)\<rparr>))"

definition client_onOpen :: "'s client \<Rightarrow> 's client" where
  "client_onOpen c = c\<lparr>cl_open := True\<rparr>"

section \<open>The manager\<close>

definition ps_stop :: "'s manager \<Rightarrow> 's manager" where
  "ps_stop s = (if stopping s then s else s\<lparr>stopping := True, has_pool := False\<rparr>)"

definition resolve :: "'s manager \<Rightarrow> nat \<Rightarrow> 's client option" where
  "resolve s cid = map_of (clients s) cid"

definition addClient :: "nat \<Rightarrow> 's manager \<Rightarrow> 's manager" where
  "addClient maxSubs s =
     (if addingClient s \<or> \<not> has_pool s then s
      else logEvent (SocketCreated (nextId s))
             (s\<lparr>addingClient := True, nextId := nextId s + 1,
                clients := clients s @ [(nextId s, BasicPubSubClient maxSubs)]\<rparr>))"

fun tryLoop :: "'s \<Rightarrow> (nat \<times> 's client) list \<Rightarrow> (nat \<times> bool \<times> 's client) option" where
  "tryLoop x [] = None"
| "tryLoop x ((cid, c) # rest) =
     (case client_subscribe x c of
        (True, sent, c') \<Rightarrow> Some (cid, sent, c')
      | (False, _, _) \<Rightarrow> tryLoop x rest)"

definition trySubscribe :: "'s hash_orders \<Rightarrow> 's \<Rightarrow> 's manager \<Rightarrow> bool \<times> 's manager" where
  "trySubscribe ord x s =
     (case tryLoop x (clientOrder ord (clients s)) of
        None \<Rightarrow> (False, s)
      | Some (cid, sent, c) \<Rightarrow>
          (True, if sent then logEvent (SentSubscribe cid x) (setClient cid c s) else setClient cid c s))"

definition ps_subscribe :: "'s hash_orders \<Rightarrow> nat \<Rightarrow> 's \<Rightarrow> 's manager \<Rightarrow> 's manager" where
  "ps_subscribe ord maxSubs x s =
     (case trySubscribe ord x s of
        (True, s') \<Rightarrow> s'
      | (False, s') \<Rightarrow>
          (let s1 = addClient maxSubs s' in s1\<lparr>pendingSubscriptions := pendingSubscriptions s1 @ [x]\<rparr>))"

fun unsubscribeLoop :: "'s \<Rightarrow> (nat \<times> 's client) list \<Rightarrow> (nat \<times> 's client) option" where
  "unsubscribeLoop x [] = None"
| "unsubscribeLoop x ((cid, c) # rest) =
     (case client_unsubscribe x c of (True, c') \<Rightarrow> Some (cid, c') | (False, _) \<Rightarrow> unsubscribeLoop x rest)"

definition ps_unsubscribe :: "'s hash_orders \<Rightarrow> 's \<Rightarrow> 's manager \<Rightarrow> 's manager" where
  "ps_unsubscribe ord x s =
     (case unsubscribeLoop x (clientOrder ord (clients s)) of
        None \<Rightarrow> s
      | Some (cid, c) \<Rightarrow> logEvent (SentUnsubscribe cid x) (setClient cid c s))"

text \<open>The loop of \<open>onConnectionOpen\<close>: pending subscriptions are taken from the back; what is sent is
  collected.\<close>

fun takeLoop :: "nat \<Rightarrow> 's list \<Rightarrow> 's client \<Rightarrow> 's list \<Rightarrow> 's list \<times> 's client \<times> 's list" where
  "takeLoop 0 pending c sent = (pending, c, sent)"
| "takeLoop (Suc n) pending c sent =
     (if pending = [] then (pending, c, sent)
      else (let x = last pending; pending' = butlast pending in
            case client_subscribe x c of
              (True, isSent, c') \<Rightarrow> takeLoop n pending' c' (if isSent then sent @ [x] else sent)
            | (False, _, _) \<Rightarrow> (pending' @ [x], c, sent)))"

definition onConnectionOpen :: "nat \<Rightarrow> nat \<Rightarrow> 's manager \<Rightarrow> pubsub_error + 's manager" where
  "onConnectionOpen maxSubs cid s0 =
     (let s1 = s0\<lparr>addingClient := False, connectionsOpened := connectionsOpened s0 + 1, connectBackoff := eb_reset\<rparr>
      in case resolve s1 cid of
           None \<Rightarrow> Inl NullClient
         | Some c \<Rightarrow>
            (let c1 = client_onOpen c;
                 n = min (length (pendingSubscriptions s1)) (maxSubscriptions c1);
                 (pending, c2, sent) = takeLoop n (pendingSubscriptions s1) c1 [];
                 s2 = (setClient cid c2 s1)\<lparr>pendingSubscriptions := pending\<rparr>;
                 s3 = s2\<lparr>pubsub_log := pubsub_log s2 @ map (SentSubscribe cid) sent\<rparr>
             in Inr (if pending \<noteq> [] then addClient maxSubs s3 else s3)))"

definition onConnectionClose :: "'s hash_orders \<Rightarrow> nat \<Rightarrow> nat \<Rightarrow> 's manager \<Rightarrow> 's manager" where
  "onConnectionClose ord maxSubs cid s0 =
     (let s1 = s0\<lparr>addingClient := False\<rparr> in
      case resolve s1 cid of
        None \<Rightarrow> s1
      | Some c \<Rightarrow>
         (let subs = subOrder ord (subscriptions c);
              wasOpen = cl_open c;
              s2 = (if wasOpen then s1\<lparr>connectionsClosed := connectionsClosed s1 + 1\<rparr>
                    else s1\<lparr>connectionsFailed := connectionsFailed s1 + 1\<rparr>);
              s3 = s2\<lparr>clients := filter (\<lambda>(i, _). i \<noteq> cid) (clients s2)\<rparr>
          in if stopping s3 then s3
             else if \<not> wasOpen then
               (let (delay, step) = eb_next 5 1000 (connectBackoff s3)
                in logEvent (RetryAfter delay)
                     (s3\<lparr>pendingSubscriptions := pendingSubscriptions s3 @ subs, connectBackoff := step,
                         retryTimers := retryTimers s3 + 1\<rparr>))
             else foldl (\<lambda>s x. ps_subscribe ord maxSubs x s) s3 subs))"

text \<open>A retry timer fires.\<close>

definition onRetryTimer :: "nat \<Rightarrow> 's manager \<Rightarrow> 's manager" where
  "onRetryTimer maxSubs s = addClient maxSubs (s\<lparr>retryTimers := retryTimers s - 1\<rparr>)"

section \<open>Steps\<close>

datatype 's call = Subscribe 's | Unsubscribe 's | Opened nat | Closed nat | RetryTimer | Stop

inductive ps_step :: "'s hash_orders \<Rightarrow> nat \<Rightarrow> 's manager \<Rightarrow> 's call \<Rightarrow> 's manager \<Rightarrow> bool" for ord maxSubs where
  subscribe: "ps_step ord maxSubs s (Subscribe x) (ps_subscribe ord maxSubs x s)"
| unsubscribe: "ps_step ord maxSubs s (Unsubscribe x) (ps_unsubscribe ord x s)"
| opened: "onConnectionOpen maxSubs cid s = Inr s' \<Longrightarrow> ps_step ord maxSubs s (Opened cid) s'"
| closed: "resolve s cid = Some c \<Longrightarrow> ps_step ord maxSubs s (Closed cid) (onConnectionClose ord maxSubs cid s)"
| retry: "0 < retryTimers s \<Longrightarrow> ps_step ord maxSubs s RetryTimer (onRetryTimer maxSubs s)"
| stop: "ps_step ord maxSubs s Stop (ps_stop s)"

inductive ps_run :: "'s hash_orders \<Rightarrow> nat \<Rightarrow> 's manager \<Rightarrow> 's call list \<Rightarrow> 's manager \<Rightarrow> bool" for ord maxSubs where
  start: "ps_run ord maxSubs s [] s"
| step: "ps_run ord maxSubs s cs t \<Longrightarrow> ps_step ord maxSubs t c u \<Longrightarrow> ps_run ord maxSubs s (cs @ [c]) u"

inductive_cases ps_stepE: "ps_step ord maxSubs s c s'"

end
