(* ===== verification/PubSubInvariants.thy ===== *)
theory PubSubInvariants
  imports PubSub
begin

text \<open>
  What the connection pool guarantees: the bound of every client, that no subscription is lost, that
  a pending subscription always has a connection attempt coming, and that the messages sent over
  each connection add up to the subscriptions the client keeps.
\<close>

section \<open>Iteration orders\<close>

locale hash_iteration =
  fixes ord :: "'s hash_orders"
  assumes client_order: "mset (clientOrder ord cs) = mset cs"
    and sub_order: "mset (subOrder ord xs) = mset xs"
begin

lemma set_client_order [simp]: "set (clientOrder ord cs) = set cs"
  using client_order[of cs] by (metis set_mset_mset)

lemma set_sub_order [simp]: "set (subOrder ord xs) = set xs"
  using sub_order[of xs] by (metis set_mset_mset)

end

definition insertion_order :: "'s hash_orders" where
  "insertion_order = \<lparr>clientOrder = (\<lambda>cs. cs), subOrder = (\<lambda>xs. xs)\<rparr>"

interpretation insertion_order: hash_iteration insertion_order
  by unfold_locales (simp_all add: insertion_order_def)

section \<open>The invariant\<close>

text \<open>What the server has been told over connection \<open>i\<close>.\<close>

fun viewStep :: "nat \<Rightarrow> 's set \<Rightarrow> 's pubsub_event \<Rightarrow> 's set" where
  "viewStep i v (SentSubscribe j x) = (if i = j then insert x v else v)"
| "viewStep i v (SentUnsubscribe j x) = (if i = j then v - {x} else v)"
| "viewStep i v (SocketCreated j) = v"
| "viewStep i v (RetryAfter d) = v"

definition serverView :: "'s pubsub_event list \<Rightarrow> nat \<Rightarrow> 's set" where
  "serverView log i = foldl (viewStep i) {} log"

lemma serverView_Nil [simp]: "serverView [] i = {}"
  by (simp add: serverView_def)

lemma serverView_snoc [simp]: "serverView (log @ [e]) i = viewStep i (serverView log i) e"
  by (simp add: serverView_def)

lemma serverView_sent:
  "serverView (log @ map (SentSubscribe j) xs) i = (if i = j then serverView log i \<union> set xs else serverView log i)"
proof (induction xs rule: rev_induct)
  case (snoc x xs)
  then show ?case using serverView_snoc[of "log @ map (SentSubscribe j) xs" "SentSubscribe j x" i] by auto
qed simp

definition goodClient :: "nat \<Rightarrow> 's client \<Rightarrow> bool" where
  "goodClient maxSubs c \<longleftrightarrow> distinct (subscriptions c) \<and> length (subscriptions c) \<le> maxSubscriptions c
     \<and> maxSubscriptions c = maxSubs"

definition unopened :: "'s manager \<Rightarrow> bool" where
  "unopened s \<longleftrightarrow> (\<exists>(i, c) \<in> set (clients s). \<not> cl_open c)"

definition wanted :: "'s manager \<Rightarrow> 's set" where
  "wanted s = set (pendingSubscriptions s) \<union> (\<Union>(i, c) \<in> set (clients s). set (subscriptions c))"

definition clients_ok :: "nat \<Rightarrow> 's manager \<Rightarrow> bool" where
  "clients_ok maxSubs s \<longleftrightarrow> distinct (map fst (clients s))
     \<and> (\<forall>(i, c) \<in> set (clients s). i < nextId s \<and> goodClient maxSubs c
           \<and> serverView (pubsub_log s) i = set (subscriptions c))
     \<and> (\<forall>i \<ge> nextId s. serverView (pubsub_log s) i = {})
     \<and> (addingClient s \<longrightarrow> unopened s) \<and> (has_pool s \<longleftrightarrow> \<not> stopping s)"

definition progress :: "'s manager \<Rightarrow> bool" where
  "progress s \<longleftrightarrow> stopping s \<or> pendingSubscriptions s = [] \<or> unopened s \<or> 0 < retryTimers s"

section \<open>Clients\<close>

lemma client_subscribe_true:
  assumes "client_subscribe x c = (True, sent, c')" and "goodClient n c"
  shows "goodClient n c' \<and> cl_open c' = cl_open c \<and> maxSubscriptions c' = maxSubscriptions c
     \<and> set (subscriptions c') = insert x (set (subscriptions c)) \<and> (sent \<longleftrightarrow> x \<notin> set (subscriptions c))"
  using assms by (auto simp: client_subscribe_def goodClient_def split: if_splits)

lemma client_unsubscribe_true:
  assumes "client_unsubscribe x c = (True, c')" and "goodClient n c"
  shows "goodClient n c' \<and> cl_open c' = cl_open c \<and> x \<in> set (subscriptions c)
     \<and> set (subscriptions c') = set (subscriptions c) - {x}"
  using assms by (auto simp: client_unsubscribe_def goodClient_def length_remove1 split: if_splits)

lemma tryLoop_Some:
  "tryLoop x cs = Some (i, sent, c') \<Longrightarrow> \<exists>c. (i, c) \<in> set cs \<and> client_subscribe x c = (True, sent, c')"
  by (induction cs) (auto split: prod.splits bool.splits)

lemma unsubscribeLoop_Some:
  "unsubscribeLoop x cs = Some (i, c') \<Longrightarrow> \<exists>c. (i, c) \<in> set cs \<and> client_unsubscribe x c = (True, c')"
  by (induction cs) (auto split: prod.splits bool.splits)

lemma takeLoop_result:
  assumes "takeLoop n P c sent0 = (P', c', sent)" and "goodClient k c"
  shows "goodClient k c' \<and> cl_open c' = cl_open c \<and> set P' \<union> set (subscriptions c') = set P \<union> set (subscriptions c)
     \<and> (\<exists>new. sent = sent0 @ new \<and> set (subscriptions c') = set (subscriptions c) \<union> set new)"
  using assms
proof (induction n P c sent0 rule: takeLoop.induct)
  case (2 n P c sent0)
  show ?case
  proof (cases "P = []")
    case False
    obtain b isSent c1 where cs: "client_subscribe (last P) c = (b, isSent, c1)" by (cases "client_subscribe (last P) c")
    have P: "set P = insert (last P) (set (butlast P))"
      using False by (metis append_butlast_last_id set_append list.simps(15) empty_set insert_is_Un sup_commute)
    show ?thesis
    proof (cases b)
      case True
      have cs1: "client_subscribe (last P) c = (True, isSent, c1)" using cs True by simp
      note sub = client_subscribe_true[OF cs1 "2.prems"(2)]
      have "takeLoop n (butlast P) c1 (if isSent then sent0 @ [last P] else sent0) = (P', c', sent)"
        using "2.prems"(1) False cs True by simp
      from "2.IH"[OF False refl refl cs1[symmetric] _ refl this] sub
      show ?thesis using P by (auto split: if_splits)
    next
      case no: False
      then show ?thesis using "2.prems" False cs by auto
    qed
  qed (use "2.prems" in auto)
qed auto

section \<open>Updating one client\<close>

lemma set_map_update:
  "set (map (\<lambda>(j, d). if j = i then (j, c') else (j, d)) cs)
     = {p \<in> set cs. fst p \<noteq> i} \<union> (if i \<in> fst ` set cs then {(i, c')} else {})"
proof -
  let ?F = "\<lambda>(j, d). if j = i then (j, c') else (j, d)"
  have "?F = (\<lambda>p. if fst p = i then (i, c') else p)"
  proof
    show "?F p = (if fst p = i then (i, c') else p)" for p by (cases p) simp
  qed
  then have "?F ` set cs = (\<lambda>p. if fst p = i then (i, c') else p) ` set cs" by (simp only:)
  also have "\<dots> = {p \<in> set cs. fst p \<noteq> i} \<union> (if i \<in> fst ` set cs then {(i, c')} else {})"
  proof -
    have "set cs = {p \<in> set cs. fst p \<noteq> i} \<union> {p \<in> set cs. fst p = i}" by blast
    then have "(\<lambda>p. if fst p = i then (i, c') else p) ` set cs =
        (\<lambda>p. if fst p = i then (i, c') else p) ` {p \<in> set cs. fst p \<noteq> i}
        \<union> (\<lambda>p. if fst p = i then (i, c') else p) ` {p \<in> set cs. fst p = i}" by (metis image_Un)
    moreover have "(\<lambda>p. if fst p = i then (i, c') else p) ` {p \<in> set cs. fst p \<noteq> i} = {p \<in> set cs. fst p \<noteq> i}"
      by auto
    moreover have "(\<lambda>p. if fst p = i then (i, c') else p) ` {p \<in> set cs. fst p = i}
        = (if i \<in> fst ` set cs then {(i, c')} else {})"
      by (auto simp: image_def)
    ultimately show ?thesis by simp
  qed
  finally show ?thesis by (simp only: set_map)
qed

lemma set_setClient:
  assumes "distinct (map fst (clients s))" and "(i, c) \<in> set (clients s)"
  shows "set (clients (setClient i c' s)) = insert (i, c') (set (clients s) - {(i, c)})"
proof -
  have key: "p \<in> set (clients s) \<and> fst p \<noteq> i \<longleftrightarrow> p \<in> set (clients s) \<and> p \<noteq> (i, c)" for p
    using assms by (metis eq_key_imp_eq_value fst_conv prod.collapse)
  have S: "{p \<in> set (clients s). fst p \<noteq> i} = set (clients s) - {(i, c)}"
    unfolding key by blast
  have mem: "i \<in> fst ` set (clients s)" using assms(2) by (metis fst_conv imageI)
  have "set (clients (setClient i c' s)) =
      {p \<in> set (clients s). fst p \<noteq> i} \<union> (if i \<in> fst ` set (clients s) then {(i, c')} else {})"
  proof -
    have "clients (setClient i c' s) = map (\<lambda>(j, d). if j = i then (j, c') else (j, d)) (clients s)"
      by (simp add: setClient_def)
    then show ?thesis by (simp only: set_map_update)
  qed
  then show ?thesis unfolding S using mem by simp
qed

lemma setClient_fields [simp]:
  "map fst (clients (setClient i c s)) = map fst (clients s)"
  "pendingSubscriptions (setClient i c s) = pendingSubscriptions s" "nextId (setClient i c s) = nextId s"
  "addingClient (setClient i c s) = addingClient s" "has_pool (setClient i c s) = has_pool s"
  "stopping (setClient i c s) = stopping s" "retryTimers (setClient i c s) = retryTimers s"
  "pubsub_log (setClient i c s) = pubsub_log s"
  by (auto simp: setClient_def split: prod.splits)

lemma logEvent_fields [simp]:
  "clients (logEvent e s) = clients s" "pendingSubscriptions (logEvent e s) = pendingSubscriptions s"
  "nextId (logEvent e s) = nextId s" "addingClient (logEvent e s) = addingClient s"
  "has_pool (logEvent e s) = has_pool s" "stopping (logEvent e s) = stopping s"
  "retryTimers (logEvent e s) = retryTimers s" "pubsub_log (logEvent e s) = pubsub_log s @ [e]"
  by (simp_all add: logEvent_def)


text \<open>Replacing a client of the pool by a good one that has the subscriptions the log shows.\<close>

lemma setClient_ok:
  assumes ok: "clients_ok k s" and mem: "(i, c) \<in> set (clients s)"
    and c': "goodClient k c'" "cl_open c' = cl_open c"
    and log: "\<forall>j. serverView log' j = (if j = i then set (subscriptions c') else serverView (pubsub_log s) j)"
    and s': "s' = (setClient i c' s)\<lparr>pendingSubscriptions := P, pubsub_log := log'\<rparr>"
  shows "clients_ok k s' \<and> (unopened s' \<longleftrightarrow> unopened s)
     \<and> wanted s' = set P \<union> set (subscriptions c') \<union> (\<Union>(j, d) \<in> set (clients s) - {(i, c)}. set (subscriptions d))"
proof -
  have D: "distinct (map fst (clients s))" "i < nextId s" using ok mem by (auto simp: clients_ok_def)
  have set: "set (clients s') = insert (i, c') (set (clients s) - {(i, c)})"
    using set_setClient[OF D(1) mem] by (simp add: s')
  have other: "j \<noteq> i" if "(j, d) \<in> set (clients s) - {(i, c)}" for j d
    using that mem D(1) by (auto dest: eq_key_imp_eq_value)
  have un: "unopened s' \<longleftrightarrow> unopened s"
  proof -
    have "unopened s' \<longleftrightarrow> \<not> cl_open c' \<or> (\<exists>(j, d) \<in> set (clients s) - {(i, c)}. \<not> cl_open d)"
      unfolding unopened_def set by auto
    also have "\<dots> \<longleftrightarrow> unopened s" unfolding unopened_def using mem c'(2) by auto
    finally show ?thesis .
  qed
  have "goodClient k d \<and> j < nextId s \<and> serverView log' j = set (subscriptions d)" if "(j, d) \<in> set (clients s')" for j d
  proof (cases "(j, d) = (i, c')")
    case True
    then show ?thesis using c'(1) D(2) log by simp
  next
    case False
    with that set have m: "(j, d) \<in> set (clients s) - {(i, c)}" by auto
    with other have "j \<noteq> i" by blast
    with m ok log show ?thesis by (auto simp: clients_ok_def)
  qed
  moreover have "distinct (map fst (clients s'))" using D(1) by (simp add: s')
  moreover have "serverView log' j = {}" if "j \<ge> nextId s" for j
    using that log ok D(2) by (auto simp: clients_ok_def)
  ultimately have "clients_ok k s'"
    using ok un unfolding clients_ok_def by (auto simp: s')
  moreover have "wanted s' = set P \<union> set (subscriptions c') \<union> (\<Union>(j, d) \<in> set (clients s) - {(i, c)}. set (subscriptions d))"
    unfolding wanted_def set by (auto simp: s')
  ultimately show ?thesis using un by blast
qed

lemma wanted_split:
  "(i, c) \<in> set (clients s) \<Longrightarrow> wanted s = set (pendingSubscriptions s) \<union> set (subscriptions c)
     \<union> (\<Union>(j, d) \<in> set (clients s) - {(i, c)}. set (subscriptions d))"
  by (auto simp: wanted_def)

section \<open>The operations\<close>

lemma addClient_ok:
  assumes "clients_ok k s"
  shows "clients_ok k (addClient k s) \<and> wanted (addClient k s) = wanted s
     \<and> pendingSubscriptions (addClient k s) = pendingSubscriptions s
     \<and> stopping (addClient k s) = stopping s \<and> retryTimers (addClient k s) = retryTimers s
     \<and> (unopened s \<longrightarrow> unopened (addClient k s)) \<and> (\<not> stopping s \<longrightarrow> unopened (addClient k s))"
proof (cases "addingClient s \<or> \<not> has_pool s")
  case True
  then show ?thesis using assms by (auto simp: addClient_def clients_ok_def)
next
  case False
  have fresh: "\<forall>(i, c) \<in> set (clients s). i < nextId s" using assms by (auto simp: clients_ok_def)
  have "goodClient k (BasicPubSubClient k)" by (simp add: goodClient_def BasicPubSubClient_def)
  then have "clients_ok k (addClient k s)"
    using assms False fresh
    by (auto simp: addClient_def clients_ok_def BasicPubSubClient_def unopened_def)
  then show ?thesis
    using False by (auto simp: addClient_def wanted_def unopened_def BasicPubSubClient_def)
qed

context hash_iteration
begin

lemma trySubscribe_ok:
  assumes ok: "clients_ok k s" and r: "trySubscribe ord x s = (b, s')"
  shows "clients_ok k s' \<and> (unopened s' \<longleftrightarrow> unopened s) \<and> pendingSubscriptions s' = pendingSubscriptions s
     \<and> stopping s' = stopping s \<and> retryTimers s' = retryTimers s
     \<and> wanted s' = (if b then insert x (wanted s) else wanted s)"
proof (cases "tryLoop x (clientOrder ord (clients s))")
  case None
  then show ?thesis using r ok by (simp add: trySubscribe_def)
next
  case (Some t)
  then obtain i sent c' where t: "tryLoop x (clientOrder ord (clients s)) = Some (i, sent, c')" by (cases t) auto
  obtain c where c: "(i, c) \<in> set (clients s)" "client_subscribe x c = (True, sent, c')"
    using tryLoop_Some[OF t] by auto
  have good: "goodClient k c" "serverView (pubsub_log s) i = set (subscriptions c)"
    using ok c(1) by (auto simp: clients_ok_def)
  note sub = client_subscribe_true[OF c(2) good(1)]
  define log' where "log' = (if sent then pubsub_log s @ [SentSubscribe i x] else pubsub_log s)"
  have s': "b = True" "s' = (setClient i c' s)\<lparr>pendingSubscriptions := pendingSubscriptions s, pubsub_log := log'\<rparr>"
    using r t by (auto simp: trySubscribe_def log'_def logEvent_def setClient_def)
  have log: "\<forall>j. serverView log' j = (if j = i then set (subscriptions c') else serverView (pubsub_log s) j)"
    using sub good(2) by (auto simp: log'_def)
  from setClient_ok[OF ok c(1) _ _ log s'(2)] sub show ?thesis
    using wanted_split[OF c(1)] by (auto simp: s')
qed

lemma subscribe_ok:
  assumes ok: "clients_ok k s" and p: "progress s"
  shows "clients_ok k (ps_subscribe ord k x s) \<and> progress (ps_subscribe ord k x s)
     \<and> stopping (ps_subscribe ord k x s) = stopping s
     \<and> wanted (ps_subscribe ord k x s) = insert x (wanted s)"
proof -
  obtain b s1 where r: "trySubscribe ord x s = (b, s1)" by fastforce
  note t = trySubscribe_ok[OF ok r]
  show ?thesis
  proof (cases b)
    case True
    then show ?thesis using r t p by (auto simp: ps_subscribe_def progress_def)
  next
    case False
    have s1: "s1 = s" using r False by (auto simp: trySubscribe_def split: option.splits)
    let ?a = "addClient k s"
    note a = addClient_ok[OF ok]
    have eq: "ps_subscribe ord k x s = ?a\<lparr>pendingSubscriptions := pendingSubscriptions ?a @ [x]\<rparr>"
      using r False s1 by (simp add: ps_subscribe_def Let_def)
    have same: "clients_ok k (q\<lparr>pendingSubscriptions := P\<rparr>) = clients_ok k q"
        "unopened (q\<lparr>pendingSubscriptions := P\<rparr>) = unopened q" for q :: "'s manager" and P
      by (simp_all add: clients_ok_def unopened_def)
    have "wanted (?a\<lparr>pendingSubscriptions := pendingSubscriptions ?a @ [x]\<rparr>) = insert x (wanted ?a)"
      by (auto simp: wanted_def)
    then show ?thesis unfolding eq using a by (auto simp: same progress_def)
  qed
qed

lemma unsubscribe_ok:
  assumes ok: "clients_ok k s" and p: "progress s"
  shows "clients_ok k (ps_unsubscribe ord x s) \<and> progress (ps_unsubscribe ord x s)
     \<and> stopping (ps_unsubscribe ord x s) = stopping s
     \<and> wanted (ps_unsubscribe ord x s) \<subseteq> wanted s \<and> wanted s - {x} \<subseteq> wanted (ps_unsubscribe ord x s)"
proof (cases "unsubscribeLoop x (clientOrder ord (clients s))")
  case None
  then show ?thesis using ok p by (auto simp: ps_unsubscribe_def)
next
  case (Some t)
  then obtain i c' where t: "unsubscribeLoop x (clientOrder ord (clients s)) = Some (i, c')" by (cases t) auto
  obtain c where c: "(i, c) \<in> set (clients s)" "client_unsubscribe x c = (True, c')"
    using unsubscribeLoop_Some[OF t] by auto
  have good: "goodClient k c" "serverView (pubsub_log s) i = set (subscriptions c)"
    using ok c(1) by (auto simp: clients_ok_def)
  note sub = client_unsubscribe_true[OF c(2) good(1)]
  define log' where "log' = pubsub_log s @ [SentUnsubscribe i x]"
  have s': "ps_unsubscribe ord x s = (setClient i c' s)\<lparr>pendingSubscriptions := pendingSubscriptions s, pubsub_log := log'\<rparr>"
    using t by (simp add: ps_unsubscribe_def log'_def logEvent_def setClient_def)
  have log: "\<forall>j. serverView log' j = (if j = i then set (subscriptions c') else serverView (pubsub_log s) j)"
    using sub good(2) by (auto simp: log'_def)
  from setClient_ok[OF ok c(1) _ _ log s'] sub show ?thesis
    using wanted_split[OF c(1)] p by (auto simp: progress_def s')
qed

end


lemma opened_ok:
  assumes ok: "clients_ok k s" and p: "progress s" and r: "onConnectionOpen k cid s = Inr s'"
  shows "clients_ok k s' \<and> progress s' \<and> stopping s' = stopping s \<and> wanted s' = wanted s"
proof -
  let ?s1 = "s\<lparr>addingClient := False, connectionsOpened := connectionsOpened s + 1, connectBackoff := eb_reset\<rparr>"
  obtain c where c: "map_of (clients s) cid = Some c"
    using r by (auto simp: onConnectionOpen_def resolve_def Let_def split: option.splits)
  then have mem: "(cid, c) \<in> set (clients s)" by (rule map_of_SomeD)
  have good: "goodClient k c" "serverView (pubsub_log s) cid = set (subscriptions c)"
    using ok mem by (auto simp: clients_ok_def)
  let ?c1 = "client_onOpen c"
  have c1: "goodClient k ?c1" "subscriptions ?c1 = subscriptions c" "cl_open ?c1"
    using good(1) by (simp_all add: client_onOpen_def goodClient_def)
  define s2 where "s2 = setClient cid ?c1 ?s1"
  have fresh: "distinct (map fst (clients s))" using ok by (simp add: clients_ok_def)
  have set2: "set (clients s2) = insert (cid, ?c1) (set (clients s) - {(cid, c)})"
    using set_setClient[of ?s1 cid c ?c1] fresh mem by (simp add: s2_def)
  have ok2: "clients_ok k s2"
    using ok c1 good mem unfolding clients_ok_def set2 by (auto simp: s2_def)
  have mem2: "(cid, ?c1) \<in> set (clients s2)" unfolding set2 by simp
  have w2: "wanted s2 = wanted s"
    using wanted_split[OF mem] unfolding wanted_def set2 by (auto simp: s2_def c1(2))
  obtain P c2 sent where tl: "takeLoop (min (length (pendingSubscriptions s)) (maxSubscriptions ?c1))
      (pendingSubscriptions s) ?c1 [] = (P, c2, sent)"
    by (metis prod_cases3)
  note t = takeLoop_result[OF tl c1(1)]
  define s3 where "s3 = (setClient cid c2 s2)\<lparr>pendingSubscriptions := P, pubsub_log := pubsub_log s2 @ map (SentSubscribe cid) sent\<rparr>"
  have log: "\<forall>j. serverView (pubsub_log s2 @ map (SentSubscribe cid) sent) j =
      (if j = cid then set (subscriptions c2) else serverView (pubsub_log s2) j)"
    using t good(2) c1(2) by (auto simp: serverView_sent s2_def)
  have o: "clients_ok k s3" "wanted s3 = set P \<union> set (subscriptions c2)
      \<union> (\<Union>(j, d) \<in> set (clients s2) - {(cid, ?c1)}. set (subscriptions d))"
    using setClient_ok[OF ok2 mem2 _ _ log s3_def] t by auto
  have w3: "wanted s3 = wanted s"
    unfolding o(2) using t wanted_split[OF mem2] w2 by (auto simp: s2_def)
  have f: "stopping s3 = stopping s" "pendingSubscriptions s3 = P" by (simp_all add: s3_def s2_def)
  have s': "s' = (if P \<noteq> [] then addClient k s3 else s3)"
  proof -
    have "setClient cid c2 s2 = setClient cid c2 ?s1"
      by (simp add: s2_def setClient_def case_prod_beta cong: if_cong)
    then show ?thesis
      using r[symmetric] c tl by (simp add: onConnectionOpen_def resolve_def Let_def s3_def s2_def)
  qed
  show ?thesis
    using o(1) w3 f addClient_ok[OF o(1)] unfolding s' by (auto simp: progress_def)
qed

context hash_iteration
begin

lemma foldl_subscribe_ok:
  assumes "clients_ok k s" and "progress s"
  shows "clients_ok k (foldl (\<lambda>s x. ps_subscribe ord k x s) s xs) \<and> progress (foldl (\<lambda>s x. ps_subscribe ord k x s) s xs)
     \<and> stopping (foldl (\<lambda>s x. ps_subscribe ord k x s) s xs) = stopping s
     \<and> wanted (foldl (\<lambda>s x. ps_subscribe ord k x s) s xs) = wanted s \<union> set xs"
  using assms
proof (induction xs arbitrary: s)
  case (Cons x xs)
  note one = subscribe_ok[OF Cons.prems, of x]
  from Cons.IH[of "ps_subscribe ord k x s"] one show ?case by auto
qed simp

lemma closed_ok:
  assumes ok: "clients_ok k s" and p: "progress s" and c: "resolve s cid = Some c"
    and s'_def: "s' = onConnectionClose ord k cid s"
  shows "clients_ok k s' \<and> progress s' \<and> stopping s' = stopping s
     \<and> (\<not> stopping s \<longrightarrow> wanted s' = wanted s)"
proof -
  have mem: "(cid, c) \<in> set (clients s)" using c by (auto simp: resolve_def dest: map_of_SomeD)
  have fresh: "distinct (map fst (clients s))" using ok by (simp add: clients_ok_def)
  let ?s3 = "s\<lparr>addingClient := False,
     connectionsClosed := (if cl_open c then connectionsClosed s + 1 else connectionsClosed s),
     connectionsFailed := (if cl_open c then connectionsFailed s else connectionsFailed s + 1),
     clients := filter (\<lambda>(i, _). i \<noteq> cid) (clients s)\<rparr>"
  have set3: "set (clients ?s3) = set (clients s) - {(cid, c)}"
    using mem fresh by (auto dest: eq_key_imp_eq_value)
  have "distinct (map fst (clients ?s3))" using fresh by (simp add: distinct_map_filter)
  then have ok3: "clients_ok k ?s3"
    using ok unfolding clients_ok_def set3 by auto
  have w3: "wanted s = wanted ?s3 \<union> set (subscriptions c)"
    unfolding wanted_split[OF mem] by (simp add: wanted_def set3[simplified]) blast
  let ?subs = "subOrder ord (subscriptions c)"
  show ?thesis
  proof (cases "stopping s")
    case True
    then have "s' = ?s3" using c unfolding s'_def onConnectionClose_def
      by (simp add: resolve_def Let_def)
    then show ?thesis using ok3 True by (simp add: progress_def)
  next
    case False
    show ?thesis
    proof (cases "cl_open c")
      case True
      then have eq: "s' = foldl (\<lambda>s x. ps_subscribe ord k x s) ?s3 ?subs"
        using c False unfolding s'_def onConnectionClose_def by (simp add: resolve_def Let_def)
      have "unopened s \<longrightarrow> unopened ?s3"
        using True unfolding unopened_def set3 by auto
      then have "progress ?s3" using p False by (auto simp: progress_def)
      from foldl_subscribe_ok[OF ok3 this, of ?subs] show ?thesis
        unfolding eq using w3 by auto
    next
      case no: False
      obtain d st where e: "eb_next 5 1000 (connectBackoff s) = (d, st)" by fastforce
      have eq: "s' = logEvent (RetryAfter d) (?s3\<lparr>pendingSubscriptions := pendingSubscriptions s @ ?subs,
          connectBackoff := st, retryTimers := retryTimers s + 1\<rparr>)"
        using c False no e unfolding s'_def onConnectionClose_def by (simp add: resolve_def Let_def)
      have "clients_ok k s'" using ok3 unfolding eq clients_ok_def by (auto simp: unopened_def)
      moreover have "wanted s' = wanted s" unfolding eq w3 by (auto simp: wanted_def)
      ultimately show ?thesis using False by (auto simp: eq progress_def)
    qed
  qed
qed

lemma retry_ok:
  assumes ok: "clients_ok k s" and p: "progress s"
  shows "clients_ok k (onRetryTimer k s) \<and> progress (onRetryTimer k s)
     \<and> stopping (onRetryTimer k s) = stopping s \<and> wanted (onRetryTimer k s) = wanted s"
proof -
  let ?s = "s\<lparr>retryTimers := retryTimers s - 1\<rparr>"
  have ok1: "clients_ok k ?s" using ok by (simp add: clients_ok_def unopened_def)
  have "wanted ?s = wanted s" by (simp add: wanted_def)
  with addClient_ok[OF ok1] show ?thesis by (auto simp: onRetryTimer_def progress_def)
qed

end

text \<open>One step.\<close>

definition keeps :: "'s call \<Rightarrow> 's manager \<Rightarrow> 's manager \<Rightarrow> bool" where
  "keeps c s s' \<longleftrightarrow> (case c of
      Subscribe x \<Rightarrow> wanted s' = insert x (wanted s)
    | Unsubscribe x \<Rightarrow> wanted s' \<subseteq> wanted s \<and> wanted s - {x} \<subseteq> wanted s'
    | Closed i \<Rightarrow> \<not> stopping s \<longrightarrow> wanted s' = wanted s
    | _ \<Rightarrow> wanted s' = wanted s)"


context hash_iteration
begin

lemma step_ok:
  assumes "ps_step ord k s c s'" and "clients_ok k s" and "progress s"
  shows "clients_ok k s' \<and> progress s' \<and> keeps c s s' \<and> (stopping s' \<longrightarrow> stopping s \<or> c = Stop)"
  using assms
proof (cases rule: ps_step.cases)
  case (subscribe x)
  then show ?thesis using subscribe_ok[OF assms(2,3), of x] by (simp add: keeps_def)
next
  case (unsubscribe x)
  then show ?thesis using unsubscribe_ok[OF assms(2,3), of x] by (simp add: keeps_def)
next
  case (opened cid)
  from opened_ok[OF assms(2,3) this(2)] show ?thesis by (simp add: keeps_def opened(1))
next
  case (closed cid c)
  from closed_ok[OF assms(2,3) closed(3) closed(2)] show ?thesis by (simp add: keeps_def closed(1))
next
  case retry
  then show ?thesis using retry_ok[OF assms(2,3)] by (simp add: keeps_def)
next
  case stop
  then show ?thesis using assms(2) by (auto simp: keeps_def ps_stop_def clients_ok_def progress_def wanted_def unopened_def)
qed

lemma run_ok:
  assumes "ps_run ord k s cs s'" and "clients_ok k s" and "progress s"
  shows "clients_ok k s' \<and> progress s' \<and> (stopping s' \<longrightarrow> stopping s \<or> Stop \<in> set cs)"
  using assms
proof (induction rule: ps_run.induct)
  case (step s cs t c u)
  then show ?case using step_ok[OF step.hyps(2)] by auto
qed simp

end

text \<open>Who asked for what.\<close>

fun subscribed :: "'s call list \<Rightarrow> 's set" where
  "subscribed [] = {}"
| "subscribed (Subscribe x # cs) = insert x (subscribed cs)"
| "subscribed (_ # cs) = subscribed cs"

fun unsubscribed :: "'s call list \<Rightarrow> 's set" where
  "unsubscribed [] = {}"
| "unsubscribed (Unsubscribe x # cs) = insert x (unsubscribed cs)"
| "unsubscribed (_ # cs) = unsubscribed cs"

lemma subscribed_append [simp]: "subscribed (cs @ ds) = subscribed cs \<union> subscribed ds"
  by (induction cs rule: subscribed.induct) auto

lemma unsubscribed_append [simp]: "unsubscribed (cs @ ds) = unsubscribed cs \<union> unsubscribed ds"
  by (induction cs rule: unsubscribed.induct) auto

context hash_iteration
begin

lemma run_wanted:
  assumes "ps_run ord k s cs s'" and "clients_ok k s" and "progress s" and "\<not> stopping s" and "Stop \<notin> set cs"
  shows "wanted s' \<subseteq> wanted s \<union> subscribed cs \<and> (wanted s \<union> subscribed cs) - unsubscribed cs \<subseteq> wanted s'"
  using assms
proof (induction rule: ps_run.induct)
  case (step s cs t c u)
  then have t: "clients_ok k t" "progress t" "\<not> stopping t"
    using run_ok[OF step.hyps(1)] by auto
  have ih: "wanted t \<subseteq> wanted s \<union> subscribed cs" "(wanted s \<union> subscribed cs) - unsubscribed cs \<subseteq> wanted t"
    using step by auto
  have "keeps c t u" using step_ok[OF step.hyps(2) t(1,2)] by blast
  then show ?case
    using ih t(3) by (cases c) (auto simp: keeps_def)
qed simp

end

lemma start_ok:
  "clients_ok k (BasicPubSubManager :: 's manager)" "progress (BasicPubSubManager :: 's manager)"
  "wanted (BasicPubSubManager :: 's manager) = {}" "\<not> stopping (BasicPubSubManager :: 's manager)"
  by (simp_all add: BasicPubSubManager_def clients_ok_def progress_def unopened_def wanted_def)

section \<open>Backoff\<close>

text \<open>The delays of \<open>n\<close> calls of \<open>next\<close>.\<close>

fun backoffDelays :: "nat \<Rightarrow> int \<Rightarrow> nat \<Rightarrow> nat \<Rightarrow> int list" where
  "backoffDelays maxSteps start step 0 = []"
| "backoffDelays maxSteps start step (Suc n) =
     (let (d, step') = eb_next maxSteps start step in d # backoffDelays maxSteps start step' n)"

lemma backoffDelays_from:
  "1 < m \<Longrightarrow> backoffDelays m start (min (j + 1) m) n = map (\<lambda>i. start * 2 ^ min i (m - 1)) [j..<j + n]"
proof (induction n arbitrary: j)
  case (Suc n)
  have d: "min (j + 1) m - 1 = min j (m - 1)" using Suc.prems by (auto simp: min_def)
  have next_step: "(if m \<le> min (j + 1) m + 1 then m else min (j + 1) m + 1) = min (j + 1 + 1) m"
    by (simp add: min_def)
  have "eb_next m start (min (j + 1) m) = (start * 2 ^ min j (m - 1), min (j + 1 + 1) m)"
    unfolding eb_next_def Let_def d next_step ..
  then show ?case
    using Suc.IH[of "j + 1"] Suc.prems by (simp add: upt_conv_Cons del: upt_Suc)
qed simp

section \<open>Properties\<close>

text \<open>No connection is given more subscriptions than it can hold or one twice, and what has been
  sent over each open or opening connection adds up to exactly the subscriptions its client keeps,
  after any sequence of calls and events.\<close>

theorem server_view_is_kept:
  assumes "hash_iteration ord" and "ps_run ord k BasicPubSubManager cs s" and "(i, c) \<in> set (clients s)"
  shows "length (subscriptions c) \<le> k \<and> distinct (subscriptions c)
     \<and> serverView (pubsub_log s) i = set (subscriptions c)"
proof -
  have "clients_ok k s" using hash_iteration.run_ok[OF assms(1,2) start_ok(1,2)] by blast
  then have "goodClient k c \<and> serverView (pubsub_log s) i = set (subscriptions c)"
    using assms(3) by (auto simp: clients_ok_def)
  then show ?thesis by (auto simp: goodClient_def)
qed

text \<open>C5. No subscription is lost: as long as the manager is not stopped, everything that was subscribed and never unsubscribed
  is pending or subscribed on a connection, and everything that is so was subscribed at some time, however connections open, fail and
  close.  (What was unsubscribed may still be there: \<open>pending_unsubscribe_is_ignored\<close>.)\<close>

theorem no_subscription_is_lost:
  assumes "hash_iteration ord" and "ps_run ord k BasicPubSubManager cs s" and "Stop \<notin> set cs"
  shows "wanted s \<subseteq> subscribed cs \<and> subscribed cs - unsubscribed cs \<subseteq> wanted s"
  using hash_iteration.run_wanted[OF assms(1,2) start_ok(1,2,4) assms(3)] unfolding start_ok(3) by simp

text \<open>C20. A pending subscription is never stranded: as long as the manager is not stopped, when
  subscriptions are pending, a connection is being opened or a retry timer is running.\<close>

theorem pending_is_served:
  assumes "hash_iteration ord" and "ps_run ord k BasicPubSubManager cs s" and "Stop \<notin> set cs"
    and "pendingSubscriptions s \<noteq> []"
  shows "(\<exists>(i, c) \<in> set (clients s). \<not> cl_open c) \<or> 0 < retryTimers s"
proof -
  have "progress s" "\<not> stopping s"
    using hash_iteration.run_ok[OF assms(1,2) start_ok(1,2)] start_ok(4) assms(3) by blast+
  then show ?thesis using assms(4) by (simp add: progress_def unopened_def)
qed

text \<open>The delays between retries: after a reset, the \<open>i\<close>-th call of \<open>next\<close> (from zero) returns the
  start time times two to the \<open>i\<close>, or to the \<open>maxSteps - 1\<close> when \<open>i\<close> is larger.\<close>

theorem backoff_doubles_up_to_cap:
  assumes "1 < maxSteps"
  shows "backoffDelays maxSteps start eb_reset n = map (\<lambda>i. start * 2 ^ min i (maxSteps - 1)) [0..<n]"
  using backoffDelays_from[OF assms, of start 0 n] assms by (simp add: eb_reset_def min_def)

theorem backoff_doubles_up_to_cap_witness: "backoffDelays 3 10 eb_reset 4 = [10, 20, 40, 40]"
  by (subst backoff_doubles_up_to_cap) (simp_all add: upt_rec)

text \<open>Unsubscribing from a pending subscription has no effect: the subscription stays pending and
  is sent to the server once the connection opens.\<close>

theorem pending_unsubscribe_is_ignored:
  assumes "0 < k"
  shows "ps_unsubscribe insertion_order x (ps_subscribe insertion_order k x BasicPubSubManager)
       = ps_subscribe insertion_order k x BasicPubSubManager
     \<and> (\<exists>s. onConnectionOpen k 0 (ps_subscribe insertion_order k x BasicPubSubManager) = Inr s
           \<and> SentSubscribe 0 x \<in> set (pubsub_log s) \<and> x \<in> wanted s)"
  using assms
  by (auto simp: ps_unsubscribe_def ps_subscribe_def trySubscribe_def insertion_order_def BasicPubSubManager_def
      addClient_def logEvent_def client_unsubscribe_def BasicPubSubClient_def onConnectionOpen_def resolve_def Let_def
      setClient_def client_onOpen_def client_subscribe_def wanted_def min_def eb_reset_def numeral_eq_Suc)

theorem pending_unsubscribe_is_ignored_witness:
  "ps_unsubscribe insertion_order ''t'' (ps_subscribe insertion_order 100 ''t'' BasicPubSubManager)
     = ps_subscribe insertion_order 100 ''t'' BasicPubSubManager"
  using pending_unsubscribe_is_ignored[of 100 "''t''"] by simp

text \<open>A concrete run for the witnesses: two subscriptions with one subscription per connection.\<close>

definition sample_pool :: "nat manager" where
  "sample_pool = ps_subscribe insertion_order 1 8 (ps_subscribe insertion_order 1 7 BasicPubSubManager)"

lemma sample_pool_run: "ps_run insertion_order 1 BasicPubSubManager [Subscribe 7, Subscribe 8] sample_pool"
  using ps_run.step[OF ps_run.step[OF ps_run.start ps_step.subscribe] ps_step.subscribe,
      of insertion_order 1 BasicPubSubManager 7 8]
  by (simp add: sample_pool_def)

lemma sample_pool_value:
  "clients sample_pool = [(0, \<lparr>maxSubscriptions = 1, subscriptions = [8], cl_open = False\<rparr>)]"
  "pendingSubscriptions sample_pool = [7]"
  by (simp_all add: sample_pool_def ps_subscribe_def trySubscribe_def insertion_order_def BasicPubSubManager_def
      addClient_def logEvent_def BasicPubSubClient_def Let_def setClient_def client_subscribe_def)

theorem server_view_is_kept_witness: "serverView (pubsub_log sample_pool) 0 = {8}"
  using server_view_is_kept[OF insertion_order.hash_iteration_axioms sample_pool_run,
      of 0 "\<lparr>maxSubscriptions = 1, subscriptions = [8], cl_open = False\<rparr>"]
  by (simp add: sample_pool_value)

theorem no_subscription_is_lost_witness: "{7, 8} \<subseteq> wanted sample_pool"
  using no_subscription_is_lost[OF insertion_order.hash_iteration_axioms sample_pool_run] by simp

theorem pending_is_served_witness: "(\<exists>(i, c) \<in> set (clients sample_pool). \<not> cl_open c) \<or> 0 < retryTimers sample_pool"
  by (rule pending_is_served[OF insertion_order.hash_iteration_axioms sample_pool_run])
     (simp_all add: sample_pool_value)

end
