(* ===== verification/SignalVector.thy ===== *)
theory SignalVector
  imports Prelude
begin

text \<open>
  \<open>SignalVector\<close> of \<open>src/common/SignalVector.hpp\<close>: the vector behind every list of the settings
  (highlights, ignores, nicknames, commands, filters, hotkeys, accounts, ...).

  A \<open>signal_vector\<close> has the items, the copy handed to other threads (\<open>readOnly\<close>), whether the
  timer of \<open>delayedItemsChanged\<close> runs, and the comparison of a sorted vector.  Every operation
  returns the signal it emits; an \<open>int\<close> index is an integer, and an assertion that fails or an
  access out of range is an error.  \<open>std::lower_bound\<close> is the position of the first element
  that is not less than the item, its documented result on a partitioned range.

  The lemmas show that a vector with a strict weak order stays sorted, that \<open>readOnly\<close> is
  always a copy of the items, and that who applies the signals in order holds the same items.
\<close>

section \<open>Vectors\<close>

definition vec_insert :: "nat \<Rightarrow> 'a \<Rightarrow> 'a list \<Rightarrow> 'a list" where
  "vec_insert i x xs = take i xs @ x # drop i xs"

definition vec_erase :: "nat \<Rightarrow> 'a list \<Rightarrow> 'a list" where
  "vec_erase i xs = take i xs @ drop (Suc i) xs"

lemma length_vec_insert [simp]: "i \<le> length xs \<Longrightarrow> length (vec_insert i x xs) = Suc (length xs)"
  by (simp add: vec_insert_def)

lemma length_vec_erase [simp]: "i < length xs \<Longrightarrow> length (vec_erase i xs) = length xs - 1"
  by (simp add: vec_erase_def)

lemma set_vec_insert [simp]: "set (vec_insert i x xs) = insert x (set xs)"
proof -
  have "set xs = set (take i xs @ drop i xs)" by (simp only: append_take_drop_id)
  then show ?thesis by (auto simp: vec_insert_def simp del: append_take_drop_id)
qed

lemma set_vec_erase: "set (vec_erase i xs) \<subseteq> set xs"
  by (auto simp: vec_erase_def dest: in_set_takeD in_set_dropD)

lemma mset_vec_insert [simp]: "mset (vec_insert i x xs) = add_mset x (mset xs)"
proof -
  have "mset xs = mset (take i xs @ drop i xs)" by (simp only: append_take_drop_id)
  then show ?thesis by (simp add: vec_insert_def del: append_take_drop_id)
qed

lemma map_vec_insert: "map f (vec_insert i x xs) = vec_insert i (f x) (map f xs)"
  by (simp add: vec_insert_def take_map drop_map)

lemma map_vec_erase: "map f (vec_erase i xs) = vec_erase i (map f xs)"
  by (simp add: vec_erase_def take_map drop_map)

lemma filter_vec_insert_no: "\<not> P x \<Longrightarrow> filter P (vec_insert i x xs) = filter P xs"
proof -
  assume "\<not> P x"
  moreover have "filter P (take i xs) @ filter P (drop i xs) = filter P xs" by (simp flip: filter_append)
  ultimately show ?thesis by (simp add: vec_insert_def)
qed

lemma length_filter_vec_insert:
  "length (filter P (vec_insert i x xs)) = length (filter P xs) + (if P x then 1 else 0)"
proof -
  have "length (filter P xs) = length (filter P (take i xs @ drop i xs))" by (simp only: append_take_drop_id)
  then show ?thesis by (simp add: vec_insert_def del: append_take_drop_id)
qed

lemma vec_erase_insert [simp]: "i \<le> length xs \<Longrightarrow> vec_erase i (vec_insert i x xs) = xs"
  by (simp add: vec_insert_def vec_erase_def)

lemma vec_insert_erase [simp]: "i < length xs \<Longrightarrow> vec_insert i (xs ! i) (vec_erase i xs) = xs"
  by (simp add: vec_insert_def vec_erase_def id_take_nth_drop [symmetric])

lemma vec_insert_erase_update: "i < length xs \<Longrightarrow> vec_insert i x (vec_erase i xs) = xs[i := x]"
  by (simp add: vec_insert_def vec_erase_def upd_conv_take_nth_drop)

lemma vec_insert_end: "vec_insert (length xs) x xs = xs @ [x]"
  by (simp add: vec_insert_def)

lemma vec_insert_0 [simp]: "vec_insert 0 x xs = x # xs"
  by (simp add: vec_insert_def)

lemma vec_insert_Suc_Cons [simp]: "vec_insert (Suc i) x (y # xs) = y # vec_insert i x xs"
  by (simp add: vec_insert_def)

lemma vec_erase_0_Cons [simp]: "vec_erase 0 (y # xs) = xs"
  by (simp add: vec_erase_def)

lemma vec_erase_Suc_Cons [simp]: "vec_erase (Suc i) (y # xs) = y # vec_erase i xs"
  by (simp add: vec_erase_def)

lemma nth_vec_insert_same [simp]: "i \<le> length xs \<Longrightarrow> vec_insert i x xs ! i = x"
  by (simp add: vec_insert_def nth_append)

section \<open>State, signals and operations\<close>

datatype vector_error = AssertionFailed | OutOfRange | BadOptionalAccess

text \<open>The \<open>caller\<close> of an operation: \<open>None\<close> is \<open>nullptr\<close>, \<open>Some k\<close> the table model number \<open>k\<close>.\<close>

record 'i vector_event =
  ev_item :: 'i
  ev_index :: int
  ev_caller :: "nat option"

datatype 'i vector_signal = ItemInserted "'i vector_event" | ItemRemoved "'i vector_event"

record 'i signal_vector =
  items :: "'i list"
  readOnly :: "'i list"
  itemsChangedTimer :: bool
  itemCompare :: "('i \<Rightarrow> 'i \<Rightarrow> bool) option"

definition SignalVector :: "('i \<Rightarrow> 'i \<Rightarrow> bool) option \<Rightarrow> 'i signal_vector" where
  "SignalVector cmp = \<lparr>items = [], readOnly = [], itemsChangedTimer = False, itemCompare = cmp\<rparr>"

definition isSorted :: "'i signal_vector \<Rightarrow> bool" where
  "isSorted v \<longleftrightarrow> itemCompare v \<noteq> None"

definition itemsChanged :: "'i signal_vector \<Rightarrow> 'i signal_vector" where
  "itemsChanged v = v\<lparr>itemsChangedTimer := True, readOnly := items v\<rparr>"

text \<open>The timer fires: the flag says whether \<open>delayedItemsChanged\<close> is invoked.\<close>

definition timeout_sv :: "'i signal_vector \<Rightarrow> bool \<times> 'i signal_vector" where
  "timeout_sv v = (itemsChangedTimer v, v\<lparr>itemsChangedTimer := False\<rparr>)"

definition lower_bound :: "('i \<Rightarrow> 'i \<Rightarrow> bool) \<Rightarrow> 'i \<Rightarrow> 'i list \<Rightarrow> nat" where
  "lower_bound lt x xs = length (takeWhile (\<lambda>y. lt y x) xs)"

definition insert_sv ::
  "'i \<Rightarrow> int \<Rightarrow> nat option \<Rightarrow> 'i signal_vector \<Rightarrow>
   vector_error + (int \<times> 'i vector_signal \<times> 'i signal_vector)" where
  "insert_sv item index caller v =
     pbind (case itemCompare v of
              Some lt \<Rightarrow> Inr (int (lower_bound lt item (items v)))
            | None \<Rightarrow> (if index = - 1 then Inr (int (length (items v)))
                       else if 0 \<le> index \<and> index \<le> int (length (items v)) then Inr index
                       else Inl AssertionFailed))
       (\<lambda>at. Inr (at, ItemInserted \<lparr>ev_item = item, ev_index = at, ev_caller = caller\<rparr>,
                 itemsChanged (v\<lparr>items := vec_insert (nat at) item (items v)\<rparr>)))"

definition append_sv ::
  "'i \<Rightarrow> nat option \<Rightarrow> 'i signal_vector \<Rightarrow>
   vector_error + (int \<times> 'i vector_signal \<times> 'i signal_vector)" where
  "append_sv item caller v = insert_sv item (- 1) caller v"

definition removeAt_sv ::
  "int \<Rightarrow> nat option \<Rightarrow> 'i signal_vector \<Rightarrow> vector_error + ('i vector_signal \<times> 'i signal_vector)" where
  "removeAt_sv index caller v =
     (if 0 \<le> index \<and> index < int (length (items v))
      then Inr (ItemRemoved \<lparr>ev_item = items v ! nat index, ev_index = index, ev_caller = caller\<rparr>,
                itemsChanged (v\<lparr>items := vec_erase (nat index) (items v)\<rparr>))
      else Inl AssertionFailed)"

text \<open>\<open>removeFirstMatching\<close>: no signal when no item matches.\<close>

fun removeLoop ::
  "('i \<Rightarrow> bool) \<Rightarrow> nat option \<Rightarrow> 'i signal_vector \<Rightarrow> nat \<Rightarrow> 'i list \<Rightarrow>
   bool \<times> 'i vector_signal option \<times> 'i signal_vector" where
  "removeLoop matcher caller v index [] = (False, None, v)"
| "removeLoop matcher caller v index (x # xs) =
     (if matcher x
      then (True, Some (ItemRemoved \<lparr>ev_item = x, ev_index = int index, ev_caller = caller\<rparr>),
            itemsChanged (v\<lparr>items := vec_erase index (items v)\<rparr>))
      else removeLoop matcher caller v (index + 1) xs)"

definition removeFirstMatching_sv ::
  "('i \<Rightarrow> bool) \<Rightarrow> nat option \<Rightarrow> 'i signal_vector \<Rightarrow>
   bool \<times> 'i vector_signal option \<times> 'i signal_vector" where
  "removeFirstMatching_sv matcher caller v = removeLoop matcher caller v 0 (items v)"

section \<open>What the operations do\<close>

lemma itemsChanged_fields [simp]:
  "items (itemsChanged v) = items v" "readOnly (itemsChanged v) = items v"
  "itemCompare (itemsChanged v) = itemCompare v" "itemsChangedTimer (itemsChanged v)"
  by (simp_all add: itemsChanged_def)

lemma lower_bound_le [simp]: "lower_bound lt x xs \<le> length xs"
  by (simp add: lower_bound_def length_takeWhile_le)

lemma take_lower_bound: "take (lower_bound lt x xs) xs = takeWhile (\<lambda>y. lt y x) xs"
  by (simp add: lower_bound_def takeWhile_eq_take [symmetric])

lemma drop_lower_bound: "drop (lower_bound lt x xs) xs = dropWhile (\<lambda>y. lt y x) xs"
  by (simp add: lower_bound_def dropWhile_eq_drop [symmetric])

lemma insert_sv_sorted:
  "itemCompare v = Some lt \<Longrightarrow> insert_sv item index caller v =
     (let at = lower_bound lt item (items v)
      in Inr (int at, ItemInserted \<lparr>ev_item = item, ev_index = int at, ev_caller = caller\<rparr>,
              itemsChanged (v\<lparr>items := vec_insert at item (items v)\<rparr>)))"
  by (simp add: insert_sv_def Let_def)

lemma insert_sv_unsorted:
  "itemCompare v = None \<Longrightarrow> k \<le> length (items v) \<Longrightarrow> insert_sv item (int k) caller v =
     Inr (int k, ItemInserted \<lparr>ev_item = item, ev_index = int k, ev_caller = caller\<rparr>,
          itemsChanged (v\<lparr>items := vec_insert k item (items v)\<rparr>))"
  by (simp add: insert_sv_def)

lemma append_sv_unsorted:
  "itemCompare v = None \<Longrightarrow> append_sv item caller v =
     Inr (int (length (items v)),
          ItemInserted \<lparr>ev_item = item, ev_index = int (length (items v)), ev_caller = caller\<rparr>,
          itemsChanged (v\<lparr>items := items v @ [item]\<rparr>))"
  by (simp add: append_sv_def insert_sv_def vec_insert_end)

lemma removeAt_sv_nat:
  "k < length (items v) \<Longrightarrow> removeAt_sv (int k) caller v =
     Inr (ItemRemoved \<lparr>ev_item = items v ! k, ev_index = int k, ev_caller = caller\<rparr>,
          itemsChanged (v\<lparr>items := vec_erase k (items v)\<rparr>))"
  by (simp add: removeAt_sv_def)

lemma insert_sv_cases:
  assumes "insert_sv item index caller v = Inr (at, sig, w)"
  obtains k where "k \<le> length (items v)" "at = int k"
    "sig = ItemInserted \<lparr>ev_item = item, ev_index = int k, ev_caller = caller\<rparr>"
    "w = itemsChanged (v\<lparr>items := vec_insert k item (items v)\<rparr>)"
    "itemCompare v = None \<Longrightarrow> index \<noteq> - 1 \<Longrightarrow> index = int k"
    "\<And>lt. itemCompare v = Some lt \<Longrightarrow> k = lower_bound lt item (items v)"
proof (cases "itemCompare v")
  case None
  show ?thesis
  proof (cases "index = - 1")
    case True
    show ?thesis
      by (rule that[of "length (items v)"])
        (use assms None True in \<open>auto simp: insert_sv_def\<close>)
  next
    case False
    with assms None have "0 \<le> index" "index \<le> int (length (items v))"
      by (simp_all add: insert_sv_def split: if_splits)
    then show ?thesis
      by (intro that[of "nat index"])
        (use assms None False in \<open>auto simp: insert_sv_def\<close>)
  qed
next
  case (Some lt)
  show ?thesis
    by (rule that[of "lower_bound lt item (items v)"])
      (use assms Some in \<open>auto simp: insert_sv_def\<close>)
qed

lemma removeAt_sv_cases:
  assumes "removeAt_sv index caller v = Inr (sig, w)"
  obtains k where "k < length (items v)" "index = int k"
    "sig = ItemRemoved \<lparr>ev_item = items v ! k, ev_index = int k, ev_caller = caller\<rparr>"
    "w = itemsChanged (v\<lparr>items := vec_erase k (items v)\<rparr>)"
proof -
  from assms have "0 \<le> index" "index < int (length (items v))"
    by (simp_all add: removeAt_sv_def split: if_splits)
  then show thesis
    by (intro that[of "nat index"]) (use assms in \<open>auto simp: removeAt_sv_def\<close>)
qed

lemma removeLoop_spec:
  "removeLoop matcher caller v n xs =
     (case first_index matcher xs of
        None \<Rightarrow> (False, None, v)
      | Some k \<Rightarrow> (True, Some (ItemRemoved \<lparr>ev_item = xs ! k, ev_index = int (n + k), ev_caller = caller\<rparr>),
                   itemsChanged (v\<lparr>items := vec_erase (n + k) (items v)\<rparr>)))"
  by (induction matcher caller v n xs rule: removeLoop.induct)
    (auto split: option.splits)

lemma removeFirstMatching_sv_spec:
  "removeFirstMatching_sv matcher caller v =
     (case first_index matcher (items v) of
        None \<Rightarrow> (False, None, v)
      | Some k \<Rightarrow> (True, Some (ItemRemoved \<lparr>ev_item = items v ! k, ev_index = int k, ev_caller = caller\<rparr>),
                   itemsChanged (v\<lparr>items := vec_erase k (items v)\<rparr>)))"
  by (simp add: removeFirstMatching_sv_def removeLoop_spec cong: option.case_cong)

text \<open>\<open>removeFirstMatching\<close> is \<open>removeAt\<close> at the first match.\<close>

lemma removeFirstMatching_is_removeAt:
  "first_index matcher (items v) = Some k \<Longrightarrow>
   \<exists>sig w. removeAt_sv (int k) caller v = Inr (sig, w)
         \<and> removeFirstMatching_sv matcher caller v = (True, Some sig, w)"
  by (auto simp: removeFirstMatching_sv_spec removeAt_sv_def dest: first_index_Some_D)


section \<open>Sequences of operations and their observers\<close>

datatype 'i vector_op =
    Insert 'i int "nat option"
  | Append 'i "nat option"
  | RemoveAt int "nat option"
  | RemoveFirstMatching "'i \<Rightarrow> bool" "nat option"
  | Timeout

fun exec_op :: "'i vector_op \<Rightarrow> 'i signal_vector \<Rightarrow> vector_error + ('i vector_signal list \<times> 'i signal_vector)" where
  "exec_op (Insert item index caller) v =
     pbind (insert_sv item index caller v) (\<lambda>(_, sig, w). Inr ([sig], w))"
| "exec_op (Append item caller) v =
     pbind (append_sv item caller v) (\<lambda>(_, sig, w). Inr ([sig], w))"
| "exec_op (RemoveAt index caller) v =
     pbind (removeAt_sv index caller v) (\<lambda>(sig, w). Inr ([sig], w))"
| "exec_op (RemoveFirstMatching matcher caller) v =
     (case removeFirstMatching_sv matcher caller v of
        (_, None, w) \<Rightarrow> Inr ([], w) | (_, Some sig, w) \<Rightarrow> Inr ([sig], w))"
| "exec_op Timeout v = Inr ([], snd (timeout_sv v))"

fun exec_ops :: "'i vector_op list \<Rightarrow> 'i signal_vector \<Rightarrow> vector_error + ('i vector_signal list \<times> 'i signal_vector)" where
  "exec_ops [] v = Inr ([], v)"
| "exec_ops (x # xs) v =
     pbind (exec_op x v) (\<lambda>(sigs, v1). pbind (exec_ops xs v1) (\<lambda>(sigs', v2). Inr (sigs @ sigs', v2)))"

text \<open>An observer keeps a list by the signals alone; \<open>None\<close> when a signal does not fit it.\<close>

fun observe :: "'i vector_signal list \<Rightarrow> 'i list \<Rightarrow> 'i list option" where
  "observe [] xs = Some xs"
| "observe (ItemInserted ev # sigs) xs =
     (if 0 \<le> ev_index ev \<and> ev_index ev \<le> int (length xs)
      then observe sigs (vec_insert (nat (ev_index ev)) (ev_item ev) xs) else None)"
| "observe (ItemRemoved ev # sigs) xs =
     (if 0 \<le> ev_index ev \<and> ev_index ev < int (length xs) \<and> xs ! nat (ev_index ev) = ev_item ev
      then observe sigs (vec_erase (nat (ev_index ev)) xs) else None)"

lemma observe_append: "observe (s1 @ s2) xs = Option.bind (observe s1 xs) (observe s2)"
  by (induction s1 xs rule: observe.induct) simp_all

definition vector_sorted :: "'i signal_vector \<Rightarrow> bool" where
  "vector_sorted v \<longleftrightarrow> (case itemCompare v of None \<Rightarrow> True
     | Some lt \<Rightarrow> sorted_wrt (\<lambda>a b. \<not> lt b a) (items v))"

text \<open>What \<open>std::lower_bound\<close> asks of the comparison.\<close>

locale strict_weak_order =
  fixes lt :: "'i \<Rightarrow> 'i \<Rightarrow> bool"
  assumes asym: "lt x y \<Longrightarrow> \<not> lt y x"
    and neg_trans: "\<not> lt x y \<Longrightarrow> \<not> lt y z \<Longrightarrow> \<not> lt x z"
begin

lemma sorted_insert_lower_bound:
  "sorted_wrt (\<lambda>a b. \<not> lt b a) xs \<Longrightarrow>
   sorted_wrt (\<lambda>a b. \<not> lt b a) (vec_insert (lower_bound lt x xs) x xs)"
proof (induction xs)
  case Nil
  then show ?case by (simp add: vec_insert_def)
next
  case (Cons y ys)
  show ?case
  proof (cases "lt y x")
    case True
    then have "\<not> lt x y" by (rule asym)
    with Cons True show ?thesis by (simp add: lower_bound_def)
  next
    case False
    have "\<forall>z \<in> set ys. \<not> lt z y \<longrightarrow> \<not> lt z x"
      using neg_trans[OF _ False] by simp
    with Cons.prems False show ?thesis by (simp add: lower_bound_def)
  qed
qed

lemma lower_bound_splits:
  assumes "sorted_wrt (\<lambda>a b. \<not> lt b a) xs"
  shows "(\<forall>y \<in> set (take (lower_bound lt x xs) xs). lt y x)
       \<and> (\<forall>y \<in> set (drop (lower_bound lt x xs) xs). \<not> lt y x)"
  unfolding take_lower_bound drop_lower_bound using assms
proof (induction xs)
  case (Cons y ys)
  show ?case
  proof (cases "lt y x")
    case True
    have "sorted_wrt (\<lambda>a b. \<not> lt b a) ys" using Cons.prems by simp
    from Cons.IH[OF this] True show ?thesis
      unfolding takeWhile.simps dropWhile.simps if_P[OF True] list.set by blast
  next
    case False
    from Cons.prems have "\<And>z. z \<in> set ys \<Longrightarrow> \<not> lt z x"
      using neg_trans[OF _ False] by simp
    with False show ?thesis by auto
  qed
qed simp

end

lemma sorted_vec_erase: "sorted_wrt P xs \<Longrightarrow> sorted_wrt P (vec_erase k xs)"
proof (induction xs arbitrary: k)
  case (Cons x xs)
  then show ?case
    by (cases k) (auto dest: subsetD[OF set_vec_erase])
qed (simp add: vec_erase_def)

text \<open>One operation: the signals it emits carry an observer from the items before to the items
  after.\<close>

lemma exec_op_observed:
  assumes "exec_op x v = Inr (sigs, w)"
  shows "observe sigs (items v) = Some (items w)" "itemCompare w = itemCompare v"
    "readOnly v = items v \<Longrightarrow> readOnly w = items w"
proof -
  have "observe sigs (items v) = Some (items w) \<and> itemCompare w = itemCompare v
      \<and> (readOnly v = items v \<longrightarrow> readOnly w = items w)"
  proof (cases x)
    case (Insert item index caller)
    with assms obtain at sig where "insert_sv item index caller v = Inr (at, sig, w)" "sigs = [sig]"
      by (auto simp: pbind_Inr_iff)
    then show ?thesis by (auto elim!: insert_sv_cases)
  next
    case (Append item caller)
    with assms obtain at sig where "insert_sv item (- 1) caller v = Inr (at, sig, w)" "sigs = [sig]"
      by (auto simp: pbind_Inr_iff append_sv_def)
    then show ?thesis by (auto elim!: insert_sv_cases)
  next
    case (RemoveAt index caller)
    with assms obtain sig where "removeAt_sv index caller v = Inr (sig, w)" "sigs = [sig]"
      by (auto simp: pbind_Inr_iff)
    then show ?thesis by (auto elim!: removeAt_sv_cases)
  next
    case (RemoveFirstMatching matcher caller)
    with assms show ?thesis
      by (auto simp: removeFirstMatching_sv_spec split: option.splits dest: first_index_Some_D)
  next
    case Timeout
    with assms show ?thesis by (auto simp: timeout_sv_def)
  qed
  then show "observe sigs (items v) = Some (items w)" "itemCompare w = itemCompare v"
    "readOnly v = items v \<Longrightarrow> readOnly w = items w" by simp_all
qed


lemma exec_op_keeps_sorted:
  assumes x: "exec_op x v = Inr (sigs, w)" and v: "vector_sorted v"
    and cmp: "\<And>lt. itemCompare v = Some lt \<Longrightarrow> strict_weak_order lt"
  shows "vector_sorted w"
  using v
proof (cases "itemCompare v")
  case (Some lt)
  then have sorted: "sorted_wrt (\<lambda>a b. \<not> lt b a) (items v)"
    using v by (simp add: vector_sorted_def)
  have w: "itemCompare w = Some lt" using exec_op_observed(2)[OF x] Some by simp
  note inserts = strict_weak_order.sorted_insert_lower_bound[OF cmp[OF Some] sorted]
  have ins: "sorted_wrt (\<lambda>a b. \<not> lt b a) (items w)"
    if "insert_sv item index caller v = Inr (at, sig, w)" for item index caller at sig
    using that Some by (auto elim!: insert_sv_cases intro: inserts)
  show ?thesis unfolding vector_sorted_def w option.case
  proof (cases x)
    case (Insert item index caller)
    with x show "sorted_wrt (\<lambda>a b. \<not> lt b a) (items w)"
      by (auto simp: pbind_Inr_iff intro: ins)
  next
    case (Append item caller)
    with x show "sorted_wrt (\<lambda>a b. \<not> lt b a) (items w)"
      by (auto simp: pbind_Inr_iff append_sv_def intro: ins)
  next
    case (RemoveAt index caller)
    with x sorted show "sorted_wrt (\<lambda>a b. \<not> lt b a) (items w)"
      by (auto simp: pbind_Inr_iff intro: sorted_vec_erase elim!: removeAt_sv_cases)
  next
    case (RemoveFirstMatching matcher caller)
    with x sorted show "sorted_wrt (\<lambda>a b. \<not> lt b a) (items w)"
      by (auto simp: removeFirstMatching_sv_spec intro: sorted_vec_erase split: option.splits)
  next
    case Timeout
    with x sorted show "sorted_wrt (\<lambda>a b. \<not> lt b a) (items w)"
      by (auto simp: timeout_sv_def)
  qed
qed (use exec_op_observed(2)[OF x] in \<open>simp add: vector_sorted_def\<close>)

lemma exec_ops_observed:
  assumes "exec_ops xs v = Inr (sigs, w)" "readOnly v = items v" "vector_sorted v"
    and "\<And>lt. itemCompare v = Some lt \<Longrightarrow> strict_weak_order lt"
  shows "observe sigs (items v) = Some (items w) \<and> readOnly w = items w \<and> vector_sorted w"
  using assms
proof (induction xs arbitrary: v sigs)
  case (Cons x xs)
  from Cons.prems(1) obtain s1 v1 s2 where step: "exec_op x v = Inr (s1, v1)"
    and rest: "exec_ops xs v1 = Inr (s2, w)" and sigs: "sigs = s1 @ s2"
    by (auto simp: pbind_Inr_iff)
  note one = exec_op_observed[OF step]
  have "vector_sorted v1"
    by (rule exec_op_keeps_sorted[OF step Cons.prems(3,4)])
  with Cons.IH[OF rest] Cons.prems one show ?case by (simp add: sigs observe_append)
qed simp

text \<open>C21. Whoever applies the signals of a vector in order, starting from an empty list, holds the
  vector's items after any sequence of insertions and removals; the copy handed to other threads is
  always equal to the items, and a vector with a comparison that is a strict weak order stays
  sorted by it.\<close>

theorem observers_hold_the_items:
  assumes "exec_ops xs (SignalVector cmp) = Inr (sigs, v)"
    and "\<And>lt. cmp = Some lt \<Longrightarrow> strict_weak_order lt"
  shows "observe sigs [] = Some (items v) \<and> readOnly v = items v
    \<and> (\<forall>lt. cmp = Some lt \<longrightarrow> sorted_wrt (\<lambda>a b. \<not> lt b a) (items v))"
proof -
  have cmp: "itemCompare v = cmp" if "exec_ops xs u = Inr (sigs, v)" "itemCompare u = cmp"
    for xs u and sigs :: "'a vector_signal list"
    using that
    by (induction xs arbitrary: u sigs) (auto simp: pbind_Inr_iff dest: exec_op_observed(2))
  have "observe sigs [] = Some (items v) \<and> readOnly v = items v \<and> vector_sorted v"
    using exec_ops_observed[OF assms(1)] assms(2)
    by (auto simp: SignalVector_def vector_sorted_def split: option.splits)
  moreover have "itemCompare v = cmp" by (rule cmp[OF assms(1)]) (simp add: SignalVector_def)
  ultimately show ?thesis by (auto simp: vector_sorted_def)
qed

theorem observers_hold_the_items_witness:
  "\<exists>sigs v. exec_ops [Append 3 None, Append (1::nat) None, Insert 2 0 (Some 0), RemoveFirstMatching (\<lambda>x. x = 1) None]
       (SignalVector (Some (<))) = Inr (sigs, v)
     \<and> items v = [2, 3] \<and> observe sigs [] = Some (items v)"
proof -
  obtain sigs v where run: "exec_ops [Append 3 None, Append (1::nat) None, Insert 2 0 (Some 0), RemoveFirstMatching (\<lambda>x. x = 1) None]
       (SignalVector (Some (<))) = Inr (sigs, v)" and v: "items v = [2, 3]"
    by (simp add: SignalVector_def append_sv_def insert_sv_def lower_bound_def vec_insert_def
        vec_erase_def removeFirstMatching_sv_def itemsChanged_def)
  have "strict_weak_order ((<) :: nat \<Rightarrow> nat \<Rightarrow> bool)" by unfold_locales auto
  with observers_hold_the_items[OF run] have "observe sigs [] = Some (items v)" by simp
  with run v show ?thesis by blast
qed

end
