(* ===== verification/TableModel.thy ===== *)
theory TableModel
  imports SignalVector
begin

text \<open>
  \<open>SignalVectorModel\<close> of \<open>src/common/SignalVectorModel.hpp\<close>, the table model that shows a
  \<open>SignalVector\<close> on a settings page, and the cells of \<open>src/util/StandardItemHelper.hpp\<close>.

  A \<open>table_model\<close> has its rows (cells, the vector item a row was made from, and whether the row is a
  custom row that has no vector item), its headers and the members of the derived class.  The
  virtual functions of the derived class are the fields of \<open>model_class\<close>; the definitions take them as
  an argument.  A \<open>table_system\<close> is one vector with all the table models connected to it; the
  identity of a model, the \<open>caller\<close> of an operation, is its number.

  \<open>getVectorIndexFromModelIndex\<close> and \<open>getModelIndexFromVectorIndex\<close> are the loops of the source.
  The lemmas show that they are inverse on the rows that are not custom, and what each signal does to
  the rows.
\<close>

section \<open>Cells\<close>

datatype item_role = DisplayRole | DecorationRole | EditRole | FontRole | CheckStateRole | UserRole

datatype item_flag = ItemIsSelectable | ItemIsEditable | ItemIsDragEnabled | ItemIsDropEnabled
  | ItemIsUserCheckable | ItemIsEnabled

text \<open>\<open>QColor\<close>: an ARGB value or no colour, and its names \<open>#rrggbb\<close> and \<open>#aarrggbb\<close>.\<close>

datatype qcolor = InvalidColor | Argb nat

definition hexDigit :: "nat \<Rightarrow> char" where
  "hexDigit d = char_of (if d < 10 then 48 + d else 87 + d)"

fun hexPad :: "nat \<Rightarrow> nat \<Rightarrow> string" where
  "hexPad 0 n = []"
| "hexPad (Suc k) n = hexPad k (n div 16) @ [hexDigit (n mod 16)]"

definition argb :: "qcolor \<Rightarrow> nat" where
  "argb c = (case c of InvalidColor \<Rightarrow> 255 * 2 ^ 24 | Argb n \<Rightarrow> n)"

definition nameHexArgb :: "qcolor \<Rightarrow> string" where
  "nameHexArgb c = CHR ''#'' # hexPad 8 (argb c)"

definition nameHexRgb :: "qcolor \<Rightarrow> string" where
  "nameHexRgb c = CHR ''#'' # hexPad 6 (argb c mod 2 ^ 24)"

text \<open>\<open>QVariant\<close>: the values the tables store; a \<open>QUrl\<close> is kept as its text.\<close>

datatype qvariant = Invalid | QString string | QBool bool | QInt int | QFont string nat bool
  | QUrlV string | QColorV qcolor

definition lowerAscii :: "char \<Rightarrow> char" where
  "lowerAscii c = (if 65 \<le> code c \<and> code c \<le> 90 then char_of (code c + 32) else c)"

fun toStringQ :: "qvariant \<Rightarrow> string" where
  "toStringQ (QString s) = s"
| "toStringQ (QBool b) = (if b then ''true'' else ''false'')"
| "toStringQ (QInt i) = numberStr i"
| "toStringQ (QUrlV s) = s"
| "toStringQ (QColorV c) = (if argb c div 2 ^ 24 = 255 then nameHexRgb c else nameHexArgb c)"
| "toStringQ _ = []"

fun toBoolQ :: "qvariant \<Rightarrow> bool" where
  "toBoolQ (QBool b) = b"
| "toBoolQ (QInt i) = (i \<noteq> 0)"
| "toBoolQ (QString s) = (s \<noteq> [] \<and> s \<noteq> ''0'' \<and> map lowerAscii s \<noteq> ''false'')"
| "toBoolQ _ = False"

text \<open>\<open>QStandardItem\<close>: \<open>Qt::EditRole\<close> and \<open>Qt::DisplayRole\<close> are the same data.\<close>

record cell =
  cell_data :: "item_role \<Rightarrow> qvariant"
  cell_flags :: "item_flag set"

definition dataRole :: "item_role \<Rightarrow> item_role" where
  "dataRole role = (if role = EditRole then DisplayRole else role)"

definition QStandardItem :: cell where
  "QStandardItem = \<lparr>cell_data = (\<lambda>_. Invalid), cell_flags =
     {ItemIsSelectable, ItemIsEnabled, ItemIsEditable, ItemIsDragEnabled, ItemIsDropEnabled}\<rparr>"

definition data_cell :: "item_role \<Rightarrow> cell \<Rightarrow> qvariant" where
  "data_cell role c = cell_data c (dataRole role)"

definition setData_cell :: "qvariant \<Rightarrow> item_role \<Rightarrow> cell \<Rightarrow> cell" where
  "setData_cell v role c = c\<lparr>cell_data := (cell_data c)(dataRole role := v)\<rparr>"

definition setFlags :: "item_flag set \<Rightarrow> cell \<Rightarrow> cell" where
  "setFlags flags c = c\<lparr>cell_flags := flags\<rparr>"

definition setCheckState :: "bool \<Rightarrow> cell \<Rightarrow> cell" where
  "setCheckState checked c = setData_cell (QInt (if checked then 2 else 0)) CheckStateRole c"

definition defaultItemFlags :: "bool \<Rightarrow> item_flag set" where
  "defaultItemFlags selectable =
     {ItemIsEnabled} \<union>
     (if selectable then {ItemIsSelectable, ItemIsDragEnabled, ItemIsDropEnabled} else {})"

definition setBoolItem :: "bool \<Rightarrow> bool \<Rightarrow> bool \<Rightarrow> cell \<Rightarrow> cell" where
  "setBoolItem v userCheckable selectable c =
     setCheckState v (setFlags (defaultItemFlags selectable \<union>
       (if userCheckable then {ItemIsUserCheckable} else {})) c)"

definition setStringItem :: "string \<Rightarrow> bool \<Rightarrow> bool \<Rightarrow> cell \<Rightarrow> cell" where
  "setStringItem v editable selectable c =
     setFlags (defaultItemFlags selectable \<union> (if editable then {ItemIsEditable} else {}))
       (setData_cell (QString v) EditRole c)"

definition setFilePathItem :: "string \<Rightarrow> string \<Rightarrow> bool \<Rightarrow> cell \<Rightarrow> cell" where
  "setFilePathItem url fileName selectable c =
     setFlags (defaultItemFlags selectable \<union> (if selectable then {ItemIsSelectable} else {}))
       (setData_cell (QString fileName) DisplayRole (setData_cell (QUrlV url) UserRole c))"

definition setColorItem :: "qcolor \<Rightarrow> bool \<Rightarrow> cell \<Rightarrow> cell" where
  "setColorItem v selectable c =
     setFlags (defaultItemFlags selectable \<union> (if selectable then {ItemIsSelectable} else {}))
       (setData_cell (QColorV v) DecorationRole c)"

definition emptyItem :: cell where
  "emptyItem = setFlags {} QStandardItem"

lemmas cell_defs = data_cell_def setData_cell_def setFlags_def setCheckState_def dataRole_def

lemma data_setStringItem [simp]:
  "data_cell DisplayRole (setStringItem s editable selectable c) = QString s"
  "data_cell EditRole (setStringItem s editable selectable c) = QString s"
  by (simp_all add: setStringItem_def cell_defs)

lemma data_setBoolItem [simp]:
  "toBoolQ (data_cell CheckStateRole (setBoolItem b checkable selectable c)) = b"
  by (simp add: setBoolItem_def cell_defs)

section \<open>Table models\<close>

record 'i row =
  row_items :: "cell list"
  original :: "'i option"
  isCustomRow :: bool

record ('i, 's) table_model =
  rows :: "'i row list"
  headerData :: "(item_role \<Rightarrow> qvariant option) list"
  members :: 's

record ('i, 's) model_class =
  columnCount :: nat
  getItemFromRow :: "cell list \<Rightarrow> 'i \<Rightarrow> cell list \<times> 'i"
  getRowFromItem :: "'i \<Rightarrow> cell list \<Rightarrow> cell list"
  beforeInsert :: "'i \<Rightarrow> int \<Rightarrow> ('i, 's) table_model \<Rightarrow> vector_error + (int \<times> ('i, 's) table_model)"
  afterRemoved :: "'i \<Rightarrow> int \<Rightarrow> ('i, 's) table_model \<Rightarrow> vector_error + ('i, 's) table_model"
  customRowSetData :: "cell list \<Rightarrow> nat \<Rightarrow> qvariant \<Rightarrow> item_role \<Rightarrow> nat \<Rightarrow> 's \<Rightarrow> 's"
  afterInit :: "('i, 's) table_model \<Rightarrow> vector_error + ('i, 's) table_model"

definition SignalVectorModel :: "('i, 's) model_class \<Rightarrow> 's \<Rightarrow> ('i, 's) table_model" where
  "SignalVectorModel H s = \<lparr>rows = [], headerData = replicate (columnCount H) (\<lambda>_. None), members = s\<rparr>"

definition createRow :: "('i, 's) model_class \<Rightarrow> cell list" where
  "createRow H = replicate (columnCount H) QStandardItem"

text \<open>The default implementations of the virtual functions.\<close>

definition beforeInsert_default ::
  "'i \<Rightarrow> int \<Rightarrow> ('i, 's) table_model \<Rightarrow> vector_error + (int \<times> ('i, 's) table_model)" where
  "beforeInsert_default item proposedIndex m = Inr (proposedIndex, m)"

definition afterRemoved_default ::
  "'i \<Rightarrow> int \<Rightarrow> ('i, 's) table_model \<Rightarrow> vector_error + ('i, 's) table_model" where
  "afterRemoved_default item index m = Inr m"

definition customRowSetData_default ::
  "cell list \<Rightarrow> nat \<Rightarrow> qvariant \<Rightarrow> item_role \<Rightarrow> nat \<Rightarrow> 's \<Rightarrow> 's" where
  "customRowSetData_default row column v role rowIndex s = s"

definition afterInit_default :: "('i, 's) table_model \<Rightarrow> vector_error + ('i, 's) table_model" where
  "afterInit_default m = Inr m"

lemmas default_hooks [simp] = beforeInsert_default_def afterRemoved_default_def
  customRowSetData_default_def afterInit_default_def

text \<open>The index conversions.\<close>

fun vectorIndexLoop :: "'i row list \<Rightarrow> int \<Rightarrow> int \<Rightarrow> int" where
  "vectorIndexLoop [] index i = i"
| "vectorIndexLoop (r # rs) index i =
     (if isCustomRow r then vectorIndexLoop rs (index - 1) i
      else if i = index then i else vectorIndexLoop rs index (i + 1))"

definition getVectorIndexFromModelIndex :: "int \<Rightarrow> ('i, 's) table_model \<Rightarrow> int" where
  "getVectorIndexFromModelIndex index m = vectorIndexLoop (rows m) index 0"

fun modelIndexLoop :: "'i row list \<Rightarrow> int \<Rightarrow> int \<Rightarrow> int" where
  "modelIndexLoop [] vectorIndex modelIndex = modelIndex"
| "modelIndexLoop (r # rs) vectorIndex modelIndex =
     (let vectorIndex = (if isCustomRow r then vectorIndex + 1 else vectorIndex)
      in if modelIndex = vectorIndex then modelIndex
         else modelIndexLoop rs vectorIndex (modelIndex + 1))"

definition getModelIndexFromVectorIndex :: "int \<Rightarrow> ('i, 's) table_model \<Rightarrow> int" where
  "getModelIndexFromVectorIndex vectorIndex m = modelIndexLoop (rows m) vectorIndex 0"

text \<open>Insertion into and deletion from \<open>rows_\<close>; out of range they are undefined.\<close>

definition insertRowAt :: "'i row \<Rightarrow> int \<Rightarrow> ('i, 's) table_model \<Rightarrow> vector_error + ('i, 's) table_model" where
  "insertRowAt r index m =
     (if 0 \<le> index \<and> index \<le> int (length (rows m))
      then Inr (m\<lparr>rows := vec_insert (nat index) r (rows m)\<rparr>) else Inl OutOfRange)"

definition insertCustomRow :: "cell list \<Rightarrow> int \<Rightarrow> ('i, 's) table_model \<Rightarrow> vector_error + ('i, 's) table_model" where
  "insertCustomRow row index m =
     (if 0 \<le> index \<and> index \<le> int (length (rows m))
      then insertRowAt \<lparr>row_items = row, original = None, isCustomRow = True\<rparr> index m
      else Inl AssertionFailed)"

definition removeCustomRow :: "int \<Rightarrow> ('i, 's) table_model \<Rightarrow> vector_error + ('i, 's) table_model" where
  "removeCustomRow index m =
     (if \<not> (0 \<le> index \<and> index \<le> int (length (rows m))) then Inl AssertionFailed
      else if index = int (length (rows m)) then Inl OutOfRange
      else if \<not> isCustomRow (rows m ! nat index) then Inl AssertionFailed
      else Inr (m\<lparr>rows := vec_erase (nat index) (rows m)\<rparr>))"

text \<open>The slots connected to \<open>itemInserted\<close> and \<open>itemRemoved\<close> in \<open>initialize\<close>.\<close>

definition handleInserted ::
  "('i, 's) model_class \<Rightarrow> nat \<Rightarrow> 'i vector_event \<Rightarrow> ('i, 's) table_model \<Rightarrow> vector_error + ('i, 's) table_model" where
  "handleInserted H self ev m =
     (if ev_caller ev = Some self then Inr m
      else let index = getModelIndexFromVectorIndex (ev_index ev) m
      in if \<not> (0 \<le> index \<and> index \<le> int (length (rows m))) then Inl AssertionFailed
      else let row = getRowFromItem H (ev_item ev) (createRow H)
      in pbind (beforeInsert H (ev_item ev) index m) (\<lambda>(index', m').
           insertRowAt \<lparr>row_items = row, original = Some (ev_item ev), isCustomRow = False\<rparr> index' m'))"

definition handleRemoved ::
  "('i, 's) model_class \<Rightarrow> nat \<Rightarrow> 'i vector_event \<Rightarrow> ('i, 's) table_model \<Rightarrow> vector_error + ('i, 's) table_model" where
  "handleRemoved H self ev m =
     (if ev_caller ev = Some self then Inr m
      else let row = getModelIndexFromVectorIndex (ev_index ev) m
      in if \<not> (0 \<le> row \<and> row \<le> int (length (rows m))) then Inl AssertionFailed
      else if row = int (length (rows m)) then Inl OutOfRange
      else afterRemoved H (ev_item ev) row (m\<lparr>rows := vec_erase (nat row) (rows m)\<rparr>))"

fun initLoop ::
  "('i, 's) model_class \<Rightarrow> nat \<Rightarrow> 'i list \<Rightarrow> int \<Rightarrow> ('i, 's) table_model \<Rightarrow> vector_error + ('i, 's) table_model" where
  "initLoop H self [] i m = Inr m"
| "initLoop H self (item # vec) i m =
     pbind (handleInserted H self \<lparr>ev_item = item, ev_index = i, ev_caller = None\<rparr> m)
       (initLoop H self vec (i + 1))"

definition initialize ::
  "('i, 's) model_class \<Rightarrow> nat \<Rightarrow> 'i signal_vector \<Rightarrow> ('i, 's) table_model \<Rightarrow> vector_error + ('i, 's) table_model" where
  "initialize H self v m = pbind (initLoop H self (items v) 0 m) (afterInit H)"

section \<open>A vector and its models\<close>

record ('i, 's) table_system =
  vector :: "'i signal_vector"
  models :: "('i, 's) table_model list"

text \<open>A signal is delivered to every connected model.\<close>

fun deliver_one ::
  "('i, 's) model_class \<Rightarrow> 'i vector_signal \<Rightarrow> nat \<Rightarrow> ('i, 's) table_model \<Rightarrow> vector_error + ('i, 's) table_model" where
  "deliver_one H (ItemInserted ev) self m = handleInserted H self ev m"
| "deliver_one H (ItemRemoved ev) self m = handleRemoved H self ev m"

fun deliver ::
  "('i, 's) model_class \<Rightarrow> 'i vector_signal \<Rightarrow> nat \<Rightarrow> ('i, 's) table_model list \<Rightarrow> vector_error + ('i, 's) table_model list" where
  "deliver H sig self [] = Inr []"
| "deliver H sig self (m # ms) =
     pbind (deliver_one H sig self m) (\<lambda>m'. pbind (deliver H sig (Suc self) ms) (\<lambda>ms'. Inr (m' # ms')))"

definition vec_insert_sys ::
  "('i, 's) model_class \<Rightarrow> 'i \<Rightarrow> int \<Rightarrow> nat option \<Rightarrow> ('i, 's) table_system \<Rightarrow> vector_error + ('i, 's) table_system" where
  "vec_insert_sys H item index caller sys =
     pbind (insert_sv item index caller (vector sys)) (\<lambda>(_, sig, v).
     pbind (deliver H sig 0 (models sys)) (\<lambda>ms. Inr (sys\<lparr>vector := v, models := ms\<rparr>)))"

definition vec_removeAt_sys ::
  "('i, 's) model_class \<Rightarrow> int \<Rightarrow> nat option \<Rightarrow> ('i, 's) table_system \<Rightarrow> vector_error + ('i, 's) table_system" where
  "vec_removeAt_sys H index caller sys =
     pbind (removeAt_sv index caller (vector sys)) (\<lambda>(sig, v).
     pbind (deliver H sig 0 (models sys)) (\<lambda>ms. Inr (sys\<lparr>vector := v, models := ms\<rparr>)))"

definition vec_removeFirstMatching_sys ::
  "('i, 's) model_class \<Rightarrow> ('i \<Rightarrow> bool) \<Rightarrow> nat option \<Rightarrow> ('i, 's) table_system \<Rightarrow> vector_error + ('i, 's) table_system" where
  "vec_removeFirstMatching_sys H matcher caller sys =
     (case removeFirstMatching_sv matcher caller (vector sys) of
        (_, None, v) \<Rightarrow> Inr (sys\<lparr>vector := v\<rparr>)
      | (_, Some sig, v) \<Rightarrow>
          pbind (deliver H sig 0 (models sys)) (\<lambda>ms. Inr (sys\<lparr>vector := v, models := ms\<rparr>)))"

text \<open>A new model is connected: \<open>createModel\<close> of the controllers.\<close>

definition createModel_sys ::
  "('i, 's) model_class \<Rightarrow> 's \<Rightarrow> ('i, 's) table_system \<Rightarrow> vector_error + ('i, 's) table_system" where
  "createModel_sys H s sys =
     pbind (initialize H (length (models sys)) (vector sys) (SignalVectorModel H s))
       (\<lambda>m. Inr (sys\<lparr>models := models sys @ [m]\<rparr>))"

section \<open>The operations of the view\<close>

definition validIndex :: "('i, 's) model_class \<Rightarrow> ('i, 's) table_model \<Rightarrow> int \<Rightarrow> int \<Rightarrow> bool" where
  "validIndex H m row column \<longleftrightarrow>
     \<not> (row < 0 \<or> column < 0 \<or> row \<ge> int (length (rows m)) \<or> column \<ge> int (columnCount H))"

definition rowCount :: "('i, 's) table_model \<Rightarrow> int" where
  "rowCount m = int (length (rows m))"

definition data_model ::
  "('i, 's) model_class \<Rightarrow> int \<Rightarrow> int \<Rightarrow> item_role \<Rightarrow> ('i, 's) table_model \<Rightarrow> qvariant" where
  "data_model H row column role m =
     (if validIndex H m row column
      then data_cell role (row_items (rows m ! nat row) ! nat column) else Invalid)"

definition flags_model ::
  "('i, 's) model_class \<Rightarrow> int \<Rightarrow> int \<Rightarrow> ('i, 's) table_model \<Rightarrow> vector_error + item_flag set" where
  "flags_model H row column m =
     (if \<not> validIndex H m row column then Inr {}
      else if columnCount H \<noteq> length (row_items (rows m ! nat row)) then Inl AssertionFailed
      else Inr (cell_flags (row_items (rows m ! nat row) ! nat column)))"

definition headerData_model ::
  "nat \<Rightarrow> bool \<Rightarrow> item_role \<Rightarrow> ('i, 's) table_model \<Rightarrow> vector_error + qvariant" where
  "headerData_model section horizontal role m =
     (if \<not> horizontal then Inr Invalid
      else if section \<ge> length (headerData m) then Inl OutOfRange
      else (case (headerData m ! section) role of None \<Rightarrow> Inr Invalid | Some v \<Rightarrow> Inr v))"

definition setHeaderData_model ::
  "nat \<Rightarrow> bool \<Rightarrow> qvariant \<Rightarrow> item_role \<Rightarrow> ('i, 's) table_model \<Rightarrow> vector_error + (bool \<times> ('i, 's) table_model)" where
  "setHeaderData_model section horizontal v role m =
     (if \<not> horizontal then Inr (False, m)
      else if section \<ge> length (headerData m) then Inl OutOfRange
      else Inr (True, m\<lparr>headerData := (headerData m)[section := (headerData m ! section)(role \<mapsto> v)]\<rparr>))"

definition update_row :: "nat \<Rightarrow> (cell list \<Rightarrow> cell list) \<Rightarrow> ('i, 's) table_model \<Rightarrow> ('i, 's) table_model" where
  "update_row k f m = m\<lparr>rows := (rows m)[k := (rows m ! k)\<lparr>row_items := f (row_items (rows m ! k))\<rparr>]\<rparr>"

definition update_model ::
  "nat \<Rightarrow> (('i, 's) table_model \<Rightarrow> ('i, 's) table_model) \<Rightarrow> ('i, 's) table_system \<Rightarrow> ('i, 's) table_system" where
  "update_model self f sys = sys\<lparr>models := (models sys)[self := f (models sys ! self)]\<rparr>"

text \<open>\<open>setData\<close>.  The cell is changed first; the row of a custom row goes to the derived class, every
  other row replaces its vector item.\<close>

definition setData_model ::
  "('i, 's) model_class \<Rightarrow> nat \<Rightarrow> int \<Rightarrow> int \<Rightarrow> qvariant \<Rightarrow> item_role \<Rightarrow> ('i, 's) table_system \<Rightarrow>
   vector_error + (bool \<times> ('i, 's) table_system)" where
  "setData_model H self row column v role sys =
     (let m = models sys ! self
      in if \<not> validIndex H m row column then Inr (False, sys)
      else let rowItem = rows m ! nat row
      in if columnCount H \<noteq> length (row_items rowItem) then Inl AssertionFailed
      else let c = nat column;
               sys1 = update_model self (update_row (nat row) (\<lambda>cs. cs[c := setData_cell v role (cs ! c)])) sys
      in if isCustomRow rowItem
      then Inr (True, update_model self (\<lambda>m1. m1\<lparr>members :=
             customRowSetData H (row_items (rows m1 ! nat row)) c v role (nat row) (members m1)\<rparr>) sys1)
      else let vecRow = getVectorIndexFromModelIndex row m
      in if vecRow \<ge> int (length (readOnly (vector sys1))) then Inr (False, sys1)
      else pbind (vec_removeAt_sys H vecRow (Some self) sys1) (\<lambda>sys2.
        let m2 = models sys2 ! self
        in case original (rows m2 ! nat row) of
             None \<Rightarrow> Inl AssertionFailed
           | Some orig \<Rightarrow>
             (let (cells, item) = getItemFromRow H (row_items (rows m2 ! nat row)) orig
              in pbind (vec_insert_sys H item vecRow (Some self)
                         (update_model self (update_row (nat row) (\<lambda>_. cells)) sys2))
                   (\<lambda>sys3. Inr (True, sys3)))))"

definition deleteRow ::
  "('i, 's) model_class \<Rightarrow> nat \<Rightarrow> int \<Rightarrow> ('i, 's) table_system \<Rightarrow> vector_error + ('i, 's) table_system" where
  "deleteRow H self row sys =
     vec_removeAt_sys H (getVectorIndexFromModelIndex row (models sys ! self)) None sys"

definition removeRows ::
  "('i, 's) model_class \<Rightarrow> nat \<Rightarrow> int \<Rightarrow> int \<Rightarrow> ('i, 's) table_system \<Rightarrow>
   vector_error + (bool \<times> ('i, 's) table_system)" where
  "removeRows H self row cnt sys =
     (if cnt \<noteq> 1 then Inr (False, sys)
      else if \<not> (0 \<le> row \<and> row < rowCount (models sys ! self)) then Inl AssertionFailed
      else pbind (vec_removeAt_sys H (getVectorIndexFromModelIndex row (models sys ! self)) None sys)
             (\<lambda>sys'. Inr (True, sys')))"

definition moveRows ::
  "('i, 's) model_class \<Rightarrow> nat \<Rightarrow> int \<Rightarrow> int \<Rightarrow> int \<Rightarrow> ('i, 's) table_system \<Rightarrow>
   vector_error + (bool \<times> ('i, 's) table_system)" where
  "moveRows H self sourceRow cnt destinationChild sys =
     (if cnt \<noteq> 1 then Inr (False, sys)
      else let m = models sys ! self
      in if \<not> (0 \<le> sourceRow \<and> sourceRow < rowCount m) then Inl AssertionFailed
      else let signalVectorRow = getVectorIndexFromModelIndex sourceRow m; k = nat sourceRow
      in case original (rows m ! k) of
           None \<Rightarrow> Inl BadOptionalAccess
         | Some orig \<Rightarrow>
           (let (cells, item) = getItemFromRow H (row_items (rows m ! k)) orig
            in pbind (vec_removeAt_sys H signalVectorRow None
                        (update_model self (update_row k (\<lambda>_. cells)) sys)) (\<lambda>sys1.
               pbind (vec_insert_sys H item
                        (getVectorIndexFromModelIndex destinationChild (models sys1 ! self)) None sys1)
                 (\<lambda>sys2. Inr (True, sys2)))))"

text \<open>Drag and drop: the rows of the dragged indices, and the mime data if it has the format of a row
  number.\<close>

definition mimeData_model :: "int list \<Rightarrow> vector_error + string option" where
  "mimeData_model idxs =
     (if length idxs = 1 then Inr None
      else if \<exists>x \<in> set idxs. x \<noteq> hd idxs then Inr None
      else if idxs = [] then Inl OutOfRange
      else Inr (Some (numberStr (hd idxs))))"

definition dropMimeData ::
  "('i, 's) model_class \<Rightarrow> nat \<Rightarrow> string option \<Rightarrow> bool \<Rightarrow> int \<Rightarrow> ('i, 's) table_system \<Rightarrow>
   vector_error + (bool \<times> ('i, 's) table_system)" where
  "dropMimeData H self mime moveOrCopy to sys =
     (case mime of
        None \<Rightarrow> Inr (False, sys)
      | Some bytes \<Rightarrow>
        if \<not> moveOrCopy then Inr (False, sys)
        else let from = (case toIntOk bytes of None \<Rightarrow> 0 | Some i \<Rightarrow> i);
                 vectorFrom = getVectorIndexFromModelIndex from (models sys ! self);
                 vectorTo = getVectorIndexFromModelIndex to (models sys ! self);
                 size = int (length (items (vector sys)))
        in if vectorFrom > size \<or> vectorTo > size then Inr (False, sys)
        else if from \<noteq> to
        then pbind (moveRows H self from 1 to sys) (\<lambda>(_, sys'). Inr (False, sys'))
        else Inr (False, sys))"

definition supportsDrop :: "('i, 's) table_system \<Rightarrow> bool" where
  "supportsDrop sys \<longleftrightarrow> \<not> isSorted (vector sys)"

text \<open>The buttons of \<open>EditableModelView\<close>: \<open>Remove\<close> on the selected rows, from the last to the
  first, and \<open>Move up\<close> / \<open>Move down\<close> on the selected row.\<close>

fun removeSelected ::
  "('i, 's) model_class \<Rightarrow> nat \<Rightarrow> int list \<Rightarrow> ('i, 's) table_system \<Rightarrow> vector_error + ('i, 's) table_system" where
  "removeSelected H self [] sys = Inr sys"
| "removeSelected H self (row # rest) sys =
     pbind (removeRows H self row 1 sys) (\<lambda>(_, sys'). removeSelected H self rest sys')"

definition removeButton ::
  "('i, 's) model_class \<Rightarrow> nat \<Rightarrow> int list \<Rightarrow> ('i, 's) table_system \<Rightarrow> vector_error + ('i, 's) table_system" where
  "removeButton H self selected sys = removeSelected H self (rev (sort selected)) sys"

definition moveRowButton ::
  "('i, 's) model_class \<Rightarrow> nat \<Rightarrow> int list \<Rightarrow> int \<Rightarrow> ('i, 's) table_system \<Rightarrow> vector_error + ('i, 's) table_system" where
  "moveRowButton H self selected dir sys =
     (case selected of
        [] \<Rightarrow> Inr sys
      | row # _ \<Rightarrow>
        if row + dir \<ge> rowCount (models sys ! self) \<or> row + dir < 0 then Inr sys
        else pbind (moveRows H self row (int (length selected)) (row + dir) sys)
               (\<lambda>(_, sys'). Inr sys'))"


section \<open>Index conversions\<close>

abbreviation real_row :: "'i row \<Rightarrow> bool" where
  "real_row r \<equiv> \<not> isCustomRow r"

definition realRows :: "('i, 's) table_model \<Rightarrow> 'i row list" where
  "realRows m = filter real_row (rows m)"

text \<open>The position of the \<open>k\<close>-th row that is not custom.\<close>

fun realPos :: "'i row list \<Rightarrow> nat \<Rightarrow> nat" where
  "realPos [] k = 0"
| "realPos (r # rs) k =
     (if isCustomRow r then Suc (realPos rs k) else if k = 0 then 0 else Suc (realPos rs (k - 1)))"

lemma modelIndexLoop_realPos: "modelIndexLoop rs (j + int k) j = j + int (realPos rs k)"
proof (induction rs arbitrary: j k)
  case (Cons r rs)
  show ?case
  proof (cases "isCustomRow r")
    case True
    then show ?thesis using Cons[of "j + 1" k] by (simp add: Let_def algebra_simps)
  next
    case False
    then show ?thesis using Cons[of "j + 1" "k - 1"] by (cases k) (simp_all add: Let_def algebra_simps)
  qed
qed simp

lemma getModelIndex_realPos: "getModelIndexFromVectorIndex (int k) m = int (realPos (rows m) k)"
  using modelIndexLoop_realPos[of "rows m" 0 k] by (simp add: getModelIndexFromVectorIndex_def)

lemma realPos_le: "realPos rs k \<le> length rs"
  by (induction rs k rule: realPos.induct) auto

lemma realPos_real:
  "k < length (filter real_row rs) \<Longrightarrow>
   realPos rs k < length rs \<and> real_row (rs ! realPos rs k) \<and> rs ! realPos rs k = filter real_row rs ! k"
proof (induction rs k rule: realPos.induct)
  case (2 r rs k)
  then show ?case by (cases k) (auto split: if_splits)
qed simp

lemma realPos_end: "length (filter real_row rs) \<le> k \<Longrightarrow> realPos rs k = length rs"
  by (induction rs k rule: realPos.induct) (auto split: if_splits)

lemma filter_insert_realPos:
  "real_row r \<Longrightarrow> k \<le> length (filter real_row rs) \<Longrightarrow>
   filter real_row (vec_insert (realPos rs k) r rs) = vec_insert k r (filter real_row rs)"
proof (induction rs k rule: realPos.induct)
  case (1 k)
  then show ?case by (simp add: vec_insert_def)
next
  case (2 a rs k)
  then show ?case by (cases k) (auto split: if_splits)
qed

lemma filter_erase_realPos:
  "k < length (filter real_row rs) \<Longrightarrow>
   filter real_row (vec_erase (realPos rs k) rs) = vec_erase k (filter real_row rs)"
proof (induction rs k rule: realPos.induct)
  case (2 a rs k)
  then show ?case by (cases k) (auto split: if_splits)
qed simp

lemma vectorIndexLoop_real:
  "p < length rs \<Longrightarrow> real_row (rs ! p) \<Longrightarrow>
   vectorIndexLoop rs (i + int p) i = i + int (length (filter real_row (take p rs)))"
proof (induction rs arbitrary: p i)
  case (Cons r rs)
  show ?case
  proof (cases p)
    case 0
    with Cons.prems show ?thesis by simp
  next
    case (Suc q)
    with Cons.prems Cons.IH[of q i] Cons.IH[of q "i + 1"] show ?thesis
      by (simp add: algebra_simps)
  qed
qed simp

text \<open>At a custom row, and outside the table, the loop runs to the end.\<close>

lemma vectorIndexLoop_past:
  "p < 0 \<Longrightarrow> vectorIndexLoop rs (i + p) i = i + int (length (filter real_row rs))"
proof (induction rs arbitrary: p i)
  case (Cons r rs)
  from Cons.prems Cons.IH[of "p - 1" i] Cons.IH[of "p - 1" "i + 1"] show ?case
    by (simp add: algebra_simps)
qed simp

lemma vectorIndexLoop_custom:
  "(p < length rs \<Longrightarrow> isCustomRow (rs ! p)) \<Longrightarrow>
   vectorIndexLoop rs (i + int p) i = i + int (length (filter real_row rs))"
proof (induction rs arbitrary: p i)
  case (Cons r rs)
  show ?case
  proof (cases p)
    case 0
    with Cons.prems vectorIndexLoop_past[of "- 1" rs i] show ?thesis by simp
  next
    case (Suc q)
    with Cons.prems Cons.IH[of q i] Cons.IH[of q "i + 1"] show ?thesis
      by (simp add: algebra_simps)
  qed
qed simp

definition realIndex :: "'i row list \<Rightarrow> nat \<Rightarrow> nat" where
  "realIndex rs p = length (filter real_row (take p rs))"

lemma realIndex_less: "p < length rs \<Longrightarrow> real_row (rs ! p) \<Longrightarrow> realIndex rs p < length (filter real_row rs)"
proof -
  assume p: "p < length rs" "real_row (rs ! p)"
  have "filter real_row rs = filter real_row (take p rs) @ filter real_row (drop p rs)"
    by (simp flip: filter_append)
  moreover have "filter real_row (drop p rs) \<noteq> []"
    using p by (simp add: Cons_nth_drop_Suc[symmetric])
  ultimately show ?thesis by (simp add: realIndex_def)
qed

lemma realPos_realIndex: "p < length rs \<Longrightarrow> real_row (rs ! p) \<Longrightarrow> realPos rs (realIndex rs p) = p"
proof (induction rs arbitrary: p)
  case (Cons r rs)
  then show ?case by (cases p) (auto simp: realIndex_def)
qed simp

lemma realIndex_realPos: "k < length (filter real_row rs) \<Longrightarrow> realIndex rs (realPos rs k) = k"
proof (induction rs k rule: realPos.induct)
  case (2 r rs k)
  then show ?case by (cases k) (auto simp: realIndex_def split: if_splits)
qed simp

lemma getVectorIndex_real:
  "p < length (rows m) \<Longrightarrow> real_row (rows m ! p) \<Longrightarrow>
   getVectorIndexFromModelIndex (int p) m = int (realIndex (rows m) p)"
  using vectorIndexLoop_real[of p "rows m" 0]
  by (simp add: getVectorIndexFromModelIndex_def realIndex_def)

lemma getVectorIndex_custom:
  "(p < length (rows m) \<Longrightarrow> isCustomRow (rows m ! p)) \<Longrightarrow>
   getVectorIndexFromModelIndex (int p) m = int (length (realRows m))"
  using vectorIndexLoop_custom[of p "rows m" 0]
  by (simp add: getVectorIndexFromModelIndex_def realRows_def)

lemma getVectorIndex_negative:
  "p < 0 \<Longrightarrow> getVectorIndexFromModelIndex p m = int (length (realRows m))"
  using vectorIndexLoop_past[of p "rows m" 0]
  by (simp add: getVectorIndexFromModelIndex_def realRows_def)

lemma getVectorIndex_le:
  "0 \<le> getVectorIndexFromModelIndex p m \<and> getVectorIndexFromModelIndex p m \<le> int (length (realRows m))"
proof (cases "p < 0")
  case False
  then obtain q where q: "p = int q" by (metis nonneg_int_cases not_less)
  show ?thesis
  proof (cases "q < length (rows m) \<and> real_row (rows m ! q)")
    case True
    with realIndex_less[of q "rows m"] show ?thesis by (simp add: q getVectorIndex_real realRows_def)
  next
    case False
    then show ?thesis by (simp add: q getVectorIndex_custom)
  qed
qed (simp add: getVectorIndex_negative)

lemma filter_update_real:
  "p < length rs \<Longrightarrow> real_row (rs ! p) \<Longrightarrow> real_row r \<Longrightarrow>
   filter real_row (rs[p := r]) = (filter real_row rs)[realIndex rs p := r]"
proof (induction rs arbitrary: p)
  case (Cons a rs)
  then show ?case by (cases p) (auto simp: realIndex_def)
qed simp

lemma filter_update_custom:
  "p < length rs \<Longrightarrow> isCustomRow (rs ! p) \<Longrightarrow> isCustomRow r \<Longrightarrow>
   filter real_row (rs[p := r]) = filter real_row rs"
proof (induction rs arbitrary: p)
  case (Cons a rs)
  then show ?case by (cases p) auto
qed simp

lemma nth_realRows_realIndex:
  "p < length (rows m) \<Longrightarrow> real_row (rows m ! p) \<Longrightarrow> realRows m ! realIndex (rows m) p = rows m ! p"
  using realPos_real[of "realIndex (rows m) p" "rows m"] realPos_realIndex[of p "rows m"] realIndex_less[of p "rows m"]
  by (simp add: realRows_def)


text \<open>The two index conversions of a table model are inverse to each other on the rows that show a
  vector item, and a custom row or an index outside the table converts to the number of such rows.\<close>

theorem index_conversions_inverse:
  "(k < length (realRows m) \<longrightarrow>
      (\<exists>p < length (rows m). getModelIndexFromVectorIndex (int k) m = int p \<and> real_row (rows m ! p)
         \<and> rows m ! p = realRows m ! k \<and> getVectorIndexFromModelIndex (int p) m = int k))
   \<and> (p < length (rows m) \<and> real_row (rows m ! p) \<longrightarrow>
      getModelIndexFromVectorIndex (getVectorIndexFromModelIndex (int p) m) m = int p)
   \<and> (\<not> (0 \<le> i \<and> i < rowCount m \<and> real_row (rows m ! nat i)) \<longrightarrow>
      getVectorIndexFromModelIndex i m = int (length (realRows m)))"
proof (intro conjI impI)
  assume k: "k < length (realRows m)"
  then have "k < length (filter real_row (rows m))" by (simp add: realRows_def)
  note facts = realPos_real[OF this] realIndex_realPos[OF this]
  then have "getVectorIndexFromModelIndex (int (realPos (rows m) k)) m = int k"
    by (subst getVectorIndex_real) (blast | simp)+
  with facts show "\<exists>p < length (rows m). getModelIndexFromVectorIndex (int k) m = int p \<and> real_row (rows m ! p)
      \<and> rows m ! p = realRows m ! k \<and> getVectorIndexFromModelIndex (int p) m = int k"
    by (intro exI[of _ "realPos (rows m) k"] conjI) (auto simp: getModelIndex_realPos realRows_def)
next
  assume "p < length (rows m) \<and> real_row (rows m ! p)"
  then show "getModelIndexFromVectorIndex (getVectorIndexFromModelIndex (int p) m) m = int p"
    by (simp add: getVectorIndex_real getModelIndex_realPos realPos_realIndex)
next
  assume i: "\<not> (0 \<le> i \<and> i < rowCount m \<and> real_row (rows m ! nat i))"
  show "getVectorIndexFromModelIndex i m = int (length (realRows m))"
  proof (cases "i < 0")
    case False
    with i getVectorIndex_custom[of "nat i" m] show ?thesis by (auto simp: rowCount_def)
  qed (rule getVectorIndex_negative)
qed

text \<open>A row with the given flag, without cells.\<close>

definition bare_row :: "bool \<Rightarrow> nat row" where
  "bare_row custom = \<lparr>row_items = [], original = (if custom then None else Some 0), isCustomRow = custom\<rparr>"

theorem index_conversions_inverse_witness:
  "\<exists>m :: (nat, unit) table_model. rows m = map bare_row [True, False, True, False]
    \<and> getModelIndexFromVectorIndex 1 m = 3 \<and> getVectorIndexFromModelIndex 3 m = 1
    \<and> getVectorIndexFromModelIndex 2 m = 2"
proof -
  let ?m = "\<lparr>rows = map bare_row [True, False, True, False], headerData = [], members = ()\<rparr>"
  have 1: "getVectorIndexFromModelIndex 2 ?m = 2"
    using index_conversions_inverse[of 1 ?m 3 2, THEN conjunct2, THEN conjunct2]
    by (simp add: realRows_def rowCount_def bare_row_def)
  have 2: "getModelIndexFromVectorIndex 1 ?m = 3" "getVectorIndexFromModelIndex 3 ?m = 1"
    by (simp_all add: getModelIndexFromVectorIndex_def getVectorIndexFromModelIndex_def bare_row_def)
  from 1 2 show ?thesis by (intro exI[of _ ?m]) simp
qed

end
