(* ===== verification/TableMirror.thy ===== *)
theory TableMirror
  imports TableModel
begin

text \<open>
  What a settings table promises: its rows, the custom rows left out, show the items of its vector in
  order.  \<open>mirrors\<close> is the abstraction relation between the rows of a model and a list of items.

  The locale \<open>row_conversion\<close> is the contract of a derived class that has no hooks of its own
  around insertion and removal: converting an item to a row and back gives the item, the conversions keep
  the number of cells.  Inside it, every operation of the view and of the vector is shown to be an operation
  on the list of items which all connected models follow.
\<close>

section \<open>Custom rows above the others\<close>

text \<open>Every class puts its custom rows, if it has any, above the rows of the vector.\<close>

definition customs_on_top :: "nat \<Rightarrow> ('i, 's) table_model \<Rightarrow> bool" where
  "customs_on_top n m \<longleftrightarrow> n \<le> length (rows m) \<and> (\<forall>i < length (rows m). isCustomRow (rows m ! i) = (i < n))"

lemma customs_on_top_split:
  assumes "customs_on_top n m"
  shows "filter real_row (take n (rows m)) = []" "filter real_row (drop n (rows m)) = drop n (rows m)"
proof -
  show "filter real_row (take n (rows m)) = []"
    using assms by (auto simp: customs_on_top_def filter_empty_conv in_set_conv_nth)
  show "filter real_row (drop n (rows m)) = drop n (rows m)"
    using assms by (auto simp: customs_on_top_def filter_id_conv in_set_conv_nth)
qed

lemma realRows_on_top: "customs_on_top n m \<Longrightarrow> realRows m = drop n (rows m)"
proof -
  assume top: "customs_on_top n m"
  have "filter real_row (rows m) = filter real_row (take n (rows m)) @ filter real_row (drop n (rows m))"
    by (simp flip: filter_append)
  then show ?thesis by (simp add: customs_on_top_split[OF top] realRows_def)
qed

lemma realIndex_on_top:
  assumes "customs_on_top n m" "p < length (rows m)" "n \<le> p"
  shows "realIndex (rows m) p = p - n"
proof -
  have "filter real_row (take p (rows m)) = take (p - n) (drop n (rows m))"
  proof -
    have "take p (rows m) = take n (rows m) @ take (p - n) (drop n (rows m))"
      using assms(3) by (metis le_add_diff_inverse take_add)
    moreover have "filter real_row (take (p - n) (drop n (rows m))) = take (p - n) (drop n (rows m))"
      using assms by (auto simp: customs_on_top_def filter_id_conv in_set_conv_nth)
    ultimately show ?thesis by (simp add: customs_on_top_split[OF assms(1)])
  qed
  then show ?thesis using assms by (simp add: realIndex_def)
qed

lemma customs_on_top_erase:
  assumes "customs_on_top n m" "p < length (rows m)" "n \<le> p"
  shows "customs_on_top n (m\<lparr>rows := vec_erase p (rows m)\<rparr>)"
proof -
  have "isCustomRow (vec_erase p (rows m) ! i) = (i < n)" if "i < length (rows m) - 1" for i
    using that assms
    by (cases "i < p") (simp_all add: customs_on_top_def vec_erase_def nth_append min_def)
  with assms show ?thesis by (simp add: customs_on_top_def)
qed

text \<open>Where the destination of a move converts to once the row is taken out.\<close>

lemma destination_on_top:
  assumes "customs_on_top n m" "p < length (rows m)" "n \<le> p" "q < length (rows m)"
  shows "getVectorIndexFromModelIndex (int q) (m\<lparr>rows := vec_erase p (rows m)\<rparr>) =
     (if q < n then int (length (rows m) - n - 1) else int (q - n))"
proof -
  let ?m = "m\<lparr>rows := vec_erase p (rows m)\<rparr>"
  note top = customs_on_top_erase[OF assms(1-3)]
  have len: "length (realRows ?m) = length (rows m) - n - 1"
    using assms(2) by (simp add: realRows_on_top[OF top])
  consider "q < n" | "n \<le> q" "q < length (rows m) - 1" | "n \<le> q" "q = length (rows m) - 1"
    using assms(4) by linarith
  then show ?thesis
  proof cases
    case 1
    then have "q < length (rows ?m) \<Longrightarrow> isCustomRow (rows ?m ! q)"
      using top by (simp only: customs_on_top_def)
    with 1 show ?thesis by (simp only: getVectorIndex_custom len if_True)
  next
    case 2
    then have q: "q < length (rows ?m)" "real_row (rows ?m ! q)"
      using top assms(2) by (simp_all add: customs_on_top_def)
    show ?thesis
      unfolding getVectorIndex_real[OF q] realIndex_on_top[OF top q(1) 2(1)] using 2(1) by simp
  next
    case 3
    then have "\<not> q < length (rows ?m)" using assms(2) by simp
    then have out: "q < length (rows ?m) \<Longrightarrow> isCustomRow (rows ?m ! q)" by blast
    from 3 assms(2) have q: "\<not> q < n" "q - n = length (rows m) - n - 1" by linarith+
    have "getVectorIndexFromModelIndex (int q) ?m = int (length (realRows ?m))"
      by (rule getVectorIndex_custom[OF out])
    then show ?thesis by (simp only: q if_False len)
  qed
qed

lemma realPos_on_top:
  assumes "customs_on_top n m" "k \<le> length (realRows m)"
  shows "realPos (rows m) k = n + k"
proof (cases "k < length (realRows m)")
  case True
  then have k: "n + k < length (rows m)" by (simp add: realRows_on_top[OF assms(1)])
  then have real: "real_row (rows m ! (n + k))" using assms(1) by (simp add: customs_on_top_def)
  have "realIndex (rows m) (n + k) = k" using realIndex_on_top[OF assms(1) k] by simp
  with realPos_realIndex[OF k real] show ?thesis by simp
next
  case False
  with assms(2) have k: "k = length (realRows m)" by simp
  have "realPos (rows m) k = length (rows m)" by (rule realPos_end) (simp add: k realRows_def)
  moreover have "n \<le> length (rows m)" using assms(1) by (simp add: customs_on_top_def)
  ultimately show ?thesis by (simp add: k realRows_on_top[OF assms(1)])
qed

lemma customs_on_top_insert:
  assumes "customs_on_top n m" "real_row r" "n \<le> p" "p \<le> length (rows m)"
  shows "customs_on_top n (m\<lparr>rows := vec_insert p r (rows m)\<rparr>)"
proof -
  have "isCustomRow (vec_insert p r (rows m) ! i) = (i < n)" if "i < Suc (length (rows m))" for i
  proof -
    consider "i < p" | "i = p" | "p < i" by linarith
    then show ?thesis
      using that assms
      by cases (simp_all add: customs_on_top_def vec_insert_def nth_append min_def nth_Cons')
  qed
  with assms show ?thesis by (simp add: customs_on_top_def)
qed

lemma customs_on_top_insert_custom:
  assumes "customs_on_top n m" "isCustomRow r" "p \<le> n"
  shows "customs_on_top (Suc n) (m\<lparr>rows := vec_insert p r (rows m)\<rparr>)"
proof -
  have n: "n \<le> length (rows m)" using assms(1) by (simp add: customs_on_top_def)
  have "isCustomRow (vec_insert p r (rows m) ! i) = (i < Suc n)" if "i < Suc (length (rows m))" for i
  proof -
    consider "i < p" | "i = p" | "p < i" by linarith
    then show ?thesis
      using that assms n
      by cases (auto simp: customs_on_top_def vec_insert_def nth_append min_def nth_Cons')
  qed
  with assms n show ?thesis by (simp add: customs_on_top_def)
qed

lemma customs_on_top_update:
  assumes "customs_on_top n m" "p < length (rows m)" "isCustomRow r = isCustomRow (rows m ! p)"
  shows "customs_on_top n (m\<lparr>rows := (rows m)[p := r]\<rparr>)"
  using assms by (auto simp: customs_on_top_def nth_list_update)

section \<open>Rows that show items\<close>

definition rowItem :: "('i, 's) model_class \<Rightarrow> 'i row \<Rightarrow> 'i" where
  "rowItem H r = snd (getItemFromRow H (row_items r) (the (original r)))"

definition good_row :: "('i, 's) model_class \<Rightarrow> ('i \<Rightarrow> bool) \<Rightarrow> 'i row \<Rightarrow> bool" where
  "good_row H ok r \<longleftrightarrow> length (row_items r) = columnCount H
     \<and> (if isCustomRow r then original r = None else \<exists>i. original r = Some i \<and> ok i)"

definition mirrors :: "('i, 's) model_class \<Rightarrow> ('i \<Rightarrow> bool) \<Rightarrow> nat \<Rightarrow> 'i list \<Rightarrow> ('i, 's) table_model \<Rightarrow> bool" where
  "mirrors H ok n xs m \<longleftrightarrow> customs_on_top n m
     \<and> map (rowItem H) (realRows m) = xs \<and> (\<forall>r \<in> set (rows m). good_row H ok r)"

definition shown :: "('i, 's) model_class \<Rightarrow> ('i \<Rightarrow> bool) \<Rightarrow> nat \<Rightarrow> ('i, 's) table_system \<Rightarrow> bool" where
  "shown H ok n sys \<longleftrightarrow> itemCompare (vector sys) = None \<and> readOnly (vector sys) = items (vector sys)
     \<and> list_all ok (items (vector sys))
     \<and> (\<forall>m \<in> set (models sys). mirrors H ok n (items (vector sys)) m)"

lemma mirrors_length: "mirrors H ok n xs m \<Longrightarrow> length (realRows m) = length xs"
  by (auto simp: mirrors_def)

lemma mirrors_row:
  assumes "mirrors H ok n xs m" "p < length (rows m)" "real_row (rows m ! p)"
  shows "realIndex (rows m) p < length xs" "rowItem H (rows m ! p) = xs ! realIndex (rows m) p"
    "good_row H ok (rows m ! p)"
proof -
  show less: "realIndex (rows m) p < length xs"
    using realIndex_less[OF assms(2,3)] mirrors_length[OF assms(1)] by (simp add: realRows_def)
  have "xs ! realIndex (rows m) p = rowItem H (realRows m ! realIndex (rows m) p)"
    using assms(1) less by (auto simp: mirrors_def)
  then show "rowItem H (rows m ! p) = xs ! realIndex (rows m) p"
    by (simp add: nth_realRows_realIndex[OF assms(2,3)])
  show "good_row H ok (rows m ! p)" using assms by (simp add: mirrors_def)
qed

lemma mirrors_members [simp]: "mirrors H ok n xs (m\<lparr>members := s\<rparr>) = mirrors H ok n xs m"
  by (simp add: mirrors_def realRows_def customs_on_top_def)

lemma mirrors_headerData [simp]: "mirrors H ok n xs (m\<lparr>headerData := h\<rparr>) = mirrors H ok n xs m"
  by (simp add: mirrors_def realRows_def customs_on_top_def)

lemma mirrors_new [simp]: "mirrors H ok 0 [] (SignalVectorModel H s)"
  by (simp add: mirrors_def realRows_def SignalVectorModel_def customs_on_top_def)

lemma mirrors_update_real:
  assumes "mirrors H ok n xs m" "p < length (rows m)" "real_row (rows m ! p)"
    "real_row r" "good_row H ok r"
  shows "mirrors H ok n (xs[realIndex (rows m) p := rowItem H r]) (m\<lparr>rows := (rows m)[p := r]\<rparr>)"
  using assms by (auto simp: mirrors_def realRows_def filter_update_real map_update
      intro!: customs_on_top_update dest!: subsetD[OF set_update_subset_insert])

lemma mirrors_update_custom:
  assumes "mirrors H ok n xs m" "p < length (rows m)" "isCustomRow (rows m ! p)"
    "isCustomRow r" "good_row H ok r"
  shows "mirrors H ok n xs (m\<lparr>rows := (rows m)[p := r]\<rparr>)"
  using assms by (auto simp: mirrors_def realRows_def filter_update_custom
      intro!: customs_on_top_update dest!: subsetD[OF set_update_subset_insert])

lemma mirrors_insertCustomRow:
  assumes m: "mirrors H ok n xs m" and row: "length row = columnCount H" and p: "p \<le> n"
  obtains m' where "insertCustomRow row (int p) m = Inr m'" "mirrors H ok (Suc n) xs m'"
    "rows m' = vec_insert p \<lparr>row_items = row, original = None, isCustomRow = True\<rparr> (rows m)"
    "members m' = members m"
proof -
  let ?r = "\<lparr>row_items = row, original = None, isCustomRow = True\<rparr> :: 'a row"
  let ?m' = "m\<lparr>rows := vec_insert p ?r (rows m)\<rparr>"
  have "filter real_row (vec_insert p ?r (rows m)) = filter real_row (rows m)"
    by (simp add: filter_vec_insert_no)
  moreover have "customs_on_top (Suc n) ?m'"
    using m p by (intro customs_on_top_insert_custom) (simp_all add: mirrors_def)
  ultimately have "mirrors H ok (Suc n) xs ?m'"
    using m row by (auto simp: mirrors_def realRows_def good_row_def)
  moreover have "insertCustomRow row (int p) m = Inr ?m'"
    using m p by (auto simp: insertCustomRow_def insertRowAt_def mirrors_def customs_on_top_def)
  ultimately show thesis using that by simp
qed

section \<open>The contract of a class of rows\<close>

locale row_conversion =
  fixes H :: "('i, 's) model_class" and ok :: "'i \<Rightarrow> bool" and top :: nat
  assumes put_get: "ok i \<Longrightarrow> snd (getItemFromRow H (getRowFromItem H i (createRow H)) i) = i"
    and row_width: "length (getRowFromItem H i cs) = length cs"
    and item_width: "length (fst (getItemFromRow H cs i)) = length cs"
    and get_again: "snd (getItemFromRow H (fst (getItemFromRow H cs i)) i) = snd (getItemFromRow H cs i)"
    and get_ok: "ok i \<Longrightarrow> length cs = columnCount H \<Longrightarrow> ok (snd (getItemFromRow H cs i))"
    and no_hooks: "beforeInsert H = beforeInsert_default" "afterRemoved H = afterRemoved_default"
    and init_mirrors: "mirrors H ok 0 xs m \<Longrightarrow> afterInit H m = Inr m' \<Longrightarrow> mirrors H ok top xs m'"
begin

lemma handleInserted_mirrors:
  assumes "mirrors H ok n xs m" "k \<le> length xs" "ok item" "caller \<noteq> Some self"
  obtains m' r where "handleInserted H self \<lparr>ev_item = item, ev_index = int k, ev_caller = caller\<rparr> m = Inr m'"
    "mirrors H ok n (vec_insert k item xs) m'"
    "rows m' = vec_insert (realPos (rows m) k) r (rows m)" "real_row r"
proof -
  let ?r = "\<lparr>row_items = getRowFromItem H item (createRow H), original = Some item, isCustomRow = False\<rparr>"
  let ?m' = "m\<lparr>rows := vec_insert (realPos (rows m) k) ?r (rows m)\<rparr>"
  have k: "k \<le> length (filter real_row (rows m))"
    using assms(2) mirrors_length[OF assms(1)] by (simp add: realRows_def)
  have "good_row H ok ?r"
    using assms(3) by (simp add: good_row_def row_width createRow_def)
  moreover have "rowItem H ?r = item" using assms(3) by (simp add: rowItem_def put_get)
  moreover have "customs_on_top n ?m'"
  proof (rule customs_on_top_insert)
    show top: "customs_on_top n m" using assms(1) by (simp add: mirrors_def)
    show "n \<le> realPos (rows m) k" using realPos_on_top[OF top] k by (simp add: realRows_def)
  qed (simp_all add: realPos_le)
  ultimately have "mirrors H ok n (vec_insert k item xs) ?m'"
    using assms(1) k by (auto simp: mirrors_def realRows_def filter_insert_realPos map_vec_insert)
  moreover have "handleInserted H self \<lparr>ev_item = item, ev_index = int k, ev_caller = caller\<rparr> m = Inr ?m'"
    using assms(4) realPos_le[of "rows m" k]
    by (simp add: handleInserted_def getModelIndex_realPos no_hooks insertRowAt_def Let_def)
  ultimately show thesis using that by simp
qed

lemma handleRemoved_mirrors:
  assumes "mirrors H ok n xs m" "k < length xs" "caller \<noteq> Some self"
  obtains m' where "handleRemoved H self \<lparr>ev_item = item, ev_index = int k, ev_caller = caller\<rparr> m = Inr m'"
    "mirrors H ok n (vec_erase k xs) m'" "rows m' = vec_erase (realPos (rows m) k) (rows m)"
proof -
  let ?m' = "m\<lparr>rows := vec_erase (realPos (rows m) k) (rows m)\<rparr>"
  have k: "k < length (filter real_row (rows m))"
    using assms(2) mirrors_length[OF assms(1)] by (simp add: realRows_def)
  have "customs_on_top n ?m'"
  proof (rule customs_on_top_erase)
    show top: "customs_on_top n m" using assms(1) by (simp add: mirrors_def)
    show "n \<le> realPos (rows m) k" using realPos_on_top[OF top, of k] k by (simp add: realRows_def)
    show "realPos (rows m) k < length (rows m)" using realPos_real[OF k] by simp
  qed
  then have "mirrors H ok n (vec_erase k xs) ?m'"
    using assms(1) k
    by (auto simp: mirrors_def realRows_def filter_erase_realPos map_vec_erase dest: subsetD[OF set_vec_erase])
  moreover have "handleRemoved H self \<lparr>ev_item = item, ev_index = int k, ev_caller = caller\<rparr> m = Inr ?m'"
    using assms(3) realPos_real[OF k] by (simp add: handleRemoved_def getModelIndex_realPos no_hooks Let_def)
  ultimately show thesis using that by simp
qed

text \<open>A signal reaches every model but the one of the caller.\<close>

lemma deliver_inserted:
  assumes "\<forall>i < length ms. caller \<noteq> Some (j + i) \<longrightarrow> mirrors H ok n xs (ms ! i)" "k \<le> length xs" "ok item"
  shows "\<exists>ms'. deliver H (ItemInserted \<lparr>ev_item = item, ev_index = int k, ev_caller = caller\<rparr>) j ms = Inr ms'
    \<and> length ms' = length ms
    \<and> (\<forall>i < length ms. if caller = Some (j + i) then ms' ! i = ms ! i
         else mirrors H ok n (vec_insert k item xs) (ms' ! i)
            \<and> (\<exists>r. real_row r \<and> rows (ms' ! i) = vec_insert (realPos (rows (ms ! i)) k) r (rows (ms ! i))))"
  using assms(1)
proof (induction ms arbitrary: j)
  case (Cons m ms)
  have head: "\<exists>m'. handleInserted H j \<lparr>ev_item = item, ev_index = int k, ev_caller = caller\<rparr> m = Inr m'
      \<and> (if caller = Some j then m' = m
         else mirrors H ok n (vec_insert k item xs) m'
            \<and> (\<exists>r. real_row r \<and> rows m' = vec_insert (realPos (rows m) k) r (rows m)))"
  proof (cases "caller = Some j")
    case True
    then show ?thesis by (simp add: handleInserted_def)
  next
    case False
    moreover from this Cons.prems have "mirrors H ok n xs m" by force
    ultimately show ?thesis using handleInserted_mirrors[of n xs m k item caller j] assms(2,3) by metis
  qed
  have "\<forall>i < length ms. caller \<noteq> Some (Suc j + i) \<longrightarrow> mirrors H ok n xs (ms ! i)"
    using Cons.prems by force
  from Cons.IH[OF this] head show ?case
    by (fastforce simp: less_Suc_eq_0_disj nth_Cons')
qed simp

lemma deliver_removed:
  assumes "\<forall>i < length ms. caller \<noteq> Some (j + i) \<longrightarrow> mirrors H ok n xs (ms ! i)" "k < length xs"
  shows "\<exists>ms'. deliver H (ItemRemoved \<lparr>ev_item = item, ev_index = int k, ev_caller = caller\<rparr>) j ms = Inr ms'
    \<and> length ms' = length ms
    \<and> (\<forall>i < length ms. if caller = Some (j + i) then ms' ! i = ms ! i
         else mirrors H ok n (vec_erase k xs) (ms' ! i)
            \<and> rows (ms' ! i) = vec_erase (realPos (rows (ms ! i)) k) (rows (ms ! i)))"
  using assms(1)
proof (induction ms arbitrary: j)
  case (Cons m ms)
  have head: "\<exists>m'. handleRemoved H j \<lparr>ev_item = item, ev_index = int k, ev_caller = caller\<rparr> m = Inr m'
      \<and> (if caller = Some j then m' = m
         else mirrors H ok n (vec_erase k xs) m' \<and> rows m' = vec_erase (realPos (rows m) k) (rows m))"
  proof (cases "caller = Some j")
    case True
    then show ?thesis by (simp add: handleRemoved_def)
  next
    case False
    moreover from this Cons.prems have "mirrors H ok n xs m" by force
    ultimately show ?thesis using handleRemoved_mirrors[of n xs m k caller j item] assms(2) by metis
  qed
  have "\<forall>i < length ms. caller \<noteq> Some (Suc j + i) \<longrightarrow> mirrors H ok n xs (ms ! i)"
    using Cons.prems by force
  from Cons.IH[OF this] head show ?case
    by (fastforce simp: less_Suc_eq_0_disj nth_Cons')
qed simp

end

section \<open>Operations on the list of items\<close>

text \<open>Every model but \<open>c\<close> shows the vector.\<close>

definition shown_but :: "('i, 's) model_class \<Rightarrow> ('i \<Rightarrow> bool) \<Rightarrow> nat \<Rightarrow> nat option \<Rightarrow> ('i, 's) table_system \<Rightarrow> bool" where
  "shown_but H ok n c sys \<longleftrightarrow> itemCompare (vector sys) = None \<and> readOnly (vector sys) = items (vector sys)
     \<and> list_all ok (items (vector sys))
     \<and> (\<forall>i < length (models sys). c \<noteq> Some i \<longrightarrow> mirrors H ok n (items (vector sys)) (models sys ! i))"

lemma shown_but_None: "shown_but H ok n None sys = shown H ok n sys"
  by (simp add: shown_but_def shown_def all_set_conv_all_nth)

lemma shown_but_self:
  "shown_but H ok n (Some self) sys \<Longrightarrow> mirrors H ok n (items (vector sys)) (models sys ! self) \<Longrightarrow> shown H ok n sys"
  by (auto simp: shown_but_def shown_def all_set_conv_all_nth)

lemma shown_update_model: "shown H ok n sys \<Longrightarrow> shown_but H ok n (Some self) (update_model self f sys)"
  by (simp add: shown_def shown_but_def update_model_def all_set_conv_all_nth)

lemma shown_but_update_model:
  "shown_but H ok n (Some self) sys \<Longrightarrow> shown_but H ok n (Some self) (update_model self f sys)"
  by (simp add: shown_but_def update_model_def)

lemma update_model_simps [simp]:
  "vector (update_model self f sys) = vector sys"
  "length (models (update_model self f sys)) = length (models sys)"
  "self < length (models sys) \<Longrightarrow> models (update_model self f sys) ! self = f (models sys ! self)"
  by (simp_all add: update_model_def)

lemma list_all_vec_insert: "ok x \<Longrightarrow> list_all ok xs \<Longrightarrow> list_all ok (vec_insert k x xs)"
  by (simp add: list_all_iff)

lemma list_all_vec_erase: "list_all ok xs \<Longrightarrow> list_all ok (vec_erase k xs)"
  by (auto simp: list_all_iff dest: subsetD[OF set_vec_erase])

context row_conversion begin

lemma insert_sys:
  assumes sys: "shown_but H ok n c sys" and k: "k \<le> length (items (vector sys))" and item: "ok item"
  obtains sys' where "vec_insert_sys H item (int k) c sys = Inr sys'"
    "items (vector sys') = vec_insert k item (items (vector sys))" "shown_but H ok n c sys'"
    "length (models sys') = length (models sys)"
    "\<And>i. i < length (models sys) \<Longrightarrow> if c = Some i then models sys' ! i = models sys ! i
       else \<exists>r. real_row r \<and> rows (models sys' ! i) = vec_insert (realPos (rows (models sys ! i)) k) r (rows (models sys ! i))"
proof -
  let ?v = "itemsChanged ((vector sys)\<lparr>items := vec_insert k item (items (vector sys))\<rparr>)"
  let ?sig = "ItemInserted \<lparr>ev_item = item, ev_index = int k, ev_caller = c\<rparr>"
  have "\<forall>i < length (models sys). c \<noteq> Some (0 + i) \<longrightarrow> mirrors H ok n (items (vector sys)) (models sys ! i)"
    using sys by (simp add: shown_but_def)
  from deliver_inserted[OF this k item] obtain ms where ms: "deliver H ?sig 0 (models sys) = Inr ms"
    "length ms = length (models sys)"
    "\<And>i. i < length (models sys) \<Longrightarrow> if c = Some i then ms ! i = models sys ! i
       else mirrors H ok n (vec_insert k item (items (vector sys))) (ms ! i)
         \<and> (\<exists>r. real_row r \<and> rows (ms ! i) = vec_insert (realPos (rows (models sys ! i)) k) r (rows (models sys ! i)))"
    by auto
  have ins: "insert_sv item (int k) c (vector sys) = Inr (int k, ?sig, ?v)"
    using sys k by (intro insert_sv_unsorted) (simp_all add: shown_but_def)
  let ?sys' = "sys\<lparr>vector := ?v, models := ms\<rparr>"
  show thesis
  proof (rule that[of ?sys'])
    show "vec_insert_sys H item (int k) c sys = Inr ?sys'"
      by (simp add: vec_insert_sys_def ins ms(1))
    show "shown_but H ok n c ?sys'"
      using sys item ms(2) ms(3) by (auto simp: shown_but_def intro: list_all_vec_insert)
  qed (use ms(2,3) in \<open>auto split: if_splits\<close>)
qed

lemma removeAt_sys:
  assumes sys: "shown_but H ok n c sys" and k: "k < length (items (vector sys))"
  obtains sys' where "vec_removeAt_sys H (int k) c sys = Inr sys'"
    "items (vector sys') = vec_erase k (items (vector sys))" "shown_but H ok n c sys'"
    "length (models sys') = length (models sys)"
    "\<And>i. i < length (models sys) \<Longrightarrow> if c = Some i then models sys' ! i = models sys ! i
       else rows (models sys' ! i) = vec_erase (realPos (rows (models sys ! i)) k) (rows (models sys ! i))"
proof -
  let ?v = "itemsChanged ((vector sys)\<lparr>items := vec_erase k (items (vector sys))\<rparr>)"
  let ?sig = "ItemRemoved \<lparr>ev_item = items (vector sys) ! k, ev_index = int k, ev_caller = c\<rparr>"
  have "\<forall>i < length (models sys). c \<noteq> Some (0 + i) \<longrightarrow> mirrors H ok n (items (vector sys)) (models sys ! i)"
    using sys by (simp add: shown_but_def)
  from deliver_removed[OF this k, of "items (vector sys) ! k"]
  obtain ms where ms: "deliver H ?sig 0 (models sys) = Inr ms" "length ms = length (models sys)"
    "\<And>i. i < length (models sys) \<Longrightarrow> if c = Some i then ms ! i = models sys ! i
       else mirrors H ok n (vec_erase k (items (vector sys))) (ms ! i)
         \<and> rows (ms ! i) = vec_erase (realPos (rows (models sys ! i)) k) (rows (models sys ! i))"
    by auto
  let ?sys' = "sys\<lparr>vector := ?v, models := ms\<rparr>"
  show thesis
  proof (rule that[of ?sys'])
    show "vec_removeAt_sys H (int k) c sys = Inr ?sys'"
      by (simp add: vec_removeAt_sys_def removeAt_sv_nat[OF k] ms(1))
    show "shown_but H ok n c ?sys'"
      using sys ms(2) ms(3) by (auto simp: shown_but_def intro: list_all_vec_erase)
  qed (use ms(2,3) in \<open>auto split: if_splits\<close>)
qed

text \<open>\<open>setData\<close> on a row that is not custom replaces its item.\<close>

lemma setData_real:
  assumes sys: "shown H ok n sys" and self: "self < length (models sys)"
    and m: "m = models sys ! self" and p: "p < length (rows m)" "real_row (rows m ! p)"
    and c: "c < columnCount H"
    and k: "k = realIndex (rows m) p"
    and item: "item = snd (getItemFromRow H ((row_items (rows m ! p))[c := setData_cell v role (row_items (rows m ! p) ! c)])
                  (the (original (rows m ! p))))"
  obtains sys' where "setData_model H self (int p) (int c) v role sys = Inr (True, sys')"
    "items (vector sys') = (items (vector sys))[k := item]" "shown H ok n sys'"
    "length (models sys') = length (models sys)"
proof -
  let ?xs = "items (vector sys)"
  let ?cells = "(row_items (rows m ! p))[c := setData_cell v role (row_items (rows m ! p) ! c)]"
  have mir: "mirrors H ok n ?xs m" using sys self by (simp add: shown_def m)
  note row = mirrors_row[OF mir p]
  obtain orig where orig: "original (rows m ! p) = Some orig" "ok orig"
    and width: "length (row_items (rows m ! p)) = columnCount H"
    using row(3) p(2) by (auto simp: good_row_def)
  have k_less: "k < length ?xs" using row(1) by (simp add: k)
  have ok_item: "ok item" unfolding item orig by (simp add: get_ok orig width)
  define sys1 where "sys1 = update_model self (update_row p (\<lambda>cs. cs[c := setData_cell v role (cs ! c)])) sys"
  have sys1: "shown_but H ok n (Some self) sys1" unfolding sys1_def by (rule shown_update_model[OF sys])
  have vec1: "vector sys1 = vector sys" and len1: "length (models sys1) = length (models sys)"
    by (simp_all add: sys1_def)
  obtain sys2 where r2: "vec_removeAt_sys H (int k) (Some self) sys1 = Inr sys2"
    and i2: "items (vector sys2) = vec_erase k ?xs" and s2: "shown_but H ok n (Some self) sys2"
    and l2: "length (models sys2) = length (models sys)" and m2: "models sys2 ! self = models sys1 ! self"
    using removeAt_sys[OF sys1, of k] k_less self unfolding vec1 len1 by metis
  have self1: "models sys2 ! self = update_row p (\<lambda>cs. cs[c := setData_cell v role (cs ! c)]) m"
    unfolding m2 using self by (simp add: sys1_def m)
  have row2: "row_items (rows (models sys2 ! self) ! p) = ?cells" "original (rows (models sys2 ! self) ! p) = Some orig"
    using p by (simp_all add: self1 update_row_def orig)
  define cells where "cells = fst (getItemFromRow H ?cells orig)"
  have conv: "getItemFromRow H ?cells orig = (cells, item)" by (simp add: cells_def item orig)
  define sys3 where "sys3 = update_model self (update_row p (\<lambda>_. cells)) sys2"
  have s3: "shown_but H ok n (Some self) sys3" unfolding sys3_def by (rule shown_but_update_model[OF s2])
  have v3: "vector sys3 = vector sys2" and l3: "length (models sys3) = length (models sys)"
    by (simp_all add: sys3_def l2)
  have "k \<le> length (items (vector sys3))" using k_less by (simp add: v3 i2)
  then obtain sys4 where r4: "vec_insert_sys H item (int k) (Some self) sys3 = Inr sys4"
    and i4: "items (vector sys4) = vec_insert k item (items (vector sys3))"
    and s4: "shown_but H ok n (Some self) sys4" and l4: "length (models sys4) = length (models sys)"
    and m4: "models sys4 ! self = models sys3 ! self"
    using insert_sys[OF s3 _ ok_item] self unfolding l3 by metis
  have items4: "items (vector sys4) = ?xs[k := item]"
    using k_less by (simp add: i4 v3 i2 vec_insert_erase_update)
  let ?row = "(rows m ! p)\<lparr>row_items := cells\<rparr>"
  have "models sys4 ! self = m\<lparr>rows := (rows m)[p := ?row]\<rparr>"
    using self p by (simp add: m4 sys3_def l2 self1 update_row_def)
  moreover have "rowItem H ?row = item"
    by (simp add: rowItem_def orig cells_def get_again) (simp add: item orig)
  moreover have "good_row H ok ?row"
    using orig width p(2) by (simp add: good_row_def cells_def item_width)
  ultimately have "mirrors H ok n (?xs[k := item]) (models sys4 ! self)"
    using mirrors_update_real[OF mir p, of ?row] p(2) by (simp add: k)
  then have shown4: "shown H ok n sys4" using shown_but_self[OF s4] items4 by simp
  have valid: "validIndex H m (int p) (int c)" using p c by (simp add: validIndex_def)
  have vecRow: "getVectorIndexFromModelIndex (int p) m = int k"
    using getVectorIndex_real[OF p] by (simp add: k)
  have "setData_model H self (int p) (int c) v role sys = Inr (True, sys4)"
    using valid vecRow width p k_less sys
    unfolding setData_model_def Let_def m[symmetric]
    by (simp add: sys1_def[symmetric] vec1 shown_def r2 row2 conv sys3_def[symmetric] r4)
  with items4 shown4 l4 that show thesis by blast
qed

end


context row_conversion begin

lemma setData_keeps_shown:
  assumes sys: "shown H ok n sys" and self: "self < length (models sys)"
    and r: "setData_model H self row column v role sys = Inr (b, sys')"
  shows "shown H ok n sys' \<and> length (models sys') = length (models sys)"
proof -
  let ?m = "models sys ! self"
  have mir: "mirrors H ok n (items (vector sys)) ?m" using sys self by (simp add: shown_def)
  show ?thesis
  proof (cases "validIndex H ?m row column")
    case False
    with r sys show ?thesis by (simp add: setData_model_def)
  next
    case valid: True
    then obtain p c where pc: "row = int p" "column = int c" "p < length (rows ?m)" "c < columnCount H"
      unfolding validIndex_def by (metis linorder_not_le nonneg_int_cases of_nat_less_iff)
    show ?thesis
    proof (cases "isCustomRow (rows ?m ! p)")
      case False
      from setData_real[OF sys self refl pc(3) False pc(4) refl refl] r show ?thesis
        by (metis pc(1,2) old.sum.inject(2) prod.inject)
    next
      case True
      let ?r = "(rows ?m ! p)\<lparr>row_items := (row_items (rows ?m ! p))[c := setData_cell v role (row_items (rows ?m ! p) ! c)]\<rparr>"
      have "good_row H ok (rows ?m ! p)" using mir pc(3) by (simp add: mirrors_def)
      then have "good_row H ok ?r" using True by (simp add: good_row_def)
      with mirrors_update_custom[OF mir pc(3) True] True
      have upd: "mirrors H ok n (items (vector sys)) (?m\<lparr>rows := (rows ?m)[p := ?r]\<rparr>)" by simp
      have "shown H ok n (update_model self f (update_model self (update_row p
              (\<lambda>cs. cs[c := setData_cell v role (cs ! c)])) sys))"
        if "\<And>m. mirrors H ok n (items (vector sys)) m \<Longrightarrow> mirrors H ok n (items (vector sys)) (f m)" for f
        using self upd
        by (intro shown_but_self[of H ok n self] shown_but_update_model shown_update_model sys)
          (simp add: update_row_def that)
      with r valid True pc show ?thesis
        by (auto simp: setData_model_def Let_def split: if_splits)
    qed
  qed
qed

text \<open>\<open>Remove\<close> erases the item of the row; on a custom row the assertion of \<open>removeAt\<close> fails.\<close>

lemma removeRows_real:
  assumes sys: "shown H ok n sys" and self: "self < length (models sys)"
    and m: "m = models sys ! self" and p: "p < length (rows m)" "real_row (rows m ! p)"
  obtains sys' where "removeRows H self (int p) 1 sys = Inr (True, sys')"
    "items (vector sys') = vec_erase (realIndex (rows m) p) (items (vector sys))" "shown H ok n sys'"
    "length (models sys') = length (models sys)"
proof -
  have mir: "mirrors H ok n (items (vector sys)) m" using sys self by (simp add: shown_def m)
  note k = mirrors_row(1)[OF mir p]
  from sys have "shown_but H ok n None sys" by (simp add: shown_but_None)
  from removeAt_sys[OF this k] obtain sys'
    where r: "vec_removeAt_sys H (int (realIndex (rows m) p)) None sys = Inr sys'"
      and s: "items (vector sys') = vec_erase (realIndex (rows m) p) (items (vector sys))"
        "shown_but H ok n None sys'" "length (models sys') = length (models sys)" by blast
  have "removeRows H self (int p) 1 sys = Inr (True, sys')"
    using p(1) by (simp add: removeRows_def m[symmetric] rowCount_def getVectorIndex_real[OF p] r)
  with s that show thesis by (simp add: shown_but_None)
qed

lemma removeAt_end: "vec_removeAt_sys H (int (length (items (vector sys)))) c sys = Inl AssertionFailed"
  by (simp add: vec_removeAt_sys_def removeAt_sv_def)

lemma removeRows_custom:
  assumes sys: "shown H ok n sys" and self: "self < length (models sys)"
    and p: "p < length (rows (models sys ! self))" "isCustomRow (rows (models sys ! self) ! p)"
  shows "removeRows H self (int p) 1 sys = Inl AssertionFailed"
proof -
  have "mirrors H ok n (items (vector sys)) (models sys ! self)" using sys self by (simp add: shown_def)
  note n = mirrors_length[OF this]
  have "getVectorIndexFromModelIndex (int p) (models sys ! self) = int (length (items (vector sys)))"
    using getVectorIndex_custom[of p "models sys ! self"] p(2) n by simp
  with p(1) show ?thesis by (simp add: removeRows_def rowCount_def removeAt_end)
qed

text \<open>A move takes the item out and inserts it where the destination converts to after that.\<close>

lemma moveRows_real:
  assumes sys: "shown H ok n sys" and self: "self < length (models sys)"
    and m: "m = models sys ! self" and p: "p < length (rows m)" "real_row (rows m ! p)"
    and k: "k = realIndex (rows m) p"
    and j: "j = getVectorIndexFromModelIndex q (m\<lparr>rows := vec_erase p (rows m)\<rparr>)"
  obtains sys' where "moveRows H self (int p) 1 q sys = Inr (True, sys')"
    "items (vector sys') = vec_insert (nat j) (items (vector sys) ! k) (vec_erase k (items (vector sys)))"
    "shown H ok n sys'" "length (models sys') = length (models sys)"
proof -
  let ?xs = "items (vector sys)"
  have mir: "mirrors H ok n ?xs m" using sys self by (simp add: shown_def m)
  note row = mirrors_row[OF mir p, folded k]
  obtain orig where orig: "original (rows m ! p) = Some orig" "ok orig"
    and width: "length (row_items (rows m ! p)) = columnCount H"
    using row(3) p(2) by (auto simp: good_row_def)
  define cells where "cells = fst (getItemFromRow H (row_items (rows m ! p)) orig)"
  have conv: "getItemFromRow H (row_items (rows m ! p)) orig = (cells, ?xs ! k)"
    using row(2) by (simp add: cells_def rowItem_def orig prod_eq_iff)
  let ?r = "(rows m ! p)\<lparr>row_items := cells\<rparr>"
  have item: "rowItem H ?r = ?xs ! k"
    using row(2) by (simp add: rowItem_def orig cells_def get_again)
  have "good_row H ok ?r" using orig width p(2) by (simp add: good_row_def cells_def item_width)
  from mirrors_update_real[OF mir p _ this] p(2) item
  have mir1: "mirrors H ok n ?xs (m\<lparr>rows := (rows m)[p := ?r]\<rparr>)" by (simp add: k[symmetric])
  define sys1 where "sys1 = update_model self (update_row p (\<lambda>_. cells)) sys"
  have self1: "models sys1 ! self = m\<lparr>rows := (rows m)[p := ?r]\<rparr>"
    using self by (simp add: sys1_def m update_row_def)
  have v1: "vector sys1 = vector sys" "length (models sys1) = length (models sys)" by (simp_all add: sys1_def)
  have but: "shown_but H ok n (Some self) sys1" unfolding sys1_def by (rule shown_update_model[OF sys])
  have "mirrors H ok n (items (vector sys1)) (models sys1 ! self)" unfolding v1 self1 by (rule mir1)
  from shown_but_self[OF but this] have s1: "shown_but H ok n None sys1" unfolding shown_but_None .
  have k1: "k < length (items (vector sys1))" using row(1) by (simp add: v1)
  obtain sys2 where r2: "vec_removeAt_sys H (int k) None sys1 = Inr sys2"
    and i2: "items (vector sys2) = vec_erase k ?xs" and s2: "shown_but H ok n None sys2"
    and l2: "length (models sys2) = length (models sys)"
    and all2: "\<And>i. i < length (models sys) \<Longrightarrow> if None = Some i then models sys2 ! i = models sys1 ! i
       else rows (models sys2 ! i) = vec_erase (realPos (rows (models sys1 ! i)) k) (rows (models sys1 ! i))"
    by (rule removeAt_sys[OF s1 k1, unfolded v1]) blast
  have m2: "rows (models sys2 ! self) = vec_erase (realPos ((rows m)[p := ?r]) k) ((rows m)[p := ?r])"
    using all2[OF self] by (simp add: self1)
  have "realPos ((rows m)[p := ?r]) k = p"
  proof -
    have "realIndex ((rows m)[p := ?r]) p = k" by (simp add: k realIndex_def)
    with realPos_realIndex[of p "(rows m)[p := ?r]"] p show ?thesis by simp
  qed
  then have rows2: "rows (models sys2 ! self) = vec_erase p (rows m)"
    by (simp add: m2 vec_erase_def)
  have j2: "getVectorIndexFromModelIndex q (models sys2 ! self) = j"
    by (simp add: j getVectorIndexFromModelIndex_def rows2)
  have "length (realRows (models sys2 ! self)) = length (vec_erase k ?xs)"
    by (rule mirrors_length) (use s2 self l2 i2 in \<open>auto simp: shown_but_def\<close>)
  with getVectorIndex_le[of q "models sys2 ! self"]
  have jb: "0 \<le> j" "nat j \<le> length (items (vector sys2))"
    by (simp_all add: j2 i2 nat_le_iff)
  have ok_item: "ok (?xs ! k)" using sys row(1) by (simp add: shown_def list_all_length)
  from insert_sys[OF s2 jb(2) ok_item] jb(1)
  obtain sys3 where r3: "vec_insert_sys H (?xs ! k) j None sys2 = Inr sys3"
    and i3: "items (vector sys3) = vec_insert (nat j) (?xs ! k) (vec_erase k ?xs)"
    and s3: "shown H ok n sys3" and l3: "length (models sys3) = length (models sys)"
    by (metis i2 int_nat_eq l2 shown_but_None)
  have "moveRows H self (int p) 1 q sys = Inr (True, sys3)"
    using p(1) orig
    by (simp add: moveRows_def m[symmetric] rowCount_def conv getVectorIndex_real[OF p] k[symmetric]
        sys1_def[symmetric] r2 j2 r3)
  with i3 s3 l3 that show thesis by blast
qed

end


section \<open>Any sequence of operations\<close>

text \<open>What code elsewhere does to the vector, what the view asks of a model, and the creation of another
  model for the same vector.\<close>

datatype ('i, 's) table_op =
    VectorInsert 'i int
  | VectorRemoveAt int
  | VectorRemoveFirstMatching "'i \<Rightarrow> bool"
  | SetData nat int int qvariant item_role
  | DeleteRow nat int
  | RemoveButton nat "int list"
  | MoveButton nat "int list" int
  | Drop nat "string option" bool int
  | CreateModel 's

fun exec_table ::
  "('i, 's) model_class \<Rightarrow> ('i, 's) table_op \<Rightarrow> ('i, 's) table_system \<Rightarrow> vector_error + ('i, 's) table_system" where
  "exec_table H (VectorInsert item index) sys = vec_insert_sys H item index None sys"
| "exec_table H (VectorRemoveAt index) sys = vec_removeAt_sys H index None sys"
| "exec_table H (VectorRemoveFirstMatching matcher) sys = vec_removeFirstMatching_sys H matcher None sys"
| "exec_table H (SetData self row column v role) sys =
     pbind (setData_model H self row column v role sys) (\<lambda>(_, sys'). Inr sys')"
| "exec_table H (DeleteRow self row) sys = deleteRow H self row sys"
| "exec_table H (RemoveButton self selected) sys = removeButton H self selected sys"
| "exec_table H (MoveButton self selected dir) sys = moveRowButton H self selected dir sys"
| "exec_table H (Drop self mime moveOrCopy to) sys =
     pbind (dropMimeData H self mime moveOrCopy to sys) (\<lambda>(_, sys'). Inr sys')"
| "exec_table H (CreateModel s) sys = createModel_sys H s sys"

fun exec_tables ::
  "('i, 's) model_class \<Rightarrow> ('i, 's) table_op list \<Rightarrow> ('i, 's) table_system \<Rightarrow> vector_error + ('i, 's) table_system" where
  "exec_tables H [] sys = Inr sys"
| "exec_tables H (x # xs) sys = pbind (exec_table H x sys) (exec_tables H xs)"

text \<open>The operations name existing models, and code elsewhere inserts admissible items.\<close>

fun op_fits :: "('i \<Rightarrow> bool) \<Rightarrow> nat \<Rightarrow> ('i, 's) table_op \<Rightarrow> bool" where
  "op_fits ok n (VectorInsert item index) = ok item"
| "op_fits ok n (SetData self row column v role) = (self < n)"
| "op_fits ok n (DeleteRow self row) = (self < n)"
| "op_fits ok n (RemoveButton self selected) = (self < n)"
| "op_fits ok n (MoveButton self selected dir) = (self < n)"
| "op_fits ok n (Drop self mime moveOrCopy to) = (self < n)"
| "op_fits ok n _ = True"

fun ops_fit :: "('i \<Rightarrow> bool) \<Rightarrow> nat \<Rightarrow> ('i, 's) table_op list \<Rightarrow> bool" where
  "ops_fit ok n [] = True"
| "ops_fit ok n (x # xs) =
     (op_fits ok n x \<and> ops_fit ok (case x of CreateModel _ \<Rightarrow> Suc n | _ \<Rightarrow> n) xs)"

definition newSystem :: "('i, 's) table_system" where
  "newSystem = \<lparr>vector = SignalVector None, models = []\<rparr>"

lemma shown_newSystem: "shown H ok n newSystem"
  by (simp add: shown_def newSystem_def SignalVector_def)

context row_conversion begin

lemma initLoop_mirrors:
  "mirrors H ok 0 ys m \<Longrightarrow> list_all ok xs \<Longrightarrow>
   \<exists>m'. initLoop H self xs (int (length ys)) m = Inr m' \<and> mirrors H ok 0 (ys @ xs) m'"
proof (induction xs arbitrary: ys m)
  case (Cons x xs)
  from handleInserted_mirrors[OF Cons.prems(1) le_refl, of x None self] Cons.prems(2)
  obtain m1 where m1: "handleInserted H self \<lparr>ev_item = x, ev_index = int (length ys), ev_caller = None\<rparr> m = Inr m1"
    "mirrors H ok 0 (ys @ [x]) m1" by (auto simp: vec_insert_end)
  from Cons.IH[OF m1(2)] Cons.prems(2) m1(1) show ?case by (simp add: add.commute)
qed simp

lemma createModel_shown:
  assumes sys: "shown H ok top sys" and r: "createModel_sys H s sys = Inr sys'"
  shows "shown H ok top sys' \<and> length (models sys') = Suc (length (models sys))"
proof -
  have ok_all: "list_all ok (items (vector sys))" using sys by (simp add: shown_def)
  from initLoop_mirrors[OF mirrors_new ok_all, of "length (models sys)" s]
  obtain m1 where m1: "initLoop H (length (models sys)) (items (vector sys)) 0 (SignalVectorModel H s) = Inr m1"
    "mirrors H ok 0 (items (vector sys)) m1" by auto
  with r obtain m where m: "afterInit H m1 = Inr m" "sys' = sys\<lparr>models := models sys @ [m]\<rparr>"
    by (auto simp: createModel_sys_def initialize_def pbind_Inr_iff)
  from init_mirrors[OF m1(2) m(1)] sys m(2) show ?thesis by (auto simp: shown_def)
qed

lemma vec_insert_shown:
  assumes sys: "shown H ok n sys" and r: "vec_insert_sys H item index None sys = Inr sys'" and item: "ok item"
  shows "shown H ok n sys' \<and> length (models sys') = length (models sys)"
proof -
  from r obtain at sig v where ins: "insert_sv item index None (vector sys) = Inr (at, sig, v)"
    by (auto simp: vec_insert_sys_def pbind_Inr_iff)
  obtain k where k: "k \<le> length (items (vector sys))"
    "insert_sv item index None (vector sys) = insert_sv item (int k) None (vector sys)"
  proof (rule insert_sv_cases[OF ins])
    fix k assume k: "k \<le> length (items (vector sys))" and res: "at = int k"
      "sig = ItemInserted \<lparr>ev_item = item, ev_index = int k, ev_caller = None\<rparr>"
      "v = itemsChanged (vector sys\<lparr>items := vec_insert k item (items (vector sys))\<rparr>)"
    have "insert_sv item (int k) None (vector sys) = Inr (at, sig, v)"
      unfolding res using sys k by (intro insert_sv_unsorted) (simp_all add: shown_def)
    with ins k that show thesis by simp
  qed
  then have "vec_insert_sys H item (int k) None sys = Inr sys'" using r by (simp add: vec_insert_sys_def)
  with insert_sys[OF _ k(1) item, of n None] sys show ?thesis
    unfolding shown_but_None by (metis old.sum.inject(2))
qed

lemma vec_removeAt_shown:
  assumes sys: "shown H ok n sys" and r: "vec_removeAt_sys H index None sys = Inr sys'"
  shows "shown H ok n sys' \<and> length (models sys') = length (models sys)"
proof -
  from r obtain sig v where "removeAt_sv index None (vector sys) = Inr (sig, v)"
    by (auto simp: vec_removeAt_sys_def pbind_Inr_iff)
  then obtain k where "k < length (items (vector sys))" "index = int k" by (elim removeAt_sv_cases)
  with removeAt_sys[of n None sys k] sys r show ?thesis
    unfolding shown_but_None by (metis old.sum.inject(2))
qed

lemma vec_removeFirst_shown:
  assumes sys: "shown H ok n sys" and r: "vec_removeFirstMatching_sys H matcher None sys = Inr sys'"
  shows "shown H ok n sys' \<and> length (models sys') = length (models sys)"
proof (cases "first_index matcher (items (vector sys))")
  case None
  with r sys show ?thesis
    by (simp add: vec_removeFirstMatching_sys_def removeFirstMatching_sv_spec)
next
  case (Some k)
  from removeFirstMatching_is_removeAt[OF Some, of None] r
  have "vec_removeAt_sys H (int k) None sys = Inr sys'"
    by (auto simp: vec_removeFirstMatching_sys_def vec_removeAt_sys_def)
  from vec_removeAt_shown[OF sys this] show ?thesis .
qed

lemma removeRows_shown:
  assumes "shown H ok n sys" "removeRows H self row cnt sys = Inr (b, sys')"
  shows "shown H ok n sys' \<and> length (models sys') = length (models sys)"
  using assms by (auto simp: removeRows_def pbind_Inr_iff split: if_splits dest: vec_removeAt_shown)

lemma removeSelected_shown:
  "shown H ok n sys \<Longrightarrow> removeSelected H self selected sys = Inr sys' \<Longrightarrow>
   shown H ok n sys' \<and> length (models sys') = length (models sys)"
proof (induction selected arbitrary: sys)
  case (Cons row rest)
  from Cons.prems(2) obtain b sys1 where r: "removeRows H self row 1 sys = Inr (b, sys1)"
    "removeSelected H self rest sys1 = Inr sys'" by (auto simp: pbind_Inr_iff)
  from removeRows_shown[OF Cons.prems(1) r(1)] Cons.IH[OF _ r(2)] show ?case by simp
qed simp

text \<open>A row without an item is not moved: reading its original throws.\<close>

lemma moveRows_shown:
  assumes sys: "shown H ok n sys" and self: "self < length (models sys)"
    and r: "moveRows H self row cnt q sys = Inr (b, sys')"
  shows "shown H ok n sys' \<and> length (models sys') = length (models sys)"
proof (cases "cnt = 1")
  case False
  with r sys show ?thesis by (simp add: moveRows_def)
next
  case True
  with r have "0 \<le> row" "row < rowCount (models sys ! self)" by (auto simp: moveRows_def Let_def split: if_splits)
  then obtain p where p: "row = int p" "p < length (rows (models sys ! self))"
    by (metis rowCount_def nonneg_int_cases of_nat_less_iff)
  have "mirrors H ok n (items (vector sys)) (models sys ! self)" using sys self by (simp add: shown_def)
  then have "good_row H ok (rows (models sys ! self) ! p)" using p(2) by (simp add: mirrors_def)
  then have "real_row (rows (models sys ! self) ! p)"
    using r True p by (auto simp: moveRows_def Let_def rowCount_def good_row_def)
  from moveRows_real[OF sys self refl p(2) this refl refl, of q] r True p(1) show ?thesis
    by (metis old.sum.inject(2) prod.inject)
qed

end


context row_conversion begin

lemma moveRows_on_top:
  assumes sys: "shown H ok n sys" and self: "self < length (models sys)"
    and k: "k < length (items (vector sys))" and q: "q < n + length (items (vector sys))"
  obtains sys' where "moveRows H self (int (n + k)) 1 (int q) sys = Inr (True, sys')"
    "items (vector sys') =
       (if q < n then vec_erase k (items (vector sys)) @ [items (vector sys) ! k]
        else vec_insert (q - n) (items (vector sys) ! k) (vec_erase k (items (vector sys))))"
    "shown H ok n sys'"
proof -
  let ?m = "models sys ! self" and ?xs = "items (vector sys)"
  have mir: "mirrors H ok n ?xs ?m" using sys self by (simp add: shown_def)
  then have top: "customs_on_top n ?m" by (simp add: mirrors_def)
  from mirrors_length[OF mir] have "length (rows ?m) - n = length ?xs"
    by (simp add: realRows_on_top[OF top])
  moreover have "n \<le> length (rows ?m)" using top by (simp add: customs_on_top_def)
  ultimately have len: "length (rows ?m) = n + length ?xs" by simp
  have p: "n + k < length (rows ?m)" "n \<le> n + k" using k by (simp_all add: len)
  have real: "real_row (rows ?m ! (n + k))" using top p by (simp add: customs_on_top_def)
  have idx: "realIndex (rows ?m) (n + k) = k" using realIndex_on_top[OF top p] by simp
  have q': "q < length (rows ?m)" using q by (simp add: len)
  note dest = destination_on_top[OF top p q']
  from moveRows_real[OF sys self refl p(1) real idx[symmetric] refl, of "int q"] obtain sys'
    where r: "moveRows H self (int (n + k)) 1 (int q) sys = Inr (True, sys')"
      and i: "items (vector sys') = vec_insert (nat (getVectorIndexFromModelIndex (int q)
           (?m\<lparr>rows := vec_erase (n + k) (rows ?m)\<rparr>))) (?xs ! k) (vec_erase k ?xs)"
      and s: "shown H ok n sys'" by blast
  have "items (vector sys') = (if q < n then vec_erase k ?xs @ [?xs ! k]
        else vec_insert (q - n) (?xs ! k) (vec_erase k ?xs))"
  proof (cases "q < n")
    case True
    then have "nat (getVectorIndexFromModelIndex (int q) (?m\<lparr>rows := vec_erase (n + k) (rows ?m)\<rparr>))
        = length (vec_erase k ?xs)"
      using k by (simp add: dest len)
    then show ?thesis unfolding i using True by (simp only: vec_insert_end if_True)
  next
    case False
    then show ?thesis unfolding i dest by (simp only: if_False nat_int)
  qed
  with r s that show thesis by blast
qed

lemma exec_table_shown:
  assumes sys: "shown H ok top sys" and r: "exec_table H x sys = Inr sys'"
    and fits: "op_fits ok (length (models sys)) x"
  shows "shown H ok top sys' \<and> length (models sys') = (case x of CreateModel _ \<Rightarrow> Suc | _ \<Rightarrow> (\<lambda>n. n)) (length (models sys))"
proof (cases x)
  case (VectorInsert item index)
  with r fits show ?thesis by (simp add: vec_insert_shown[OF sys])
next
  case (VectorRemoveAt index)
  with r show ?thesis by (simp add: vec_removeAt_shown[OF sys])
next
  case (VectorRemoveFirstMatching matcher)
  with r show ?thesis by (simp add: vec_removeFirst_shown[OF sys])
next
  case (SetData self row column v role)
  with r fits show ?thesis by (auto simp: pbind_Inr_iff dest: setData_keeps_shown[OF sys])
next
  case (DeleteRow self row)
  with r show ?thesis by (simp add: deleteRow_def vec_removeAt_shown[OF sys])
next
  case (RemoveButton self selected)
  with r show ?thesis by (simp add: removeButton_def removeSelected_shown[OF sys])
next
  case (MoveButton self selected dir)
  with r sys fits show ?thesis
    by (auto simp: moveRowButton_def pbind_Inr_iff split: list.splits if_splits dest: moveRows_shown)
next
  case (Drop self mime moveOrCopy to)
  with r sys fits show ?thesis
    by (auto simp: dropMimeData_def Let_def pbind_Inr_iff split: option.splits if_splits dest: moveRows_shown)
next
  case (CreateModel s)
  with r show ?thesis by (simp add: createModel_shown[OF sys])
qed

theorem exec_tables_shown:
  "shown H ok top sys \<Longrightarrow> exec_tables H xs sys = Inr sys' \<Longrightarrow> ops_fit ok (length (models sys)) xs \<Longrightarrow>
   shown H ok top sys'"
proof (induction xs arbitrary: sys)
  case (Cons x xs)
  from Cons.prems(2) obtain sys1 where x: "exec_table H x sys = Inr sys1" "exec_tables H xs sys1 = Inr sys'"
    by (auto simp: pbind_Inr_iff)
  from exec_table_shown[OF Cons.prems(1) x(1)] Cons.prems(3) Cons.IH[OF _ x(2)]
  show ?case by (cases x) simp_all
qed simp

end

end
