(* ===== verification/SettingsTables.thy ===== *)
theory SettingsTables
  imports TableMirror
begin

text \<open>
  The tables of the settings pages without hooks: \<open>HighlightBlacklistModel\<close>, \<open>NicknamesModel\<close>,
  \<open>IgnoreModel\<close>, \<open>CommandModel\<close>, \<open>ChannelLoggingModel\<close>, \<open>NotificationModel\<close> and
  \<open>MutedChannelModel\<close>, each with the record of its items and its two conversions.

  Every class is an interpretation of \<open>row_conversion\<close>; the items are those whose texts are already
  trimmed where the conversion trims.  The regular expressions that the items compile are functions of the
  fields kept here.
\<close>

section \<open>Items\<close>

record highlight_blacklist_user =
  hb_pattern :: string
  hb_isRegex :: bool

record nickname =
  nn_name :: string
  nn_replace :: string
  nn_isRegex :: bool
  nn_isCaseSensitive :: bool

record ignore_phrase =
  ip_pattern :: string
  ip_isRegex :: bool
  ip_isBlock :: bool
  ip_replace :: string
  ip_isCaseSensitive :: bool

record command =
  cmd_name :: string
  cmd_func :: string
  cmd_showInMsgContextMenu :: bool

definition Command :: "string \<Rightarrow> string \<Rightarrow> bool \<Rightarrow> command" where
  "Command n f show_in_menu =
     \<lparr>cmd_name = trimmed n, cmd_func = trimmed f, cmd_showInMsgContextMenu = show_in_menu\<rparr>"

text \<open>The one-text constructor: the text before the first space and the text after it.\<close>

definition Command_of_text :: "string \<Rightarrow> command" where
  "Command_of_text s =
     (case first_index (\<lambda>c. c = CHR '' '') s of
        None \<Rightarrow> \<lparr>cmd_name = s, cmd_func = '''', cmd_showInMsgContextMenu = False\<rparr>
      | Some index \<Rightarrow> \<lparr>cmd_name = trimmed (mid s 0 index), cmd_func = trimmed (midFrom s (index + 1)),
                       cmd_showInMsgContextMenu = False\<rparr>)"

definition command_toString :: "command \<Rightarrow> string" where
  "command_toString c = cmd_name c @ '' '' @ cmd_func c"

section \<open>Conversions\<close>

definition modelWith ::
  "nat \<Rightarrow> (cell list \<Rightarrow> 'i \<Rightarrow> cell list \<times> 'i) \<Rightarrow> ('i \<Rightarrow> cell list \<Rightarrow> cell list) \<Rightarrow> ('i, unit) model_class" where
  "modelWith columns fromRow toRow = \<lparr>columnCount = columns, getItemFromRow = fromRow, getRowFromItem = toRow,
     beforeInsert = beforeInsert_default, afterRemoved = afterRemoved_default,
     customRowSetData = customRowSetData_default, afterInit = afterInit_default\<rparr>"

definition display :: "cell list \<Rightarrow> nat \<Rightarrow> string" where
  "display row column = toStringQ (data_cell DisplayRole (row ! column))"

definition checked :: "cell list \<Rightarrow> nat \<Rightarrow> bool" where
  "checked row column = toBoolQ (data_cell CheckStateRole (row ! column))"

definition setString :: "nat \<Rightarrow> string \<Rightarrow> cell list \<Rightarrow> cell list" where
  "setString column s row = row[column := setStringItem s True True (row ! column)]"

definition setBool :: "nat \<Rightarrow> bool \<Rightarrow> cell list \<Rightarrow> cell list" where
  "setBool column b row = row[column := setBoolItem b True True (row ! column)]"

definition blacklist_getItemFromRow :: "cell list \<Rightarrow> highlight_blacklist_user \<Rightarrow> cell list \<times> highlight_blacklist_user" where
  "blacklist_getItemFromRow row orig = (row, \<lparr>hb_pattern = display row 0, hb_isRegex = checked row 1\<rparr>)"

definition blacklist_getRowFromItem :: "highlight_blacklist_user \<Rightarrow> cell list \<Rightarrow> cell list" where
  "blacklist_getRowFromItem item row = setBool 1 (hb_isRegex item) (setString 0 (hb_pattern item) row)"

definition HighlightBlacklistModel :: "(highlight_blacklist_user, unit) model_class" where
  "HighlightBlacklistModel = modelWith 2 blacklist_getItemFromRow blacklist_getRowFromItem"

definition nicknames_getItemFromRow :: "cell list \<Rightarrow> nickname \<Rightarrow> cell list \<times> nickname" where
  "nicknames_getItemFromRow row orig =
     (row, \<lparr>nn_name = trimmed (display row 0), nn_replace = display row 1,
            nn_isRegex = checked row 2, nn_isCaseSensitive = checked row 3\<rparr>)"

definition nicknames_getRowFromItem :: "nickname \<Rightarrow> cell list \<Rightarrow> cell list" where
  "nicknames_getRowFromItem item row =
     setBool 3 (nn_isCaseSensitive item) (setBool 2 (nn_isRegex item)
       (setString 1 (nn_replace item) (setString 0 (nn_name item) row)))"

definition NicknamesModel :: "(nickname, unit) model_class" where
  "NicknamesModel = modelWith 4 nicknames_getItemFromRow nicknames_getRowFromItem"

definition ignore_getItemFromRow :: "cell list \<Rightarrow> ignore_phrase \<Rightarrow> cell list \<times> ignore_phrase" where
  "ignore_getItemFromRow row orig =
     (row, \<lparr>ip_pattern = display row 0, ip_isRegex = checked row 1, ip_isBlock = checked row 3,
            ip_replace = display row 4, ip_isCaseSensitive = checked row 2\<rparr>)"

definition ignore_getRowFromItem :: "ignore_phrase \<Rightarrow> cell list \<Rightarrow> cell list" where
  "ignore_getRowFromItem item row =
     setString 4 (ip_replace item) (setBool 3 (ip_isBlock item) (setBool 2 (ip_isCaseSensitive item)
       (setBool 1 (ip_isRegex item) (setString 0 (ip_pattern item) row))))"

definition IgnoreModel :: "(ignore_phrase, unit) model_class" where
  "IgnoreModel = modelWith 5 ignore_getItemFromRow ignore_getRowFromItem"

definition command_getItemFromRow :: "cell list \<Rightarrow> command \<Rightarrow> cell list \<times> command" where
  "command_getItemFromRow row orig =
     (row, Command (toStringQ (data_cell EditRole (row ! 0))) (toStringQ (data_cell EditRole (row ! 1)))
             (checked row 2))"

definition command_getRowFromItem :: "command \<Rightarrow> cell list \<Rightarrow> cell list" where
  "command_getRowFromItem item row =
     setBool 2 (cmd_showInMsgContextMenu item) (setString 1 (cmd_func item) (setString 0 (cmd_name item) row))"

definition CommandModel :: "(command, unit) model_class" where
  "CommandModel = modelWith 3 command_getItemFromRow command_getRowFromItem"

text \<open>The tables of channel names: the channels that are logged, notified about and muted.\<close>

definition text_getItemFromRow :: "cell list \<Rightarrow> string \<Rightarrow> cell list \<times> string" where
  "text_getItemFromRow row orig = (row, display row 0)"

definition text_getRowFromItem :: "string \<Rightarrow> cell list \<Rightarrow> cell list" where
  "text_getRowFromItem item row = setString 0 item row"

definition ChannelLoggingModel :: "(string, unit) model_class" where
  "ChannelLoggingModel = modelWith 1 text_getItemFromRow text_getRowFromItem"

definition NotificationModel :: "(string, unit) model_class" where
  "NotificationModel = modelWith 1 text_getItemFromRow text_getRowFromItem"

definition MutedChannelModel :: "(string, unit) model_class" where
  "MutedChannelModel = modelWith 1 text_getItemFromRow text_getRowFromItem"

section \<open>The contracts\<close>

lemma trimmed_trimmed [simp]: "trimmed (trimmed s) = trimmed s"
proof -
  have *: "dropWhile P (rev (dropWhile P (rev (dropWhile P xs)))) = rev (dropWhile P (rev (dropWhile P xs)))"
    for P and xs :: string
  proof (cases "dropWhile P xs")
    case (Cons y ys)
    then have y: "\<not> P y" by (metis dropWhile_eq_Cons_conv)
    have "dropWhile P (rev ys @ [y]) \<noteq> []" using y by simp
    moreover have "last (dropWhile P (rev ys @ [y])) = y" using y by (simp add: dropWhile_append)
    ultimately show ?thesis
      using y by (simp add: Cons dropWhile_eq_self_iff hd_rev)
  next
    case Nil
    show ?thesis unfolding Nil by simp
  qed
  show ?thesis by (simp add: trimmed_def *)
qed

lemma display_setString [simp]:
  "c < length row \<Longrightarrow> display (setString c s row) c = s"
  "c \<noteq> d \<Longrightarrow> display (setString d s row) c = display row c"
  "c \<noteq> d \<Longrightarrow> display (setBool d b row) c = display row c"
  by (simp_all add: display_def setString_def setBool_def)

lemma edit_setString [simp]:
  "c < length row \<Longrightarrow> data_cell EditRole (setString c s row ! c) = QString s"
  "c \<noteq> d \<Longrightarrow> setString d s row ! c = row ! c"
  "c \<noteq> d \<Longrightarrow> setBool d b row ! c = row ! c"
  by (simp_all add: setString_def setBool_def)

lemma checked_setBool [simp]:
  "c < length row \<Longrightarrow> checked (setBool c b row) c = b"
  "c \<noteq> d \<Longrightarrow> checked (setString d s row) c = checked row c"
  "c \<noteq> d \<Longrightarrow> checked (setBool d b row) c = checked row c"
  by (simp_all add: checked_def setString_def setBool_def)

lemma length_set [simp]:
  "length (setString c s row) = length row" "length (setBool c b row) = length row"
  by (simp_all add: setString_def setBool_def)

lemma length_createRow [simp]: "length (createRow H) = columnCount H"
  by (simp add: createRow_def)

lemma modelWith_simps [simp]:
  "columnCount (modelWith n f g) = n" "getItemFromRow (modelWith n f g) = f" "getRowFromItem (modelWith n f g) = g"
  "beforeInsert (modelWith n f g) = beforeInsert_default" "afterRemoved (modelWith n f g) = afterRemoved_default"
  "afterInit (modelWith n f g) = afterInit_default"
  by (simp_all add: modelWith_def)

definition any_item :: "'i \<Rightarrow> bool" where
  "any_item i = True"

definition trimmed_nickname :: "nickname \<Rightarrow> bool" where
  "trimmed_nickname n \<longleftrightarrow> trimmed (nn_name n) = nn_name n"

definition trimmed_command :: "command \<Rightarrow> bool" where
  "trimmed_command c \<longleftrightarrow> trimmed (cmd_name c) = cmd_name c \<and> trimmed (cmd_func c) = cmd_func c"

lemma modelWith_conversion:
  assumes "\<And>i. ok i \<Longrightarrow> snd (f (g i (createRow (modelWith n f g))) i) = i" "\<And>i cs. length (g i cs) = length cs"
    "\<And>cs i. fst (f cs i) = cs" "\<And>cs i. ok i \<Longrightarrow> length cs = n \<Longrightarrow> ok (snd (f cs i))"
  shows "row_conversion (modelWith n f g) ok 0"
  using assms by unfold_locales simp_all

interpretation blacklist: row_conversion HighlightBlacklistModel any_item 0
  unfolding HighlightBlacklistModel_def
  by (rule modelWith_conversion)
    (simp_all add: blacklist_getItemFromRow_def blacklist_getRowFromItem_def any_item_def)

interpretation nicknames: row_conversion NicknamesModel trimmed_nickname 0
  unfolding NicknamesModel_def
  by (rule modelWith_conversion)
    (simp_all add: nicknames_getItemFromRow_def nicknames_getRowFromItem_def trimmed_nickname_def)

interpretation ignores: row_conversion IgnoreModel any_item 0
  unfolding IgnoreModel_def
  by (rule modelWith_conversion) (simp_all add: ignore_getItemFromRow_def ignore_getRowFromItem_def any_item_def)

interpretation commands: row_conversion CommandModel trimmed_command 0
  unfolding CommandModel_def
  by (rule modelWith_conversion)
    (simp_all add: command_getItemFromRow_def command_getRowFromItem_def trimmed_command_def Command_def)

interpretation channel_logs: row_conversion ChannelLoggingModel any_item 0
  unfolding ChannelLoggingModel_def
  by (rule modelWith_conversion) (simp_all add: text_getItemFromRow_def text_getRowFromItem_def any_item_def)

interpretation notifications: row_conversion NotificationModel any_item 0
  unfolding NotificationModel_def
  by (rule modelWith_conversion) (simp_all add: text_getItemFromRow_def text_getRowFromItem_def any_item_def)

interpretation muted_channels: row_conversion MutedChannelModel any_item 0
  unfolding MutedChannelModel_def
  by (rule modelWith_conversion) (simp_all add: text_getItemFromRow_def text_getRowFromItem_def any_item_def)

section \<open>Properties\<close>

lemma shown_row:
  assumes "shown H ok n sys" "self < length (models sys)" "k < length (items (vector sys))"
  shows "n + k < length (rows (models sys ! self))" "real_row (rows (models sys ! self) ! (n + k))"
    "realIndex (rows (models sys ! self)) (n + k) = k"
proof -
  let ?m = "models sys ! self"
  have mir: "mirrors H ok n (items (vector sys)) ?m" using assms(1,2) by (simp add: shown_def)
  then have top: "customs_on_top n ?m" by (simp add: mirrors_def)
  from mirrors_length[OF mir] assms(3) show k: "n + k < length (rows ?m)" by (simp add: realRows_on_top[OF top])
  then show "real_row (rows ?m ! (n + k))" using top by (simp add: customs_on_top_def)
  show "realIndex (rows ?m) (n + k) = k" using realIndex_on_top[OF top k] by simp
qed

text \<open>C4. For every class of rows that meets its contract, after any sequence of insertions, removals,
  edits, moves, drops and creations of further models, every model's rows below its custom rows show the items
  of the vector in order, and the copy for other threads is equal to them.\<close>

theorem tables_show_their_vector:
  assumes "row_conversion H ok n" and "exec_tables H ops newSystem = Inr sys" and "ops_fit ok 0 ops"
  shows "readOnly (vector sys) = items (vector sys)
    \<and> (\<forall>m \<in> set (models sys). customs_on_top n m
         \<and> map (\<lambda>r. snd (getItemFromRow H (row_items r) (the (original r)))) (drop n (rows m)) = items (vector sys))"
proof -
  have "length (models (newSystem :: ('a, 'b) table_system)) = 0" by (simp add: newSystem_def)
  with row_conversion.exec_tables_shown[OF assms(1) shown_newSystem assms(2)] assms(3)
  have sys: "shown H ok n sys" by simp
  have rowItem_eq: "rowItem H = (\<lambda>r. snd (getItemFromRow H (row_items r) (the (original r))))"
    by (simp add: rowItem_def fun_eq_iff)
  show ?thesis
    using sys by (auto simp: shown_def mirrors_def realRows_on_top rowItem_eq)
qed

text \<open>A nickname is added while one page is open, its name is edited there, and a second page opens.\<close>

definition sample_ops :: "(nickname, unit) table_op list" where
  "sample_ops =
     [CreateModel (), VectorInsert \<lparr>nn_name = ''a'', nn_replace = ''b'', nn_isRegex = False, nn_isCaseSensitive = True\<rparr> (- 1),
      SetData 0 0 0 (QString '' c '') EditRole, CreateModel ()]"

theorem tables_show_their_vector_witness:
  "\<exists>sys. exec_tables NicknamesModel sample_ops newSystem = Inr sys
     \<and> map nn_name (items (vector sys)) = [''c'']
     \<and> map (\<lambda>r. snd (nicknames_getItemFromRow (row_items r) (the (original r)))) (rows (models sys ! 1)) = items (vector sys)"
proof -
  have "case exec_tables NicknamesModel sample_ops newSystem of Inl _ \<Rightarrow> False
      | Inr sys \<Rightarrow> map nn_name (items (vector sys)) = [''c''] \<and> length (models sys) = 2"
    by code_simp
  then obtain sys where sys: "exec_tables NicknamesModel sample_ops newSystem = Inr sys"
    "map nn_name (items (vector sys)) = [''c'']" "length (models sys) = 2"
    by (cases "exec_tables NicknamesModel sample_ops newSystem") simp_all
  have fits: "ops_fit trimmed_nickname 0 sample_ops" by code_simp
  have conv: "getItemFromRow NicknamesModel = nicknames_getItemFromRow" by (simp add: NicknamesModel_def)
  have "models sys ! 1 \<in> set (models sys)" using sys(3) by simp
  with tables_show_their_vector[OF nicknames.row_conversion_axioms sys(1) fits]
  have "map (\<lambda>r. snd (getItemFromRow NicknamesModel (row_items r) (the (original r)))) (drop 0 (rows (models sys ! 1))) = items (vector sys)"
    by blast
  then have "map (\<lambda>r. snd (nicknames_getItemFromRow (row_items r) (the (original r)))) (rows (models sys ! 1)) = items (vector sys)"
    unfolding conv drop0 .
  with sys show ?thesis by (intro exI[of _ sys] conjI)
qed


text \<open>C9. In a system whose models show the vector, an edit of the row of an item replaces exactly that
  item by the one read back from the edited row, the Remove button takes exactly it out, and all models still
  show the vector; on a custom row Remove fails an assertion of the vector.\<close>

theorem editing_rows_edits_items:
  assumes "row_conversion H ok n" and sys: "shown H ok n sys" and self: "self < length (models sys)"
    and k: "k < length (items (vector sys))" and c: "c < columnCount H"
    and row: "row = rows (models sys ! self) ! (n + k)"
  shows "(\<exists>sys'. setData_model H self (int (n + k)) (int c) v role sys = Inr (True, sys')
           \<and> items (vector sys') = (items (vector sys))[k := snd (getItemFromRow H
                ((row_items row)[c := setData_cell v role (row_items row ! c)]) (the (original row)))]
           \<and> shown H ok n sys')
    \<and> (\<exists>sys'. removeRows H self (int (n + k)) 1 sys = Inr (True, sys')
           \<and> items (vector sys') = vec_erase k (items (vector sys)) \<and> shown H ok n sys')
    \<and> (\<forall>p < n. removeRows H self (int p) 1 sys = Inl AssertionFailed)"
proof (intro conjI)

  note p = shown_row[OF sys self k]
  show "\<exists>sys'. setData_model H self (int (n + k)) (int c) v role sys = Inr (True, sys')
           \<and> items (vector sys') = (items (vector sys))[k := snd (getItemFromRow H
                ((row_items row)[c := setData_cell v role (row_items row ! c)]) (the (original row)))]
           \<and> shown H ok n sys'"
    using row_conversion.setData_real[OF assms(1) sys self refl p(1,2) c p(3)[symmetric] refl, of v role] row by metis
  show "\<exists>sys'. removeRows H self (int (n + k)) 1 sys = Inr (True, sys')
           \<and> items (vector sys') = vec_erase k (items (vector sys)) \<and> shown H ok n sys'"
    using row_conversion.removeRows_real[OF assms(1) sys self refl p(1,2)] p(3) by metis
  have "mirrors H ok n (items (vector sys)) (models sys ! self)" using sys self by (simp add: shown_def)
  then have "\<And>q. q < n \<Longrightarrow> q < length (rows (models sys ! self)) \<and> isCustomRow (rows (models sys ! self) ! q)"
    by (auto simp: mirrors_def customs_on_top_def)
  then show "\<forall>p < n. removeRows H self (int p) 1 sys = Inl AssertionFailed"
    using row_conversion.removeRows_custom[OF assms(1) sys self] by blast
qed


lemma dropMimeData_moves:
  assumes conv: "row_conversion H ok n" and sys: "shown H ok n sys" and self: "self < length (models sys)"
    and p: "p < 2 ^ 31" "int p \<noteq> q" and r: "moveRows H self (int p) 1 q sys = Inr (b, sys')"
  shows "pbind (mimeData_model [int p, int p]) (\<lambda>mime. dropMimeData H self mime True q sys) = Inr (False, sys')"
proof -
  have mime: "mimeData_model [int p, int p] = Inr (Some (natDigits p))"
    by (simp add: mimeData_model_def numberStr_def)
  have "mirrors H ok n (items (vector sys)) (models sys ! self)" using sys self by (simp add: shown_def)
  note len = mirrors_length[OF this]
  have "\<not> getVectorIndexFromModelIndex i (models sys ! self) > int (length (items (vector sys)))" for i
    using getVectorIndex_le[of i "models sys ! self"] len by simp
  with p r show ?thesis by (simp add: mime dropMimeData_def Let_def)
qed

text \<open>Moving the row of one item to the row of another, by the move operation or by dragging and
  dropping it there, moves the item to that position of the vector.  But a destination among the custom rows
  above the items moves the item to the end: the button Move up on the first item makes it the last one.\<close>

theorem moving_rows_moves_items:
  assumes conv: "row_conversion H ok n" and sys: "shown H ok n sys" and self: "self < length (models sys)"
    and k: "k < length (items (vector sys))" and l: "l < length (items (vector sys))"
    and small: "n + length (items (vector sys)) < 2 ^ 31"
  shows "(\<exists>sys'. moveRows H self (int (n + k)) 1 (int (n + l)) sys = Inr (True, sys')
           \<and> items (vector sys') = vec_insert l (items (vector sys) ! k) (vec_erase k (items (vector sys)))
           \<and> shown H ok n sys'
           \<and> (k \<noteq> l \<longrightarrow> pbind (mimeData_model [int (n + k), int (n + k)])
                (\<lambda>mime. dropMimeData H self mime True (int (n + l)) sys) = Inr (False, sys')))
    \<and> (0 < n \<longrightarrow> (\<exists>sys'. moveRowButton H self [int n] (- 1) sys = Inr sys'
           \<and> items (vector sys') = tl (items (vector sys)) @ [hd (items (vector sys))] \<and> shown H ok n sys'))"
proof (intro conjI impI)
  let ?xs = "items (vector sys)"
  obtain sys' where r: "moveRows H self (int (n + k)) 1 (int (n + l)) sys = Inr (True, sys')"
    "items (vector sys') = vec_insert l (?xs ! k) (vec_erase k ?xs)" "shown H ok n sys'"
    using row_conversion.moveRows_on_top[OF conv sys self k, of "n + l"] l
    by (metis add_diff_cancel_left' add_less_cancel_left not_add_less1)
  have "pbind (mimeData_model [int (n + k), int (n + k)])
      (\<lambda>mime. dropMimeData H self mime True (int (n + l)) sys) = Inr (False, sys')" if "k \<noteq> l"
    using dropMimeData_moves[OF conv sys self _ _ r(1)] k small that by simp
  with r show "\<exists>sys'. moveRows H self (int (n + k)) 1 (int (n + l)) sys = Inr (True, sys')
           \<and> items (vector sys') = vec_insert l (?xs ! k) (vec_erase k ?xs) \<and> shown H ok n sys'
           \<and> (k \<noteq> l \<longrightarrow> pbind (mimeData_model [int (n + k), int (n + k)])
                (\<lambda>mime. dropMimeData H self mime True (int (n + l)) sys) = Inr (False, sys'))"
    by blast
next
  let ?xs = "items (vector sys)"
  assume n: "0 < n"
  then obtain q where q: "n = Suc q" by (cases n) simp_all
  have k0: "0 < length ?xs" by (rule le_less_trans[OF le0 k])
  obtain sys' where r: "moveRows H self (int n) 1 (int q) sys = Inr (True, sys')"
    "items (vector sys') = vec_erase 0 ?xs @ [?xs ! 0]" "shown H ok n sys'"
    using row_conversion.moveRows_on_top[OF conv sys self k0, of q] k0 q
    by (metis add.right_neutral lessI less_SucI less_add_same_cancel1 trans_less_add1)
  have rows: "n < length (rows (models sys ! self))" using shown_row(1)[OF sys self k0] by simp
  have button: "moveRowButton H self [int n] (- 1) sys = Inr sys'"
    using rows r(1) q by (simp add: moveRowButton_def rowCount_def)
  obtain y ys where "?xs = y # ys" using k0 by (cases ?xs) simp_all
  with r button show "\<exists>sys'. moveRowButton H self [int n] (- 1) sys = Inr sys'
           \<and> items (vector sys') = tl ?xs @ [hd ?xs] \<and> shown H ok n sys'"
    by (intro exI[of _ sys']) simp
qed

end
