(* ===== verification/HighlightTable.thy ===== *)
theory HighlightTable
  imports SettingsTables
begin

text \<open>
  The tables of the highlights page with custom rows: \<open>HighlightModel\<close>, \<open>UserHighlightModel\<close> and
  \<open>BadgeHighlightModel\<close> of \<open>src/controllers/highlights\<close>.

  The custom rows stand for settings (own username, whispers, subscriptions, ...).  \<open>customRowSetData\<close>
  writes the setting that belongs to the index of the row; the writes are kept, in order, in the \<open>members\<close>
  of the model.  What Qt does with URLs (\<open>QUrl\<close> to text and its file name) and with the name of a colour is an
  argument, \<open>gui_ops\<close>; the values of the settings and colours when the table opens are \<open>gui_settings\<close>.
  The colour of a phrase is shared with old messages by a pointer; here it is a value of the phrase.
\<close>

section \<open>Phrases, badges and settings\<close>

record highlight_phrase =
  hp_pattern :: string
  hp_showInMentions :: bool
  hp_hasAlert :: bool
  hp_hasSound :: bool
  hp_isRegex :: bool
  hp_isCaseSensitive :: bool
  hp_soundUrl :: string
  hp_color :: qcolor

record highlight_badge =
  bd_badgeName :: string
  bd_displayName :: string
  bd_showInMentions :: bool
  bd_hasAlert :: bool
  bd_hasSound :: bool
  bd_soundUrl :: string
  bd_color :: qcolor

text \<open>\<open>QUrl(text)\<close> back to text, \<open>QUrl::fileName\<close> and \<open>QColor(name)\<close>.\<close>

record gui_ops =
  go_url :: "string \<Rightarrow> string"
  go_fileName :: "string \<Rightarrow> string"
  go_namedColor :: "string \<Rightarrow> qcolor"

datatype highlight_kind = SelfHighlight | Whisper | Subscription | RedeemedHighlight | FirstMessageHighlight
  | ElevatedMessageHighlight | ThreadMessageHighlight | AutomodHighlight | WatchStreak | SelfMessageHighlight

text \<open>The settings of a kind: \<open>enable...\<close>, \<open>show...InMentions\<close>, \<open>enable...Taskbar\<close>,
  \<open>enable...Sound\<close>, \<open>...SoundUrl\<close> and \<open>...Color\<close>.\<close>

datatype highlight_setting =
    enable highlight_kind
  | showInMentions highlight_kind
  | enableTaskbar highlight_kind
  | enableSound highlight_kind
  | soundUrl highlight_kind
  | color highlight_kind

datatype setting_value = BoolSetting bool | StringSetting string

type_synonym setting_writes = "(highlight_setting \<times> setting_value) list"

record gui_settings =
  gs_bool :: "highlight_setting \<Rightarrow> bool"
  gs_soundUrl :: "highlight_kind \<Rightarrow> string"
  gs_color :: "highlight_kind \<Rightarrow> qcolor"

fun valueColor :: "gui_ops \<Rightarrow> qvariant \<Rightarrow> qcolor" where
  "valueColor ops (QColorV c) = c"
| "valueColor ops (QString s) = go_namedColor ops s"
| "valueColor ops _ = InvalidColor"

definition HighlightPhrase ::
  "gui_ops \<Rightarrow> string \<Rightarrow> bool \<Rightarrow> bool \<Rightarrow> bool \<Rightarrow> bool \<Rightarrow> bool \<Rightarrow> string \<Rightarrow> qcolor \<Rightarrow> highlight_phrase" where
  "HighlightPhrase ops pattern in_mentions hasAlert hasSound isRegex isCaseSensitive url c =
     \<lparr>hp_pattern = pattern, hp_showInMentions = in_mentions, hp_hasAlert = hasAlert, hp_hasSound = hasSound,
      hp_isRegex = isRegex, hp_isCaseSensitive = isCaseSensitive, hp_soundUrl = go_url ops url, hp_color = c\<rparr>"

section \<open>Rows of phrases\<close>

abbreviation (input) "Pattern \<equiv> 0 :: nat"
abbreviation (input) "ShowInMentions \<equiv> 1 :: nat"
abbreviation (input) "FlashTaskbar \<equiv> 2 :: nat"
abbreviation (input) "UseRegex \<equiv> 3 :: nat"
abbreviation (input) "CaseSensitive \<equiv> 4 :: nat"
abbreviation (input) "PlaySound \<equiv> 5 :: nat"
abbreviation (input) "SoundPath \<equiv> 6 :: nat"
abbreviation (input) "Color \<equiv> 7 :: nat"

definition setFilePath :: "gui_ops \<Rightarrow> nat \<Rightarrow> string \<Rightarrow> bool \<Rightarrow> cell list \<Rightarrow> cell list" where
  "setFilePath ops column url selectable row =
     row[column := setFilePathItem url (go_fileName ops url) selectable (row ! column)]"

definition setColor :: "nat \<Rightarrow> qcolor \<Rightarrow> bool \<Rightarrow> cell list \<Rightarrow> cell list" where
  "setColor column c selectable row = row[column := setColorItem c selectable (row ! column)]"

definition phrase_of_row :: "gui_ops \<Rightarrow> (string \<Rightarrow> string) \<Rightarrow> cell list \<Rightarrow> highlight_phrase" where
  "phrase_of_row ops pattern_of row =
     HighlightPhrase ops (pattern_of (display row Pattern)) (checked row ShowInMentions)
       (checked row FlashTaskbar) (checked row PlaySound) (checked row UseRegex) (checked row CaseSensitive)
       (toStringQ (data_cell UserRole (row ! SoundPath)))
       (valueColor ops (data_cell DecorationRole (row ! Color)))"

definition highlight_getItemFromRow :: "gui_ops \<Rightarrow> cell list \<Rightarrow> highlight_phrase \<Rightarrow> cell list \<times> highlight_phrase" where
  "highlight_getItemFromRow ops row orig = (row, phrase_of_row ops (\<lambda>s. s) row)"

definition user_getItemFromRow :: "gui_ops \<Rightarrow> cell list \<Rightarrow> highlight_phrase \<Rightarrow> cell list \<times> highlight_phrase" where
  "user_getItemFromRow ops row orig = (row, phrase_of_row ops trimmed row)"

definition highlight_getRowFromItem :: "gui_ops \<Rightarrow> highlight_phrase \<Rightarrow> cell list \<Rightarrow> cell list" where
  "highlight_getRowFromItem ops item row =
     setColor Color (hp_color item) True
       (setFilePath ops SoundPath (hp_soundUrl item) True
         (setBool CaseSensitive (hp_isCaseSensitive item)
           (setBool UseRegex (hp_isRegex item)
             (setBool PlaySound (hp_hasSound item)
               (setBool FlashTaskbar (hp_hasAlert item)
                 (setBool ShowInMentions (hp_showInMentions item)
                   (setString Pattern (hp_pattern item) row)))))))"

definition badge_getItemFromRow :: "gui_ops \<Rightarrow> cell list \<Rightarrow> highlight_badge \<Rightarrow> cell list \<times> highlight_badge" where
  "badge_getItemFromRow ops row orig =
     (row, \<lparr>bd_badgeName = bd_badgeName orig, bd_displayName = display row 0, bd_showInMentions = checked row 1,
            bd_hasAlert = checked row 2, bd_hasSound = checked row 3,
            bd_soundUrl = go_url ops (toStringQ (data_cell UserRole (row ! 4))),
            bd_color = valueColor ops (data_cell DecorationRole (row ! 5))\<rparr>)"

text \<open>The icon that arrives later as the decoration of the first cell is not part of the row here.\<close>

definition badge_getRowFromItem :: "gui_ops \<Rightarrow> highlight_badge \<Rightarrow> cell list \<Rightarrow> cell list" where
  "badge_getRowFromItem ops item row =
     setColor 5 (bd_color item) True
       (setFilePath ops 4 (bd_soundUrl item) True
         (setBool 3 (bd_hasSound item)
           (setBool 2 (bd_hasAlert item)
             (setBool 1 (bd_showInMentions item)
               (row[0 := setStringItem (bd_displayName item) False True (row ! 0)])))))"

section \<open>Custom rows\<close>

text \<open>The cells of one custom row.  A column that a kind does not have (\<open>None\<close>) gets no flags.\<close>

definition setBoolCustom :: "nat \<Rightarrow> bool option \<Rightarrow> cell list \<Rightarrow> cell list" where
  "setBoolCustom column b row = row[column := (case b of Some v \<Rightarrow> setBoolItem v True False (row ! column)
                                               | None \<Rightarrow> setFlags {} (row ! column))]"

definition customRow ::
  "gui_ops \<Rightarrow> gui_settings \<Rightarrow> highlight_kind \<Rightarrow> string \<Rightarrow> bool \<Rightarrow> bool \<Rightarrow> cell list \<Rightarrow> cell list" where
  "customRow ops s kind label mentions notify row0 =
     (let r1 = setBoolCustom Pattern (Some (gs_bool s (enable kind))) row0;
          r2 = r1[Pattern := setData_cell (QString label) DisplayRole (r1 ! Pattern)];
          r3 = setBoolCustom ShowInMentions (if mentions then Some (gs_bool s (showInMentions kind)) else None) r2;
          r4 = setBoolCustom FlashTaskbar (if notify then Some (gs_bool s (enableTaskbar kind)) else None) r3;
          r5 = setBoolCustom PlaySound (if notify then Some (gs_bool s (enableSound kind)) else None) r4;
          r6 = setBoolCustom UseRegex None r5;
          r7 = setBoolCustom CaseSensitive None r6;
          r8 = (if notify then setFilePath ops SoundPath (go_url ops (gs_soundUrl s kind)) False r7
                else setBoolCustom SoundPath None r7)
      in setColor Color (gs_color s kind) False r8)"

text \<open>\<open>HighlightRowIndexes\<close>, the labels and which columns the rows have.\<close>

definition highlight_rows :: "(highlight_kind \<times> string \<times> bool \<times> bool) list" where
  "highlight_rows =
     [(SelfHighlight, ''Your username (automatic)'', True, True),
      (Whisper, ''Whispers'', False, True),
      (Subscription, ''Subscriptions'', False, True),
      (RedeemedHighlight, ''Highlights redeemed with Channel Points'', False, False),
      (FirstMessageHighlight, ''First Messages'', False, False),
      (ElevatedMessageHighlight, ''Hype Chats'', False, False),
      (ThreadMessageHighlight, ''Subscribed Reply Threads'', True, True),
      (AutomodHighlight, ''AutoMod Caught Messages'', True, True),
      (WatchStreak, ''Watch Streaks'', False, False)]"

definition user_rows :: "(highlight_kind \<times> string \<times> bool \<times> bool) list" where
  "user_rows = [(SelfMessageHighlight, ''Your messages (automatic)'', True, False)]"

fun insertCustomRows ::
  "gui_ops \<Rightarrow> gui_settings \<Rightarrow> (highlight_kind \<times> string \<times> bool \<times> bool) list \<Rightarrow> int \<Rightarrow>
   ('i, 's) table_model \<Rightarrow> vector_error + ('i, 's) table_model" where
  "insertCustomRows ops s [] index m = Inr m"
| "insertCustomRows ops s ((kind, label, mentions, notify) # rest) index m =
     pbind (insertCustomRow (customRow ops s kind label mentions notify (replicate 8 QStandardItem)) index m)
       (insertCustomRows ops s rest (index + 1))"

definition highlight_afterInit ::
  "gui_ops \<Rightarrow> gui_settings \<Rightarrow> (highlight_phrase, setting_writes) table_model \<Rightarrow>
   vector_error + (highlight_phrase, setting_writes) table_model" where
  "highlight_afterInit ops s m = insertCustomRows ops s highlight_rows 0 m"

definition user_afterInit ::
  "gui_ops \<Rightarrow> gui_settings \<Rightarrow> (highlight_phrase, setting_writes) table_model \<Rightarrow>
   vector_error + (highlight_phrase, setting_writes) table_model" where
  "user_afterInit ops s m = insertCustomRows ops s user_rows 0 m"

text \<open>\<open>customRowSetData\<close>: the setting that a cell of the row writes, by column, role and row index.\<close>

definition highlight_written :: "nat \<Rightarrow> item_role \<Rightarrow> nat \<Rightarrow> highlight_setting option" where
  "highlight_written column role rowIndex =
     (if column = Pattern \<and> role = CheckStateRole then
        (if rowIndex = 0 then Some (enable SelfHighlight)
         else if rowIndex = 1 then Some (enable Whisper)
         else if rowIndex = 2 then Some (enable Subscription)
         else if rowIndex = 8 then Some (enable WatchStreak)
         else if rowIndex = 3 then Some (enable RedeemedHighlight)
         else if rowIndex = 4 then Some (enable FirstMessageHighlight)
         else if rowIndex = 5 then Some (enable ElevatedMessageHighlight)
         else if rowIndex = 6 then Some (enable ThreadMessageHighlight)
         else if rowIndex = 7 then Some (enable AutomodHighlight) else None)
      else if column = ShowInMentions \<and> role = CheckStateRole then
        (if rowIndex = 0 then Some (showInMentions SelfHighlight)
         else if rowIndex = 6 then Some (showInMentions ThreadMessageHighlight)
         else if rowIndex = 7 then Some (showInMentions AutomodHighlight) else None)
      else if column = FlashTaskbar \<and> role = CheckStateRole then
        (if rowIndex = 0 then Some (enableTaskbar SelfHighlight)
         else if rowIndex = 1 then Some (enableTaskbar Whisper)
         else if rowIndex = 2 then Some (enableTaskbar Subscription)
         else if rowIndex = 6 then Some (enableTaskbar ThreadMessageHighlight)
         else if rowIndex = 7 then Some (enableTaskbar AutomodHighlight) else None)
      else if column = PlaySound \<and> role = CheckStateRole then
        (if rowIndex = 0 then Some (enableSound SelfHighlight)
         else if rowIndex = 1 then Some (enableSound Whisper)
         else if rowIndex = 2 then Some (enableSound Subscription)
         else if rowIndex = 6 then Some (enableSound ThreadMessageHighlight)
         else if rowIndex = 7 then Some (enableSound AutomodHighlight) else None)
      else if column = SoundPath \<and> role = UserRole then
        (if rowIndex = 0 then Some (soundUrl SelfHighlight)
         else if rowIndex = 1 then Some (soundUrl Whisper)
         else if rowIndex = 2 then Some (soundUrl Subscription)
         else if rowIndex = 6 then Some (soundUrl ThreadMessageHighlight)
         else if rowIndex = 7 then Some (soundUrl AutomodHighlight) else None)
      else if column = Color \<and> role = DecorationRole then
        (if rowIndex = 0 then Some (color SelfHighlight)
         else if rowIndex = 1 then Some (color Whisper)
         else if rowIndex = 2 then Some (color Subscription)
         else if rowIndex = 8 then Some (color WatchStreak)
         else if rowIndex = 3 then Some (color RedeemedHighlight)
         else if rowIndex = 4 then Some (color FirstMessageHighlight)
         else if rowIndex = 5 then Some (color ElevatedMessageHighlight)
         else if rowIndex = 6 then Some (color ThreadMessageHighlight)
         else if rowIndex = 7 then Some (color AutomodHighlight) else None)
      else None)"

definition user_written :: "nat \<Rightarrow> item_role \<Rightarrow> nat \<Rightarrow> highlight_setting option" where
  "user_written column role rowIndex =
     (if rowIndex \<noteq> 0 then None
      else if column = Pattern \<and> role = CheckStateRole then Some (enable SelfMessageHighlight)
      else if column = ShowInMentions \<and> role = CheckStateRole then Some (showInMentions SelfMessageHighlight)
      else if column = Color \<and> role = DecorationRole then Some (color SelfMessageHighlight)
      else None)"

fun writtenValue :: "gui_ops \<Rightarrow> highlight_setting \<Rightarrow> qvariant \<Rightarrow> setting_value" where
  "writtenValue ops (soundUrl kind) v = StringSetting (toStringQ v)"
| "writtenValue ops (color kind) v = StringSetting (nameHexArgb (valueColor ops v))"
| "writtenValue ops _ v = BoolSetting (toBoolQ v)"

definition customRowSetData_with ::
  "gui_ops \<Rightarrow> (nat \<Rightarrow> item_role \<Rightarrow> nat \<Rightarrow> highlight_setting option) \<Rightarrow>
   cell list \<Rightarrow> nat \<Rightarrow> qvariant \<Rightarrow> item_role \<Rightarrow> nat \<Rightarrow> setting_writes \<Rightarrow> setting_writes" where
  "customRowSetData_with ops written row column v role rowIndex w =
     (case written column role rowIndex of None \<Rightarrow> w | Some x \<Rightarrow> w @ [(x, writtenValue ops x v)])"

definition HighlightModel :: "gui_ops \<Rightarrow> gui_settings \<Rightarrow> (highlight_phrase, setting_writes) model_class" where
  "HighlightModel ops s = \<lparr>columnCount = 8, getItemFromRow = highlight_getItemFromRow ops,
     getRowFromItem = highlight_getRowFromItem ops, beforeInsert = beforeInsert_default,
     afterRemoved = afterRemoved_default, customRowSetData = customRowSetData_with ops highlight_written,
     afterInit = highlight_afterInit ops s\<rparr>"

definition UserHighlightModel :: "gui_ops \<Rightarrow> gui_settings \<Rightarrow> (highlight_phrase, setting_writes) model_class" where
  "UserHighlightModel ops s = \<lparr>columnCount = 8, getItemFromRow = user_getItemFromRow ops,
     getRowFromItem = highlight_getRowFromItem ops, beforeInsert = beforeInsert_default,
     afterRemoved = afterRemoved_default, customRowSetData = customRowSetData_with ops user_written,
     afterInit = user_afterInit ops s\<rparr>"

definition BadgeHighlightModel :: "gui_ops \<Rightarrow> (highlight_badge, unit) model_class" where
  "BadgeHighlightModel ops = modelWith 6 (badge_getItemFromRow ops) (badge_getRowFromItem ops)"

section \<open>The contracts\<close>

definition urls_stable :: "gui_ops \<Rightarrow> bool" where
  "urls_stable ops \<longleftrightarrow> (\<forall>s. go_url ops (go_url ops s) = go_url ops s)"

definition phrase_ok :: "gui_ops \<Rightarrow> highlight_phrase \<Rightarrow> bool" where
  "phrase_ok ops p \<longleftrightarrow> go_url ops (hp_soundUrl p) = hp_soundUrl p"

definition user_phrase_ok :: "gui_ops \<Rightarrow> highlight_phrase \<Rightarrow> bool" where
  "user_phrase_ok ops p \<longleftrightarrow> phrase_ok ops p \<and> trimmed (hp_pattern p) = hp_pattern p"

definition badge_ok :: "gui_ops \<Rightarrow> highlight_badge \<Rightarrow> bool" where
  "badge_ok ops b \<longleftrightarrow> go_url ops (bd_soundUrl b) = bd_soundUrl b"

lemma setFilePath_simps [simp]:
  "length (setFilePath ops c url sel row) = length row"
  "c \<noteq> d \<Longrightarrow> setFilePath ops d url sel row ! c = row ! c"
  "c < length row \<Longrightarrow> data_cell UserRole (setFilePath ops c url sel row ! c) = QUrlV url"
  "c \<noteq> d \<Longrightarrow> display (setFilePath ops d url sel row) c = display row c"
  "c \<noteq> d \<Longrightarrow> checked (setFilePath ops d url sel row) c = checked row c"
  by (simp_all add: setFilePath_def setFilePathItem_def cell_defs display_def checked_def)

lemma setColor_simps [simp]:
  "length (setColor c v sel row) = length row"
  "c \<noteq> d \<Longrightarrow> setColor d v sel row ! c = row ! c"
  "c < length row \<Longrightarrow> data_cell DecorationRole (setColor c v sel row ! c) = QColorV v"
  "c \<noteq> d \<Longrightarrow> display (setColor d v sel row) c = display row c"
  "c \<noteq> d \<Longrightarrow> checked (setColor d v sel row) c = checked row c"
  by (simp_all add: setColor_def setColorItem_def cell_defs display_def checked_def)

lemma display_update_setStringItem [simp]:
  "c < length row \<Longrightarrow> display (row[c := setStringItem s editable selectable x]) c = s"
  by (simp add: display_def)

lemma length_highlight_getRowFromItem [simp]: "length (highlight_getRowFromItem ops p row) = length row"
  by (simp add: highlight_getRowFromItem_def)

lemma length_setBoolCustom [simp]: "length (setBoolCustom c b row) = length row"
  by (simp add: setBoolCustom_def)

lemma length_customRow [simp]:
  "length (customRow ops s kind label mentions notify row) = length row"
  by (simp add: customRow_def Let_def)

lemma insertCustomRows_mirrors:
  "columnCount H = 8 \<Longrightarrow> mirrors H ok n xs m \<Longrightarrow>
   \<exists>m'. insertCustomRows ops s kinds (int n) m = Inr m' \<and> mirrors H ok (n + length kinds) xs m'
     \<and> members m' = members m
     \<and> rows m' = take n (rows m) @ map (\<lambda>(kind, label, mentions, notify).
           \<lparr>row_items = customRow ops s kind label mentions notify (replicate 8 QStandardItem),
            original = None, isCustomRow = True\<rparr>) kinds @ drop n (rows m)"
proof (induction kinds arbitrary: n m)
  case (Cons k kinds)
  obtain kind label mentions notify where k: "k = (kind, label, mentions, notify)" by (cases k) auto
  let ?row = "customRow ops s kind label mentions notify (replicate 8 QStandardItem)"
  have n: "n \<le> length (rows m)" using Cons.prems(2) by (simp add: mirrors_def customs_on_top_def)
  obtain m1 where m1: "insertCustomRow ?row (int n) m = Inr m1" "mirrors H ok (Suc n) xs m1"
    "rows m1 = vec_insert n \<lparr>row_items = ?row, original = None, isCustomRow = True\<rparr> (rows m)"
    "members m1 = members m"
    by (rule mirrors_insertCustomRow[OF Cons.prems(2) _ le_refl, of ?row]) (simp_all add: Cons.prems(1))
  from Cons.IH[OF Cons.prems(1) m1(2)] m1(1,3,4) n show ?case
    by (auto simp: k vec_insert_def add.commute)
qed simp

lemma length_custom_rows [simp]: "length highlight_rows = 9" "length user_rows = 1"
  by (simp_all add: highlight_rows_def user_rows_def)

lemma highlight_conversion:
  assumes "urls_stable ops"
  shows "row_conversion (HighlightModel ops s) (phrase_ok ops) 9"
proof
  fix m m' xs
  assume "mirrors (HighlightModel ops s) (phrase_ok ops) 0 xs m" "afterInit (HighlightModel ops s) m = Inr m'"
  with insertCustomRows_mirrors[of "HighlightModel ops s" "phrase_ok ops" 0 xs m ops s highlight_rows]
  show "mirrors (HighlightModel ops s) (phrase_ok ops) 9 xs m'"
    by (auto simp: HighlightModel_def highlight_afterInit_def)
qed (use assms in \<open>simp_all add: HighlightModel_def highlight_getItemFromRow_def highlight_getRowFromItem_def
    createRow_def phrase_of_row_def HighlightPhrase_def phrase_ok_def urls_stable_def\<close>)

lemma user_highlight_conversion:
  assumes "urls_stable ops"
  shows "row_conversion (UserHighlightModel ops s) (user_phrase_ok ops) 1"
proof
  fix m m' xs
  assume "mirrors (UserHighlightModel ops s) (user_phrase_ok ops) 0 xs m" "afterInit (UserHighlightModel ops s) m = Inr m'"
  with insertCustomRows_mirrors[of "UserHighlightModel ops s" "user_phrase_ok ops" 0 xs m ops s user_rows]
  show "mirrors (UserHighlightModel ops s) (user_phrase_ok ops) 1 xs m'"
    by (auto simp: UserHighlightModel_def user_afterInit_def)
qed (use assms in \<open>simp_all add: UserHighlightModel_def user_getItemFromRow_def
    createRow_def phrase_of_row_def highlight_getRowFromItem_def HighlightPhrase_def phrase_ok_def
    user_phrase_ok_def urls_stable_def\<close>)

lemma badge_conversion:
  assumes "urls_stable ops"
  shows "row_conversion (BadgeHighlightModel ops) (badge_ok ops) 0"
  unfolding BadgeHighlightModel_def
  by (rule modelWith_conversion)
    (use assms in \<open>simp_all add: badge_getItemFromRow_def badge_getRowFromItem_def badge_ok_def urls_stable_def\<close>)


section \<open>Properties\<close>

text \<open>The setting that the cell of a custom row stands for, read off the row's kind and columns.\<close>

fun cell_setting :: "highlight_kind \<times> string \<times> bool \<times> bool \<Rightarrow> nat \<Rightarrow> item_role \<Rightarrow> highlight_setting option" where
  "cell_setting (kind, label, mentions, notify) column role =
     (if column = Pattern \<and> role = CheckStateRole then Some (enable kind)
      else if column = ShowInMentions \<and> role = CheckStateRole \<and> mentions then Some (showInMentions kind)
      else if column = FlashTaskbar \<and> role = CheckStateRole \<and> notify then Some (enableTaskbar kind)
      else if column = PlaySound \<and> role = CheckStateRole \<and> notify then Some (enableSound kind)
      else if column = SoundPath \<and> role = UserRole \<and> notify then Some (soundUrl kind)
      else if column = Color \<and> role = DecorationRole then Some (color kind)
      else None)"

lemma highlight_written_cell:
  assumes "r < 9"
  shows "highlight_written c role r = cell_setting (highlight_rows ! r) c role"
proof -
  have "r = 0 \<or> r = 1 \<or> r = 2 \<or> r = 3 \<or> r = 4 \<or> r = 5 \<or> r = 6 \<or> r = 7 \<or> r = 8"
    using assms by linarith
  then show ?thesis
    by (elim disjE) (simp_all add: highlight_written_def highlight_rows_def)
qed

text \<open>However the highlights table was used before, an edit of a cell of a custom row writes exactly the
  setting of that row's kind and that column (nothing where the row has no such setting), leaves the list of
  phrases alone, and the phrases of all models still show it.\<close>

theorem custom_cell_writes_its_setting:
  assumes "urls_stable ops" and "exec_tables (HighlightModel ops s) xs newSystem = Inr sys"
    and "ops_fit (phrase_ok ops) 0 xs" and self: "self < length (models sys)" and r: "r < 9" and c: "c < 8"
  shows "\<exists>sys'. setData_model (HighlightModel ops s) self (int r) (int c) v role sys = Inr (True, sys')
    \<and> vector sys' = vector sys \<and> shown (HighlightModel ops s) (phrase_ok ops) 9 sys'
    \<and> members (models sys' ! self) = members (models sys ! self) @
        (case cell_setting (highlight_rows ! r) c role of None \<Rightarrow> [] | Some x \<Rightarrow> [(x, writtenValue ops x v)])"
proof -
  let ?H = "HighlightModel ops s" and ?m = "models sys ! self"
  note conv = highlight_conversion[OF assms(1), of s]
  have "shown ?H (phrase_ok ops) 9 sys"
    using row_conversion.exec_tables_shown[OF conv shown_newSystem assms(2)] assms(3)
    by (simp add: newSystem_def)
  note sys = this
  have "mirrors ?H (phrase_ok ops) 9 (items (vector sys)) ?m" using sys self by (simp add: shown_def)
  then have m: "r < length (rows ?m)" "isCustomRow (rows ?m ! r)" "length (row_items (rows ?m ! r)) = 8"
    using r by (auto simp: mirrors_def customs_on_top_def good_row_def HighlightModel_def)
  have valid: "validIndex ?H ?m (int r) (int c)" using m(1) c by (simp add: validIndex_def HighlightModel_def)
  let ?sys1 = "update_model self (update_row r (\<lambda>cs. cs[c := setData_cell v role (cs ! c)])) sys"
  let ?sys' = "update_model self (\<lambda>m1. m1\<lparr>members :=
      customRowSetData ?H (row_items (rows m1 ! r)) c v role r (members m1)\<rparr>) ?sys1"
  have run: "setData_model ?H self (int r) (int c) v role sys = Inr (True, ?sys')"
    using valid m(2,3) by (simp add: setData_model_def HighlightModel_def)
  moreover have "shown ?H (phrase_ok ops) 9 ?sys'"
    using row_conversion.setData_keeps_shown[OF conv sys self run] by simp
  moreover have "members (models ?sys' ! self) = members ?m @
        (case cell_setting (highlight_rows ! r) c role of None \<Rightarrow> [] | Some x \<Rightarrow> [(x, writtenValue ops x v)])"
    using self r
    by (simp add: update_row_def HighlightModel_def customRowSetData_with_def highlight_written_cell
        split: option.splits)
  ultimately show ?thesis by (intro exI[of _ ?sys']) simp
qed

text \<open>A system with one page, one phrase and the settings off.\<close>

definition plain_ops :: gui_ops where
  "plain_ops = \<lparr>go_url = (\<lambda>s. s), go_fileName = (\<lambda>s. s), go_namedColor = (\<lambda>_. InvalidColor)\<rparr>"

definition off_settings :: gui_settings where
  "off_settings = \<lparr>gs_bool = (\<lambda>_. False), gs_soundUrl = (\<lambda>_. []), gs_color = (\<lambda>_. InvalidColor)\<rparr>"

definition some_phrase :: "string \<Rightarrow> highlight_phrase" where
  "some_phrase p = HighlightPhrase plain_ops p True False True False False [] (Argb 1)"

definition two_phrases :: "(highlight_phrase, setting_writes) table_op list" where
  "two_phrases = [CreateModel [], VectorInsert (some_phrase ''a'') (- 1), VectorInsert (some_phrase ''b'') (- 1)]"

lemma two_phrases_fit: "ops_fit (phrase_ok plain_ops) 0 two_phrases"
  by (simp add: two_phrases_def some_phrase_def phrase_ok_def HighlightPhrase_def plain_ops_def)

lemma urls_stable_plain: "urls_stable plain_ops"
  by (simp add: urls_stable_def plain_ops_def)

lemma two_phrases_run:
  obtains sys where "exec_tables (HighlightModel plain_ops off_settings) two_phrases newSystem = Inr sys"
    "items (vector sys) = [some_phrase ''a'', some_phrase ''b'']" "length (models sys) = 1"
    "members (models sys ! 0) = []"
proof -
  have "case exec_tables (HighlightModel plain_ops off_settings) two_phrases newSystem of Inl _ \<Rightarrow> False
      | Inr sys \<Rightarrow> items (vector sys) = [some_phrase ''a'', some_phrase ''b''] \<and> length (models sys) = 1
          \<and> members (models sys ! 0) = []"
    by code_simp
  with that show thesis
    by (cases "exec_tables (HighlightModel plain_ops off_settings) two_phrases newSystem") simp_all
qed

theorem custom_cell_writes_its_setting_witness:
  "\<exists>sys sys'. exec_tables (HighlightModel plain_ops off_settings) two_phrases newSystem = Inr sys
    \<and> setData_model (HighlightModel plain_ops off_settings) 0 8 0 (QInt 2) CheckStateRole sys = Inr (True, sys')
    \<and> members (models sys' ! 0) = [(enable WatchStreak, BoolSetting True)]"
proof -
  obtain sys where sys: "exec_tables (HighlightModel plain_ops off_settings) two_phrases newSystem = Inr sys"
    "length (models sys) = 1" "members (models sys ! 0) = []" by (rule two_phrases_run)
  have "(0::nat) < length (models sys)" using sys(2) by simp
  from custom_cell_writes_its_setting[OF urls_stable_plain sys(1) two_phrases_fit this, of 8 0 "QInt 2" CheckStateRole]
  obtain sys' where "setData_model (HighlightModel plain_ops off_settings) 0 8 0 (QInt 2) CheckStateRole sys = Inr (True, sys')"
    "members (models sys' ! 0) = members (models sys ! 0) @
        (case cell_setting (highlight_rows ! 8) 0 CheckStateRole of None \<Rightarrow> []
         | Some x \<Rightarrow> [(x, writtenValue plain_ops x (QInt 2))])"
    by auto
  with sys show ?thesis by (auto simp: highlight_rows_def)
qed


text \<open>Witnesses of the properties of all tables, on the table of two phrases.\<close>

lemma two_phrases_shown:
  obtains sys where "exec_tables (HighlightModel plain_ops off_settings) two_phrases newSystem = Inr sys"
    "items (vector sys) = [some_phrase ''a'', some_phrase ''b'']" "length (models sys) = 1"
    "shown (HighlightModel plain_ops off_settings) (phrase_ok plain_ops) 9 sys"
proof -
  obtain sys where sys: "exec_tables (HighlightModel plain_ops off_settings) two_phrases newSystem = Inr sys"
    "items (vector sys) = [some_phrase ''a'', some_phrase ''b'']" "length (models sys) = 1"
    by (rule two_phrases_run)
  have "shown (HighlightModel plain_ops off_settings) (phrase_ok plain_ops) 9 sys"
    using row_conversion.exec_tables_shown[OF highlight_conversion[OF urls_stable_plain] shown_newSystem sys(1)]
      two_phrases_fit by (simp add: newSystem_def)
  with sys that show thesis by blast
qed

theorem editing_rows_edits_items_witness:
  "\<exists>sys sys'. exec_tables (HighlightModel plain_ops off_settings) two_phrases newSystem = Inr sys
    \<and> removeRows (HighlightModel plain_ops off_settings) 0 9 1 sys = Inr (True, sys')
    \<and> items (vector sys') = [some_phrase ''b'']
    \<and> removeRows (HighlightModel plain_ops off_settings) 0 8 1 sys = Inl AssertionFailed"
proof -
  obtain sys where sys: "exec_tables (HighlightModel plain_ops off_settings) two_phrases newSystem = Inr sys"
    "items (vector sys) = [some_phrase ''a'', some_phrase ''b'']" "length (models sys) = 1"
    "shown (HighlightModel plain_ops off_settings) (phrase_ok plain_ops) 9 sys" by (rule two_phrases_shown)
  have k: "(0::nat) < length (models sys)" "0 < length (items (vector sys))"
    "7 < columnCount (HighlightModel plain_ops off_settings)"
    using sys by (simp_all add: HighlightModel_def)
  note edit = editing_rows_edits_items[OF highlight_conversion[OF urls_stable_plain] sys(4) k refl, of Invalid EditRole]
  from edit[THEN conjunct2, THEN conjunct1] sys(2)
  obtain sys' where "removeRows (HighlightModel plain_ops off_settings) 0 9 1 sys = Inr (True, sys')"
    "items (vector sys') = [some_phrase ''b'']" by auto
  moreover have "removeRows (HighlightModel plain_ops off_settings) 0 8 1 sys = Inl AssertionFailed"
    using edit[THEN conjunct2, THEN conjunct2, rule_format, of 8] by simp
  ultimately show ?thesis using sys(1) by (intro exI conjI)
qed

theorem moving_rows_moves_items_witness:
  "\<exists>sys sys1 sys2. exec_tables (HighlightModel plain_ops off_settings) two_phrases newSystem = Inr sys
    \<and> moveRows (HighlightModel plain_ops off_settings) 0 10 1 9 sys = Inr (True, sys1)
    \<and> items (vector sys1) = [some_phrase ''b'', some_phrase ''a'']
    \<and> moveRowButton (HighlightModel plain_ops off_settings) 0 [9] (- 1) sys = Inr sys2
    \<and> items (vector sys2) = [some_phrase ''b'', some_phrase ''a'']"
proof -
  obtain sys where sys: "exec_tables (HighlightModel plain_ops off_settings) two_phrases newSystem = Inr sys"
    "items (vector sys) = [some_phrase ''a'', some_phrase ''b'']" "length (models sys) = 1"
    "shown (HighlightModel plain_ops off_settings) (phrase_ok plain_ops) 9 sys" by (rule two_phrases_shown)
  have k: "(0::nat) < length (models sys)" "1 < length (items (vector sys))" "0 < length (items (vector sys))"
    "9 + length (items (vector sys)) < 2 ^ 31"
    using sys by simp_all
  note move = moving_rows_moves_items[OF highlight_conversion[OF urls_stable_plain] sys(4) k]
  from move[THEN conjunct1] sys(2)
  obtain sys1 where "moveRows (HighlightModel plain_ops off_settings) 0 10 1 9 sys = Inr (True, sys1)"
    "items (vector sys1) = [some_phrase ''b'', some_phrase ''a'']" by auto
  moreover from move[THEN conjunct2] sys(2)
  obtain sys2 where "moveRowButton (HighlightModel plain_ops off_settings) 0 [9] (- 1) sys = Inr sys2"
    "items (vector sys2) = [some_phrase ''b'', some_phrase ''a'']" by auto
  ultimately show ?thesis using sys(1) by (intro exI conjI)
qed

end
