(* ===== verification/Hotkeys.thy ===== *)
theory Hotkeys
  imports SignalVector "HOL-Library.List_Lexorder"
begin

text \<open>
  Hotkeys: \<open>src/controllers/hotkeys/Hotkey.cpp\<close>, \<open>HotkeyCategory.hpp\<close>, \<open>HotkeyHelpers.cpp\<close>,
  \<open>ActionNames.hpp\<close> and the list of hotkeys of \<open>HotkeyController.cpp\<close>.

  A key sequence is a list of key combinations; how Qt reads one from text, and which keys zoom, is
  the argument \<open>key_ops\<close>.  The hotkeys live in a \<open>SignalVector\<close> sorted by category and name.  The settings
  file itself is not modelled: \<open>loadHotkeys\<close> takes the stored entries.
\<close>

section \<open>Types\<close>

datatype hotkey_category = PopupWindow | Split | SplitInput | Window

datatype key = Key_Return | Key_Enter | OtherKey nat

type_synonym key_sequence = "(nat \<times> key) list"

record key_ops =
  ko_parse :: "string \<Rightarrow> key_sequence"
  ko_zoomIn :: key_sequence
  ko_zoomOut :: key_sequence

record hotkey =
  hk_category :: hotkey_category
  hk_keySequence :: key_sequence
  hk_action :: string
  hk_arguments :: "string list"
  hk_name :: string

definition Hotkey :: "hotkey_category \<Rightarrow> key_sequence \<Rightarrow> string \<Rightarrow> string list \<Rightarrow> string \<Rightarrow> hotkey" where
  "Hotkey category keys action args n =
     \<lparr>hk_category = category, hk_keySequence = keys, hk_action = action, hk_arguments = args, hk_name = n\<rparr>"

text \<open>\<open>HOTKEY_CATEGORIES\<close>: a map ordered by the enumeration, with the name and the display name.\<close>

definition HOTKEY_CATEGORIES :: "(hotkey_category \<times> string \<times> string) list" where
  "HOTKEY_CATEGORIES =
     [(PopupWindow, ''popupWindow'', ''Popup Windows''), (Split, ''split'', ''Split''),
      (SplitInput, ''splitInput'', ''Split input box''), (Window, ''window'', ''Window'')]"

definition hotkeyCategoryName :: "hotkey_category \<Rightarrow> string" where
  "hotkeyCategoryName c = (case map_of HOTKEY_CATEGORIES c of None \<Rightarrow> [] | Some (n, _) \<Rightarrow> n)"

definition hotkeyCategoryDisplayName :: "hotkey_category \<Rightarrow> string" where
  "hotkeyCategoryDisplayName c = (case map_of HOTKEY_CATEGORIES c of None \<Rightarrow> [] | Some (_, d) \<Rightarrow> d)"

fun categoryFromNameLoop :: "string \<Rightarrow> (hotkey_category \<times> string \<times> string) list \<Rightarrow> hotkey_category option" where
  "categoryFromNameLoop s [] = None"
| "categoryFromNameLoop s ((category, n, _) # rest) = (if n = s then Some category else categoryFromNameLoop s rest)"

definition hotkeyCategoryFromName :: "string \<Rightarrow> hotkey_category option" where
  "hotkeyCategoryFromName s = categoryFromNameLoop s HOTKEY_CATEGORIES"

definition getCategory :: "hotkey \<Rightarrow> string" where
  "getCategory h = hotkeyCategoryDisplayName (hk_category h)"

definition categoryIndex :: "hotkey_category \<Rightarrow> nat" where
  "categoryIndex c = (case c of PopupWindow \<Rightarrow> 0 | Split \<Rightarrow> 1 | SplitInput \<Rightarrow> 2 | Window \<Rightarrow> 3)"

definition hotkeySortCompare :: "hotkey \<Rightarrow> hotkey \<Rightarrow> bool" where
  "hotkeySortCompare a b =
     (if hk_category a = hk_category b then hk_name a < hk_name b
      else categoryIndex (hk_category a) < categoryIndex (hk_category b))"

lemma categoryIndex_inject [simp]: "categoryIndex c = categoryIndex d \<longleftrightarrow> c = d"
  by (cases c; cases d) (simp_all add: categoryIndex_def)

text \<open>The comparison is what \<open>std::lower_bound\<close> asks for.\<close>

interpretation hotkey_order: strict_weak_order hotkeySortCompare
proof
  fix a b c :: hotkey
  have lexical: "hotkeySortCompare a b \<longleftrightarrow>
      categoryIndex (hk_category a) < categoryIndex (hk_category b)
      \<or> hk_category a = hk_category b \<and> hk_name a < hk_name b" for a b
    by (auto simp: hotkeySortCompare_def)
  show "hotkeySortCompare a b \<Longrightarrow> \<not> hotkeySortCompare b a"
    by (auto simp: lexical)
  show "\<not> hotkeySortCompare a b \<Longrightarrow> \<not> hotkeySortCompare b c \<Longrightarrow> \<not> hotkeySortCompare a c"
    by (auto simp: lexical not_less dest: order_trans)
qed

section \<open>Actions\<close>

text \<open>Of an \<open>ActionDefinition\<close>: the argument counts and the possible arguments (empty when free).\<close>

record action_definition =
  minCountArguments :: nat
  maxCountArguments :: nat
  possibleArguments :: "string list list"

definition noArguments :: action_definition where
  "noArguments = \<lparr>minCountArguments = 0, maxCountArguments = 0, possibleArguments = []\<rparr>"

definition oneArgument :: action_definition where
  "oneArgument = \<lparr>minCountArguments = 1, maxCountArguments = 1, possibleArguments = []\<rparr>"

definition oneOf :: "string list \<Rightarrow> action_definition" where
  "oneOf args = \<lparr>minCountArguments = 1, maxCountArguments = 1, possibleArguments = map (\<lambda>a. [a]) args\<rparr>"

definition optionalOf :: "string list \<Rightarrow> action_definition" where
  "optionalOf args = \<lparr>minCountArguments = 0, maxCountArguments = 1, possibleArguments = [] # map (\<lambda>a. [a]) args\<rparr>"

definition popupActions :: "(string \<times> action_definition) list" where
  "popupActions =
     [(''reject'', noArguments), (''accept'', noArguments), (''delete'', noArguments), (''openTab'', oneArgument),
      (''scrollPage'', oneOf [''up'', ''down'']), (''search'', noArguments),
      (''execModeratorAction'', oneArgument), (''pin'', noArguments)]"

definition splitActions :: "(string \<times> action_definition) list" where
  "splitActions =
     [(''changeChannel'', noArguments), (''clearMessages'', noArguments), (''createClip'', noArguments),
      (''delete'', noArguments), (''focus'', oneOf [''up'', ''down'', ''left'', ''right'']),
      (''openInBrowser'', noArguments), (''openPlayerInBrowser'', noArguments), (''openInCustomPlayer'', noArguments),
      (''openInStreamlink'', noArguments), (''openModView'', noArguments), (''openViewerList'', noArguments),
      (''pickFilters'', noArguments), (''reconnect'', noArguments),
      (''reloadEmotes'', optionalOf [''channel'', ''subscriber'']), (''runCommand'', oneArgument),
      (''scrollPage'', oneOf [''up'', ''down'']), (''scrollToBottom'', noArguments), (''scrollToTop'', noArguments),
      (''setChannelNotification'', optionalOf [''on'', ''off'']), (''setModerationMode'', optionalOf [''on'', ''off'']),
      (''showSearch'', noArguments), (''showGlobalSearch'', noArguments), (''debug'', noArguments),
      (''popupOverlay'', noArguments), (''toggleOverlayInertia'', oneOf [''this'', ''all'', ''thisOrAll'']),
      (''setHighlightSounds'', optionalOf [''on'', ''off'']), (''openSubscriptionPage'', noArguments)]"

definition splitInputActions :: "(string \<times> action_definition) list" where
  "splitInputActions =
     [(''clear'', noArguments), (''copy'', oneOf [''auto'', ''split'', ''splitInput'']),
      (''cursorToStart'', oneOf [''withoutSelection'', ''withSelection'']),
      (''cursorToEnd'', oneOf [''withoutSelection'', ''withSelection'']),
      (''nextMessage'', noArguments), (''openEmotesPopup'', noArguments), (''paste'', noArguments),
      (''previousMessage'', noArguments), (''redo'', noArguments), (''selectAll'', noArguments),
      (''selectWord'', noArguments), (''sendMessage'', optionalOf [''keepInput'']), (''undo'', noArguments)]"

text \<open>A debug build has six further actions.\<close>

definition windowActions :: "bool \<Rightarrow> (string \<times> action_definition) list" where
  "windowActions debug =
     (if debug then
       [(''addCheerMessage'', noArguments), (''addEmoteMessage'', noArguments), (''addLinkMessage'', noArguments),
        (''addMiscMessage'', noArguments), (''addRewardMessage'', noArguments), (''addSubMessage'', noArguments)]
      else []) @
     [(''moveTab'', oneArgument), (''newSplit'', noArguments), (''newTab'', noArguments),
      (''openSettings'', noArguments), (''openAccountSelector'', noArguments), (''openTab'', oneArgument),
      (''openQuickSwitcher'', noArguments), (''popup'', oneOf [''split'', ''window'']), (''quit'', noArguments),
      (''removeTab'', noArguments), (''reopenSplit'', noArguments),
      (''setStreamerMode'', optionalOf [''on'', ''off'', ''auto'']), (''toggleLocalR9K'', noArguments),
      (''zoom'', oneOf [''in'', ''out'', ''reset'']),
      (''setTabVisibility'', optionalOf [''on'', ''off'', ''liveOnly''])]"

definition actionNames :: "bool \<Rightarrow> hotkey_category \<Rightarrow> (string \<times> action_definition) list" where
  "actionNames debug c = (case c of PopupWindow \<Rightarrow> popupActions | Split \<Rightarrow> splitActions
     | SplitInput \<Rightarrow> splitInputActions | Window \<Rightarrow> windowActions debug)"

definition findHotkeyActionDefinition :: "bool \<Rightarrow> hotkey_category \<Rightarrow> string \<Rightarrow> action_definition option" where
  "findHotkeyActionDefinition debug category action = map_of (actionNames debug category) action"

definition validAction :: "bool \<Rightarrow> hotkey \<Rightarrow> bool" where
  "validAction debug h \<longleftrightarrow> map_of (actionNames debug (hk_category h)) (hk_action h) \<noteq> None"

section \<open>Helpers\<close>

text \<open>\<open>QString::split\<close> at a character: the parts between the separators, empty ones kept.\<close>

fun splitLines :: "string \<Rightarrow> string list" where
  "splitLines [] = [[]]"
| "splitLines (c # cs) =
     (if c = CHR 0x0A then [] # splitLines cs
      else (case splitLines cs of [] \<Rightarrow> [[c]] | l # ls \<Rightarrow> (c # l) # ls))"

definition parseHotkeyArguments :: "string \<Rightarrow> string list" where
  "parseHotkeyArguments argumentString =
     (let s = trimmed argumentString in if s = [] then [] else map trimmed (splitLines s))"

definition normalizeKeySequence :: "key_sequence \<Rightarrow> key_sequence" where
  "normalizeKeySequence ks =
     (if ks = [] then ks
      else if \<not> (\<exists>k \<in> set ks. snd k = Key_Enter) then ks
      else map (\<lambda>(mods, k). if k = Key_Enter then (mods, Key_Return) else (mods, k)) ks)"

section \<open>The controller\<close>

record hotkey_controller =
  hotkeys :: "hotkey signal_vector"
  removedOrDeprecated :: "string set"

definition append_hotkey :: "hotkey \<Rightarrow> hotkey_controller \<Rightarrow> vector_error + (int \<times> hotkey_controller)" where
  "append_hotkey h hc = pbind (append_sv h None (hotkeys hc)) (\<lambda>(at, _, v). Inr (at, hc\<lparr>hotkeys := v\<rparr>))"

fun hotkeyByNameLoop :: "string \<Rightarrow> hotkey list \<Rightarrow> hotkey option" where
  "hotkeyByNameLoop n [] = None"
| "hotkeyByNameLoop n (h # hs) = (if hk_name h = n then Some h else hotkeyByNameLoop n hs)"

definition getHotkeyByName :: "string \<Rightarrow> hotkey_controller \<Rightarrow> hotkey option" where
  "getHotkeyByName n hc = hotkeyByNameLoop n (items (hotkeys hc))"

text \<open>The loop of \<open>replaceHotkey\<close> gives the index of the first hotkey with the old name.\<close>

definition replaceHotkey :: "string \<Rightarrow> hotkey \<Rightarrow> hotkey_controller \<Rightarrow> vector_error + (int \<times> hotkey_controller)" where
  "replaceHotkey oldName newHotkey hc =
     pbind (case first_index (\<lambda>h. hk_name h = oldName) (items (hotkeys hc)) of
              None \<Rightarrow> Inr hc
            | Some i \<Rightarrow> pbind (removeAt_sv (int i) None (hotkeys hc)) (\<lambda>(_, v). Inr (hc\<lparr>hotkeys := v\<rparr>)))
       (append_hotkey newHotkey)"

fun duplicateLoop :: "hotkey \<Rightarrow> string \<Rightarrow> hotkey list \<Rightarrow> bool" where
  "duplicateLoop h ignoreNamed [] = False"
| "duplicateLoop h ignoreNamed (other # rest) =
     (if hk_name other = ignoreNamed \<or> hk_name other = hk_name h then duplicateLoop h ignoreNamed rest
      else if hk_category other = hk_category h \<and> hk_keySequence other = hk_keySequence h then True
      else duplicateLoop h ignoreNamed rest)"

definition isDuplicate :: "hotkey \<Rightarrow> string \<Rightarrow> hotkey_controller \<Rightarrow> bool" where
  "isDuplicate h ignoreNamed hc = duplicateLoop h ignoreNamed (items (hotkeys hc))"

fun findLikeLoop :: "hotkey_category \<Rightarrow> string \<Rightarrow> string list option \<Rightarrow> hotkey list \<Rightarrow> hotkey option" where
  "findLikeLoop category action args [] = None"
| "findLikeLoop category action args (other # rest) =
     (if hk_category other = category \<and> hk_action other = action
      then (case args of
              Some as \<Rightarrow> if hk_arguments other = as then Some other else findLikeLoop category action args rest
            | None \<Rightarrow> Some other)
      else findLikeLoop category action args rest)"

definition findLike :: "hotkey_category \<Rightarrow> string \<Rightarrow> string list option \<Rightarrow> hotkey_controller \<Rightarrow> hotkey option" where
  "findLike category action args hc = findLikeLoop category action args (items (hotkeys hc))"

definition getDisplaySequence :: "hotkey_category \<Rightarrow> string \<Rightarrow> string list option \<Rightarrow> hotkey_controller \<Rightarrow> key_sequence" where
  "getDisplaySequence category action args hc =
     (case findLike category action args hc of Some h \<Rightarrow> hk_keySequence h | None \<Rightarrow> [])"

definition tryAddDefault ::
  "hotkey_category \<Rightarrow> key_sequence \<Rightarrow> string \<Rightarrow> string list \<Rightarrow> string \<Rightarrow>
   string set \<times> hotkey_controller \<Rightarrow> vector_error + (string set \<times> hotkey_controller)" where
  "tryAddDefault category keys action args n st =
     (let (added, hc) = st in
      if n \<in> added then Inr (added, hc)
      else pbind (append_hotkey (Hotkey category keys action args n) hc) (\<lambda>(_, hc'). Inr (insert n added, hc')))"

definition tryRemoveDefault :: "hotkey_category \<Rightarrow> key_sequence \<Rightarrow> string \<Rightarrow> string list \<Rightarrow> string \<Rightarrow>
    hotkey_controller \<Rightarrow> bool \<times> hotkey_controller" where
  "tryRemoveDefault category keys action args n hc =
     (let (found, _, v) = removeFirstMatching_sv (\<lambda>h. hk_category h = category \<and> hk_keySequence h = keys
            \<and> hk_action h = action \<and> hk_arguments h = args \<and> hk_name h = n) None (hotkeys hc)
      in (found, hc\<lparr>hotkeys := v\<rparr>))"

definition warnForRemovedHotkeyActions :: "hotkey_category \<Rightarrow> string \<Rightarrow> string list \<Rightarrow> hotkey_controller \<Rightarrow> hotkey_controller" where
  "warnForRemovedHotkeyActions category action args hc =
     hc\<lparr>removedOrDeprecated := removedOrDeprecated hc \<union>
        hk_name ` {h \<in> set (items (hotkeys hc)). hk_category h = category \<and> hk_action h = action \<and> hk_arguments h = args}\<rparr>"

definition clearRemovedDefaults :: "key_ops \<Rightarrow> hotkey_controller \<Rightarrow> hotkey_controller" where
  "clearRemovedDefaults ko hc =
     warnForRemovedHotkeyActions Window ''setTabVisibility'' [''toggleLiveOnly'']
       (snd (tryRemoveDefault Window (ko_parse ko ''Ctrl+Shift+L'') ''setTabVisibility'' [''toggleLiveOnly'']
               ''toggle live tabs only'' hc))"

section \<open>Default hotkeys\<close>

text \<open>\<open>addDefaults\<close> as the list of its calls of \<open>tryAddDefault\<close>, in order; some are left out on macOS.\<close>

datatype default_key = KeyText string | ZoomInKey | ZoomOutKey

type_synonym default_hotkey = "hotkey_category \<times> default_key \<times> string \<times> string list \<times> string"

definition popupDefaults :: "default_hotkey list" where
  "popupDefaults =
     [(PopupWindow, KeyText ''Escape'', ''delete'', [], ''close popup window'')] @
     map (\<lambda>i. (PopupWindow, KeyText (''Ctrl+'' @ natDigits (i + 1)), ''openTab'', [natDigits i],
               ''popup select tab #'' @ natDigits (i + 1))) [0..<8] @
     [(PopupWindow, KeyText ''Ctrl+9'', ''openTab'', [''last''], ''popup select last tab''),
      (PopupWindow, KeyText ''Ctrl+Tab'', ''openTab'', [''next''], ''popup select next tab''),
      (PopupWindow, KeyText ''Ctrl+Shift+Tab'', ''openTab'', [''previous''], ''popup select previous tab''),
      (PopupWindow, KeyText ''PgUp'', ''scrollPage'', [''up''], ''popup scroll up''),
      (PopupWindow, KeyText ''PgDown'', ''scrollPage'', [''down''], ''popup scroll down''),
      (PopupWindow, KeyText ''Return'', ''accept'', [], ''popup accept''),
      (PopupWindow, KeyText ''Escape'', ''reject'', [], ''popup reject''),
      (PopupWindow, KeyText ''Ctrl+F'', ''search'', [], ''popup focus search box'')]"

definition splitDefaults :: "bool \<Rightarrow> default_hotkey list" where
  "splitDefaults macos =
     [(Split, KeyText ''Ctrl+W'', ''delete'', [], ''delete''),
      (Split, KeyText ''Ctrl+R'', ''changeChannel'', [], ''change channel''),
      (Split, KeyText ''Ctrl+F'', ''showSearch'', [], ''show search''),
      (Split, KeyText ''Ctrl+Shift+F'', ''showGlobalSearch'', [], ''show global search''),
      (Split, KeyText ''Ctrl+F5'', ''reconnect'', [], ''reconnect''),
      (Split, KeyText ''F5'', ''reloadEmotes'', [], ''reload emotes''),
      (Split, KeyText ''Alt+x'', ''createClip'', [], ''create clip'')] @
     (if macos then [] else
       [(Split, KeyText ''Alt+left'', ''focus'', [''left''], ''focus left''),
        (Split, KeyText ''Alt+down'', ''focus'', [''down''], ''focus down''),
        (Split, KeyText ''Alt+up'', ''focus'', [''up''], ''focus up''),
        (Split, KeyText ''Alt+right'', ''focus'', [''right''], ''focus right'')]) @
     [(Split, KeyText ''PgUp'', ''scrollPage'', [''up''], ''scroll page up''),
      (Split, KeyText ''PgDown'', ''scrollPage'', [''down''], ''scroll page down''),
      (Split, KeyText ''Ctrl+End'', ''scrollToBottom'', [], ''scroll to bottom''),
      (Split, KeyText ''Ctrl+Home'', ''scrollToTop'', [], ''scroll to top''),
      (Split, KeyText ''F10'', ''debug'', [], ''open debug popup''),
      (Split, KeyText ''Ctrl+Alt+N'', ''popupOverlay'', [], ''open overlay''),
      (Split, KeyText ''Ctrl+Shift+U'', ''toggleOverlayInertia'', [''all''], ''toggle overlay click-through'')]"

definition splitInputDefaults :: "default_hotkey list" where
  "splitInputDefaults =
     [(SplitInput, KeyText ''Ctrl+E'', ''openEmotesPopup'', [], ''emote picker''),
      (SplitInput, KeyText ''Return'', ''sendMessage'', [], ''send message''),
      (SplitInput, KeyText ''Ctrl+Return'', ''sendMessage'', [''keepInput''], ''send message and keep text''),
      (SplitInput, KeyText ''Shift+Return'', ''sendMessage'', [], ''send message''),
      (SplitInput, KeyText ''Ctrl+Shift+Return'', ''sendMessage'', [''keepInput''], ''send message and keep text''),
      (SplitInput, KeyText ''Home'', ''cursorToStart'', [''withoutSelection''], ''go to start of input''),
      (SplitInput, KeyText ''End'', ''cursorToEnd'', [''withoutSelection''], ''go to end of input''),
      (SplitInput, KeyText ''Shift+Home'', ''cursorToStart'', [''withSelection''], ''go to start of input with selection''),
      (SplitInput, KeyText ''Shift+End'', ''cursorToEnd'', [''withSelection''], ''go to end of input with selection''),
      (SplitInput, KeyText ''Up'', ''previousMessage'', [], ''previous message''),
      (SplitInput, KeyText ''Down'', ''nextMessage'', [], ''next message'')]"

definition windowDefaults :: "bool \<Rightarrow> default_hotkey list" where
  "windowDefaults macos =
     [(Window, KeyText ''Ctrl+P'', ''openSettings'', [], ''open settings''),
      (Window, KeyText ''Ctrl+T'', ''newSplit'', [], ''new split'')] @
     map (\<lambda>i. (Window, KeyText (''Ctrl+'' @ natDigits (i + 1)), ''openTab'', [natDigits i],
               ''select tab #'' @ natDigits (i + 1))) [0..<8] @
     [(Window, KeyText ''Ctrl+9'', ''openTab'', [''last''], ''select last tab''),
      (Window, KeyText ''Ctrl+Tab'', ''openTab'', [''next''], ''select next tab''),
      (Window, KeyText ''Ctrl+Shift+Tab'', ''openTab'', [''previous''], ''select previous tab''),
      (Window, KeyText ''Ctrl+N'', ''popup'', [''split''], ''new popup window''),
      (Window, KeyText ''Ctrl+Shift+N'', ''popup'', [''window''], ''new popup window from tab''),
      (Window, ZoomInKey, ''zoom'', [''in''], ''zoom in''),
      (Window, ZoomOutKey, ''zoom'', [''out''], ''zoom out''),
      (Window, KeyText ''CTRL+0'', ''zoom'', [''reset''], ''zoom reset''),
      (Window, KeyText ''Ctrl+Shift+T'', ''newTab'', [], ''new tab''),
      (Window, KeyText ''Ctrl+Shift+W'', ''removeTab'', [], ''remove tab''),
      (Window, KeyText ''Ctrl+G'', ''reopenSplit'', [], ''reopen split'')] @
     (if macos then [] else [(Window, KeyText ''Ctrl+H'', ''toggleLocalR9K'', [], ''toggle local r9k'')]) @
     [(Window, KeyText ''Ctrl+K'', ''openQuickSwitcher'', [], ''open quick switcher''),
      (Window, KeyText ''Ctrl+U'', ''setTabVisibility'', [''toggle''], ''toggle tab visibility'')]"

definition defaultHotkeys :: "bool \<Rightarrow> default_hotkey list" where
  "defaultHotkeys macos = popupDefaults @ splitDefaults macos @ splitInputDefaults @ windowDefaults macos"

fun defaultKeys :: "key_ops \<Rightarrow> default_key \<Rightarrow> key_sequence" where
  "defaultKeys ko (KeyText s) = ko_parse ko s"
| "defaultKeys ko ZoomInKey = ko_zoomIn ko"
| "defaultKeys ko ZoomOutKey = ko_zoomOut ko"

fun addDefaultsLoop ::
  "key_ops \<Rightarrow> default_hotkey list \<Rightarrow> string set \<times> hotkey_controller \<Rightarrow> vector_error + (string set \<times> hotkey_controller)" where
  "addDefaultsLoop ko [] st = Inr st"
| "addDefaultsLoop ko ((category, k, action, args, n) # rest) st =
     pbind (tryAddDefault category (defaultKeys ko k) action args n st) (addDefaultsLoop ko rest)"

definition addDefaults :: "key_ops \<Rightarrow> bool \<Rightarrow> string set \<times> hotkey_controller \<Rightarrow> vector_error + (string set \<times> hotkey_controller)" where
  "addDefaults ko macos st = addDefaultsLoop ko (defaultHotkeys macos) st"

text \<open>\<open>loadHotkeys\<close>: the defaults the settings do not know yet, then the stored entries (name, category
  name, key text, action, arguments).  The result has the new set of known defaults.\<close>

type_synonym stored_hotkey = "string \<times> string \<times> string \<times> string \<times> string list"

fun loadStored :: "key_ops \<Rightarrow> stored_hotkey list \<Rightarrow> hotkey_controller \<Rightarrow> vector_error + hotkey_controller" where
  "loadStored ko [] hc = Inr hc"
| "loadStored ko ((n, categoryName, keySequence, action, args) # rest) hc =
     (if n = ''addedDefaults'' then loadStored ko rest hc
      else if categoryName = [] \<or> keySequence = [] \<or> action = [] then loadStored ko rest hc
      else (case hotkeyCategoryFromName categoryName of
              None \<Rightarrow> loadStored ko rest hc
            | Some category \<Rightarrow>
                pbind (append_hotkey (Hotkey category (ko_parse ko keySequence) action args n) hc)
                  (\<lambda>(_, hc'). loadStored ko rest hc')))"

definition loadHotkeys ::
  "key_ops \<Rightarrow> bool \<Rightarrow> string set \<Rightarrow> stored_hotkey list \<Rightarrow> hotkey_controller \<Rightarrow> vector_error + (string set \<times> hotkey_controller)" where
  "loadHotkeys ko macos addedDefaults stored hc =
     pbind (addDefaults ko macos (addedDefaults, hc)) (\<lambda>(added, hc').
     pbind (loadStored ko stored hc') (\<lambda>hc''. Inr (added, hc'')))"

definition newHotkeyController :: hotkey_controller where
  "newHotkeyController = \<lparr>hotkeys = SignalVector (Some hotkeySortCompare), removedOrDeprecated = {}\<rparr>"

definition HotkeyController ::
  "key_ops \<Rightarrow> bool \<Rightarrow> string set \<Rightarrow> stored_hotkey list \<Rightarrow> vector_error + (string set \<times> hotkey_controller)" where
  "HotkeyController ko macos addedDefaults stored =
     pbind (loadHotkeys ko macos addedDefaults stored newHotkeyController) (\<lambda>(added, hc).
       Inr (added, clearRemovedDefaults ko hc))"

text \<open>\<open>resetToDefaults\<close>: every hotkey is removed from the front, then the defaults are added with no
  default known and nothing stored.\<close>

fun removeFront :: "nat \<Rightarrow> hotkey_controller \<Rightarrow> vector_error + hotkey_controller" where
  "removeFront 0 hc = Inr hc"
| "removeFront (Suc k) hc = pbind (removeAt_sv 0 None (hotkeys hc)) (\<lambda>(_, v). removeFront k (hc\<lparr>hotkeys := v\<rparr>))"

definition resetToDefaults :: "key_ops \<Rightarrow> bool \<Rightarrow> hotkey_controller \<Rightarrow> vector_error + (string set \<times> hotkey_controller)" where
  "resetToDefaults ko macos hc =
     pbind (removeFront (length (items (hotkeys hc))) hc) (loadHotkeys ko macos {} [])"


section \<open>What the defaults come to\<close>

definition mkDefault :: "key_ops \<Rightarrow> default_hotkey \<Rightarrow> hotkey" where
  "mkDefault ko d = (case d of (category, k, action, args, n) \<Rightarrow> Hotkey category (defaultKeys ko k) action args n)"

definition defaultName :: "default_hotkey \<Rightarrow> string" where
  "defaultName d = (case d of (category, k, action, args, n) \<Rightarrow> n)"

text \<open>The defaults whose name was neither known nor used by an earlier one.\<close>

fun keepNew :: "string set \<Rightarrow> default_hotkey list \<Rightarrow> default_hotkey list" where
  "keepNew added [] = []"
| "keepNew added (d # ds) =
     (if defaultName d \<in> added then keepNew added ds else d # keepNew (insert (defaultName d) added) ds)"

lemma append_sorted:
  "itemCompare (hotkeys hc) = Some hotkeySortCompare \<Longrightarrow>
   \<exists>at hc'. append_hotkey h hc = Inr (at, hc') \<and> itemCompare (hotkeys hc') = Some hotkeySortCompare
     \<and> removedOrDeprecated hc' = removedOrDeprecated hc
     \<and> items (hotkeys hc') = vec_insert (lower_bound hotkeySortCompare h (items (hotkeys hc))) h (items (hotkeys hc))"
  by (simp add: append_hotkey_def append_sv_def insert_sv_sorted Let_def)

definition insertAll :: "hotkey list \<Rightarrow> hotkey list \<Rightarrow> hotkey list" where
  "insertAll hs xs = foldl (\<lambda>xs h. vec_insert (lower_bound hotkeySortCompare h xs) h xs) xs hs"

lemma addDefaultsLoop_spec:
  "itemCompare (hotkeys hc) = Some hotkeySortCompare \<Longrightarrow>
   \<exists>hc'. addDefaultsLoop ko ds (added, hc) = Inr (added \<union> set (map defaultName ds), hc')
     \<and> items (hotkeys hc') = insertAll (map (mkDefault ko) (keepNew added ds)) (items (hotkeys hc))
     \<and> itemCompare (hotkeys hc') = Some hotkeySortCompare"
proof (induction ds arbitrary: added hc)
  case Nil
  then show ?case by (simp add: insertAll_def)
next
  case (Cons d ds)
  obtain category k action args n where d: "d = (category, k, action, args, n)" by (cases d) auto
  show ?case
  proof (cases "n \<in> added")
    case True
    with Cons.IH[OF Cons.prems, of added] show ?thesis
      by (auto simp: d tryAddDefault_def defaultName_def insert_absorb)
  next
    case False
    from append_sorted[OF Cons.prems, of "mkDefault ko d"] obtain at hc1
      where hc1: "append_hotkey (mkDefault ko d) hc = Inr (at, hc1)" "itemCompare (hotkeys hc1) = Some hotkeySortCompare"
        "items (hotkeys hc1) = vec_insert (lower_bound hotkeySortCompare (mkDefault ko d) (items (hotkeys hc)))
           (mkDefault ko d) (items (hotkeys hc))" by blast
    from Cons.IH[OF hc1(2), of "insert n added"] False hc1(1,3) show ?thesis
      by (auto simp: d tryAddDefault_def defaultName_def mkDefault_def insertAll_def)
  qed
qed

lemma mset_insertAll: "mset (insertAll hs xs) = mset hs + mset xs"
  unfolding insertAll_def by (induction hs arbitrary: xs) simp_all

lemma sorted_insertAll:
  "sorted_wrt (\<lambda>a b. \<not> hotkeySortCompare b a) xs \<Longrightarrow> sorted_wrt (\<lambda>a b. \<not> hotkeySortCompare b a) (insertAll hs xs)"
  unfolding insertAll_def
  by (induction hs arbitrary: xs) (simp_all add: hotkey_order.sorted_insert_lower_bound)

text \<open>No two defaults have the same name, within each group and between the groups, but for the two variants of
  the split input.\<close>

definition apart :: "default_hotkey list \<Rightarrow> default_hotkey list \<Rightarrow> bool" where
  "apart ds es \<longleftrightarrow> list_all (\<lambda>d. \<not> List.member (map defaultName es) (defaultName d)) ds"

definition notVariant :: "default_hotkey \<Rightarrow> bool" where
  "notVariant d \<longleftrightarrow> fst (snd d) \<noteq> KeyText ''Shift+Return'' \<and> fst (snd d) \<noteq> KeyText ''Ctrl+Shift+Return''"

lemma set_keepNew: "set (keepNew added ds) \<subseteq> set ds"
  by (induction added ds rule: keepNew.induct) auto

lemma keepNew_distinct: "distinct (map defaultName ds) \<Longrightarrow> keepNew {} ds = ds"
proof -
  have "distinct (map defaultName ds) \<Longrightarrow> added \<inter> set (map defaultName ds) = {} \<Longrightarrow> keepNew added ds = ds" for added
    by (induction ds arbitrary: added) auto
  then show "distinct (map defaultName ds) \<Longrightarrow> keepNew {} ds = ds" by simp
qed

lemma keepNew_known: "X \<inter> set (map defaultName ds) = {} \<Longrightarrow> keepNew (added \<union> X) ds = keepNew added ds"
proof (induction ds arbitrary: added)
  case (Cons d ds)
  then show ?case using Cons.IH[of "insert (defaultName d) added"] by simp
qed simp

lemma keepNew_append:
  "keepNew added (ds @ es) = keepNew added ds @ keepNew (added \<union> set (map defaultName ds)) es"
  by (induction ds arbitrary: added) (simp_all add: insert_absorb Un_assoc)

lemma keepNew_apart: "apart es ds \<Longrightarrow> keepNew {} (ds @ es) = keepNew {} ds @ keepNew {} es"
proof -
  assume "apart es ds"
  then have "set (map defaultName ds) \<inter> set (map defaultName es) = {}"
    unfolding apart_def list_all_iff by (force simp: image_iff)
  from keepNew_known[OF this, of "{}"] show ?thesis by (simp add: keepNew_append)
qed

lemma apart_append: "apart ds (es @ fs) \<longleftrightarrow> apart ds es \<and> apart ds fs"
  unfolding apart_def list_all_iff by auto

lemma optional_subset: "set (ds @ (if b then [] else es) @ fs) \<subseteq> set (ds @ (if False then [] else es) @ fs)"
  by auto

lemma append_subset: "set es \<subseteq> set fs \<Longrightarrow> set (ds @ es) \<subseteq> set (ds @ fs)"
  by auto

lemma popup_distinct: "distinct (map defaultName popupDefaults)"
  by code_simp

lemma split_distinct: "\<forall>macos. distinct (map defaultName (splitDefaults macos))"
  by code_simp

lemma window_distinct: "\<forall>macos. distinct (map defaultName (windowDefaults macos))"
  by code_simp

lemma split_apart: "apart (splitDefaults False) popupDefaults"
  by code_simp

lemma input_apart: "apart splitInputDefaults (popupDefaults @ splitDefaults False)"
  by code_simp

lemma window_apart: "apart (windowDefaults False) popupDefaults"
  by code_simp

lemma window_apart': "apart (windowDefaults False) (splitDefaults False @ splitInputDefaults)"
  by code_simp

lemma input_new:
  "keepNew {} splitInputDefaults =
   filter notVariant splitInputDefaults"
  by code_simp

lemma apart_mono: "apart ds es \<Longrightarrow> set ds' \<subseteq> set ds \<Longrightarrow> set es' \<subseteq> set es \<Longrightarrow> apart ds' es'"
  by (fastforce simp: apart_def list_all_iff)

lemma others_not_variant:
  "\<forall>macos. list_all notVariant (popupDefaults @ splitDefaults macos @ windowDefaults macos)"
  by code_simp

lemma set_defaults_macos:
  "set (splitDefaults macos) \<subseteq> set (splitDefaults False)" "set (windowDefaults macos) \<subseteq> set (windowDefaults False)"
  unfolding splitDefaults_def windowDefaults_def by (rule optional_subset append_subset)+

lemma set_defaultHotkeys: "set (defaultHotkeys macos) \<subseteq> set (defaultHotkeys False)"
  unfolding defaultHotkeys_def set_append by (intro Un_mono set_defaults_macos subset_refl)

lemma keepNew_defaults: "keepNew {} (defaultHotkeys macos) = filter notVariant (defaultHotkeys macos)"
proof -
  note sub = set_defaults_macos[of macos]
  have "apart (splitDefaults macos) popupDefaults"
    by (rule apart_mono[OF split_apart sub(1) subset_refl])
  moreover have "apart splitInputDefaults (popupDefaults @ splitDefaults macos)"
    by (rule apart_mono[OF input_apart subset_refl]) (use sub(1) in auto)
  moreover have "apart (windowDefaults macos) (popupDefaults @ splitDefaults macos @ splitInputDefaults)"
    unfolding apart_append
    by (intro conjI apart_mono[OF window_apart sub(2)] apart_mono[OF window_apart'[unfolded apart_append, THEN conjunct1] sub(2)]
        apart_mono[OF window_apart'[unfolded apart_append, THEN conjunct2] sub(2)] sub(1) subset_refl)
  ultimately have "keepNew {} (defaultHotkeys macos) =
      popupDefaults @ splitDefaults macos @ filter notVariant splitInputDefaults @ windowDefaults macos"
    using keepNew_apart[of "windowDefaults macos" "popupDefaults @ splitDefaults macos @ splitInputDefaults"]
      keepNew_apart[of splitInputDefaults "popupDefaults @ splitDefaults macos"]
      keepNew_apart[of "splitDefaults macos" popupDefaults]
      keepNew_distinct[OF popup_distinct] keepNew_distinct[OF split_distinct[rule_format], of macos]
      keepNew_distinct[OF window_distinct[rule_format], of macos] input_new
    by (simp add: defaultHotkeys_def)
  also have "\<dots> = filter notVariant (defaultHotkeys macos)"
    using others_not_variant[rule_format, of macos] by (simp add: defaultHotkeys_def filter_id_conv list_all_iff)
  finally show ?thesis .
qed

text \<open>A fresh start installs, sorted by category and name, every default hotkey but two: Shift+Return and
  Ctrl+Shift+Return of the split input have the names of Return and Ctrl+Return and are taken for defaults
  that were added before.\<close>

theorem fresh_start_installs_defaults:
  "\<exists>hc. addDefaults ko macos ({}, newHotkeyController) = Inr (set (map defaultName (defaultHotkeys macos)), hc)
     \<and> sorted_wrt (\<lambda>a b. \<not> hotkeySortCompare b a) (items (hotkeys hc))
     \<and> mset (items (hotkeys hc)) = mset (map (mkDefault ko)
         (filter (\<lambda>d. fst (snd d) \<noteq> KeyText ''Shift+Return'' \<and> fst (snd d) \<noteq> KeyText ''Ctrl+Shift+Return'')
            (defaultHotkeys macos)))"
  using addDefaultsLoop_spec[of newHotkeyController ko "defaultHotkeys macos" "{}"]
  by (auto simp: addDefaults_def newHotkeyController_def SignalVector_def mset_insertAll sorted_insertAll
      keepNew_defaults notVariant_def[abs_def])

text \<open>Every default hotkey has an action of its category and a number of arguments that the action
  accepts, and, except for the default that toggles the tab visibility, arguments that the action lists as
  possible where it lists any.\<close>

theorem default_actions_are_defined:
  "list_all (\<lambda>(category, k, action, args, n).
     case findHotkeyActionDefinition debug category action of
       None \<Rightarrow> False
     | Some ad \<Rightarrow> minCountArguments ad \<le> length args \<and> length args \<le> maxCountArguments ad
         \<and> ((possibleArguments ad = [] \<or> args \<in> set (possibleArguments ad)) = (n \<noteq> ''toggle tab visibility''))) (defaultHotkeys macos)"
proof -
  have "\<forall>debug. list_all (\<lambda>(category, k, action, args, n).
     case findHotkeyActionDefinition debug category action of
       None \<Rightarrow> False
     | Some ad \<Rightarrow> minCountArguments ad \<le> length args \<and> length args \<le> maxCountArguments ad
         \<and> ((possibleArguments ad = [] \<or> args \<in> set (possibleArguments ad)) = (n \<noteq> ''toggle tab visibility''))) (defaultHotkeys False)"
    by code_simp
  then show ?thesis using set_defaultHotkeys[of macos] unfolding list_all_iff by blast
qed

end
