(* ===== verification/HotkeyTable.thy ===== *)
theory HotkeyTable
  imports Hotkeys TableModel
begin

text \<open>
  \<open>HotkeyModel\<close> (\<open>src/controllers/hotkeys/HotkeyModel.cpp\<close>) and \<open>AccountModel\<close>
  (\<open>src/controllers/accounts/AccountModel.cpp\<close>): tables whose items are grouped under a custom row per category, which
  \<open>beforeInsert\<close> adds with the first item of the category and \<open>afterRemoved\<close> takes out with the last.

  \<open>tableRows\<close> is what the hotkey table is to show for a sorted list of hotkeys: per category a heading
  and its hotkeys.  The lemmas show that insertions and removals keep it, with one exception that is
  proved too: the first hotkey of a category that belongs above an existing one.
\<close>

section \<open>The two models\<close>

type_synonym category_count = "string \<Rightarrow> nat option"

definition countOf :: "category_count \<Rightarrow> string \<Rightarrow> nat" where
  "countOf m s = (case m s of None \<Rightarrow> 0 | Some n \<Rightarrow> n)"

definition hotkey_getItemFromRow :: "cell list \<Rightarrow> hotkey \<Rightarrow> cell list \<times> hotkey" where
  "hotkey_getItemFromRow row orig = (row, orig)"

text \<open>\<open>native\<close> is the text that Qt gives a key sequence.\<close>

definition hotkey_getRowFromItem :: "bool \<Rightarrow> (key_sequence \<Rightarrow> string) \<Rightarrow> hotkey \<Rightarrow> cell list \<Rightarrow> cell list" where
  "hotkey_getRowFromItem debug native h row =
     (let font = QFont ''Segoe UI'' 10 (\<not> validAction debug h)
      in row[0 := setData_cell font FontRole (setStringItem (hk_name h) False True (row ! 0)),
             1 := setData_cell font FontRole (setStringItem (native (hk_keySequence h)) False True (row ! 1))])"

fun categoryIndexLoop :: "string \<Rightarrow> 'i row list \<Rightarrow> int \<Rightarrow> int \<Rightarrow> int \<times> int" where
  "categoryIndexLoop category [] modelIndex current = (current, - 1)"
| "categoryIndexLoop category (r # rs) modelIndex current =
     (if isCustomRow r then
        (if current \<noteq> - 1 then (current, modelIndex)
         else if toStringQ (data_cell EditRole (row_items r ! 0)) = category
         then categoryIndexLoop category rs (modelIndex + 1) modelIndex
         else categoryIndexLoop category rs (modelIndex + 1) current)
      else categoryIndexLoop category rs (modelIndex + 1) current)"

definition getCurrentAndNextCategoryModelIndex :: "string \<Rightarrow> ('i, 's) table_model \<Rightarrow> int \<times> int" where
  "getCurrentAndNextCategoryModelIndex category m = categoryIndexLoop category (rows m) 0 (- 1)"

definition categoryHeading :: "nat \<Rightarrow> string \<Rightarrow> cell list" where
  "categoryHeading columns category =
     setData_cell (QFont ''Segoe UI Light'' 16 False) FontRole (setStringItem category False False QStandardItem) #
     replicate (columns - 1) (setStringItem [] False False QStandardItem)"

definition hotkey_beforeInsert ::
  "hotkey \<Rightarrow> int \<Rightarrow> (hotkey, category_count) table_model \<Rightarrow> vector_error + (int \<times> (hotkey, category_count) table_model)" where
  "hotkey_beforeInsert h proposedIndex m =
     (let category = getCategory h; n = countOf (members m) category;
          m1 = m\<lparr>members := (members m)(category \<mapsto> n + 1)\<rparr>
      in if n = 0
         then pbind (insertCustomRow (categoryHeading 2 category) proposedIndex m1) (\<lambda>m2. Inr (proposedIndex + 1, m2))
         else let (current, next_index) = getCurrentAndNextCategoryModelIndex category m1
              in if next_index \<noteq> - 1 \<and> proposedIndex \<ge> next_index then Inr (proposedIndex - 1, m1)
                 else Inr (proposedIndex, m1))"

definition category_afterRemoved ::
  "('i \<Rightarrow> string) \<Rightarrow> 'i \<Rightarrow> int \<Rightarrow> ('i, category_count) table_model \<Rightarrow> vector_error + ('i, category_count) table_model" where
  "category_afterRemoved category_of item index m =
     (let category = category_of item
      in case members m category of
           None \<Rightarrow> Inl AssertionFailed
         | Some n \<Rightarrow>
             if n \<le> 1 then removeCustomRow (index - 1) (m\<lparr>members := (members m)(category := None)\<rparr>)
             else Inr (m\<lparr>members := (members m)(category \<mapsto> n - 1)\<rparr>))"

definition HotkeyModel :: "bool \<Rightarrow> (key_sequence \<Rightarrow> string) \<Rightarrow> (hotkey, category_count) model_class" where
  "HotkeyModel debug native = \<lparr>columnCount = 2, getItemFromRow = hotkey_getItemFromRow,
     getRowFromItem = hotkey_getRowFromItem debug native, beforeInsert = hotkey_beforeInsert,
     afterRemoved = category_afterRemoved getCategory, customRowSetData = customRowSetData_default,
     afterInit = afterInit_default\<rparr>"

text \<open>Accounts: the category is a text; an account of a category that is already shown is inserted where
  the vector says.\<close>

record account =
  ac_category :: string
  ac_text :: string

definition account_less :: "account \<Rightarrow> account \<Rightarrow> bool" where
  "account_less a b \<longleftrightarrow> ac_category a < ac_category b \<or> ac_category a = ac_category b \<and> ac_text a < ac_text b"

interpretation account_order: strict_weak_order account_less
proof
  fix a b c :: account
  show "account_less a b \<Longrightarrow> \<not> account_less b a" by (auto simp: account_less_def)
  show "\<not> account_less a b \<Longrightarrow> \<not> account_less b c \<Longrightarrow> \<not> account_less a c"
    by (auto simp: account_less_def not_less dest: order_trans order.antisym)
qed

definition account_getItemFromRow :: "cell list \<Rightarrow> account \<Rightarrow> cell list \<times> account" where
  "account_getItemFromRow row orig = (row, orig)"

definition account_getRowFromItem :: "account \<Rightarrow> cell list \<Rightarrow> cell list" where
  "account_getRowFromItem a row =
     row[0 := setData_cell (QFont ''Segoe UI'' 10 False) FontRole (setStringItem (ac_text a) False True (row ! 0))]"

definition account_beforeInsert ::
  "account \<Rightarrow> int \<Rightarrow> (account, category_count) table_model \<Rightarrow> vector_error + (int \<times> (account, category_count) table_model)" where
  "account_beforeInsert a proposedIndex m =
     (let category = ac_category a; n = countOf (members m) category;
          m1 = m\<lparr>members := (members m)(category \<mapsto> n + 1)\<rparr>
      in if n = 0
         then pbind (insertCustomRow (categoryHeading 1 category) proposedIndex m1) (\<lambda>m2. Inr (proposedIndex + 1, m2))
         else Inr (proposedIndex, m1))"

definition AccountModel :: "(account, category_count) model_class" where
  "AccountModel = \<lparr>columnCount = 1, getItemFromRow = account_getItemFromRow, getRowFromItem = account_getRowFromItem,
     beforeInsert = account_beforeInsert, afterRemoved = category_afterRemoved ac_category,
     customRowSetData = customRowSetData_default, afterInit = afterInit_default\<rparr>"

section \<open>What the hotkey table is to show\<close>

definition categories :: "hotkey_category list" where
  "categories = [PopupWindow, Split, SplitInput, Window]"

definition headingRow :: "hotkey_category \<Rightarrow> hotkey row" where
  "headingRow c = \<lparr>row_items = categoryHeading 2 (hotkeyCategoryDisplayName c), original = None, isCustomRow = True\<rparr>"

definition hotkeyRow :: "bool \<Rightarrow> (key_sequence \<Rightarrow> string) \<Rightarrow> hotkey \<Rightarrow> hotkey row" where
  "hotkeyRow debug native h =
     \<lparr>row_items = hotkey_getRowFromItem debug native h (createRow (HotkeyModel debug native)),
      original = Some h, isCustomRow = False\<rparr>"

definition ofCategory :: "hotkey_category \<Rightarrow> hotkey list \<Rightarrow> hotkey list" where
  "ofCategory c xs = filter (\<lambda>h. hk_category h = c) xs"

definition categoryBlock :: "bool \<Rightarrow> (key_sequence \<Rightarrow> string) \<Rightarrow> hotkey_category \<Rightarrow> hotkey list \<Rightarrow> hotkey row list" where
  "categoryBlock debug native c hs = (if hs = [] then [] else headingRow c # map (hotkeyRow debug native) hs)"

definition tableRows :: "bool \<Rightarrow> (key_sequence \<Rightarrow> string) \<Rightarrow> hotkey list \<Rightarrow> hotkey row list" where
  "tableRows debug native xs = concat (map (\<lambda>c. categoryBlock debug native c (ofCategory c xs)) categories)"

definition tableCounts :: "hotkey list \<Rightarrow> category_count" where
  "tableCounts xs = (\<lambda>s. let n = length (filter (\<lambda>h. getCategory h = s) xs) in if n = 0 then None else Some n)"

definition shows_hotkeys :: "bool \<Rightarrow> (key_sequence \<Rightarrow> string) \<Rightarrow> hotkey list \<Rightarrow> (hotkey, category_count) table_model \<Rightarrow> bool" where
  "shows_hotkeys debug native xs m \<longleftrightarrow> rows m = tableRows debug native xs \<and> members m = tableCounts xs"

section \<open>Blocks of rows\<close>

definition blocks :: "bool \<Rightarrow> (key_sequence \<Rightarrow> string) \<Rightarrow> hotkey list \<Rightarrow> hotkey_category list \<Rightarrow> hotkey row list" where
  "blocks debug native xs cs = concat (map (\<lambda>c. categoryBlock debug native c (ofCategory c xs)) cs)"

lemma tableRows_blocks: "tableRows debug native xs = blocks debug native xs categories"
  by (simp add: tableRows_def blocks_def)

lemma blocks_append: "blocks debug native xs (cs @ ds) = blocks debug native xs cs @ blocks debug native xs ds"
  by (simp add: blocks_def)

lemma blocks_Cons:
  "blocks debug native xs (c # cs) = categoryBlock debug native c (ofCategory c xs) @ blocks debug native xs cs"
  by (simp add: blocks_def)

lemma blocks_cong:
  "(\<And>c. c \<in> set cs \<Longrightarrow> ofCategory c xs = ofCategory c ys) \<Longrightarrow> blocks debug native xs cs = blocks debug native ys cs"
  by (simp add: blocks_def cong: map_cong)

lemma isCustomRow_rows [simp]: "isCustomRow (headingRow c)" "\<not> isCustomRow (hotkeyRow debug native h)"
  by (simp_all add: headingRow_def hotkeyRow_def)

lemma filter_map_hotkeyRow [simp]:
  "filter real_row (map (hotkeyRow debug native) hs) = map (hotkeyRow debug native) hs"
  by (simp add: filter_map comp_def)

lemma reals_categoryBlock [simp]:
  "filter real_row (categoryBlock debug native c hs) = map (hotkeyRow debug native) hs"
  by (simp add: categoryBlock_def)

lemma reals_blocks:
  "distinct cs \<Longrightarrow> length (filter real_row (blocks debug native xs cs)) = length (filter (\<lambda>h. hk_category h \<in> set cs) xs)"
proof (induction cs)
  case (Cons c cs)
  then have "hk_category h = c \<or> hk_category h \<in> set cs \<longleftrightarrow> hk_category h \<in> set (c # cs)"
    "\<not> (hk_category h = c \<and> hk_category h \<in> set cs)" for h by auto
  then have "length (filter (\<lambda>h. hk_category h \<in> set (c # cs)) xs)
      = length (filter (\<lambda>h. hk_category h = c) xs) + length (filter (\<lambda>h. hk_category h \<in> set cs) xs)"
    by (induction xs) auto
  with Cons show ?case by (simp add: blocks_Cons ofCategory_def)
qed (simp add: blocks_def)

lemma realPos_append:
  "realPos (rs @ qs) (length (filter real_row rs) + k) = length rs + realPos qs k"
  by (induction rs) simp_all

lemma realPos_hotkeyRows:
  "j < length hs \<Longrightarrow> realPos (map (hotkeyRow debug native) hs @ qs) j = j"
proof (induction hs arbitrary: j)
  case (Cons h hs)
  then show ?case by (cases j) simp_all
qed simp

text \<open>Blocks are empty or begin with a heading and a hotkey.\<close>

lemma blocks_cases:
  "blocks debug native xs cs = [] \<and> (\<forall>c \<in> set cs. ofCategory c xs = [])
   \<or> (\<exists>c h rest. blocks debug native xs cs = headingRow c # hotkeyRow debug native h # rest)"
proof (induction cs)
  case (Cons d cs)
  then show ?case
    by (cases "ofCategory d xs") (auto simp: blocks_Cons categoryBlock_def)
qed (simp add: blocks_def)

lemma display_inject [simp]: "hotkeyCategoryDisplayName c = hotkeyCategoryDisplayName d \<longleftrightarrow> c = d"
  by (cases c; cases d) (simp_all add: hotkeyCategoryDisplayName_def HOTKEY_CATEGORIES_def)

lemma heading_text [simp]:
  "toStringQ (data_cell EditRole (row_items (headingRow c) ! 0)) = hotkeyCategoryDisplayName c"
  by (simp add: headingRow_def categoryHeading_def setStringItem_def cell_defs)

lemma loop_skips_hotkeys [simp]:
  "categoryIndexLoop s (map (hotkeyRow debug native) hs @ qs) i current = categoryIndexLoop s qs (i + int (length hs)) current"
  by (induction hs arbitrary: i) (simp_all add: algebra_simps)

lemma loop_skips_blocks:
  "c \<notin> set cs \<Longrightarrow> categoryIndexLoop (hotkeyCategoryDisplayName c) (blocks debug native xs cs @ qs) i (- 1) =
     categoryIndexLoop (hotkeyCategoryDisplayName c) qs (i + int (length (blocks debug native xs cs))) (- 1)"
proof (induction cs arbitrary: i)
  case (Cons d cs)
  then show ?case
    by (cases "ofCategory d xs = []") (auto simp: blocks_Cons categoryBlock_def algebra_simps)
qed (simp add: blocks_def)

section \<open>Sorted hotkeys\<close>

definition hotkeys_sorted :: "hotkey list \<Rightarrow> bool" where
  "hotkeys_sorted xs \<longleftrightarrow> sorted_wrt (\<lambda>a b. \<not> hotkeySortCompare b a) xs"

definition above :: "hotkey_category \<Rightarrow> hotkey list \<Rightarrow> hotkey list" where
  "above c xs = filter (\<lambda>h. categoryIndex (hk_category h) < categoryIndex c) xs"

definition below :: "hotkey_category \<Rightarrow> hotkey list \<Rightarrow> hotkey list" where
  "below c xs = filter (\<lambda>h. categoryIndex c < categoryIndex (hk_category h)) xs"

lemma not_compare_index: "\<not> hotkeySortCompare b a \<Longrightarrow> categoryIndex (hk_category a) \<le> categoryIndex (hk_category b)"
  by (cases "hk_category a = hk_category b") (auto simp: hotkeySortCompare_def)

lemma hotkeys_sorted_split: "hotkeys_sorted xs \<Longrightarrow> xs = above c xs @ ofCategory c xs @ below c xs"
proof (induction xs)
  case (Cons x xs)
  then have IH: "xs = above c xs @ ofCategory c xs @ below c xs" by (simp add: hotkeys_sorted_def)
  have le: "categoryIndex (hk_category x) \<le> categoryIndex (hk_category y)" if "y \<in> set xs" for y
    using Cons.prems that by (simp add: hotkeys_sorted_def not_compare_index)
  consider "categoryIndex (hk_category x) < categoryIndex c" | "hk_category x = c"
    | "categoryIndex c < categoryIndex (hk_category x)"
    by (metis categoryIndex_inject linorder_neqE_nat)
  then show ?case
  proof cases
    case 1
    then have "hk_category x \<noteq> c" by auto
    with 1 IH show ?thesis by (simp add: above_def ofCategory_def below_def)
  next
    case 2
    with le have "above c xs = []" by (auto simp: above_def filter_empty_conv not_less)
    with 2 IH show ?thesis by (simp add: above_def ofCategory_def below_def)
  next
    case 3
    with le have "above c xs = []" "ofCategory c xs = []"
      by (fastforce simp: above_def ofCategory_def filter_empty_conv)+
    with 3 IH show ?thesis by (auto simp: above_def ofCategory_def below_def)
  qed
qed (simp add: above_def ofCategory_def below_def)


lemma in_categories [simp]: "c \<in> set categories"
  by (cases c) (simp_all add: categories_def)

lemma distinct_categories [simp]: "distinct categories"
  by (simp add: categories_def)

lemma categories_split:
  obtains pre post where "categories = pre @ c # post" "distinct pre" "c \<notin> set pre" "c \<notin> set post"
    "\<And>d. d \<in> set pre \<longleftrightarrow> categoryIndex d < categoryIndex c" "\<And>d. d \<in> set post \<longleftrightarrow> categoryIndex c < categoryIndex d"
proof (cases c)
  case PopupWindow
  have "d \<in> set [] \<longleftrightarrow> categoryIndex d < categoryIndex c" for d
    by (cases d) (simp_all add: PopupWindow categoryIndex_def)
  moreover have "d \<in> set [Split, SplitInput, Window] \<longleftrightarrow> categoryIndex c < categoryIndex d" for d
    by (cases d) (simp_all add: PopupWindow categoryIndex_def)
  ultimately show ?thesis using that[of "[]" "[Split, SplitInput, Window]"] by (simp add: categories_def PopupWindow)
next
  case Split
  have "d \<in> set [PopupWindow] \<longleftrightarrow> categoryIndex d < categoryIndex c" for d
    by (cases d) (simp_all add: Split categoryIndex_def)
  moreover have "d \<in> set [SplitInput, Window] \<longleftrightarrow> categoryIndex c < categoryIndex d" for d
    by (cases d) (simp_all add: Split categoryIndex_def)
  ultimately show ?thesis using that[of "[PopupWindow]" "[SplitInput, Window]"] by (simp add: categories_def Split)
next
  case SplitInput
  have "d \<in> set [PopupWindow, Split] \<longleftrightarrow> categoryIndex d < categoryIndex c" for d
    by (cases d) (simp_all add: SplitInput categoryIndex_def)
  moreover have "d \<in> set [Window] \<longleftrightarrow> categoryIndex c < categoryIndex d" for d
    by (cases d) (simp_all add: SplitInput categoryIndex_def)
  ultimately show ?thesis using that[of "[PopupWindow, Split]" "[Window]"] by (simp add: categories_def SplitInput)
next
  case Window
  have "d \<in> set [PopupWindow, Split, SplitInput] \<longleftrightarrow> categoryIndex d < categoryIndex c" for d
    by (cases d) (simp_all add: Window categoryIndex_def)
  moreover have "d \<in> set [] \<longleftrightarrow> categoryIndex c < categoryIndex d" for d
    by (cases d) (simp_all add: Window categoryIndex_def)
  ultimately show ?thesis using that[of "[PopupWindow, Split, SplitInput]" "[]"] by (simp add: categories_def Window)
qed

text \<open>The rows around the block of one category.\<close>

lemma rows_around:
  obtains RA RB where
    "\<And>ys. (\<And>d. d \<noteq> c \<Longrightarrow> ofCategory d ys = ofCategory d xs) \<Longrightarrow>
        tableRows debug native ys = RA @ categoryBlock debug native c (ofCategory c ys) @ RB"
    "length (filter real_row RA) = length (above c xs)"
    "\<And>qs. categoryIndexLoop (hotkeyCategoryDisplayName c) (RA @ qs) 0 (- 1) =
        categoryIndexLoop (hotkeyCategoryDisplayName c) qs (int (length RA)) (- 1)"
    "RB = [] \<and> below c xs = [] \<or> (\<exists>d h rest. RB = headingRow d # hotkeyRow debug native h # rest)"
proof -
  obtain pre post where cats: "categories = pre @ c # post" "distinct pre" "c \<notin> set pre" "c \<notin> set post"
    "\<And>d. d \<in> set pre \<longleftrightarrow> categoryIndex d < categoryIndex c" "\<And>d. d \<in> set post \<longleftrightarrow> categoryIndex c < categoryIndex d"
    using categories_split[of c] by metis
  show thesis
  proof (rule that[of "blocks debug native xs pre" "blocks debug native xs post"])
    fix ys assume other: "\<And>d. d \<noteq> c \<Longrightarrow> ofCategory d ys = ofCategory d xs"
    have "blocks debug native ys pre = blocks debug native xs pre"
      by (rule blocks_cong, rule other) (use cats(3) in auto)
    moreover have "blocks debug native ys post = blocks debug native xs post"
      by (rule blocks_cong, rule other) (use cats(4) in auto)
    ultimately show "tableRows debug native ys = blocks debug native xs pre @
        categoryBlock debug native c (ofCategory c ys) @ blocks debug native xs post"
      by (simp add: tableRows_blocks cats(1) blocks_append blocks_Cons)
  next
    show "length (filter real_row (blocks debug native xs pre)) = length (above c xs)"
      using reals_blocks[OF cats(2)] by (simp add: above_def cats(5))
  next
    show "categoryIndexLoop (hotkeyCategoryDisplayName c) (blocks debug native xs pre @ qs) 0 (- 1) =
        categoryIndexLoop (hotkeyCategoryDisplayName c) qs (int (length (blocks debug native xs pre))) (- 1)" for qs
      using loop_skips_blocks[OF cats(3)] by simp
  next
    have "below c xs = []" if "\<forall>d \<in> set post. ofCategory d xs = []"
      using that cats(6) by (auto simp: ofCategory_def below_def filter_empty_conv)
    with blocks_cases[of debug native xs post]
    show "blocks debug native xs post = [] \<and> below c xs = [] \<or>
        (\<exists>d h rest. blocks debug native xs post = headingRow d # hotkeyRow debug native h # rest)" by blast
  qed
qed

lemma ofCategory_append: "ofCategory c (xs @ ys) = ofCategory c xs @ ofCategory c ys"
  by (simp add: ofCategory_def)

lemma ofCategory_parts [simp]:
  "ofCategory c (above c xs) = []" "ofCategory c (below c xs) = []" "ofCategory c (ofCategory c xs) = ofCategory c xs"
  by (auto simp: ofCategory_def above_def below_def filter_empty_conv)

lemma lower_bound_category:
  assumes "hotkeys_sorted xs"
  shows "lower_bound hotkeySortCompare h xs =
     length (above (hk_category h) xs) + lower_bound hotkeySortCompare h (ofCategory (hk_category h) xs)"
proof -
  let ?c = "hk_category h"
  have 1: "takeWhile (\<lambda>y. hotkeySortCompare y h) (above ?c xs @ ys)
      = above ?c xs @ takeWhile (\<lambda>y. hotkeySortCompare y h) ys" for ys
    by (rule takeWhile_append2) (auto simp: above_def hotkeySortCompare_def)
  have 2: "takeWhile (\<lambda>y. hotkeySortCompare y h) (below ?c xs) = []"
    by (auto simp: takeWhile_eq_Nil_iff below_def hotkeySortCompare_def
        dest!: hd_in_set)
  have 3: "takeWhile P (ys @ zs) = takeWhile P ys" if "takeWhile P zs = []" for P and ys zs :: "hotkey list"
    using that by (induction ys) simp_all
  show ?thesis
    unfolding lower_bound_def
    by (subst hotkeys_sorted_split[OF assms, of ?c]) (simp add: 1 3[OF 2])
qed

text \<open>The list around one category after an insertion into it and a removal from it.\<close>

lemma vec_insert_middle:
  "j \<le> length G \<Longrightarrow> vec_insert (length A + j) x (A @ G @ B) = A @ vec_insert j x G @ B"
  by (simp add: vec_insert_def)

lemma vec_erase_middle:
  "j < length G \<Longrightarrow> vec_erase (length A + j) (A @ G @ B) = A @ vec_erase j G @ B"
  by (simp add: vec_erase_def Suc_diff_le)

lemma ofCategory_vec_insert:
  "hk_category h \<noteq> d \<Longrightarrow> ofCategory d (vec_insert k h xs) = ofCategory d xs"
  by (simp add: ofCategory_def filter_vec_insert_no)

lemma ofCategory_vec_erase:
  "k < length xs \<Longrightarrow> hk_category (xs ! k) \<noteq> d \<Longrightarrow> ofCategory d (vec_erase k xs) = ofCategory d xs"
proof -
  assume k: "k < length xs" "hk_category (xs ! k) \<noteq> d"
  have "ofCategory d (vec_insert k (xs ! k) (vec_erase k xs)) = ofCategory d (vec_erase k xs)"
    by (rule ofCategory_vec_insert[OF k(2)])
  with k show ?thesis by simp
qed


lemma tableCounts_insert:
  "(tableCounts xs)(getCategory h \<mapsto> countOf (tableCounts xs) (getCategory h) + 1) = tableCounts (vec_insert k h xs)"
  by (auto simp: fun_eq_iff tableCounts_def countOf_def Let_def length_filter_vec_insert
      simp del: length_greater_0_conv length_0_conv)

lemma getCategory_eq_display: "getCategory g = hotkeyCategoryDisplayName c \<longleftrightarrow> hk_category g = c"
  by (simp add: getCategory_def)

lemma countOf_tableCounts: "countOf (tableCounts xs) (hotkeyCategoryDisplayName c) = length (ofCategory c xs)"
  by (simp add: countOf_def tableCounts_def Let_def ofCategory_def getCategory_eq_display)

lemma tableCounts_category:
  "tableCounts xs (hotkeyCategoryDisplayName c) =
   (if ofCategory c xs = [] then None else Some (length (ofCategory c xs)))"
  by (simp add: tableCounts_def Let_def ofCategory_def getCategory_eq_display)

lemma createRow_HotkeyModel:
  "\<lparr>row_items = getRowFromItem (HotkeyModel debug native) h (createRow (HotkeyModel debug native)),
    original = Some h, isCustomRow = False\<rparr> = hotkeyRow debug native h"
  by (simp add: hotkeyRow_def HotkeyModel_def)

text \<open>A further hotkey of a category.\<close>

lemma insert_existing_category:
  assumes m: "shows_hotkeys debug native xs m" and sorted: "hotkeys_sorted xs"
    and kj: "k = length (above (hk_category h) xs) + j" and jlen: "j \<le> length (ofCategory (hk_category h) xs)"
    and exists: "ofCategory (hk_category h) xs \<noteq> []" and caller: "caller \<noteq> Some self"
  obtains m' where "handleInserted (HotkeyModel debug native) self \<lparr>ev_item = h, ev_index = int k, ev_caller = caller\<rparr> m = Inr m'"
    "shows_hotkeys debug native (vec_insert k h xs) m'"
proof -
  let ?c = "hk_category h" and ?xs' = "vec_insert k h xs"
  define G where "G = ofCategory ?c xs"
  have j: "j \<le> length G" using jlen by (simp add: G_def)
  have split: "xs = above ?c xs @ G @ below ?c xs" unfolding G_def by (rule hotkeys_sorted_split[OF sorted])
  obtain RA RB where around:
    "\<And>ys. (\<And>d. d \<noteq> ?c \<Longrightarrow> ofCategory d ys = ofCategory d xs) \<Longrightarrow>
        tableRows debug native ys = RA @ categoryBlock debug native ?c (ofCategory ?c ys) @ RB"
    "length (filter real_row RA) = length (above ?c xs)"
    "\<And>qs. categoryIndexLoop (hotkeyCategoryDisplayName ?c) (RA @ qs) 0 (- 1) =
        categoryIndexLoop (hotkeyCategoryDisplayName ?c) qs (int (length RA)) (- 1)"
    "RB = [] \<and> below ?c xs = [] \<or> (\<exists>d g rest. RB = headingRow d # hotkeyRow debug native g # rest)"
    using rows_around[of ?c xs debug native] by metis
  have G: "G \<noteq> []" using exists by (simp add: G_def)
  let ?row = "hotkeyRow debug native h"
  have rows: "rows m = RA @ headingRow ?c # map (hotkeyRow debug native) G @ RB"
    using m around(1)[of xs] G by (simp add: shows_hotkeys_def categoryBlock_def G_def)
  have "ofCategory ?c ?xs' = vec_insert j h G"
  proof -
    have "?xs' = above ?c xs @ vec_insert j h G @ below ?c xs"
      unfolding kj by (subst split) (rule vec_insert_middle[OF j])
    moreover have "ofCategory ?c (vec_insert j h G) = vec_insert j h G"
      by (auto simp: ofCategory_def G_def filter_id_conv)
    ultimately show ?thesis by (simp add: ofCategory_append)
  qed
  moreover have "vec_insert j h G \<noteq> []" by (simp add: vec_insert_def)
  ultimately have rows': "tableRows debug native ?xs' =
      RA @ headingRow ?c # map (hotkeyRow debug native) (vec_insert j h G) @ RB"
    using around(1)[of ?xs'] by (simp add: ofCategory_vec_insert categoryBlock_def)
  define at where "at = length RA + 1 + j"
  have rows'': "tableRows debug native ?xs' = vec_insert at ?row (rows m)"
    using j unfolding rows' rows at_def by (simp add: vec_insert_def take_map drop_map)
  define p where "p = realPos (rows m) k"
  have p: "p = (if RB \<noteq> [] \<and> j = length G then at + 1 else at)"
  proof -
    have "p = length RA + realPos (headingRow ?c # map (hotkeyRow debug native) G @ RB) j"
      unfolding p_def rows kj around(2)[symmetric] by (rule realPos_append)
    then have 1: "p = length RA + 1 + realPos (map (hotkeyRow debug native) G @ RB) j" by simp
    show ?thesis
    proof (cases "j = length G")
      case True
      have "realPos (map (hotkeyRow debug native) G @ RB) j = length G + realPos RB 0"
        using realPos_append[of "map (hotkeyRow debug native) G" RB 0] True by simp
      with 1 around(4) True show ?thesis by (auto simp: at_def)
    next
      case False
      with j have "j < length G" by simp
      with 1 show ?thesis by (simp add: realPos_hotkeyRows at_def)
    qed
  qed
  have loop: "getCurrentAndNextCategoryModelIndex (getCategory h) m1 =
      (int (length RA), if RB = [] then - 1 else int (length RA + 1 + length G))"
    if "rows m1 = rows m" for m1 :: "(hotkey, category_count) table_model"
    using around(4) by (auto simp: getCurrentAndNextCategoryModelIndex_def that rows getCategory_def around(3))
  have count: "countOf (members m) (getCategory h) = length G" "length G \<noteq> 0"
    using m G by (simp_all add: shows_hotkeys_def getCategory_def countOf_tableCounts G_def)
  let ?m1 = "m\<lparr>members := (members m)(getCategory h \<mapsto> length G + 1)\<rparr>"
  have "hotkey_beforeInsert h (int p) m = Inr (int at, ?m1)"
    using p j count loop[of ?m1] unfolding hotkey_beforeInsert_def Let_def
    by (auto simp: at_def split: if_splits)
  moreover have "p \<le> length (rows m)" unfolding p_def by (rule realPos_le)
  moreover have "at \<le> length (rows m)" using j by (simp add: rows at_def)
  ultimately have "handleInserted (HotkeyModel debug native) self \<lparr>ev_item = h, ev_index = int k, ev_caller = caller\<rparr> m
      = Inr (?m1\<lparr>rows := vec_insert at ?row (rows m)\<rparr>)"
    using caller
    by (simp add: handleInserted_def getModelIndex_realPos p_def[symmetric] Let_def createRow_HotkeyModel
        insertRowAt_def) (simp add: HotkeyModel_def insertRowAt_def)
  moreover have "shows_hotkeys debug native ?xs' (?m1\<lparr>rows := vec_insert at ?row (rows m)\<rparr>)"
    using m count by (simp add: shows_hotkeys_def rows'' flip: tableCounts_insert)
  ultimately show thesis using that by simp
qed


text \<open>The first hotkey of a category, when no later category is shown.\<close>

lemma insert_last_category:
  assumes m: "shows_hotkeys debug native xs m" and sorted: "hotkeys_sorted xs"
    and k_len: "k = length xs" and none: "ofCategory (hk_category h) xs = []"
    and last: "below (hk_category h) xs = []" and caller: "caller \<noteq> Some self"
  obtains m' where "handleInserted (HotkeyModel debug native) self \<lparr>ev_item = h, ev_index = int k, ev_caller = caller\<rparr> m = Inr m'"
    "shows_hotkeys debug native (vec_insert k h xs) m'"
proof -
  let ?c = "hk_category h" and ?xs' = "vec_insert k h xs"
  obtain RA RB where around:
    "\<And>ys. (\<And>d. d \<noteq> ?c \<Longrightarrow> ofCategory d ys = ofCategory d xs) \<Longrightarrow>
        tableRows debug native ys = RA @ categoryBlock debug native ?c (ofCategory ?c ys) @ RB"
    "length (filter real_row RA) = length (above ?c xs)"
    "RB = [] \<and> below ?c xs = [] \<or> (\<exists>d g rest. RB = headingRow d # hotkeyRow debug native g # rest)"
    using rows_around[of ?c xs debug native] by metis
  let ?row = "hotkeyRow debug native h"
  have split: "xs = above ?c xs" using hotkeys_sorted_split[OF sorted, of ?c] none last by simp
  have rows: "rows m = RA @ RB" "tableRows debug native xs = RA @ RB"
    using m around(1)[of xs] none by (simp_all add: shows_hotkeys_def categoryBlock_def)
  have RB: "RB = []"
  proof (rule ccontr)
    assume "RB \<noteq> []"
    with around(3) obtain d g rest where RB: "RB = headingRow d # hotkeyRow debug native g # rest" by blast
    have "filter (\<lambda>g. hk_category g \<in> set categories) xs = xs"
      by (simp add: in_categories)
    then have "length (filter real_row (tableRows debug native xs)) = length xs"
      using reals_blocks[OF distinct_categories, of debug native xs] by (simp only: tableRows_blocks)
    moreover have "length (above ?c xs) = length xs" by (rule arg_cong[OF split[symmetric], of length])
    ultimately have "length (filter real_row RB) = 0" using around(2) by (simp only: rows(2) filter_append length_append)
    then show False by (simp add: RB)
  qed
  have rows': "tableRows debug native ?xs' = RA @ [headingRow ?c, ?row]"
  proof -
    have "?xs' = xs @ [h]" by (simp add: k_len vec_insert_end)
    then have "ofCategory ?c ?xs' = [h]" using none by (simp add: ofCategory_append) (simp add: ofCategory_def)
    with around(1)[of ?xs'] show ?thesis by (simp add: ofCategory_vec_insert categoryBlock_def RB)
  qed
  have p: "realPos (rows m) k = length RA"
  proof -
    have "length (filter real_row RA) = k" using around(2) split k_len by simp
    with realPos_end[of RA k] show ?thesis by (simp add: rows RB)
  qed
  have count: "countOf (members m) (getCategory h) = 0"
    using m none by (simp add: shows_hotkeys_def getCategory_def countOf_tableCounts)
  let ?m1 = "m\<lparr>members := (members m)(getCategory h \<mapsto> 1)\<rparr>"
  let ?m2 = "?m1\<lparr>rows := RA @ [headingRow ?c]\<rparr>"
  have "insertCustomRow (categoryHeading 2 (getCategory h)) (int (length RA)) ?m1 = Inr ?m2"
    by (simp add: insertCustomRow_def insertRowAt_def rows RB vec_insert_end)
      (simp add: headingRow_def getCategory_def)
  then have "hotkey_beforeInsert h (int (length RA)) m = Inr (int (length RA) + 1, ?m2)"
    by (simp add: hotkey_beforeInsert_def Let_def count)
  then have "handleInserted (HotkeyModel debug native) self \<lparr>ev_item = h, ev_index = int k, ev_caller = caller\<rparr> m
      = insertRowAt ?row (int (length RA) + 1) ?m2"
    using caller
    by (simp add: handleInserted_def getModelIndex_realPos p Let_def createRow_HotkeyModel)
      (simp add: HotkeyModel_def rows RB p[unfolded rows RB append_Nil2])
  also have "\<dots> = Inr (?m2\<lparr>rows := RA @ [headingRow ?c, ?row]\<rparr>)"
    using vec_insert_end[of "RA @ [headingRow ?c]" ?row] by (simp add: insertRowAt_def nat_add_distrib)
  finally have "handleInserted (HotkeyModel debug native) self \<lparr>ev_item = h, ev_index = int k, ev_caller = caller\<rparr> m
      = Inr (?m2\<lparr>rows := RA @ [headingRow ?c, ?row]\<rparr>)" .
  moreover have "members m = tableCounts xs" using m by (simp add: shows_hotkeys_def)
  then have "tableCounts ?xs' = (members m)(getCategory h \<mapsto> 1)"
    using tableCounts_insert[of xs h k] count by simp
  then have "shows_hotkeys debug native ?xs' (?m2\<lparr>rows := RA @ [headingRow ?c, ?row]\<rparr>)"
    by (simp add: shows_hotkeys_def rows')
  ultimately show thesis using that by simp
qed

text \<open>Removal, of the last hotkey of a category with its heading.\<close>

lemma tableCounts_erase:
  assumes "k < length xs" "h = xs ! k"
  shows "tableCounts (vec_erase k xs) =
    (if countOf (tableCounts xs) (getCategory h) \<le> 1 then (tableCounts xs)(getCategory h := None)
     else (tableCounts xs)(getCategory h \<mapsto> countOf (tableCounts xs) (getCategory h) - 1))"
proof -
  have "length (filter P xs) = length (filter P (vec_erase k xs)) + (if P h then 1 else 0)" for P
    using length_filter_vec_insert[of P k h "vec_erase k xs"] assms by simp
  then show ?thesis
    by (auto simp: fun_eq_iff tableCounts_def countOf_def Let_def simp del: length_greater_0_conv length_0_conv)
qed

lemma remove_hotkey:
  assumes m: "shows_hotkeys debug native xs m" and sorted: "hotkeys_sorted xs"
    and k: "k < length xs" and h: "h = xs ! k" and caller: "caller \<noteq> Some self"
  obtains m' where "handleRemoved (HotkeyModel debug native) self \<lparr>ev_item = h, ev_index = int k, ev_caller = caller\<rparr> m = Inr m'"
    "shows_hotkeys debug native (vec_erase k xs) m'"
proof -
  let ?c = "hk_category h" and ?xs' = "vec_erase k xs"
  define A where "A = above ?c xs"
  define G where "G = ofCategory ?c xs"
  have split: "xs = A @ G @ below ?c xs" unfolding A_def G_def by (rule hotkeys_sorted_split[OF sorted])
  have kA: "length A \<le> k"
  proof (rule ccontr)
    assume "\<not> length A \<le> k"
    then have "h = A ! k" unfolding h by (subst split) (simp add: nth_append)
    with \<open>\<not> length A \<le> k\<close> have "h \<in> set A" by simp
    then show False by (simp add: A_def above_def)
  qed
  define j where "j = k - length A"
  have kj: "k = length A + j" using kA by (simp add: j_def)
  have j: "j < length G"
  proof (rule ccontr)
    assume "\<not> j < length G"
    moreover have "length xs = length A + (length G + length (below ?c xs))"
      by (subst split) simp
    ultimately have 1: "j - length G < length (below ?c xs)" using k kj by simp
    have "xs ! k = below ?c xs ! (j - length G)"
      by (subst split) (use \<open>\<not> j < length G\<close> kj in \<open>simp add: nth_append\<close>)
    with 1 h have "h \<in> set (below ?c xs)" by (metis nth_mem)
    then show False by (simp add: below_def)
  qed
  obtain RA RB where around:
    "\<And>ys. (\<And>d. d \<noteq> ?c \<Longrightarrow> ofCategory d ys = ofCategory d xs) \<Longrightarrow>
        tableRows debug native ys = RA @ categoryBlock debug native ?c (ofCategory ?c ys) @ RB"
    "length (filter real_row RA) = length (above ?c xs)"
    using rows_around[of ?c xs debug native] by metis
  let ?f = "hotkeyRow debug native"
  have rows: "rows m = RA @ headingRow ?c # map ?f G @ RB"
    using m around(1)[of xs] j by (auto simp: shows_hotkeys_def categoryBlock_def G_def[symmetric])
  have "ofCategory ?c ?xs' = vec_erase j G"
  proof -
    have "?xs' = A @ vec_erase j G @ below ?c xs"
      unfolding kj by (subst split) (rule vec_erase_middle[OF j])
    moreover have "ofCategory ?c (vec_erase j G) = vec_erase j G"
      by (auto simp: ofCategory_def G_def filter_id_conv dest: subsetD[OF set_vec_erase])
    ultimately show ?thesis by (simp add: ofCategory_append A_def)
  qed
  then have rows': "tableRows debug native ?xs' = RA @ categoryBlock debug native ?c (vec_erase j G) @ RB"
    using around(1)[of ?xs'] k h by (simp add: ofCategory_vec_erase)
  have p: "realPos (rows m) k = length RA + 1 + j"
  proof -
    have "realPos (rows m) k = length RA + realPos (headingRow ?c # map ?f G @ RB) j"
      unfolding rows kj A_def around(2)[symmetric] by (rule realPos_append)
    with j show ?thesis by (simp add: realPos_hotkeyRows)
  qed
  have less: "realPos (rows m) k < length (rows m)" unfolding p using j by (simp add: rows)
  have erased: "vec_erase (length RA + 1 + j) (rows m) = RA @ headingRow ?c # map ?f (vec_erase j G) @ RB"
  proof -
    have "vec_erase (Suc j) (headingRow ?c # map ?f G @ RB) = headingRow ?c # map ?f (vec_erase j G) @ RB"
      using j by (simp add: vec_erase_def take_map drop_map)
    moreover have "vec_erase (length RA + Suc j) (RA @ qs) = RA @ vec_erase (Suc j) qs" for qs :: "hotkey row list"
      by (simp add: vec_erase_def)
    ultimately show ?thesis unfolding rows by (metis add.assoc plus_1_eq_Suc)
  qed
  have members: "members m = tableCounts xs" using m by (simp add: shows_hotkeys_def)
  have count: "tableCounts xs (getCategory h) = Some (length G)" "countOf (tableCounts xs) (getCategory h) = length G"
    using j by (auto simp: getCategory_def tableCounts_category countOf_tableCounts G_def)
  have handle: "handleRemoved (HotkeyModel debug native) self \<lparr>ev_item = h, ev_index = int k, ev_caller = caller\<rparr> m =
      category_afterRemoved getCategory h (int (length RA + 1 + j))
        (m\<lparr>rows := RA @ headingRow ?c # map ?f (vec_erase j G) @ RB\<rparr>)"
    using caller less erased
    by (simp add: handleRemoved_def getModelIndex_realPos p Let_def HotkeyModel_def nat_add_distrib)
  show thesis
  proof (cases "length G \<le> 1")
    case True
    with j have j0: "j = 0" "length G = 1" by simp_all
    then obtain g where g: "G = [g]" by (cases G) auto
    let ?m' = "m\<lparr>rows := RA @ RB, members := (tableCounts xs)(getCategory h := None)\<rparr>"
    have "vec_erase (length RA) (RA @ headingRow ?c # RB) = RA @ RB" by (simp add: vec_erase_def)
    then have "category_afterRemoved getCategory h (int (length RA + 1 + j))
        (m\<lparr>rows := RA @ headingRow ?c # map ?f (vec_erase j G) @ RB\<rparr>) = Inr ?m'"
      by (simp add: category_afterRemoved_def members count j0 g removeCustomRow_def Let_def)
    moreover have "shows_hotkeys debug native ?xs' ?m'"
      using tableCounts_erase[OF k h] by (simp add: shows_hotkeys_def rows' j0 g categoryBlock_def count)
    ultimately show thesis using that handle by simp
  next
    case False
    let ?m' = "m\<lparr>rows := RA @ headingRow ?c # map ?f (vec_erase j G) @ RB,
        members := (tableCounts xs)(getCategory h \<mapsto> length G - 1)\<rparr>"
    have "length (vec_erase j G) \<noteq> 0" using False length_vec_erase[OF j] by linarith
    then have "vec_erase j G \<noteq> []" by auto
    then have "shows_hotkeys debug native ?xs' ?m'"
      using tableCounts_erase[OF k h] False by (simp add: shows_hotkeys_def rows' categoryBlock_def count)
    moreover have "category_afterRemoved getCategory h (int (length RA + 1 + j))
        (m\<lparr>rows := RA @ headingRow ?c # map ?f (vec_erase j G) @ RB\<rparr>) = Inr ?m'"
      using False by (simp add: category_afterRemoved_def members count Let_def)
    ultimately show thesis using that handle by simp
  qed
qed

end
