(* ===== verification/HotkeyGroups.thy ===== *)
theory HotkeyGroups
  imports HotkeyTable
begin

text \<open>
  The hotkey settings page: a sorted vector of hotkeys and its connected \<open>HotkeyModel\<close>s
  (\<open>HotkeyController\<close> and \<open>src/controllers/hotkeys/HotkeyModel.cpp\<close>).  A new table shows the grouped rows;
  adding and deleting hotkeys keeps them in every table, unless the first hotkey of a category is added
  while hotkeys of a later category are shown.  That case is worked out on an example.
\<close>

section \<open>A new table\<close>

definition groups :: "bool \<Rightarrow> (key_sequence \<Rightarrow> string) \<Rightarrow> (hotkey, category_count) table_system \<Rightarrow> bool" where
  "groups debug native sys \<longleftrightarrow>
     itemCompare (vector sys) = Some hotkeySortCompare \<and> hotkeys_sorted (items (vector sys))
     \<and> list_all (shows_hotkeys debug native (items (vector sys))) (models sys)"

text \<open>A hotkey has a place in the grouped rows when its category is shown or no later one is.\<close>

definition has_place :: "hotkey \<Rightarrow> hotkey list \<Rightarrow> bool" where
  "has_place h xs \<longleftrightarrow> ofCategory (hk_category h) xs \<noteq> [] \<or> below (hk_category h) xs = []"

lemma insert_in_place:
  assumes "shows_hotkeys debug native xs m" "hotkeys_sorted xs" "has_place h xs" "caller \<noteq> Some self"
    and k: "k = length (above (hk_category h) xs) + j" "j \<le> length (ofCategory (hk_category h) xs)"
  obtains m' where "handleInserted (HotkeyModel debug native) self \<lparr>ev_item = h, ev_index = int k, ev_caller = caller\<rparr> m = Inr m'"
    "shows_hotkeys debug native (vec_insert k h xs) m'"
proof (cases "ofCategory (hk_category h) xs = []")
  case True
  then have none: "below (hk_category h) xs = []" using assms(3) by (simp add: has_place_def)
  have "k = length xs"
    using arg_cong[OF hotkeys_sorted_split[OF assms(2), of "hk_category h"], of length] k True none by simp
  from insert_last_category[OF assms(1,2) this True none assms(4)] that show thesis by blast
next
  case False
  from insert_existing_category[OF assms(1,2) k False assms(4)] that show thesis by blast
qed

lemma shows_hotkeys_empty: "shows_hotkeys debug native [] (SignalVectorModel (HotkeyModel debug native) Map.empty)"
  by (simp add: shows_hotkeys_def SignalVectorModel_def tableRows_blocks blocks_def categories_def ofCategory_def
      categoryBlock_def tableCounts_def)

lemma sorted_prefix_parts:
  assumes "hotkeys_sorted (ys @ x # zs)"
  shows "hotkeys_sorted ys" "below (hk_category x) ys = []" "hotkeys_sorted (ys @ [x])"
    "length ys = length (above (hk_category x) ys) + length (ofCategory (hk_category x) ys)"
proof -
  show s: "hotkeys_sorted ys" and "hotkeys_sorted (ys @ [x])"
    using assms by (simp_all add: hotkeys_sorted_def sorted_wrt_append)
  have "categoryIndex (hk_category y) \<le> categoryIndex (hk_category x)" if "y \<in> set ys" for y
    using assms that by (auto simp: hotkeys_sorted_def sorted_wrt_append not_compare_index)
  then show none: "below (hk_category x) ys = []"
    by (auto simp: below_def filter_empty_conv not_less)
  show "length ys = length (above (hk_category x) ys) + length (ofCategory (hk_category x) ys)"
    using arg_cong[OF hotkeys_sorted_split[OF s, of "hk_category x"], of length] none by simp
qed

lemma initLoop_groups:
  "hotkeys_sorted (ys @ xs) \<Longrightarrow> shows_hotkeys debug native ys m \<Longrightarrow>
   \<exists>m'. initLoop (HotkeyModel debug native) self xs (int (length ys)) m = Inr m' \<and> shows_hotkeys debug native (ys @ xs) m'"
proof (induction xs arbitrary: ys m)
  case (Cons x xs)
  note parts = sorted_prefix_parts[OF Cons.prems(1)]
  have "has_place x ys" by (simp add: has_place_def parts(2))
  from insert_in_place[OF Cons.prems(2) parts(1) this _ parts(4) le_refl, of None self]
  obtain m1 where m1: "handleInserted (HotkeyModel debug native) self
      \<lparr>ev_item = x, ev_index = int (length ys), ev_caller = None\<rparr> m = Inr m1"
    "shows_hotkeys debug native (ys @ [x]) m1" by (auto simp: vec_insert_end)
  from Cons.IH[OF _ m1(2)] Cons.prems(1) m1(1) show ?case by (simp add: add.commute)
qed simp

text \<open>Signals to all tables.\<close>

lemma deliver_all:
  assumes "list_all P ms"
    and step: "\<And>self m. P m \<Longrightarrow> \<exists>m'. deliver_one H sig self m = Inr m' \<and> Q m'"
  shows "\<exists>ms'. deliver H sig j ms = Inr ms' \<and> list_all Q ms'"
  using assms(1)
proof (induction ms arbitrary: j)
  case (Cons m ms)
  from step[of m j] Cons.prems obtain m' where "deliver_one H sig j m = Inr m'" "Q m'" by auto
  with Cons.IH[of "Suc j"] Cons.prems show ?case by (auto simp del: deliver_one.simps)
qed simp

datatype hotkey_edit = OpenTable | AddHotkey hotkey | DeleteHotkey nat

fun exec_edit ::
  "bool \<Rightarrow> (key_sequence \<Rightarrow> string) \<Rightarrow> hotkey_edit \<Rightarrow> (hotkey, category_count) table_system \<Rightarrow>
   vector_error + (hotkey, category_count) table_system" where
  "exec_edit debug native OpenTable sys = createModel_sys (HotkeyModel debug native) Map.empty sys"
| "exec_edit debug native (AddHotkey h) sys = vec_insert_sys (HotkeyModel debug native) h (- 1) None sys"
| "exec_edit debug native (DeleteHotkey k) sys = vec_removeAt_sys (HotkeyModel debug native) (int k) None sys"

fun edit_fits :: "hotkey_edit \<Rightarrow> hotkey list \<Rightarrow> bool" where
  "edit_fits OpenTable xs = True"
| "edit_fits (AddHotkey h) xs = has_place h xs"
| "edit_fits (DeleteHotkey k) xs = (k < length xs)"

fun edited :: "hotkey_edit \<Rightarrow> hotkey list \<Rightarrow> hotkey list" where
  "edited OpenTable xs = xs"
| "edited (AddHotkey h) xs = vec_insert (lower_bound hotkeySortCompare h xs) h xs"
| "edited (DeleteHotkey k) xs = vec_erase k xs"

fun exec_edits ::
  "bool \<Rightarrow> (key_sequence \<Rightarrow> string) \<Rightarrow> hotkey_edit list \<Rightarrow> (hotkey, category_count) table_system \<Rightarrow>
   vector_error + (hotkey, category_count) table_system" where
  "exec_edits debug native [] sys = Inr sys"
| "exec_edits debug native (e # es) sys = pbind (exec_edit debug native e sys) (exec_edits debug native es)"

fun edits_fit :: "hotkey_edit list \<Rightarrow> hotkey list \<Rightarrow> bool" where
  "edits_fit [] xs = True"
| "edits_fit (e # es) xs = (edit_fits e xs \<and> edits_fit es (edited e xs))"

lemma exec_edit_groups:
  assumes "groups debug native sys" "edit_fits e (items (vector sys))"
  shows "\<exists>sys'. exec_edit debug native e sys = Inr sys' \<and> groups debug native sys'
    \<and> items (vector sys') = edited e (items (vector sys))"
proof -
  let ?H = "HotkeyModel debug native" and ?xs = "items (vector sys)"
  have cmp: "itemCompare (vector sys) = Some hotkeySortCompare" and sorted: "hotkeys_sorted ?xs"
    and shows_all: "list_all (shows_hotkeys debug native ?xs) (models sys)"
    using assms(1) by (simp_all add: groups_def)
  show ?thesis
  proof (cases e)
    case OpenTable
    from initLoop_groups[of "[]" ?xs debug native _ "length (models sys)", OF _ shows_hotkeys_empty] sorted
    obtain m where m: "initLoop ?H (length (models sys)) ?xs 0 (SignalVectorModel ?H Map.empty) = Inr m"
      "shows_hotkeys debug native ?xs m" by auto
    have "afterInit ?H m = Inr m" by (simp add: HotkeyModel_def afterInit_default_def)
    with m assms(1) show ?thesis
      by (auto simp: OpenTable createModel_sys_def initialize_def groups_def)
  next
    case (AddHotkey h)
    let ?k = "lower_bound hotkeySortCompare h ?xs"
    have "\<exists>m'. deliver_one ?H (ItemInserted \<lparr>ev_item = h, ev_index = int ?k, ev_caller = None\<rparr>) self m = Inr m'
        \<and> shows_hotkeys debug native (vec_insert ?k h ?xs) m'"
      if "shows_hotkeys debug native ?xs m" for self m
    proof -
      have "has_place h ?xs" using assms(2) by (simp add: AddHotkey)
      from insert_in_place[OF that sorted this _ lower_bound_category[OF sorted] lower_bound_le, of None self]
      show ?thesis by auto
    qed
    from deliver_all[OF shows_all this, of 0]
    obtain ms where ms: "deliver ?H (ItemInserted \<lparr>ev_item = h, ev_index = int ?k, ev_caller = None\<rparr>) 0 (models sys) = Inr ms"
      "list_all (shows_hotkeys debug native (vec_insert ?k h ?xs)) ms" by blast
    moreover have "hotkeys_sorted (vec_insert ?k h ?xs)"
      using sorted unfolding hotkeys_sorted_def by (rule hotkey_order.sorted_insert_lower_bound)
    ultimately show ?thesis
      using cmp by (simp add: AddHotkey vec_insert_sys_def insert_sv_sorted Let_def groups_def)
  next
    case (DeleteHotkey k)
    have k: "k < length ?xs" using assms(2) by (simp add: DeleteHotkey)
    have "\<exists>m'. deliver_one ?H (ItemRemoved \<lparr>ev_item = ?xs ! k, ev_index = int k, ev_caller = None\<rparr>) self m = Inr m'
        \<and> shows_hotkeys debug native (vec_erase k ?xs) m'"
      if "shows_hotkeys debug native ?xs m" for self m
      using remove_hotkey[OF that sorted k refl, of None self] by auto
    from deliver_all[OF shows_all this, of 0]
    obtain ms where "deliver ?H (ItemRemoved \<lparr>ev_item = ?xs ! k, ev_index = int k, ev_caller = None\<rparr>) 0 (models sys) = Inr ms"
      "list_all (shows_hotkeys debug native (vec_erase k ?xs)) ms" by blast
    moreover have "hotkeys_sorted (vec_erase k ?xs)"
      using sorted unfolding hotkeys_sorted_def by (rule sorted_vec_erase)
    ultimately show ?thesis
      using cmp k by (simp add: DeleteHotkey vec_removeAt_sys_def removeAt_sv_nat groups_def)
  qed
qed


lemma exec_edits_groups:
  "groups debug native sys \<Longrightarrow> edits_fit es (items (vector sys)) \<Longrightarrow>
   \<exists>sys'. exec_edits debug native es sys = Inr sys' \<and> groups debug native sys'
     \<and> items (vector sys') = foldl (\<lambda>xs e. edited e xs) (items (vector sys)) es"
proof (induction es arbitrary: sys)
  case (Cons e es)
  from exec_edit_groups[OF Cons.prems(1), of e] Cons.prems(2)
  obtain sys1 where sys1: "exec_edit debug native e sys = Inr sys1" "groups debug native sys1"
    "items (vector sys1) = edited e (items (vector sys))" by auto
  from Cons.IH[OF sys1(2)] Cons.prems(2) sys1(1,3) show ?case by simp
qed simp

lemma exec_edits_append:
  "exec_edits debug native (es @ fs) sys = pbind (exec_edits debug native es sys) (exec_edits debug native fs)"
  by (induction es arbitrary: sys) (simp_all add: pbind_def split: sum.split)

definition noHotkeys :: "(hotkey, category_count) table_system" where
  "noHotkeys = \<lparr>vector = SignalVector (Some hotkeySortCompare), models = []\<rparr>"

lemma groups_noHotkeys: "groups debug native noHotkeys"
  by (simp add: groups_def noHotkeys_def SignalVector_def hotkeys_sorted_def)

section \<open>What the tables show\<close>

text \<open>C10. Every hotkey table, opened before or between the edits, shows for each category in order a heading
  with the hotkeys of that category in the order of the vector, whatever hotkeys are added and deleted, as
  long as the first hotkey of a category is only added when no later category is shown; no assertion fails.\<close>

theorem hotkey_tables_are_grouped:
  assumes "edits_fit es []"
  shows "\<exists>sys. exec_edits debug native es noHotkeys = Inr sys
    \<and> items (vector sys) = foldl (\<lambda>xs e. edited e xs) [] es
    \<and> list_all (\<lambda>m. rows m = concat (map (\<lambda>c. categoryBlock debug native c (ofCategory c (items (vector sys))))
        [PopupWindow, Split, SplitInput, Window])) (models sys)"
  using exec_edits_groups[OF groups_noHotkeys, of es debug native] assms
  by (force simp: noHotkeys_def SignalVector_def groups_def shows_hotkeys_def tableRows_def categories_def list_all_iff)

definition sampleHotkey :: "hotkey_category \<Rightarrow> string \<Rightarrow> hotkey" where
  "sampleHotkey c n = Hotkey c [] ''zoom'' [''in''] n"

definition sampleEdits :: "hotkey_edit list" where
  "sampleEdits = [AddHotkey (sampleHotkey Split ''b''), OpenTable, AddHotkey (sampleHotkey Window ''c''),
     AddHotkey (sampleHotkey Split ''a''), OpenTable, DeleteHotkey 1]"

lemma sampleEdits_fit: "edits_fit sampleEdits []"
  by code_simp

theorem hotkey_tables_are_grouped_witness:
  "\<exists>sys. exec_edits True (\<lambda>k. ''Ctrl+A'') sampleEdits noHotkeys = Inr sys
    \<and> items (vector sys) = foldl (\<lambda>xs e. edited e xs) [] sampleEdits
    \<and> list_all (\<lambda>m. rows m = concat (map (\<lambda>c. categoryBlock True (\<lambda>k. ''Ctrl+A'') c (ofCategory c (items (vector sys))))
        [PopupWindow, Split, SplitInput, Window])) (models sys)"
  by (rule hotkey_tables_are_grouped[OF sampleEdits_fit])

text \<open>The first hotkey of a category that belongs above a category already shown gets its heading below
  the other heading, and its row above the other hotkey: the table shows the two headings, the new hotkey and
  the old one.  Deleting the old hotkey then fails the assertion that the row above it is a heading.\<close>

theorem new_group_above_is_misplaced:
  "(case exec_edits debug native [AddHotkey (Hotkey Window wk wa wargs w), OpenTable,
        AddHotkey (Hotkey Split sk sa sargs s)] noHotkeys of
      Inl _ \<Rightarrow> False
    | Inr sys \<Rightarrow> map rows (models sys) = [[headingRow Window, headingRow Split,
        hotkeyRow debug native (Hotkey Split sk sa sargs s), hotkeyRow debug native (Hotkey Window wk wa wargs w)]]
      \<and> exec_edit debug native (DeleteHotkey 1) sys = Inl AssertionFailed)"
proof -
  let ?w = "Hotkey Window wk wa wargs w" and ?s = "Hotkey Split sk sa sargs s"
  let ?H = "HotkeyModel debug native" and ?f = "hotkeyRow debug native"
  have "has_place ?w []" by (simp add: has_place_def below_def)
  with exec_edits_groups[OF groups_noHotkeys, of "[AddHotkey ?w, OpenTable]" debug native]
  obtain sys where sys: "exec_edits debug native [AddHotkey ?w, OpenTable] noHotkeys = Inr sys" "groups debug native sys"
    "items (vector sys) = [?w]"
    by (auto simp: noHotkeys_def SignalVector_def vec_insert_def lower_bound_def)
  have "length (models sys) = 1"
    using sys(1) by (auto simp: noHotkeys_def SignalVector_def createModel_sys_def vec_insert_sys_def pbind_Inr_iff)
  then obtain m where m: "models sys = [m]" by (cases "models sys") auto
  have rows: "rows m = [headingRow Window, ?f ?w]" and members: "members m = tableCounts [?w]"
    using sys(2) by (simp_all add: groups_def m sys(3) shows_hotkeys_def tableRows_def categories_def
        ofCategory_def categoryBlock_def Hotkey_def)
  have place: "lower_bound hotkeySortCompare ?s [?w] = 0"
    by (simp add: lower_bound_def hotkeySortCompare_def Hotkey_def categoryIndex_def)
  let ?m = "m\<lparr>members := tableCounts [?w, ?s], rows := [headingRow Window, headingRow Split, ?f ?s, ?f ?w]\<rparr>"
  let ?sys = "sys\<lparr>vector := itemsChanged ((vector sys)\<lparr>items := [?s, ?w]\<rparr>), models := [?m]\<rparr>"
  have "handleInserted ?H 0 \<lparr>ev_item = ?s, ev_index = 0, ev_caller = None\<rparr> m = Inr ?m"
  proof -
    have count: "countOf (members m) (getCategory ?s) = 0"
      by (simp add: members getCategory_def countOf_tableCounts ofCategory_def Hotkey_def)
    have upd: "(members m)(getCategory ?s \<mapsto> 1) = tableCounts [?w, ?s]"
      using tableCounts_insert[of "[?w]" ?s 1] count by (simp add: members vec_insert_def)
    have "insertCustomRow (categoryHeading 2 (getCategory ?s)) 1 (m\<lparr>members := tableCounts [?w, ?s]\<rparr>)
        = Inr (m\<lparr>members := tableCounts [?w, ?s], rows := [headingRow Window, headingRow Split, ?f ?w]\<rparr>)"
      by (simp add: insertCustomRow_def insertRowAt_def rows vec_insert_def)
        (simp add: headingRow_def getCategory_def Hotkey_def)
    then have "hotkey_beforeInsert ?s 1 m
        = Inr (2, m\<lparr>members := tableCounts [?w, ?s], rows := [headingRow Window, headingRow Split, ?f ?w]\<rparr>)"
      using count upd by (simp add: hotkey_beforeInsert_def Let_def)
    then show ?thesis
      by (simp add: handleInserted_def getModelIndex_realPos[of 0, simplified] rows createRow_HotkeyModel)
        (simp add: HotkeyModel_def insertRowAt_def vec_insert_def)
  qed
  then have add: "exec_edits debug native [AddHotkey ?s] sys = Inr ?sys"
    using sys(2) by (simp add: vec_insert_sys_def insert_sv_sorted groups_def Let_def m sys(3) place vec_insert_def)
  have "exec_edits debug native [AddHotkey ?w, OpenTable, AddHotkey ?s] noHotkeys = Inr ?sys"
    using exec_edits_append[of debug native "[AddHotkey ?w, OpenTable]" "[AddHotkey ?s]" noHotkeys]
    unfolding sys(1) add[symmetric] by simp
  moreover have "handleRemoved ?H 0 \<lparr>ev_item = ?w, ev_index = 1, ev_caller = None\<rparr> ?m = Inl AssertionFailed"
  proof -
    have "tableCounts [?w, ?s] (getCategory ?w) = Some 1"
      by (simp add: getCategory_def tableCounts_category ofCategory_def Hotkey_def)
    then show ?thesis
      by (simp add: handleRemoved_def getModelIndex_realPos[of 1, simplified])
        (simp add: HotkeyModel_def category_afterRemoved_def removeCustomRow_def vec_erase_def)
  qed
  then have "exec_edit debug native (DeleteHotkey 1) ?sys = Inl AssertionFailed"
    by (simp add: vec_removeAt_sys_def removeAt_sv_def)
  ultimately show ?thesis by (simp del: exec_edits.simps exec_edit.simps)
qed

end
