(* ===== verification/TwitchTags.thy ===== *)
theory TwitchTags
  imports Prelude "HOL-Library.Word"
begin

text \<open>
  The tags of a message from Twitch: \<open>src/util/IrcHelpers.hpp\<close>,
  \<open>src/providers/twitch/TwitchIrc.cpp\<close> and \<open>TwitchBadge.cpp\<close>.

  Texts that may hold any character are lists of UTF-16 code units (\<open>qstr\<close>); tags with identifiers and
  numbers only are strings.  The coordinates of emotes are computed with 32-bit unsigned integers as in the
  source, so a coordinate before the offset wraps around.  The emote for an identifier and a name is an
  argument.  The lemmas show that unescaping inverts the escaping of IRC, that badges and emotes are read
  back from the tags that hold them, and that no emote lies outside the text.
\<close>

section \<open>Texts\<close>

type_synonym qstr = "16 word list"

definition utf16 :: "string \<Rightarrow> qstr" where
  "utf16 s = map (\<lambda>c. of_nat (code c)) s"

definition isLowSurrogate :: "16 word \<Rightarrow> bool" where
  "isLowSurrogate c \<longleftrightarrow> 0xDC00 \<le> c \<and> c \<le> 0xDFFF"

lemma splitOn_not_Nil [simp]: "splitOn sep s \<noteq> []"
  by (induction s) (auto split: list.splits)

lemma joinOn_Cons: "ws \<noteq> [] \<Longrightarrow> joinOn sep (w # ws) = w @ sep # joinOn sep ws"
  by (cases ws) simp_all

lemma joinOn_Cons_Cons: "joinOn sep ((c # w) # ws) = c # joinOn sep (w # ws)"
  by (cases ws) simp_all

lemma joinOn_splitOn [simp]: "joinOn sep (splitOn sep s) = s"
proof (induction s)
  case (Cons c s)
  then show ?case
    by (cases "splitOn sep s") (auto simp: joinOn_Cons joinOn_Cons_Cons)
qed simp

lemma splitOn_no_sep: "sep \<notin> set w \<Longrightarrow> splitOn sep w = [w]"
  by (induction w) auto

lemma splitOn_append: "sep \<notin> set w \<Longrightarrow> splitOn sep (w @ sep # s) = w # splitOn sep s"
  by (induction w) auto

lemma splitOn_joinOn: "ws \<noteq> [] \<Longrightarrow> list_all (\<lambda>w. sep \<notin> set w) ws \<Longrightarrow> splitOn sep (joinOn sep ws) = ws"
  by (induction sep ws rule: joinOn.induct) (simp_all add: splitOn_no_sep splitOn_append)

lemma splitOn_parts: "w \<in> set (splitOn sep s) \<Longrightarrow> sep \<notin> set w"
proof (induction s arbitrary: w)
  case (Cons c s)
  then show ?case by (cases "splitOn sep s") (auto split: if_splits)
qed simp

section \<open>Escaped values\<close>

text \<open>\<open>parseTagString\<close>: the loop replaces in place; \<open>QChar::cell\<close> is the low byte.\<close>

definition cellOf :: "16 word \<Rightarrow> nat" where
  "cellOf c = unat c mod 256"

function unescapeLoop :: "nat \<Rightarrow> qstr \<Rightarrow> qstr" where
  "unescapeLoop i out =
     (if i + 1 < length out then
        (if out ! i = 0x5C then
           unescapeLoop (i + 1)
             (let c = cellOf (out ! (i + 1)) in
              if c = 0x6E then take i out @ 0x0A # drop (i + 2) out
              else if c = 0x72 then take i out @ 0x0D # drop (i + 2) out
              else if c = 0x73 then take i out @ 0x20 # drop (i + 2) out
              else if c = 0x5C then take i out @ 0x5C # drop (i + 2) out
              else if c = 0x3A then take i out @ 0x3B # drop (i + 2) out
              else take i out @ drop (i + 1) out)
         else unescapeLoop (i + 1) out)
      else out)"
  by pat_completeness auto

termination
  by (relation "measure (\<lambda>(i, out). length out - i)") (auto simp: Let_def)

declare unescapeLoop.simps [simp del]

definition parseTagString :: "qstr \<Rightarrow> qstr" where
  "parseTagString input = unescapeLoop 0 input"

text \<open>One pass from left to right.\<close>

definition unescaped :: "16 word \<Rightarrow> 16 word" where
  "unescaped d = (let c = cellOf d in if c = 0x6E then 0x0A else if c = 0x72 then 0x0D else if c = 0x73 then 0x20
     else if c = 0x5C then 0x5C else if c = 0x3A then 0x3B else d)"

fun unescape :: "qstr \<Rightarrow> qstr" where
  "unescape (c # d # cs) = (if c = 0x5C then unescaped d # unescape cs else c # unescape (d # cs))"
| "unescape cs = cs"

lemma unescapeLoop_unescape: "unescapeLoop (length pre) (pre @ cs) = pre @ unescape cs"
proof (induction cs arbitrary: pre rule: unescape.induct)
  case (1 c d cs)
  show ?case
  proof (cases "c = 0x5C")
    case True
    from "1.IH"(1)[OF True, of "pre @ [unescaped d]"] show ?thesis
      by (subst unescapeLoop.simps) (auto simp: True unescaped_def Let_def nth_append split: if_splits)
  next
    case False
    from "1.IH"(2)[OF False, of "pre @ [c]"] show ?thesis
      by (subst unescapeLoop.simps) (simp add: False nth_append)
  qed
qed (simp_all add: unescapeLoop.simps)

lemma parseTagString_unescape: "parseTagString s = unescape s"
  using unescapeLoop_unescape[of "[]" s] by (simp add: parseTagString_def)

text \<open>The escaping of the IRCv3 message tags.\<close>

definition escapedChar :: "16 word \<Rightarrow> qstr" where
  "escapedChar c = (if c = 0x3B then [0x5C, 0x3A] else if c = 0x20 then [0x5C, 0x73] else if c = 0x5C then [0x5C, 0x5C]
     else if c = 0x0D then [0x5C, 0x72] else if c = 0x0A then [0x5C, 0x6E] else [c])"

definition escapeTag :: "qstr \<Rightarrow> qstr" where
  "escapeTag s = concat (map escapedChar s)"

lemma unescape_escapedChar: "unescape (escapedChar c @ s) = c # unescape s"
proof (cases "escapedChar c = [c]")
  case True
  then have "c \<noteq> 0x5C" by (auto simp: escapedChar_def)
  with True show ?thesis by (cases s) simp_all
next
  case False
  then consider "c = 0x3B" | "c = 0x20" | "c = 0x5C" | "c = 0x0D" | "c = 0x0A"
    by (auto simp: escapedChar_def split: if_splits)
  then show ?thesis by cases (simp_all add: escapedChar_def unescaped_def cellOf_def)
qed

text \<open>Unescaping the value of a tag gives back every text that was escaped by the rules of IRCv3.\<close>

theorem tag_value_round_trip: "parseTagString (escapeTag s) = s"
  unfolding parseTagString_unescape escapeTag_def
  by (induction s) (simp_all add: unescape_escapedChar)


section \<open>Badges\<close>

definition slashKeyValue :: "string \<Rightarrow> string \<times> string" where
  "slashKeyValue kvStr =
     (takeWhile (\<lambda>c. c \<noteq> CHR ''/'') kvStr, drop (length (takeWhile (\<lambda>c. c \<noteq> CHR ''/'') kvStr) + 1) kvStr)"

datatype badge_slot = BadgeVanity | BadgeGlobalAuthority | BadgePredictions | BadgeChannelAuthority | BadgeSubscription

record twitch_badge =
  tb_key :: string
  tb_value :: string
  tb_slot :: badge_slot

definition TwitchBadge :: "string \<Rightarrow> string \<Rightarrow> twitch_badge" where
  "TwitchBadge k v = \<lparr>tb_key = k, tb_value = v, tb_slot =
     (if k \<in> set [''staff'', ''admin'', ''global_mod''] then BadgeGlobalAuthority
      else if k \<in> set [''predictions''] then BadgePredictions
      else if k \<in> set [''lead_moderator'', ''moderator'', ''vip'', ''broadcaster''] then BadgeChannelAuthority
      else if k \<in> set [''subscriber'', ''founder''] then BadgeSubscription
      else BadgeVanity)\<rparr>"

type_synonym tag_map = "string \<Rightarrow> string option"

text \<open>\<open>Qt::SkipEmptyParts\<close> drops the empty parts.\<close>

definition splitSkipEmpty :: "char \<Rightarrow> string \<Rightarrow> string list" where
  "splitSkipEmpty sep s = filter (\<lambda>w. w \<noteq> []) (splitOn sep s)"

text \<open>\<open>emplace\<close> keeps the first value of a key.\<close>

definition emplaceBadge :: "tag_map \<Rightarrow> string \<Rightarrow> tag_map" where
  "emplaceBadge m badge = (let (k, v) = slashKeyValue badge in if m k = None then m(k \<mapsto> v) else m)"

definition parseBadgeInfoTag :: "tag_map \<Rightarrow> tag_map" where
  "parseBadgeInfoTag tags =
     (case tags ''badge-info'' of
        None \<Rightarrow> Map.empty
      | Some s \<Rightarrow> foldl emplaceBadge Map.empty (splitSkipEmpty (CHR '','') s))"

fun badgeLoop :: "string list \<Rightarrow> twitch_badge list" where
  "badgeLoop [] = []"
| "badgeLoop (badge # rest) =
     (if CHR ''/'' \<notin> set badge then badgeLoop rest
      else (let (k, v) = slashKeyValue badge in TwitchBadge k v # badgeLoop rest))"

definition parseBadgeTag :: "tag_map \<Rightarrow> string \<Rightarrow> twitch_badge list" where
  "parseBadgeTag tags tagName =
     (case tags tagName of None \<Rightarrow> [] | Some s \<Rightarrow> badgeLoop (splitSkipEmpty (CHR '','') s))"

definition badgeText :: "string \<times> string \<Rightarrow> string" where
  "badgeText b = fst b @ ''/'' @ snd b"

lemma slashKeyValue_badgeText: "CHR ''/'' \<notin> set k \<Longrightarrow> slashKeyValue (badgeText (k, v)) = (k, v)"
proof -
  assume "CHR ''/'' \<notin> set k"
  then have "takeWhile (\<lambda>c. c \<noteq> CHR ''/'') (k @ CHR ''/'' # v) = k"
    by (subst takeWhile_append2) auto
  then show ?thesis by (simp add: slashKeyValue_def badgeText_def)
qed

definition plain_badges :: "(string \<times> string) list \<Rightarrow> bool" where
  "plain_badges bs \<longleftrightarrow> list_all (\<lambda>(k, v). CHR ''/'' \<notin> set k \<and> CHR '','' \<notin> set k \<and> CHR '','' \<notin> set v) bs"

lemma split_badges:
  "plain_badges bs \<Longrightarrow> bs \<noteq> [] \<Longrightarrow> splitSkipEmpty (CHR '','') (joinOn (CHR '','') (map badgeText bs)) = map badgeText bs"
  unfolding splitSkipEmpty_def
  by (subst splitOn_joinOn) (auto simp: plain_badges_def list_all_iff badgeText_def filter_id_conv)

lemma badgeLoop_badges: "plain_badges bs \<Longrightarrow> badgeLoop (map badgeText bs) = map (\<lambda>(k, v). TwitchBadge k v) bs"
proof (induction bs)
  case (Cons b bs)
  obtain k v where b: "b = (k, v)" by (cases b)
  with Cons.prems have "slashKeyValue (badgeText b) = (k, v)" "plain_badges bs"
    by (simp_all add: plain_badges_def slashKeyValue_badgeText)
  with Cons.IH show ?case by (simp add: b) (simp add: badgeText_def)
qed simp

lemma badge_info_first:
  "plain_badges bs \<Longrightarrow> foldl emplaceBadge m (map badgeText bs) = map_of bs ++ m"
proof (induction bs arbitrary: m)
  case (Cons b bs)
  obtain k v where b: "b = (k, v)" by (cases b)
  with Cons.prems have "slashKeyValue (badgeText b) = (k, v)" "plain_badges bs"
    by (simp_all add: plain_badges_def slashKeyValue_badgeText)
  with Cons.IH show ?case
    by (auto simp: b emplaceBadge_def map_add_def fun_eq_iff split: option.splits)
qed simp

text \<open>The badges of a message are read back from the tag that lists them, in order, and the extra
  information of a badge is the first value that its tag gives for the badge.\<close>

theorem badges_round_trip:
  assumes "plain_badges bs" "bs \<noteq> []" "tags ''badges'' = Some (joinOn (CHR '','') (map badgeText bs))"
    and "plain_badges infos" "infos \<noteq> []" "tags ''badge-info'' = Some (joinOn (CHR '','') (map badgeText infos))"
  shows "parseBadgeTag tags ''badges'' = map (\<lambda>(k, v). TwitchBadge k v) bs \<and> parseBadgeInfoTag tags = map_of infos"
  using assms by (simp_all add: parseBadgeTag_def parseBadgeInfoTag_def split_badges badgeLoop_badges badge_info_first)

theorem badges_round_trip_witness:
  "parseBadgeTag [''badges'' \<mapsto> ''vip/1,subscriber/12'', ''badge-info'' \<mapsto> ''subscriber/14''] ''badges''
     = [TwitchBadge ''vip'' ''1'', TwitchBadge ''subscriber'' ''12'']
   \<and> parseBadgeInfoTag [''badges'' \<mapsto> ''vip/1,subscriber/12'', ''badge-info'' \<mapsto> ''subscriber/14'']
     = [''subscriber'' \<mapsto> ''14'']"
  using badges_round_trip[of "[(''vip'', ''1''), (''subscriber'', ''12'')]"
      "[''badges'' \<mapsto> ''vip/1,subscriber/12'', ''badge-info'' \<mapsto> ''subscriber/14'']" "[(''subscriber'', ''14'')]"]
  by (simp add: plain_badges_def badgeText_def)


section \<open>Emotes\<close>

record 'e emote_occurrence =
  oc_start :: int
  oc_end :: int
  oc_ptr :: "'e option"
  oc_name :: qstr

definition midQ :: "qstr \<Rightarrow> int \<Rightarrow> int \<Rightarrow> qstr" where
  "midQ s pos len = take (nat len) (drop (nat pos) s)"

text \<open>The code units at which a code point starts.\<close>

definition correctPositions :: "qstr \<Rightarrow> int list" where
  "correctPositions content = map int (filter (\<lambda>i. \<not> isLowSurrogate (content ! i)) [0..<length content])"

text \<open>One pair of coordinates; without a value the loop returns.\<close>

definition parseOccurrence ::
  "(string \<Rightarrow> qstr \<Rightarrow> 'e) \<Rightarrow> string \<Rightarrow> int list \<Rightarrow> qstr \<Rightarrow> int \<Rightarrow> string \<Rightarrow> 'e emote_occurrence option" where
  "parseOccurrence emoteFor i positions content messageOffset occurrence =
     (let coords = splitOn (CHR ''-'') occurrence
      in if length coords < 2 then None
      else let first = of_nat (toUInt (hd coords)) - of_int messageOffset :: 32 word;
               final = of_nat (toUInt (hd (tl coords))) - of_int messageOffset :: 32 word
      in if first > final \<or> unat final \<ge> length positions then None
      else let start = positions ! unat first; end = positions ! unat final
      in if start > end \<or> start < 0 \<or> end > int (length content) then None
      else let n = midQ content start (end - start + 1)
      in Some \<lparr>oc_start = start, oc_end = end, oc_ptr = Some (emoteFor i n), oc_name = n\<rparr>)"

fun occurrenceLoop ::
  "(string \<Rightarrow> qstr \<Rightarrow> 'e) \<Rightarrow> string \<Rightarrow> int list \<Rightarrow> qstr \<Rightarrow> int \<Rightarrow> string list \<Rightarrow>
   'e emote_occurrence list \<Rightarrow> 'e emote_occurrence list" where
  "occurrenceLoop emoteFor i positions content messageOffset [] vec = vec"
| "occurrenceLoop emoteFor i positions content messageOffset (occurrence # rest) vec =
     (case parseOccurrence emoteFor i positions content messageOffset occurrence of
        None \<Rightarrow> vec
      | Some oc \<Rightarrow> occurrenceLoop emoteFor i positions content messageOffset rest (vec @ [oc]))"

definition appendTwitchEmoteOccurrences ::
  "(string \<Rightarrow> qstr \<Rightarrow> 'e) \<Rightarrow> string \<Rightarrow> int list \<Rightarrow> qstr \<Rightarrow> int \<Rightarrow> 'e emote_occurrence list \<Rightarrow> 'e emote_occurrence list" where
  "appendTwitchEmoteOccurrences emoteFor emote positions content messageOffset vec =
     (if CHR '':'' \<notin> set emote then vec
      else let parameters = splitOn (CHR '':'') emote
      in if length parameters < 2 then vec
      else occurrenceLoop emoteFor (parameters ! 0) positions content messageOffset
             (splitOn (CHR '','') (parameters ! 1)) vec)"

definition parseTwitchEmotes ::
  "(string \<Rightarrow> qstr \<Rightarrow> 'e) \<Rightarrow> tag_map \<Rightarrow> qstr \<Rightarrow> int \<Rightarrow> 'e emote_occurrence list" where
  "parseTwitchEmotes emoteFor tags content messageOffset =
     (case tags ''emotes'' of
        None \<Rightarrow> []
      | Some s \<Rightarrow> foldl (\<lambda>vec emote.
            appendTwitchEmoteOccurrences emoteFor emote (correctPositions content) content messageOffset vec)
          [] (splitOn (CHR ''/'') s))"

text \<open>An occurrence that names the text at its place.\<close>

definition in_text :: "qstr \<Rightarrow> 'e emote_occurrence \<Rightarrow> bool" where
  "in_text content oc \<longleftrightarrow> 0 \<le> oc_start oc \<and> oc_start oc \<le> oc_end oc \<and> oc_end oc < int (length content)
     \<and> oc_name oc = midQ content (oc_start oc) (oc_end oc - oc_start oc + 1) \<and> oc_ptr oc \<noteq> None"

lemma length_correctPositions: "length (correctPositions content) \<le> length content"
  using length_filter_le[of _ "[0..<length content]"] by (simp add: correctPositions_def)

lemma correctPositions_nth:
  "k < length (correctPositions content) \<Longrightarrow>
   0 \<le> correctPositions content ! k \<and> correctPositions content ! k < int (length content)"
proof -
  assume "k < length (correctPositions content)"
  then have "correctPositions content ! k \<in> set (correctPositions content)" by simp
  then show ?thesis by (auto simp: correctPositions_def)
qed

lemma correctPositions_mono:
  "a \<le> b \<Longrightarrow> b < length (correctPositions content) \<Longrightarrow> correctPositions content ! a \<le> correctPositions content ! b"
proof -
  have "sorted (correctPositions content)"
    by (auto simp: correctPositions_def sorted_map intro!: sorted_wrt_mono_rel[OF _ sorted_wrt_filter[OF sorted_upt]])
  then show "a \<le> b \<Longrightarrow> b < length (correctPositions content) \<Longrightarrow> correctPositions content ! a \<le> correctPositions content ! b"
    by (rule sorted_nth_mono)
qed

lemma parseOccurrence_in_text:
  "parseOccurrence emoteFor i (correctPositions content) content messageOffset occurrence = Some oc \<Longrightarrow> in_text content oc"
proof -
  define coords where "coords = splitOn (CHR ''-'') occurrence"
  define first where "first = (of_nat (toUInt (hd coords)) - of_int messageOffset :: 32 word)"
  define final where "final = (of_nat (toUInt (hd (tl coords))) - of_int messageOffset :: 32 word)"
  assume "parseOccurrence emoteFor i (correctPositions content) content messageOffset occurrence = Some oc"
  then have "unat final < length (correctPositions content)"
    "oc = (let start = correctPositions content ! unat first; end = correctPositions content ! unat final;
        n = midQ content start (end - start + 1)
      in \<lparr>oc_start = start, oc_end = end, oc_ptr = Some (emoteFor i n), oc_name = n\<rparr>)"
    "\<not> correctPositions content ! unat first > correctPositions content ! unat final"
    "\<not> correctPositions content ! unat first < 0"
    unfolding parseOccurrence_def Let_def coords_def[symmetric] first_def[symmetric] final_def[symmetric]
    by (simp_all split: if_splits)
  with correctPositions_nth[of "unat final" content] show ?thesis by (simp add: in_text_def Let_def)
qed

lemma occurrenceLoop_in_text:
  "list_all (in_text content) vec \<Longrightarrow>
   list_all (in_text content) (occurrenceLoop emoteFor i (correctPositions content) content messageOffset occurrences vec)"
  by (induction occurrences arbitrary: vec) (simp_all add: parseOccurrence_in_text split: option.split)

text \<open>Whatever the tag says, every emote that is found lies inside the text, its end not before its start,
  and its name is the text from its start to its end.\<close>

theorem emotes_lie_in_text: "list_all (in_text content) (parseTwitchEmotes emoteFor tags content messageOffset)"
proof (cases "tags ''emotes''")
  case (Some s)
  have step: "list_all (in_text content)
      (appendTwitchEmoteOccurrences emoteFor emote (correctPositions content) content messageOffset vec)"
    if "list_all (in_text content) vec" for emote vec
    using that by (simp add: appendTwitchEmoteOccurrences_def Let_def occurrenceLoop_in_text)
  have "list_all (in_text content) (foldl (\<lambda>vec emote.
      appendTwitchEmoteOccurrences emoteFor emote (correctPositions content) content messageOffset vec) vec es)"
    if "list_all (in_text content) vec" for vec es
    using that by (induction es arbitrary: vec) (simp_all add: step)
  with Some show ?thesis by (simp add: parseTwitchEmotes_def)
qed (simp add: parseTwitchEmotes_def)


text \<open>The tag that describes emotes at given code points, as Twitch sends it.\<close>

definition coordText :: "nat \<Rightarrow> nat \<times> nat \<Rightarrow> string" where
  "coordText off c = natDigits (fst c + off) @ ''-'' @ natDigits (snd c + off)"

definition emoteText :: "nat \<Rightarrow> string \<times> (nat \<times> nat) list \<Rightarrow> string" where
  "emoteText off e = fst e @ '':'' @ joinOn (CHR '','') (map (coordText off) (snd e))"

definition occurrenceAt :: "(string \<Rightarrow> qstr \<Rightarrow> 'e) \<Rightarrow> qstr \<Rightarrow> string \<Rightarrow> nat \<times> nat \<Rightarrow> 'e emote_occurrence" where
  "occurrenceAt emoteFor content i c =
     (let start = correctPositions content ! fst c; end = correctPositions content ! snd c;
          n = midQ content start (end - start + 1)
      in \<lparr>oc_start = start, oc_end = end, oc_ptr = Some (emoteFor i n), oc_name = n\<rparr>)"

definition good_coords :: "qstr \<Rightarrow> nat \<Rightarrow> nat \<times> nat \<Rightarrow> bool" where
  "good_coords content off c \<longleftrightarrow>
     fst c \<le> snd c \<and> snd c < length (correctPositions content) \<and> snd c + off < 2 ^ 31"

definition good_emotes :: "qstr \<Rightarrow> nat \<Rightarrow> (string \<times> (nat \<times> nat) list) list \<Rightarrow> bool" where
  "good_emotes content off es \<longleftrightarrow> es \<noteq> [] \<and> list_all (\<lambda>(i, cs). CHR '':'' \<notin> set i \<and> CHR ''/'' \<notin> set i
     \<and> cs \<noteq> [] \<and> list_all (good_coords content off) cs) es"

lemma natDigits_no: "\<not> isDigit c \<Longrightarrow> c \<notin> set (natDigits n)"
  using natDigits_digits[of n] by (auto simp: list_all_iff)

lemma not_digits [simp]: "\<not> isDigit (CHR '','')" "\<not> isDigit (CHR ''-'')" "\<not> isDigit (CHR '':'')" "\<not> isDigit (CHR ''/'')"
  by (simp_all add: isDigit_def code_def)

lemma parseOccurrence_coordText:
  assumes "good_coords content off c"
  shows "parseOccurrence emoteFor i (correctPositions content) content (int off) (coordText off c)
    = Some (occurrenceAt emoteFor content i c)"
proof -
  obtain a b where c: "c = (a, b)" by (cases c)
  from assms have ab: "a \<le> b" "b < length (correctPositions content)" "b + off < 2 ^ 31"
    by (simp_all add: good_coords_def c)
  have coords: "splitOn (CHR ''-'') (coordText off c) = [natDigits (a + off), natDigits (b + off)]"
    by (simp add: coordText_def c splitOn_append splitOn_no_sep natDigits_no)
  have word: "(of_nat (toUInt (natDigits (n + off))) - of_int (int off) :: 32 word) = of_nat n" if "n \<le> b" for n
    using that ab(3) by simp
  have unat: "unat (of_nat n :: 32 word) = n" if "n \<le> b" for n
    using that ab(3) by (simp add: unat_of_nat take_bit_nat_eq_self)
  have "\<not> (of_nat a :: 32 word) > of_nat b"
    using ab(1) unat[of a] unat[of b] by (simp add: word_less_nat_alt)
  moreover have "\<not> correctPositions content ! a > correctPositions content ! b"
    using correctPositions_mono[OF ab(1,2)] by simp
  moreover have "\<not> correctPositions content ! a < 0" "\<not> correctPositions content ! b > int (length content)"
    using correctPositions_nth[of a content] correctPositions_nth[of b content] ab(1,2) by auto
  ultimately show ?thesis
    using ab unfolding parseOccurrence_def coords Let_def list.sel word[OF ab(1)] word[OF le_refl]
    by (simp add: unat occurrenceAt_def c Let_def)
qed

lemma occurrenceLoop_coords:
  "list_all (good_coords content off) cs \<Longrightarrow>
   occurrenceLoop emoteFor i (correctPositions content) content (int off) (map (coordText off) cs) vec
     = vec @ map (occurrenceAt emoteFor content i) cs"
  by (induction cs arbitrary: vec) (simp_all add: parseOccurrence_coordText)

lemma coordText_no_sep: "CHR '','' \<notin> set (coordText off c)" "CHR '':'' \<notin> set (coordText off c)" "CHR ''/'' \<notin> set (coordText off c)"
  by (simp_all add: coordText_def natDigits_no)

lemma joinOn_no: "x \<noteq> sep \<Longrightarrow> list_all (\<lambda>w. x \<notin> set w) ws \<Longrightarrow> x \<notin> set (joinOn sep ws)"
  by (induction sep ws rule: joinOn.induct) simp_all

lemma append_emoteText:
  assumes "good_emotes content off [e]"
  shows "appendTwitchEmoteOccurrences emoteFor (emoteText off e) (correctPositions content) content (int off) vec
    = vec @ map (occurrenceAt emoteFor content (fst e)) (snd e)"
proof -
  obtain i cs where e: "e = (i, cs)" by (cases e)
  from assms have i: "CHR '':'' \<notin> set i" and cs: "cs \<noteq> []" "list_all (good_coords content off) cs"
    by (simp_all add: good_emotes_def e)
  have list: "CHR '':'' \<notin> set (joinOn (CHR '','') (map (coordText off) cs))"
    by (rule joinOn_no) (simp_all add: list_all_iff coordText_no_sep)
  have "splitOn (CHR '':'') (emoteText off e) = [i, joinOn (CHR '','') (map (coordText off) cs)]"
    using i list by (simp add: emoteText_def e splitOn_append splitOn_no_sep)
  moreover have "splitOn (CHR '','') (joinOn (CHR '','') (map (coordText off) cs)) = map (coordText off) cs"
    using cs(1) by (intro splitOn_joinOn) (simp_all add: list_all_iff coordText_no_sep)
  ultimately show ?thesis
    using cs(2) by (simp add: appendTwitchEmoteOccurrences_def occurrenceLoop_coords e)
      (simp add: emoteText_def e)
qed

text \<open>C30. The emotes of a message are read back from their tag: the coordinates count code points from the start
  of the original message, so with the length of a skipped prefix as the offset every emote covers the code units
  from the start of its first to the start of its last code point.\<close>

theorem emotes_round_trip:
  assumes "good_emotes content off es" "tags ''emotes'' = Some (joinOn (CHR ''/'') (map (emoteText off) es))"
  shows "parseTwitchEmotes emoteFor tags content (int off)
    = concat (map (\<lambda>(i, cs). map (occurrenceAt emoteFor content i) cs) es)"
proof -
  have "splitOn (CHR ''/'') (joinOn (CHR ''/'') (map (emoteText off) es)) = map (emoteText off) es"
  proof (rule splitOn_joinOn)
    have "CHR ''/'' \<notin> set (joinOn (CHR '','') (map (coordText off) cs))" for cs
      by (rule joinOn_no) (simp_all add: list_all_iff coordText_no_sep)
    then show "list_all (\<lambda>w. CHR ''/'' \<notin> set w) (map (emoteText off) es)"
      using assms(1) by (auto simp: good_emotes_def list_all_iff emoteText_def)
  qed (use assms(1) in \<open>simp add: good_emotes_def\<close>)
  moreover have "foldl (\<lambda>vec emote. appendTwitchEmoteOccurrences emoteFor emote (correctPositions content) content (int off) vec)
      vec (map (emoteText off) es) = vec @ concat (map (\<lambda>(i, cs). map (occurrenceAt emoteFor content i) cs) es)"
    if "list_all (\<lambda>e. good_emotes content off [e]) es" for vec
    using that by (induction es arbitrary: vec) (auto simp: append_emoteText)
  moreover have "list_all (\<lambda>e. good_emotes content off [e]) es"
    using assms(1) by (auto simp: good_emotes_def list_all_iff)
  ultimately show ?thesis by (simp add: parseTwitchEmotes_def assms(2))
qed

definition sampleContent :: qstr where
  "sampleContent = utf16 ''hi '' @ [0xD83D, 0xDE00] @ utf16 '' Kappa''"

text \<open>A code point of two units before the emote; the message had a prefix of four code points.\<close>

theorem emotes_round_trip_witness:
  "parseTwitchEmotes (\<lambda>i n. (i, n)) [''emotes'' \<mapsto> ''25:9-13''] sampleContent 4
     = [\<lparr>oc_start = 6, oc_end = 10, oc_ptr = Some (''25'', utf16 ''Kappa''), oc_name = utf16 ''Kappa''\<rparr>]"
proof -
  have positions: "correctPositions sampleContent = [0, 1, 2, 3, 5, 6, 7, 8, 9, 10]" by code_simp
  have good: "good_emotes sampleContent 4 [(''25'', [(5, 9)])]"
    by (simp add: good_emotes_def good_coords_def positions)
  have tag: "joinOn (CHR ''/'') (map (emoteText 4) [(''25'', [(5, 9)])]) = ''25:9-13''"
    by (simp add: emoteText_def coordText_def natDigits.simps digitChar_def) code_simp
  have n: "midQ sampleContent 6 5 = utf16 ''Kappa''" by code_simp
  have "[''emotes'' \<mapsto> ''25:9-13''] ''emotes'' = Some (joinOn (CHR ''/'') (map (emoteText 4) [(''25'', [(5, 9)])]))"
    unfolding tag by simp
  from emotes_round_trip[OF good, of "[''emotes'' \<mapsto> ''25:9-13'']" Pair, OF this] show ?thesis by (simp add: occurrenceAt_def positions n Let_def)
qed

end
