(* ===== verification/MessageWords.thy ===== *)
theory MessageWords
  imports TwitchTags
begin

text \<open>
  How the words and emotes of a message become elements: \<open>doesWordContainATwitchEmote\<close>,
  \<open>MessageBuilder::addWords\<close> and the sorting of the emotes before it in \<open>src/messages/MessageBuilder.cpp\<close>.

  An emote becomes an element with the emote; the text between emotes is handed to the emoji parser and to
  \<open>addTextOrEmote\<close>, which are not part of the model, so it is an element with the text.  The loop over the
  emotes of one word need not end for occurrences that end before they start; it is a
  \<open>partial_function\<close>, and the lemmas show that it returns for all others.
\<close>

section \<open>Elements\<close>

datatype 'e word_element = EmoteElement "'e option" bool | TextPiece qstr

text \<open>\<open>setTrailingSpace(false)\<close> on the last element.\<close>

definition setTrailingSpace :: "bool \<Rightarrow> 'e word_element list \<Rightarrow> 'e word_element list" where
  "setTrailingSpace b els =
     (case rev els of EmoteElement e _ # rest \<Rightarrow> rev rest @ [EmoteElement e b] | _ \<Rightarrow> els)"

definition doesWordContainATwitchEmote :: "int \<Rightarrow> qstr \<Rightarrow> 'e emote_occurrence list \<Rightarrow> bool" where
  "doesWordContainATwitchEmote cursor word emotes =
     (case emotes of
        [] \<Rightarrow> False
      | e # _ \<Rightarrow> let wordEnd = cursor + int (length word) in \<not> (oc_start e < cursor \<or> oc_end e > wordEnd))"

text \<open>The while loop over the emotes of a word; the list of emotes stands for the iterator.\<close>

type_synonym 'e word_state = "int \<times> qstr \<times> 'e emote_occurrence list \<times> 'e word_element list"

partial_function (option) emoteLoop ::
  "int \<Rightarrow> qstr \<Rightarrow> 'e emote_occurrence list \<Rightarrow> 'e word_element list \<Rightarrow> 'e word_state option" where
  "emoteLoop cursor word emotes els =
     (if \<not> doesWordContainATwitchEmote cursor word emotes then Some (cursor, word, emotes, els)
      else let e = hd emotes
      in if oc_start e = cursor then
           (let els1 = els @ [EmoteElement (oc_ptr e) True];
                len = length (oc_name e);
                cursor1 = cursor + int len;
                word1 = drop len word
            in if word1 = [] then Some (cursor1 + 1, word1, tl emotes, els1)
               else emoteLoop cursor1 word1 (tl emotes) (setTrailingSpace False els1))
         else let preText = take (nat (oc_start e - cursor)) word
         in emoteLoop (cursor + int (length preText)) (drop (length preText) word) emotes
              (els @ [TextPiece preText]))"

fun wordsLoop ::
  "qstr list \<Rightarrow> int \<Rightarrow> 'e emote_occurrence list \<Rightarrow> 'e word_element list \<Rightarrow> 'e word_element list option" where
  "wordsLoop [] cursor emotes els = Some els"
| "wordsLoop (word # ws) cursor emotes els =
     (if word = [] then wordsLoop ws (cursor + 1) emotes els
      else (case emoteLoop cursor word emotes els of
              None \<Rightarrow> None
            | Some (cursor1, word1, emotes1, els1) \<Rightarrow>
                if word1 = [] then wordsLoop ws cursor1 emotes1 els1
                else wordsLoop ws (cursor1 + int (length word1) + 1) emotes1 (els1 @ [TextPiece word1])))"

definition addWords :: "qstr list \<Rightarrow> 'e emote_occurrence list \<Rightarrow> 'e word_element list option" where
  "addWords ws emotes = wordsLoop ws 0 emotes []"

text \<open>Before, the emotes are sorted and of those with the same start one is kept.\<close>

fun uniqueStarts :: "'e emote_occurrence list \<Rightarrow> 'e emote_occurrence list" where
  "uniqueStarts (a # b # es) = (if oc_start a = oc_start b then uniqueStarts (a # es) else a # uniqueStarts (b # es))"
| "uniqueStarts es = es"

definition sortEmotes :: "'e emote_occurrence list \<Rightarrow> 'e emote_occurrence list" where
  "sortEmotes es = uniqueStarts (sort_key oc_start es)"

definition addContent :: "qstr \<Rightarrow> 'e emote_occurrence list \<Rightarrow> 'e word_element list option" where
  "addContent content emotes = addWords (splitOn 32 content) (sortEmotes emotes)"

section \<open>The loop returns\<close>

lemma emoteLoop_returns:
  "list_all (\<lambda>e. oc_start e \<le> oc_end e) emotes \<Longrightarrow>
   \<exists>c w es els'. emoteLoop cursor word emotes els = Some (c, w, es, els') \<and> list_all (\<lambda>e. oc_start e \<le> oc_end e) es"
proof (induction "length emotes + length word" arbitrary: cursor word emotes els rule: less_induct)
  case less
  show ?case
  proof (cases "doesWordContainATwitchEmote cursor word emotes")
    case False
    with less.prems show ?thesis by (subst emoteLoop.simps) simp
  next
    case True
    then obtain e es where emotes: "emotes = e # es" by (cases emotes) (auto simp: doesWordContainATwitchEmote_def)
    with True have fits: "cursor \<le> oc_start e" "oc_end e \<le> cursor + int (length word)"
      by (simp_all add: doesWordContainATwitchEmote_def Let_def)
    show ?thesis
    proof (cases "oc_start e = cursor")
      case True': True
      show ?thesis
        using True less.prems less.hyps[of es] unfolding emotes
        by (subst emoteLoop.simps) (simp add: True' Let_def)
    next
      case False
      let ?pre = "take (nat (oc_start e - cursor)) word"
      have "oc_start e \<le> oc_end e" using less.prems by (simp add: emotes)
      with fits False have "0 < nat (oc_start e - cursor)" "0 < length word" by auto
      then have shorter: "length (drop (length ?pre) word) < length word" by simp
      have "emoteLoop cursor word emotes els
          = emoteLoop (cursor + int (length ?pre)) (drop (length ?pre) word) emotes (els @ [TextPiece ?pre])"
        using True False by (subst emoteLoop.simps) (simp add: emotes Let_def)
      with less.hyps[OF _ less.prems] shorter show ?thesis by simp
    qed
  qed
qed


section \<open>What is shown\<close>

text \<open>An occurrence whose name stands at its start; the end is the last code unit (from the tag) or the one after
  it (from a replacement).\<close>

definition placed :: "qstr \<Rightarrow> 'e emote_occurrence \<Rightarrow> bool" where
  "placed content e \<longleftrightarrow> oc_name e \<noteq> [] \<and> 32 \<notin> set (oc_name e) \<and> 0 \<le> oc_start e
     \<and> take (length (oc_name e)) (drop (nat (oc_start e)) content) = oc_name e
     \<and> (oc_end e = oc_start e + int (length (oc_name e)) - 1 \<or> oc_end e = oc_start e + int (length (oc_name e)))"

definition apart_from :: "'e emote_occurrence \<Rightarrow> 'e emote_occurrence \<Rightarrow> bool" where
  "apart_from a b \<longleftrightarrow> oc_start a + int (length (oc_name a)) \<le> oc_start b"

text \<open>The text of the elements when the names of the emotes are put in.\<close>

fun shownText :: "qstr list \<Rightarrow> 'e word_element list \<Rightarrow> qstr" where
  "shownText names [] = []"
| "shownText names (TextPiece t # els) = t @ shownText names els"
| "shownText (n # names) (EmoteElement e b # els) = n @ shownText names els"
| "shownText [] (EmoteElement e b # els) = shownText [] els"

definition shownEmotes :: "'e word_element list \<Rightarrow> 'e option list" where
  "shownEmotes els = concat (map (\<lambda>el. case el of EmoteElement e _ \<Rightarrow> [e] | TextPiece _ \<Rightarrow> []) els)"

lemma shownEmotes_simps [simp]:
  "shownEmotes [] = []" "shownEmotes (EmoteElement e b # els) = e # shownEmotes els"
  "shownEmotes (TextPiece t # els) = shownEmotes els" "shownEmotes (els @ els') = shownEmotes els @ shownEmotes els'"
  by (simp_all add: shownEmotes_def)

lemma shownText_append:
  "length (shownEmotes els) = length ns \<Longrightarrow> shownText (ns @ ms) (els @ els') = shownText ns els @ shownText ms els'"
  by (induction ns els rule: shownText.induct) auto

lemma setTrailingSpace_last: "setTrailingSpace b (els @ [EmoteElement e c]) = els @ [EmoteElement e b]"
  by (simp add: setTrailingSpace_def)

lemma placed_nth:
  assumes "placed content e" "i < length (oc_name e)"
  shows "nat (oc_start e) + i < length content" "content ! (nat (oc_start e) + i) = oc_name e ! i"
proof -
  have t: "take (length (oc_name e)) (drop (nat (oc_start e)) content) = oc_name e"
    using assms(1) by (simp add: placed_def)
  then have "length (oc_name e) \<le> length content - nat (oc_start e)"
    by (metis length_drop length_take min.cobounded1 min_def nat_le_linear take_all_iff)
  with assms(2) show "nat (oc_start e) + i < length content" by simp
  then show "content ! (nat (oc_start e) + i) = oc_name e ! i"
    using assms(2) arg_cong[OF t, of "\<lambda>xs. xs ! i"] by simp
qed

text \<open>A word of the content, up to a space or the end.\<close>

definition word_at :: "qstr \<Rightarrow> qstr \<Rightarrow> qstr \<Rightarrow> bool" where
  "word_at content pre word \<longleftrightarrow> 32 \<notin> set word \<and> (\<exists>post. content = pre @ word @ post \<and> (post = [] \<or> hd post = 32))"

lemma word_at_drop:
  "word_at content pre word \<Longrightarrow> word_at content (pre @ take n word) (drop n word)"
  unfolding word_at_def
  by (metis append.assoc append_take_drop_id in_set_dropD)

lemma emote_in_word:
  assumes w: "word_at content pre word" and e: "placed content e" and start: "int (length pre) \<le> oc_start e"
  shows "if oc_start e < int (length pre + length word)
    then doesWordContainATwitchEmote (int (length pre)) word (e # es)
      \<and> oc_start e + int (length (oc_name e)) \<le> int (length pre + length word)
      \<and> take (length (oc_name e)) (drop (nat (oc_start e) - length pre) word) = oc_name e
    else \<not> doesWordContainATwitchEmote (int (length pre)) word (e # es) \<and> int (length pre + length word) < oc_start e"
proof -
  define s where "s = nat (oc_start e)"
  have s: "oc_start e = int s" "length pre \<le> s" using start by (simp_all add: s_def)
  obtain post where content: "content = pre @ word @ post" "post = [] \<or> hd post = 32"
    using w by (auto simp: word_at_def)
  have name: "oc_name e \<noteq> []" "32 \<notin> set (oc_name e)" using e by (simp_all add: placed_def)
  note nth = placed_nth[OF e, folded s_def]
  let ?k = "length pre + length word"
  have no: "\<not> (s \<le> ?k \<and> ?k < s + length (oc_name e))"
  proof
    assume "s \<le> ?k \<and> ?k < s + length (oc_name e)"
    then have i: "?k - s < length (oc_name e)" "s + (?k - s) = ?k" by auto
    from nth[OF i(1)] have "?k < length content" "content ! ?k = oc_name e ! (?k - s)" by (simp_all only: i(2))
    then have "post \<noteq> []" "hd post = oc_name e ! (?k - s)"
      by (auto simp: content(1) nth_append hd_conv_nth)
    with content(2) name(2) i(1) show False by (metis nth_mem)
  qed
  have end': "oc_end e = int (s + length (oc_name e)) - 1 \<or> oc_end e = int (s + length (oc_name e))"
    using e s by (auto simp: placed_def)
  have len: "0 < length (oc_name e)" using name(1) by simp
  show ?thesis
  proof (cases "s < ?k")
    case True
    with no have fits: "s + length (oc_name e) \<le> ?k" by linarith
    have "take (length (oc_name e)) (drop s content) = take (length (oc_name e)) (drop (s - length pre) word)"
      using s(2) fits by (simp add: content(1))
    then have "take (length (oc_name e)) (drop (nat (oc_start e) - length pre) word) = oc_name e"
      using e by (simp add: placed_def s(1))
    then show ?thesis using True fits end' s
      by (auto simp: doesWordContainATwitchEmote_def Let_def)
  next
    case False
    with no len have k: "?k < s" by linarith
    then have "int ?k < oc_end e" using end' len by linarith
    with k s(1) show ?thesis by (simp add: doesWordContainATwitchEmote_def Let_def)
  qed
qed


definition ready :: "qstr \<Rightarrow> nat \<Rightarrow> 'e emote_occurrence list \<Rightarrow> bool" where
  "ready content k emotes \<longleftrightarrow> list_all (placed content) emotes \<and> sorted_wrt apart_from emotes
     \<and> list_all (\<lambda>e. int k \<le> oc_start e) emotes"

lemma ready_Cons:
  "ready content k (e # es) \<Longrightarrow> placed content e \<and> int k \<le> oc_start e \<and> ready content k es
     \<and> ready content (nat (oc_start e) + length (oc_name e)) es"
  by (auto simp: ready_def list_all_iff apart_from_def placed_def)

lemma ready_after: "ready content k es \<Longrightarrow> es = [] \<or> int m \<le> oc_start (hd es) \<Longrightarrow> ready content m es"
  by (cases es) (fastforce simp: ready_def list_all_iff apart_from_def)+

text \<open>The loop over one word shows the emotes of the word in order and the text before and between them; what is left
  of the word has no emote.\<close>

lemma emoteLoop_shows:
  "word_at content pre word \<Longrightarrow> ready content (length pre) emotes \<Longrightarrow> word \<noteq> [] \<Longrightarrow>
   \<exists>c w ks es new. emoteLoop (int (length pre)) word emotes els = Some (c, w, es, els @ new) \<and> emotes = ks @ es
     \<and> shownEmotes new = map oc_ptr ks \<and> shownText (map oc_name ks) new @ w = word
     \<and> ready content (length pre + length word + 1) es
     \<and> c = int (length pre + length word) - int (length w) + (if w = [] then 1 else 0)"
proof (induction "length emotes + length word" arbitrary: pre word emotes els rule: less_induct)
  case less
  show ?case
  proof (cases "doesWordContainATwitchEmote (int (length pre)) word emotes")
    case False
    have "emotes = [] \<or> int (length pre + length word + 1) \<le> oc_start (hd emotes)"
    proof (cases emotes)
      case (Cons e es)
      with emote_in_word[OF less.prems(1), of e es] ready_Cons less.prems(2) False show ?thesis
        by (fastforce split: if_splits)
    qed simp
    with ready_after[OF less.prems(2)] have "ready content (length pre + length word + 1) emotes" by blast
    with False less.prems(3) show ?thesis by (subst emoteLoop.simps) auto
  next
    case True
    then obtain e es where emotes: "emotes = e # es" by (cases emotes) (auto simp: doesWordContainATwitchEmote_def)
    note r = ready_Cons[OF less.prems(2)[unfolded emotes]]
    let ?len = "length (oc_name e)"
    have fits: "oc_start e < int (length pre + length word)" "oc_start e + int ?len \<le> int (length pre + length word)"
      "take ?len (drop (nat (oc_start e) - length pre) word) = oc_name e"
      using emote_in_word[OF less.prems(1), of e es] r True by (auto simp: emotes split: if_splits)
    have len: "0 < ?len" using r by (simp add: placed_def)
    show ?thesis
    proof (cases "oc_start e = int (length pre)")
      case start: True
      have name: "oc_name e = take ?len word" using fits(3) by (simp add: start)
      have r': "ready content (length pre + ?len) es" using r by (simp add: start)
      show ?thesis
      proof (cases "drop ?len word = []")
        case all: True
        then have len_word: "?len = length word" using fits(2) by (simp add: start)
        then have word: "oc_name e = word" using name by simp
        have at: "word_at content (pre @ word) []" using word_at_drop[OF less.prems(1), of "length word"] by simp
        have "es = [] \<or> int (length pre + length word + 1) \<le> oc_start (hd es)"
        proof (cases es)
          case (Cons e2 es2)
          with r' have e2: "placed content e2" "int (length (pre @ word)) \<le> oc_start e2"
            by (simp_all add: ready_def len_word)
          from emote_in_word[OF at this, of es2] e2(2) Cons show ?thesis by (simp split: if_splits)
        qed simp
        with ready_after[OF r'] have "ready content (length pre + length word + 1) es" by blast
        moreover have "emoteLoop (int (length pre)) word emotes els
            = Some (int (length pre) + int ?len + 1, [], es, els @ [EmoteElement (oc_ptr e) True])"
          using True all by (subst emoteLoop.simps) (simp add: emotes start Let_def)
        ultimately have "emoteLoop (int (length pre)) word emotes els = Some ((int (length pre) + int ?len + 1), [], es, els @ ([EmoteElement (oc_ptr e) True])) \<and> emotes = ([e]) @ es
            \<and> shownEmotes ([EmoteElement (oc_ptr e) True]) = map oc_ptr ([e]) \<and> shownText (map oc_name ([e])) ([EmoteElement (oc_ptr e) True]) @ [] = word
            \<and> ready content (length pre + length word + 1) es
            \<and> (int (length pre) + int ?len + 1) = int (length pre + length word) - int (length []) + (if [] = [] then 1 else 0)"
          using len_word word by (simp add: emotes)
        then show ?thesis by blast
      next
        case more: False
        let ?pre = "pre @ take ?len word"
        have lpre: "length ?pre = length pre + ?len" using fits(2) by (simp add: start)
        have "\<exists>c w ks es' new. emoteLoop (int (length ?pre)) (drop ?len word) es (els @ [EmoteElement (oc_ptr e) False]) =
              Some (c, w, es', (els @ [EmoteElement (oc_ptr e) False]) @ new) \<and> es = ks @ es'
            \<and> shownEmotes new = map oc_ptr ks \<and> shownText (map oc_name ks) new @ w = drop ?len word
            \<and> ready content (length ?pre + length (drop ?len word) + 1) es'
            \<and> c = int (length ?pre + length (drop ?len word)) - int (length w) + (if w = [] then 1 else 0)"
          by (rule less.hyps[OF _ word_at_drop[OF less.prems(1)] _ more]) (use r' lpre in \<open>simp_all add: emotes\<close>)
        then obtain c w ks es' new where IH: "emoteLoop (int (length ?pre)) (drop ?len word) es
              (els @ [EmoteElement (oc_ptr e) False]) = Some (c, w, es', (els @ [EmoteElement (oc_ptr e) False]) @ new)"
            "es = ks @ es'" "shownEmotes new = map oc_ptr ks" "shownText (map oc_name ks) new @ w = drop ?len word"
            "ready content (length ?pre + length (drop ?len word) + 1) es'"
            "c = int (length ?pre + length (drop ?len word)) - int (length w) + (if w = [] then 1 else 0)"
          by blast
        have "emoteLoop (int (length pre)) word emotes els
            = emoteLoop (int (length ?pre)) (drop ?len word) es (els @ [EmoteElement (oc_ptr e) False])"
          using True more lpre by (subst emoteLoop.simps) (simp add: emotes start Let_def setTrailingSpace_last)
        moreover have total: "length ?pre + length (drop ?len word) = length pre + length word"
          using fits(2) by (simp add: start)
        moreover have "oc_name e @ drop ?len word = word" by (subst name) (rule append_take_drop_id)
        ultimately have "emoteLoop (int (length pre)) word emotes els = Some (c, w, es', els @ (EmoteElement (oc_ptr e) False # new)) \<and> emotes = (e # ks) @ es'
            \<and> shownEmotes (EmoteElement (oc_ptr e) False # new) = map oc_ptr (e # ks) \<and> shownText (map oc_name (e # ks)) (EmoteElement (oc_ptr e) False # new) @ w = word
            \<and> ready content (length pre + length word + 1) es'
            \<and> c = int (length pre + length word) - int (length w) + (if w = [] then 1 else 0)"
          using IH(1-4) IH(5,6)[unfolded total] by (simp add: emotes)
        then show ?thesis by blast
      qed
    next
      case before: False
      let ?n = "nat (oc_start e - int (length pre))"
      let ?pre = "pre @ take ?n word"
      have n: "0 < ?n" "?n < length word" using before r fits(1) by auto
      then have lpre: "length ?pre = length pre + ?n" "drop ?n word \<noteq> []" by simp_all
      have "emotes = [] \<or> int (length ?pre) \<le> oc_start (hd emotes)" using n r by (simp add: emotes)
      with ready_after[OF less.prems(2)] have r': "ready content (length ?pre) emotes" by blast
      have "\<exists>c w ks es' new. emoteLoop (int (length ?pre)) (drop ?n word) emotes (els @ [TextPiece (take ?n word)]) =
            Some (c, w, es', (els @ [TextPiece (take ?n word)]) @ new) \<and> emotes = ks @ es'
          \<and> shownEmotes new = map oc_ptr ks \<and> shownText (map oc_name ks) new @ w = drop ?n word
          \<and> ready content (length ?pre + length (drop ?n word) + 1) es'
          \<and> c = int (length ?pre + length (drop ?n word)) - int (length w) + (if w = [] then 1 else 0)"
        by (rule less.hyps[OF _ word_at_drop[OF less.prems(1)] r' lpre(2)]) (use n in simp)
      then obtain c w ks es' new where IH: "emoteLoop (int (length ?pre)) (drop ?n word) emotes
            (els @ [TextPiece (take ?n word)]) = Some (c, w, es', (els @ [TextPiece (take ?n word)]) @ new)"
          "emotes = ks @ es'" "shownEmotes new = map oc_ptr ks" "shownText (map oc_name ks) new @ w = drop ?n word"
          "ready content (length ?pre + length (drop ?n word) + 1) es'"
          "c = int (length ?pre + length (drop ?n word)) - int (length w) + (if w = [] then 1 else 0)"
        by blast
      have "emoteLoop (int (length pre)) word emotes els
          = emoteLoop (int (length ?pre)) (drop ?n word) emotes (els @ [TextPiece (take ?n word)])"
        using True before n by (subst emoteLoop.simps) (simp add: emotes Let_def min_def)
      moreover have total: "length ?pre + length (drop ?n word) = length pre + length word" using n by simp
      moreover have "take ?n word @ drop ?n word = word" by (rule append_take_drop_id)
      ultimately have "emoteLoop (int (length pre)) word emotes els = Some (c, w, es', els @ (TextPiece (take ?n word) # new)) \<and> emotes = (ks) @ es'
            \<and> shownEmotes (TextPiece (take ?n word) # new) = map oc_ptr (ks) \<and> shownText (map oc_name (ks)) (TextPiece (take ?n word) # new) @ w = word
            \<and> ready content (length pre + length word + 1) es'
            \<and> c = int (length pre + length word) - int (length w) + (if w = [] then 1 else 0)"
        using IH(1-4) IH(5,6)[unfolded total] by simp
      then show ?thesis by blast
    qed
  qed
qed


lemma wordsLoop_shows:
  "content = pre @ joinOn 32 ws \<Longrightarrow> ws \<noteq> [] \<Longrightarrow> list_all (\<lambda>w. 32 \<notin> set w) ws \<Longrightarrow> ready content (length pre) emotes \<Longrightarrow>
   \<exists>new. wordsLoop ws (int (length pre)) emotes els = Some (els @ new)
     \<and> shownEmotes new = map oc_ptr emotes \<and> shownText (map oc_name emotes) new = concat ws"
proof (induction ws arbitrary: pre emotes els)
  case (Cons word ws)
  have word_at: "word_at content pre word"
    using Cons.prems by (cases ws) (auto simp: word_at_def)
  let ?k = "length pre + length word"
  have rest: "\<exists>new. wordsLoop ws (int (?k + 1)) es els' = Some (els' @ new)
      \<and> shownEmotes new = map oc_ptr es \<and> shownText (map oc_name es) new = concat ws"
    if "ready content (?k + 1) es" for es :: "'a emote_occurrence list" and els'
  proof (cases ws)
    case Nil
    have "es = []"
    proof (cases es)
      case (Cons e es')
      with that have e: "placed content e" "int (?k + 1) \<le> oc_start e" by (simp_all add: ready_def)
      with placed_nth(1)[OF e(1), of 0] have "nat (oc_start e) < length content" by (auto simp: placed_def)
      with e show ?thesis using \<open>content = pre @ joinOn 32 (word # ws)\<close> Nil by simp
    qed simp
    with Nil show ?thesis by simp
  next
    case more: (Cons v vs)
    have "content = (pre @ word @ [32]) @ joinOn 32 ws" using Cons.prems(1) more by simp
    from Cons.IH[OF this, of es els'] Cons.prems(3) that more show ?thesis by (simp add: ac_simps)
  qed
  show ?case
  proof (cases "word = []")
    case True
    have "ready content (?k + 1) emotes"
    proof (rule ready_after[OF Cons.prems(4)])
      show "emotes = [] \<or> int (?k + 1) \<le> oc_start (hd emotes)"
      proof (cases emotes)
        case e: (Cons e es)
        from Cons.prems(4) have "placed content e" "int (length pre) \<le> oc_start e" by (simp_all add: ready_def e)
        from emote_in_word[OF word_at this, of es] this(2) show ?thesis by (simp add: True e split: if_splits)
      qed simp
    qed
    from rest[OF this, of els] True show ?thesis by (simp add: ac_simps)
  next
    case False
    from emoteLoop_shows[OF word_at Cons.prems(4) False, of els] obtain c w ks es new
      where loop: "emoteLoop (int (length pre)) word emotes els = Some (c, w, es, els @ new)" "emotes = ks @ es"
        "shownEmotes new = map oc_ptr ks" "shownText (map oc_name ks) new @ w = word" "ready content (?k + 1) es"
        "c = int ?k - int (length w) + (if w = [] then 1 else 0)" by blast
    have append: "shownText (map oc_name ks @ map oc_name es) (new @ new') = shownText (map oc_name ks) new @ shownText (map oc_name es) new'"
      for new' using loop(3) by (intro shownText_append) simp
    show ?thesis
    proof (cases "w = []")
      case True
      from rest[OF loop(5), of "els @ new"] obtain new' where "wordsLoop ws (int (?k + 1)) es (els @ new) = Some ((els @ new) @ new')"
        "shownEmotes new' = map oc_ptr es" "shownText (map oc_name es) new' = concat ws" by blast
      with loop True False show ?thesis
        by (intro exI[of _ "new @ new'"]) (simp add: append ac_simps)
    next
      case w: False
      from rest[OF loop(5), of "els @ new @ [TextPiece w]"] obtain new'
        where "wordsLoop ws (int (?k + 1)) es (els @ new @ [TextPiece w]) = Some ((els @ new @ [TextPiece w]) @ new')"
        "shownEmotes new' = map oc_ptr es" "shownText (map oc_name es) new' = concat ws" by blast
      moreover have "c + int (length w) + 1 = int (?k + 1)" using loop(6) w by simp
      ultimately show ?thesis using loop w False append[of "TextPiece w # new'"]
        by (intro exI[of _ "new @ TextPiece w # new'"]) (simp add: ac_simps)
    qed
  qed
qed simp

lemma concat_splitOn: "concat (splitOn sep s) = filter (\<lambda>c. c \<noteq> sep) s"
proof (induction s)
  case (Cons c s)
  then show ?case by (cases "splitOn sep s") auto
qed simp

text \<open>Sorting emotes that do not overlap.\<close>

definition disjoint_emotes :: "'e emote_occurrence \<Rightarrow> 'e emote_occurrence \<Rightarrow> bool" where
  "disjoint_emotes a b \<longleftrightarrow> apart_from a b \<or> apart_from b a"

lemma apart_start: "apart_from a b \<Longrightarrow> oc_name a \<noteq> [] \<Longrightarrow> oc_start a < oc_start b"
  by (cases "oc_name a") (simp_all add: apart_from_def)

lemma sorted_insort_apart:
  "sorted_wrt apart_from es \<Longrightarrow> list_all (disjoint_emotes e) es \<Longrightarrow> oc_name e \<noteq> [] \<Longrightarrow>
   list_all (\<lambda>a. oc_name a \<noteq> []) es \<Longrightarrow> sorted_wrt apart_from (insort_key oc_start e es)"
proof (induction es)
  case (Cons a es)
  show ?case
  proof (cases "oc_start e \<le> oc_start a")
    case True
    with Cons.prems apart_start[of a e] have ea: "apart_from e a"
      by (auto simp: disjoint_emotes_def)
    then have "apart_from e b" if "b \<in> set es" for b
      using that Cons.prems(1) by (fastforce simp: apart_from_def)
    with ea True Cons.prems(1) show ?thesis by simp
  next
    case False
    with Cons.prems apart_start[of e a] have "apart_from a e"
      by (auto simp: disjoint_emotes_def)
    with False Cons show ?thesis by (simp add: set_insort_key)
  qed
qed simp

lemma sorted_sort_apart:
  "sorted_wrt disjoint_emotes es \<Longrightarrow> list_all (\<lambda>a. oc_name a \<noteq> []) es \<Longrightarrow> sorted_wrt apart_from (sort_key oc_start es)"
  by (induction es) (simp_all add: sorted_insort_apart list_all_iff)

lemma uniqueStarts_apart: "sorted_wrt apart_from es \<Longrightarrow> list_all (\<lambda>a. oc_name a \<noteq> []) es \<Longrightarrow> uniqueStarts es = es"
proof (induction es rule: uniqueStarts.induct)
  case (1 a b es)
  then have "oc_start a \<noteq> oc_start b" using apart_start[of a b] by auto
  with 1 show ?case by simp
qed simp_all

text \<open>C11. When the emotes stand at their places in the text, do not overlap and hold no space, the words of the text
  become elements that show every emote, in the order of their places, and the text around them: with the names
  of the emotes put in, the elements spell the text without its spaces.\<close>

theorem words_show_the_text:
  assumes "list_all (placed content) emotes" "sorted_wrt disjoint_emotes emotes"
  shows "\<exists>els. addContent content emotes = Some els \<and> shownEmotes els = map oc_ptr (sort_key oc_start emotes)
    \<and> shownText (map oc_name (sort_key oc_start emotes)) els = filter (\<lambda>c. c \<noteq> 32) content"
proof -
  let ?es = "sort_key oc_start emotes"
  have names: "list_all (\<lambda>a. oc_name a \<noteq> []) emotes" "list_all (\<lambda>a. oc_name a \<noteq> []) ?es"
    using assms(1) by (simp_all add: list_all_iff placed_def)
  note sorted = sorted_sort_apart[OF assms(2) names(1)]
  have "ready content (length []) ?es" using assms(1) sorted by (auto simp: ready_def list_all_iff placed_def)
  from wordsLoop_shows[OF _ _ _ this, of "splitOn 32 content" "[]"]
  show ?thesis
    by (simp add: addContent_def sortEmotes_def uniqueStarts_apart[OF sorted names(2)] addWords_def concat_splitOn
        list_all_iff splitOn_parts)
qed

definition sampleText :: qstr where
  "sampleText = utf16 ''a KappaX  Kappa''"

definition sampleEmotes :: "nat emote_occurrence list" where
  "sampleEmotes = [\<lparr>oc_start = 10, oc_end = 14, oc_ptr = Some 1, oc_name = utf16 ''Kappa''\<rparr>,
     \<lparr>oc_start = 2, oc_end = 7, oc_ptr = Some 0, oc_name = utf16 ''Kappa''\<rparr>]"

theorem words_show_the_text_witness:
  "\<exists>els. addContent sampleText sampleEmotes = Some els \<and> shownEmotes els = map oc_ptr (sort_key oc_start sampleEmotes)
    \<and> shownText (map oc_name (sort_key oc_start sampleEmotes)) els = filter (\<lambda>c. c \<noteq> 32) sampleText"
proof (rule words_show_the_text)
  show "list_all (placed sampleText) sampleEmotes" "sorted_wrt disjoint_emotes sampleEmotes" by code_simp+
qed

text \<open>The loop over the words returns for all emotes that do not end before they start, wherever they are
  and however they overlap.\<close>

theorem words_loop_returns:
  assumes "list_all (\<lambda>e. oc_start e \<le> oc_end e) emotes"
  shows "addWords ws emotes \<noteq> None"
proof -
  have "wordsLoop ws cursor es els \<noteq> None" if "list_all (\<lambda>e. oc_start e \<le> oc_end e) es" for ws cursor es els
    using that
  proof (induction ws arbitrary: cursor es els)
    case (Cons w ws)
    from emoteLoop_returns[OF Cons.prems, of cursor w els] Cons.IH Cons.prems show ?case by fastforce
  qed simp
  with assms show ?thesis by (simp add: addWords_def)
qed

theorem words_loop_returns_witness: "addWords (splitOn 32 sampleText) sampleEmotes \<noteq> None"
  by (rule words_loop_returns) code_simp

end
