(* ===== verification/IgnorePhrases.thy ===== *)
theory IgnorePhrases
  imports MessageWords SettingsTables
begin

text \<open>
  Ignored phrases: \<open>IgnorePhrase.cpp\<close> and \<open>IgnoreController.cpp\<close> of \<open>src/controllers/ignores\<close>.

  A phrase either blocks a message or replaces its matches in the text, and then the places of the emotes
  have to follow.  What Qt's regular expressions and its case folding do, the value of a digit, and the emotes
  of the account are the argument \<open>ignore_env\<close>; a match is the list of its captured groups as start and
  length.  \<open>std::partition\<close> does not fix an order; the emotes in range are kept in their order here.
  The loop over the literal matches is a \<open>partial_function\<close> that is proved to return; the loop over
  the matches of a regular expression has the bound of 128 of the source.

  The lemmas show that literal phrases replace all their matches from left to right, phrase after phrase, and that
  emotes outside the matches stay on their words; two examples show where the code loses emotes and matches.
\<close>

section \<open>Phrases\<close>

record 'e ignore_env =
  ie_fold :: "16 word \<Rightarrow> 16 word"
  ie_regexValid :: "ignore_phrase \<Rightarrow> bool"
  ie_captureCount :: "ignore_phrase \<Rightarrow> nat"
  ie_regexFind :: "ignore_phrase \<Rightarrow> qstr \<Rightarrow> nat \<Rightarrow> (nat \<times> nat) option list option"
  ie_digitValue :: "16 word \<Rightarrow> int"
  ie_wordFind :: "qstr \<Rightarrow> qstr \<Rightarrow> (nat \<times> nat) option"
  ie_emotes :: "(qstr \<times> 'e option) list"

text \<open>\<open>QString::indexOf\<close> of a text, from a position.\<close>

fun findAt :: "(16 word \<Rightarrow> 16 word) \<Rightarrow> qstr \<Rightarrow> qstr \<Rightarrow> nat option" where
  "findAt f p [] = (if p = [] then Some 0 else None)"
| "findAt f p (c # cs) =
     (if map f (take (length p) (c # cs)) = map f p then Some 0 else map_option Suc (findAt f p cs))"

definition findFrom :: "(16 word \<Rightarrow> 16 word) \<Rightarrow> qstr \<Rightarrow> qstr \<Rightarrow> nat \<Rightarrow> nat option" where
  "findFrom f p s from_pos =
     (if from_pos > length s then None else map_option (\<lambda>k. from_pos + k) (findAt f p (drop from_pos s)))"

definition caseFold :: "'e ignore_env \<Rightarrow> ignore_phrase \<Rightarrow> 16 word \<Rightarrow> 16 word" where
  "caseFold env phrase = (if ip_isCaseSensitive phrase then (\<lambda>c. c) else ie_fold env)"

definition regexFindFrom :: "'e ignore_env \<Rightarrow> ignore_phrase \<Rightarrow> qstr \<Rightarrow> nat \<Rightarrow> (nat \<times> nat) option list option" where
  "regexFindFrom env phrase s from_pos = (if from_pos > length s then None else ie_regexFind env phrase s from_pos)"

definition ip_isMatch :: "'e ignore_env \<Rightarrow> ignore_phrase \<Rightarrow> qstr \<Rightarrow> bool" where
  "ip_isMatch env phrase subject \<longleftrightarrow> ip_pattern phrase \<noteq> [] \<and>
     (if ip_isRegex phrase then ie_regexValid env phrase \<and> regexFindFrom env phrase subject 0 \<noteq> None
      else findFrom (caseFold env phrase) (utf16 (ip_pattern phrase)) subject 0 \<noteq> None)"

text \<open>The emotes of the account that the replacement contains.\<close>

definition getEmotes :: "'e ignore_env \<Rightarrow> ignore_phrase \<Rightarrow> (qstr \<times> 'e option) list" where
  "getEmotes env phrase = filter (\<lambda>(n, _). findFrom (\<lambda>c. c) n (utf16 (ip_replace phrase)) 0 \<noteq> None) (ie_emotes env)"

definition containsEmote :: "'e ignore_env \<Rightarrow> ignore_phrase \<Rightarrow> bool" where
  "containsEmote env phrase \<longleftrightarrow> getEmotes env phrase \<noteq> []"

definition createEmpty :: ignore_phrase where
  "createEmpty = \<lparr>ip_pattern = [], ip_isRegex = False, ip_isBlock = False, ip_replace = ''***'', ip_isCaseSensitive = True\<rparr>"

section \<open>Ignored messages\<close>

datatype show_ignored = Never | IfModerator | IfBroadcaster

record ignored_parameters =
  ig_message :: qstr
  ig_twitchUserID :: string
  ig_twitchUserLogin :: string
  ig_isMod :: bool
  ig_isBroadcaster :: bool

record ignore_settings =
  is_enableTwitchBlockedUsers :: bool
  is_showBlockedUsersMessages :: show_ignored
  is_blockedUserIds :: "string list"
  is_blockedUserLogins :: "string list"

fun ignoredLoop :: "'e ignore_env \<Rightarrow> ignore_phrase list \<Rightarrow> qstr \<Rightarrow> bool" where
  "ignoredLoop env [] message = False"
| "ignoredLoop env (phrase # rest) message =
     (if ip_isBlock phrase \<and> ip_isMatch env phrase message then True else ignoredLoop env rest message)"

definition isIgnoredMessage :: "'e ignore_env \<Rightarrow> ignore_settings \<Rightarrow> ignore_phrase list \<Rightarrow> ignored_parameters \<Rightarrow> bool" where
  "isIgnoredMessage env s phrases params =
     (if ig_message params \<noteq> [] \<and> ignoredLoop env phrases (ig_message params) then True
      else if is_enableTwitchBlockedUsers s then
        (let isBlocked = (if ig_twitchUserID params \<noteq> [] then ig_twitchUserID params \<in> set (is_blockedUserIds s)
                          else if ig_twitchUserLogin params \<noteq> [] then ig_twitchUserLogin params \<in> set (is_blockedUserLogins s)
                          else False)
         in if isBlocked then
              (case is_showBlockedUsersMessages s of
                 IfModerator \<Rightarrow> \<not> (ig_isMod params \<or> ig_isBroadcaster params)
               | IfBroadcaster \<Rightarrow> \<not> ig_isBroadcaster params
               | Never \<Rightarrow> True)
            else False)
      else False)"

section \<open>The replacement of one match\<close>

text \<open>\<open>makeRegexReplacement\<close>: the references to groups in the replacement, with position, length and number.\<close>

definition backReference :: "'e ignore_env \<Rightarrow> nat \<Rightarrow> qstr \<Rightarrow> nat \<Rightarrow> (nat \<times> nat \<times> nat) option" where
  "backReference env numCaptures replacement i =
     (if replacement ! i \<noteq> 0x5C then None
      else let no = ie_digitValue env (replacement ! (i + 1))
      in if no \<le> 0 \<or> no > int numCaptures then None
      else if i + 2 < length replacement then
        (let secondDigit = ie_digitValue env (replacement ! (i + 2))
         in if secondDigit \<noteq> - 1 \<and> no * 10 + secondDigit \<le> int numCaptures
            then Some (i, 3, nat (no * 10 + secondDigit)) else Some (i, 2, nat no))
      else Some (i, 2, nat no))"

definition captured :: "qstr \<Rightarrow> (nat \<times> nat) option list \<Rightarrow> nat \<Rightarrow> qstr" where
  "captured source groups no =
     (if no < length groups then (case groups ! no of None \<Rightarrow> [] | Some (s, n) \<Rightarrow> take n (drop s source)) else [])"

fun replacementChunks :: "(nat \<Rightarrow> qstr) \<Rightarrow> qstr \<Rightarrow> (nat \<times> nat \<times> nat) list \<Rightarrow> nat \<Rightarrow> qstr" where
  "replacementChunks cap replacement [] lastEnd = drop lastEnd replacement"
| "replacementChunks cap replacement ((pos, len, no) # refs) lastEnd =
     take (pos - lastEnd) (drop lastEnd replacement) @ cap no @ replacementChunks cap replacement refs (pos + len)"

definition makeRegexReplacement ::
  "'e ignore_env \<Rightarrow> qstr \<Rightarrow> nat \<Rightarrow> (nat \<times> nat) option list \<Rightarrow> qstr \<Rightarrow> qstr" where
  "makeRegexReplacement env source numCaptures groups replacement =
     replacementChunks (captured source groups) replacement
       (List.map_filter (backReference env numCaptures replacement) [0..<length replacement - 1]) 0"

text \<open>The emotes around a replacement.\<close>

definition inRange :: "nat \<Rightarrow> nat \<Rightarrow> 'e emote_occurrence \<Rightarrow> bool" where
  "inRange pos len e \<longleftrightarrow> oc_start e \<ge> int pos \<and> oc_start e < int (pos + len)"

definition shiftIndicesAfter :: "int \<Rightarrow> int \<Rightarrow> 'e emote_occurrence list \<Rightarrow> 'e emote_occurrence list" where
  "shiftIndicesAfter pos by_n emotes =
     map (\<lambda>e. if oc_start e \<ge> pos then e\<lparr>oc_start := oc_start e + by_n, oc_end := oc_end e + by_n\<rparr> else e) emotes"

fun replEmotes :: "(qstr \<times> 'e option) list \<Rightarrow> nat \<Rightarrow> nat \<Rightarrow> qstr list \<Rightarrow> 'e emote_occurrence list" where
  "replEmotes es startIndex pos [] = []"
| "replEmotes es startIndex pos (word # ws) =
     map (\<lambda>(n, p). \<lparr>oc_start = int (startIndex + pos), oc_end = int (startIndex + pos + length n), oc_ptr = p, oc_name = n\<rparr>)
       (filter (\<lambda>(n, p). word = n) es)
     @ replEmotes es startIndex (pos + length word + 1) ws"

definition addReplEmotes :: "'e ignore_env \<Rightarrow> ignore_phrase \<Rightarrow> qstr \<Rightarrow> nat \<Rightarrow> 'e emote_occurrence list" where
  "addReplEmotes env phrase midrepl startIndex =
     (if \<not> containsEmote env phrase then [] else replEmotes (getEmotes env phrase) startIndex 0 (splitOn 32 midrepl))"

fun wordStartLoop :: "qstr \<Rightarrow> nat \<Rightarrow> nat" where
  "wordStartLoop content 0 = 0"
| "wordStartLoop content (Suc w) = (if content ! w = 32 then Suc w else wordStartLoop content w)"

function wordEndLoop :: "qstr \<Rightarrow> nat \<Rightarrow> nat" where
  "wordEndLoop content w =
     (if w < length content then (if content ! w = 32 then w else wordEndLoop content (w + 1)) else w)"
  by pat_completeness auto

termination
  by (relation "measure (\<lambda>(content, w). length content - w)") auto

declare wordEndLoop.simps [simp del]

definition foundAgain :: "'e ignore_env \<Rightarrow> nat \<Rightarrow> qstr \<Rightarrow> 'e emote_occurrence list \<Rightarrow> 'e emote_occurrence list" where
  "foundAgain env from_pos midExtended removed = List.map_filter (\<lambda>e.
     if oc_ptr e = None then None
     else (case ie_wordFind env (oc_name e) midExtended of
             None \<Rightarrow> None
           | Some (s, t) \<Rightarrow> Some (e\<lparr>oc_start := int (from_pos + s), oc_end := int (from_pos + t)\<rparr>))) removed"

type_synonym 'e ignore_state = "qstr \<times> 'e emote_occurrence list"

definition replaceMessageAt_phrase ::
  "'e ignore_env \<Rightarrow> ignore_phrase \<Rightarrow> nat \<Rightarrow> nat \<Rightarrow> qstr \<Rightarrow> 'e ignore_state \<Rightarrow> 'e ignore_state" where
  "replaceMessageAt_phrase env phrase from_pos len replacement st =
     (let (content0, emotes0) = st;
          removedEmotes = filter (inRange from_pos len) emotes0;
          emotes1 = filter (\<lambda>e. \<not> inRange from_pos len e) emotes0;
          content = take from_pos content0 @ replacement @ drop (from_pos + len) content0;
          wordStart = wordStartLoop content from_pos;
          wordEnd = wordEndLoop content (from_pos + length replacement);
          emotes2 = shiftIndicesAfter (int (from_pos + len)) (int (length replacement) - int len) emotes1;
          midExtended = take (wordEnd - wordStart) (drop wordStart content)
      in (content, emotes2 @ foundAgain env from_pos midExtended removedEmotes
            @ addReplEmotes env phrase midExtended wordStart))"

section \<open>All phrases\<close>

partial_function (option) literalLoop ::
  "'e ignore_env \<Rightarrow> ignore_phrase \<Rightarrow> nat \<Rightarrow> 'e ignore_state \<Rightarrow> 'e ignore_state option" where
  "literalLoop env phrase from_pos st =
     (case findFrom (caseFold env phrase) (utf16 (ip_pattern phrase)) (fst st) from_pos of
        None \<Rightarrow> Some st
      | Some k \<Rightarrow> literalLoop env phrase (k + length (ip_replace phrase))
          (replaceMessageAt_phrase env phrase k (length (ip_pattern phrase)) (utf16 (ip_replace phrase)) st))"

declare literalLoop.simps [code]

text \<open>\<open>Inl\<close>: too many replacements, the function returns.\<close>

definition tooMany :: qstr where
  "tooMany = utf16 ''Too many replacements - check your ignores!''"

fun regexLoop ::
  "'e ignore_env \<Rightarrow> ignore_phrase \<Rightarrow> nat \<Rightarrow> nat \<Rightarrow> 'e ignore_state \<Rightarrow> 'e ignore_state + 'e ignore_state" where
  "regexLoop env phrase 0 from_pos st = Inr st"
| "regexLoop env phrase (Suc left) from_pos st =
     (case regexFindFrom env phrase (fst st) from_pos of
        Some (Some (k, len) # groups) \<Rightarrow>
          (let replacement = (if ie_captureCount env phrase > 0
                 then makeRegexReplacement env (fst st) (ie_captureCount env phrase) (Some (k, len) # groups) (utf16 (ip_replace phrase))
                 else utf16 (ip_replace phrase));
               st1 = replaceMessageAt_phrase env phrase k len replacement st
           in if left = 0 then Inl (tooMany, snd st1)
              else regexLoop env phrase left (k + length (ip_replace phrase)) st1)
      | _ \<Rightarrow> Inr st)"

fun processIgnorePhrases ::
  "'e ignore_env \<Rightarrow> ignore_phrase list \<Rightarrow> 'e ignore_state \<Rightarrow> 'e ignore_state option" where
  "processIgnorePhrases env [] st = Some st"
| "processIgnorePhrases env (phrase # rest) st =
     (if ip_isBlock phrase then processIgnorePhrases env rest st
      else if ip_pattern phrase = [] then processIgnorePhrases env rest st
      else if ip_isRegex phrase then
        (if \<not> ie_regexValid env phrase then processIgnorePhrases env rest st
         else (case regexLoop env phrase 128 0 st of
                 Inl st1 \<Rightarrow> Some st1
               | Inr st1 \<Rightarrow> processIgnorePhrases env rest st1))
      else (case literalLoop env phrase 0 st of
              None \<Rightarrow> None
            | Some st1 \<Rightarrow> processIgnorePhrases env rest st1))"


section \<open>What replacing the matches of a text gives\<close>

text \<open>The reference: from left to right, every match is replaced and not looked at again, and there is no
  position and no search.\<close>

function replaceEach :: "(16 word \<Rightarrow> 16 word) \<Rightarrow> qstr \<Rightarrow> qstr \<Rightarrow> qstr \<Rightarrow> qstr" where
  "replaceEach f p r [] = []"
| "replaceEach f p r (c # cs) =
     (if p \<noteq> [] \<and> map f (take (length p) (c # cs)) = map f p
      then r @ replaceEach f p r (drop (length p) (c # cs))
      else c # replaceEach f p r cs)"
  by pat_completeness auto

termination
  by (relation "measure (\<lambda>(f, p, r, s). length s)") auto

declare replaceEach.simps(2) [simp del]

lemma length_utf16 [simp]: "length (utf16 s) = length s"
  by (simp add: utf16_def)

lemma utf16_eq_Nil [simp]: "utf16 s = [] \<longleftrightarrow> s = []"
  by (simp add: utf16_def)

lemma fold_match_length: "map f (take n s) = map f p \<Longrightarrow> n = length p \<Longrightarrow> length p \<le> length s"
  by (metis length_map length_take min.cobounded1 min.commute)

lemma findAt_None: "p \<noteq> [] \<Longrightarrow> findAt f p s = None \<Longrightarrow> replaceEach f p r s = s"
  by (induction s) (auto simp: replaceEach.simps(2) split: if_splits)

lemma findAt_Some:
  "p \<noteq> [] \<Longrightarrow> findAt f p s = Some k \<Longrightarrow>
   k + length p \<le> length s \<and> replaceEach f p r s = take k s @ r @ replaceEach f p r (drop (k + length p) s)"
proof (induction s arbitrary: k)
  case (Cons c cs)
  show ?case
  proof (cases "map f (take (length p) (c # cs)) = map f p")
    case True
    with Cons.prems fold_match_length[OF True refl] show ?thesis by (simp add: replaceEach.simps(2))
  next
    case False
    with Cons obtain j where "k = Suc j" "findAt f p cs = Some j" by auto
    with Cons False show ?thesis by (simp add: replaceEach.simps(2))
  qed
qed simp

lemma replaced_text:
  "fst (replaceMessageAt_phrase env phrase k n r (content, es)) = take k content @ r @ drop (k + n) content"
  by (simp add: replaceMessageAt_phrase_def Let_def)

lemma literalLoop_replaces:
  "ip_pattern phrase \<noteq> [] \<Longrightarrow> from_pos \<le> length content \<Longrightarrow>
   \<exists>es'. literalLoop env phrase from_pos (content, es) = Some (take from_pos content
     @ replaceEach (caseFold env phrase) (utf16 (ip_pattern phrase)) (utf16 (ip_replace phrase)) (drop from_pos content), es')"
proof (induction "length content - from_pos" arbitrary: content from_pos es rule: less_induct)
  case less
  let ?f = "caseFold env phrase" and ?p = "utf16 (ip_pattern phrase)" and ?r = "utf16 (ip_replace phrase)"
  show ?case
  proof (cases "findAt ?f ?p (drop from_pos content)")
    case None
    with less.prems findAt_None[OF _ None, of ?r] show ?thesis
      by (subst literalLoop.simps) (simp add: findFrom_def)
  next
    case (Some k)
    note found = findAt_Some[OF _ Some, of ?r]
    have fits: "from_pos + (k + length (ip_pattern phrase)) \<le> length content"
      using found less.prems by (simp add: le_diff_conv2 add.commute)
    let ?content = "take (from_pos + k) content @ ?r @ drop (from_pos + k + length (ip_pattern phrase)) content"
    define es1 where "es1 = snd (replaceMessageAt_phrase env phrase (from_pos + k) (length (ip_pattern phrase)) ?r (content, es))"
    have "replaceMessageAt_phrase env phrase (from_pos + k) (length (ip_pattern phrase)) ?r (content, es) = (?content, es1)"
      by (rule prod_eqI) (simp_all add: replaced_text es1_def)
    then have step: "literalLoop env phrase from_pos (content, es)
        = literalLoop env phrase (from_pos + k + length (ip_replace phrase)) (?content, es1)"
      using less.prems Some by (subst literalLoop.simps) (simp add: findFrom_def)
    obtain n where "length (ip_pattern phrase) = Suc n" using less.prems(1) by (cases "ip_pattern phrase") auto
    with fits have "length ?content - (from_pos + k + length (ip_replace phrase)) < length content - from_pos"
      "from_pos + k + length (ip_replace phrase) \<le> length ?content"
      by auto
    from less.hyps[OF this(1) less.prems(1) this(2), of es1] step obtain es' where
      "literalLoop env phrase from_pos (content, es) = Some (take (from_pos + k) content @ ?r
         @ replaceEach ?f ?p ?r (drop (from_pos + k + length (ip_pattern phrase)) content), es')"
      using fits by auto
    with found less.prems show ?thesis
      by (simp add: take_add ac_simps)
  qed
qed

definition applied :: "ignore_phrase \<Rightarrow> bool" where
  "applied phrase \<longleftrightarrow> \<not> ip_isBlock phrase \<and> ip_pattern phrase \<noteq> []"

definition replacedBy :: "'e ignore_env \<Rightarrow> qstr \<Rightarrow> ignore_phrase \<Rightarrow> qstr" where
  "replacedBy env content phrase =
     replaceEach (caseFold env phrase) (utf16 (ip_pattern phrase)) (utf16 (ip_replace phrase)) content"

text \<open>Replacing ignored phrases returns for every message and all phrases, also when a replacement contains its
  pattern; the search always goes on after the replacement.\<close>

theorem ignore_phrases_return: "\<exists>content' es'. processIgnorePhrases env phrases (content, es) = Some (content', es')"
proof (induction phrases arbitrary: content es)
  case (Cons phrase rest)
  show ?case
  proof (cases "ip_pattern phrase = []")
    case False
    with literalLoop_replaces[OF False, of 0 content env es] Cons show ?thesis
      by (auto split: sum.split)
  qed (simp add: Cons)
qed simp

text \<open>C14. Ignored phrases that are not regular expressions replace in the order of the list, each all its matches in the
  text that the phrases before it left, as replacing from left to right does; phrases that block messages and
  phrases without a pattern are passed over.\<close>

theorem literal_phrases_replace_all:
  "list_all (\<lambda>phrase. \<not> ip_isRegex phrase) phrases \<Longrightarrow>
   map_option fst (processIgnorePhrases env phrases (content, es))
     = Some (foldl (replacedBy env) content (filter applied phrases))"
proof (induction phrases arbitrary: content es)
  case (Cons phrase rest)
  show ?case
  proof (cases "applied phrase")
    case True
    then have "ip_pattern phrase \<noteq> []" by (simp add: applied_def)
    from literalLoop_replaces[OF this, of 0 content env es] True Cons show ?thesis
      by (auto simp: applied_def replacedBy_def)
  qed (use Cons in \<open>auto simp: applied_def\<close>)
qed simp


text \<open>Two phrases: the first one blocks, the second one's replacement contains its pattern.\<close>

definition sampleEnv :: "string ignore_env" where
  "sampleEnv = \<lparr>ie_fold = (\<lambda>c. c), ie_regexValid = (\<lambda>_. True), ie_captureCount = (\<lambda>_. 1),
     ie_regexFind = (\<lambda>_ s k. map_option (\<lambda>i. [Some (k + i, 1), Some (k + i, 1)]) (findAt (\<lambda>c. c) (utf16 ''a'') (drop k s))),
     ie_digitValue = (\<lambda>c. if 0x30 \<le> c \<and> c \<le> 0x39 then uint c - 0x30 else - 1),
     ie_wordFind = (\<lambda>n s. map_option (\<lambda>i. (i, i + length n)) (findAt (\<lambda>c. c) n s)), ie_emotes = []\<rparr>"

definition literalPhrase :: "string \<Rightarrow> string \<Rightarrow> ignore_phrase" where
  "literalPhrase p r = \<lparr>ip_pattern = p, ip_isRegex = False, ip_isBlock = False, ip_replace = r, ip_isCaseSensitive = True\<rparr>"

theorem literal_phrases_replace_all_witness:
  "map_option fst (processIgnorePhrases sampleEnv [createEmpty, literalPhrase ''b'' ''abba''] (utf16 ''a b bb'', []))
     = Some (utf16 ''a abba abbaabba'')"
  by (subst literal_phrases_replace_all) code_simp+

section \<open>Emotes stay on their words\<close>

definition clear_of :: "nat \<Rightarrow> nat \<Rightarrow> 'e emote_occurrence \<Rightarrow> bool" where
  "clear_of pos n e \<longleftrightarrow> oc_start e + int (length (oc_name e)) \<le> int pos \<or> int (pos + n) \<le> oc_start e"

lemma wordStartLoop_le: "wordStartLoop content w \<le> w"
  by (induction w) auto

lemma replEmotes_placed:
  "list_all (\<lambda>(n, _). n \<noteq> []) es \<Longrightarrow> list_all (\<lambda>w. 32 \<notin> set w) ws \<Longrightarrow>
   joinOn 32 ws = take m (drop (start + pos) content) \<Longrightarrow> list_all (placed content) (replEmotes es start pos ws)"
proof (induction ws arbitrary: pos m)
  case (Cons w ws)
  have cut: "\<exists>rest. take m (drop (start + pos) content) = w @ rest \<and> (ws \<noteq> [] \<longrightarrow> rest = 32 # joinOn 32 ws)"
    using Cons.prems(3) by (cases ws) (auto simp: joinOn_Cons)
  then obtain rest where rest: "take m (drop (start + pos) content) = w @ rest" "ws \<noteq> [] \<longrightarrow> rest = 32 # joinOn 32 ws"
    by blast
  have at: "take (length w) (drop (start + pos) content) = w"
  proof -
    have "w = take (length w) (take m (drop (start + pos) content))" using rest(1) by simp
    also have "\<dots> = take (min (length w) m) (drop (start + pos) content)" by simp
    also have "min (length w) m = length w"
      using arg_cong[OF rest(1), of length] by simp
    finally show ?thesis by simp
  qed
  have here: "list_all (placed content)
      (map (\<lambda>(n, p). \<lparr>oc_start = int (start + pos), oc_end = int (start + pos + length n), oc_ptr = p, oc_name = n\<rparr>)
        (filter (\<lambda>(n, p). w = n) es))"
    using Cons.prems(1,2) at by (auto simp: list_all_iff placed_def nat_int_add)
  show ?case
  proof (cases "ws = []")
    case False
    with rest have "joinOn 32 ws = drop (Suc (length w)) (take m (drop (start + pos) content))" by simp
    also have "\<dots> = take (m - Suc (length w)) (drop (start + (pos + length w + 1)) content)"
      by (simp add: drop_take add.commute add.left_commute)
    finally show ?thesis using Cons.IH[OF Cons.prems(1), of _ "pos + length w + 1"] Cons.prems(2) here by simp
  qed (use here in simp)
qed simp

lemma addReplEmotes_placed:
  assumes "list_all (\<lambda>(n, _). n \<noteq> []) (ie_emotes env)"
  shows "list_all (placed content) (addReplEmotes env phrase (take m (drop start content)) start)"
proof -
  have "list_all (\<lambda>(n, _). n \<noteq> []) (getEmotes env phrase)"
    using assms by (auto simp: getEmotes_def list_all_iff)
  moreover have "list_all (\<lambda>w. 32 \<notin> set w) (splitOn 32 (take m (drop start content)))"
    by (auto simp: list_all_iff dest: splitOn_parts)
  ultimately show ?thesis
    by (simp add: addReplEmotes_def replEmotes_placed[of _ _ m start 0])
qed

lemma shifted_placed:
  assumes "placed content e" "clear_of k n e" "k + n \<le> length content"
  shows "list_all (placed (take k content @ r @ drop (k + n) content))
    (shiftIndicesAfter (int (k + n)) (int (length r) - int n) [e])"
proof -
  define s where "s = nat (oc_start e)"
  let ?len = "length (oc_name e)"
  have s: "oc_start e = int s" "take ?len (drop s content) = oc_name e" "0 < ?len"
    using assms(1) by (simp_all add: placed_def s_def)
  from assms(2) s(1) consider "s + ?len \<le> k" | "k + n \<le> s" by (auto simp: clear_of_def)
  then show ?thesis
  proof cases
    case 1
    then have "take ?len (drop s (take k content @ r @ drop (k + n) content)) = take ?len (drop s content)"
      using assms(3) by (simp add: drop_take min_absorb1 min_absorb2)
    with s(2) assms(1) have "placed (take k content @ r @ drop (k + n) content) e" by (simp add: placed_def s(1))
    moreover have "\<not> int (k + n) \<le> oc_start e" using 1 s(1,3) by linarith
    ultimately show ?thesis by (simp add: shiftIndicesAfter_def)
  next
    case 2
    then have nat: "nat (int s + (int (length r) - int n)) = length r + (s - n)" by auto
    have "drop (length r + (s - n)) (take k content @ r @ drop (k + n) content) = drop s content"
      using 2 assms(3) by simp
    with 2 s assms(1) nat show ?thesis by (auto simp: shiftIndicesAfter_def placed_def)
  qed
qed

lemma clear_not_inRange: "placed content e \<Longrightarrow> clear_of k n e \<Longrightarrow> \<not> inRange k n e"
  by (cases "oc_name e") (auto simp: placed_def clear_of_def inRange_def)

lemma list_all_shift: "list_all P (shiftIndicesAfter p b es) \<longleftrightarrow> list_all (\<lambda>e. list_all P (shiftIndicesAfter p b [e])) es"
  by (induction es) (simp_all add: shiftIndicesAfter_def)

text \<open>C31. When a match is replaced that no emote overlaps, all emotes stay in the list in their order, every one of them still
  has its name at its place in the new text, and so have the emotes that the replacement adds.\<close>

theorem replacement_keeps_emotes:
  assumes "k + n \<le> length content" "list_all (placed content) es" "list_all (clear_of k n) es"
    "list_all (\<lambda>(name, _). name \<noteq> []) (ie_emotes env)"
  shows "case replaceMessageAt_phrase env phrase k n r (content, es) of
    (content', es') \<Rightarrow> list_all (placed content') es' \<and> map oc_name (take (length es) es') = map oc_name es"
proof -
  let ?new = "take k content @ r @ drop (k + n) content"
  let ?shift = "shiftIndicesAfter (int (k + n)) (int (length r) - int n)"
  have none: "filter (inRange k n) es = []" "filter (\<lambda>e. \<not> inRange k n e) es = es"
    using assms(2,3) clear_not_inRange by (fastforce simp: filter_empty_conv filter_id_conv list_all_iff)+
  have old: "list_all (placed ?new) (?shift es)"
    using assms(2,3) shifted_placed[OF _ _ assms(1), of _ r]
    unfolding list_all_shift[of _ _ _ es] list_all_iff[of _ es] by blast
  have names: "map oc_name (take (length es) (?shift es @ xs)) = map oc_name es" for xs
    by (simp add: shiftIndicesAfter_def)
  show ?thesis
    unfolding replaceMessageAt_phrase_def Let_def none foundAgain_def prod.case map_filter_simps append_Nil
    by (intro conjI names) (simp only: list_all_append old addReplEmotes_placed[OF assms(4)] simp_thms)
qed

text \<open>An account emote in the replacement, and an emote behind the match.\<close>

definition sampleOccurrence :: "string \<Rightarrow> int \<Rightarrow> int \<Rightarrow> string emote_occurrence" where
  "sampleOccurrence n a b = \<lparr>oc_start = a, oc_end = b, oc_ptr = Some n, oc_name = utf16 n\<rparr>"

theorem replacement_keeps_emotes_witness:
  "replaceMessageAt_phrase (sampleEnv\<lparr>ie_emotes := [(utf16 ''Pog'', Some ''Pog'')]\<rparr>) (literalPhrase ''u'' ''Pog'') 0 1 (utf16 ''Pog'')
       (utf16 ''u Kappa'', [sampleOccurrence ''Kappa'' 2 6])
     = (utf16 ''Pog Kappa'', [sampleOccurrence ''Kappa'' 4 8, sampleOccurrence ''Pog'' 0 3]) \<and>
   list_all (placed (utf16 ''Pog Kappa'')) [sampleOccurrence ''Kappa'' 4 8, sampleOccurrence ''Pog'' 0 3]"
proof -
  let ?env = "sampleEnv\<lparr>ie_emotes := [(utf16 ''Pog'', Some ''Pog'')]\<rparr>"
  have run: "replaceMessageAt_phrase ?env (literalPhrase ''u'' ''Pog'') 0 1 (utf16 ''Pog'')
       (utf16 ''u Kappa'', [sampleOccurrence ''Kappa'' 2 6])
     = (utf16 ''Pog Kappa'', [sampleOccurrence ''Kappa'' 4 8, sampleOccurrence ''Pog'' 0 3])" by code_simp
  have "0 + 1 \<le> length (utf16 ''u Kappa'')" "list_all (placed (utf16 ''u Kappa'')) [sampleOccurrence ''Kappa'' 2 6]"
    "list_all (clear_of 0 1) [sampleOccurrence ''Kappa'' 2 6]" "list_all (\<lambda>(name, _). name \<noteq> []) (ie_emotes ?env)"
    by code_simp+
  from replacement_keeps_emotes[OF this, of "literalPhrase ''u'' ''Pog''" "utf16 ''Pog''"]
  show ?thesis unfolding run by simp
qed


section \<open>Where it goes wrong\<close>

text \<open>An emote in the match that the replacement still contains is put back at the start of the match plus its place in the
  whole word around the match: when the match starts inside a word the emote ends up behind its word, and the
  message shows its name as text instead; with a match at the start of the word it is shown.\<close>

theorem emote_found_again_is_misplaced:
  "processIgnorePhrases sampleEnv [literalPhrase ''b Kappa'' ''c Kappa''] (utf16 ''ab Kappa'', [sampleOccurrence ''Kappa'' 3 7])
     = Some (utf16 ''ac Kappa'', [sampleOccurrence ''Kappa'' 4 9]) \<and>
   map_option shownEmotes (addContent (utf16 ''ac Kappa'') [sampleOccurrence ''Kappa'' 4 9]) = Some [] \<and>
   processIgnorePhrases sampleEnv [literalPhrase ''b Kappa'' ''c Kappa''] (utf16 ''b Kappa'', [sampleOccurrence ''Kappa'' 2 6])
     = Some (utf16 ''c Kappa'', [sampleOccurrence ''Kappa'' 2 7]) \<and>
   map_option shownEmotes (addContent (utf16 ''c Kappa'') [sampleOccurrence ''Kappa'' 2 7]) = Some [Some ''Kappa'']"
proof (intro conjI)
  have words: "splitOn 32 (utf16 ''ac Kappa'') = [utf16 ''ac'', utf16 ''Kappa'']"
    "splitOn 32 (utf16 ''c Kappa'') = [utf16 ''c'', utf16 ''Kappa'']" by code_simp+
  have single: "sortEmotes [e] = [e]" for e :: "string emote_occurrence" by (simp add: sortEmotes_def)
  show "map_option shownEmotes (addContent (utf16 ''ac Kappa'') [sampleOccurrence ''Kappa'' 4 9]) = Some []"
    unfolding addContent_def words single
    by (simp add: addWords_def emoteLoop.simps doesWordContainATwitchEmote_def sampleOccurrence_def Let_def)
  show "map_option shownEmotes (addContent (utf16 ''c Kappa'') [sampleOccurrence ''Kappa'' 2 7]) = Some [Some ''Kappa'']"
    unfolding addContent_def words single
    by (simp add: addWords_def emoteLoop.simps doesWordContainATwitchEmote_def sampleOccurrence_def Let_def)
qed code_simp+

definition regexPhrase :: "string \<Rightarrow> string \<Rightarrow> ignore_phrase" where
  "regexPhrase p r = \<lparr>ip_pattern = p, ip_isRegex = True, ip_isBlock = False, ip_replace = r, ip_isCaseSensitive = True\<rparr>"

text \<open>After a match of a regular expression the search goes on at the start of the match plus the length of the replacement
  before its references to groups were filled in: with a replacement whose references are longer than what they
  stand for, the next match is skipped.\<close>

theorem regex_skips_a_match:
  "processIgnorePhrases sampleEnv [regexPhrase ''(a)'' (CHR ''<'' # CHR 0x5C # ''1>'')] (utf16 ''aa'', []) = Some (utf16 ''<a>a'', []) \<and>
   makeRegexReplacement sampleEnv (utf16 ''aa'') 1 [Some (1, 1), Some (1, 1)] (utf16 (CHR ''<'' # CHR 0x5C # ''1>'')) = utf16 ''<a>''"
  by code_simp

end
