(* ===== verification/Highlights.thy ===== *)
theory Highlights
  imports HighlightTable TwitchTags Messages
begin

text \<open>
  Highlights: \<open>HighlightController.cpp\<close>, \<open>HighlightResult.cpp\<close>, \<open>HighlightPhrase.cpp\<close>,
  \<open>HighlightBadge.cpp\<close> and \<open>HighlightBlacklistUser.hpp\<close> of \<open>src/controllers/highlights\<close>, the lists of
  users and muted channels in \<open>src/singletons/Settings.cpp\<close>, nicknames, and how \<open>MessageBuilder\<close> and the message
  handler act on a highlight.

  A check is a function, as the callback of the source is; the controller rebuilds the list of checks from the
  settings and a message goes through the list.  The colour of a result is a pointer in the source: it is either
  the colour of a kind in the colour provider, which is updated in place, or the colour of a phrase.  Qt's regular
  expressions, case conversions and URLs are the argument \<open>highlight_env\<close>.  The signals of the lists
  are delayed by a timer in the source; an event here is the moment when the controller is told.

  The lemmas show that the checks are always those of the settings, that stopping early changes nothing, what
  of a highlight is heard and seen, and that muting is undone by unmuting; three examples show where it goes wrong.
\<close>

section \<open>Phrases, badges and users\<close>

record highlight_env =
  he_regexValid :: "bool \<Rightarrow> string \<Rightarrow> bool"
  he_regexMatch :: "bool \<Rightarrow> string \<Rightarrow> string \<Rightarrow> bool"
  he_regexReplace :: "bool \<Rightarrow> string \<Rightarrow> string \<Rightarrow> string \<Rightarrow> string"
  he_escape :: "string \<Rightarrow> string"
  he_lower :: "string \<Rightarrow> string"
  he_fold :: "string \<Rightarrow> string"
  he_gui :: gui_ops

definition boundary :: "string \<Rightarrow> string" where
  "boundary edge = ''(?:'' @ [CHR 0x5C] @ ''b|'' @ [CHR 0x5C] @ ''s|'' @ edge @ '')''"

definition regexText :: "highlight_env \<Rightarrow> highlight_phrase \<Rightarrow> string" where
  "regexText env highlight = (if hp_isRegex highlight then hp_pattern highlight
     else boundary ''^'' @ he_escape env (hp_pattern highlight) @ boundary ''$'')"

definition hp_hasCustomSound :: "highlight_phrase \<Rightarrow> bool" where
  "hp_hasCustomSound highlight \<longleftrightarrow> hp_soundUrl highlight \<noteq> []"

definition hp_isValid :: "highlight_env \<Rightarrow> highlight_phrase \<Rightarrow> bool" where
  "hp_isValid env highlight \<longleftrightarrow> hp_pattern highlight \<noteq> [] \<and>
     he_regexValid env (hp_isCaseSensitive highlight) (regexText env highlight)"

definition hp_isMatch :: "highlight_env \<Rightarrow> highlight_phrase \<Rightarrow> string \<Rightarrow> bool" where
  "hp_isMatch env highlight subject \<longleftrightarrow> hp_isValid env highlight \<and>
     he_regexMatch env (hp_isCaseSensitive highlight) (regexText env highlight) subject"

definition bd_hasCustomSound :: "highlight_badge \<Rightarrow> bool" where
  "bd_hasCustomSound highlight \<longleftrightarrow> bd_soundUrl highlight \<noteq> []"

text \<open>The constructor looks for a slash and for a comma in the whole name.\<close>

definition bd_hasVersions :: "highlight_badge \<Rightarrow> bool" where
  "bd_hasVersions highlight \<longleftrightarrow> CHR ''/'' \<in> set (bd_badgeName highlight)"

definition bd_isMulti :: "highlight_badge \<Rightarrow> bool" where
  "bd_isMulti highlight \<longleftrightarrow> CHR '','' \<in> set (bd_badgeName highlight)"

definition bd_compare :: "highlight_env \<Rightarrow> highlight_badge \<Rightarrow> string \<Rightarrow> twitch_badge \<Rightarrow> bool" where
  "bd_compare env highlight i badge =
     (if bd_hasVersions highlight then
        (let parts = slashKeyValue i
         in he_fold env (fst parts) = he_fold env (tb_key badge) \<and> he_fold env (snd parts) = he_fold env (tb_value badge))
      else he_fold env i = he_fold env (tb_key badge))"

definition bd_isMatch :: "highlight_env \<Rightarrow> highlight_badge \<Rightarrow> twitch_badge \<Rightarrow> bool" where
  "bd_isMatch env highlight badge =
     (if bd_isMulti highlight
      then list_ex (\<lambda>i. bd_compare env highlight i badge) (splitOn (CHR '','') (bd_badgeName highlight))
      else bd_compare env highlight (bd_badgeName highlight) badge)"

definition hb_isMatch :: "highlight_env \<Rightarrow> highlight_blacklist_user \<Rightarrow> string \<Rightarrow> bool" where
  "hb_isMatch env user subject =
     (if hb_isRegex user then
        (if he_regexValid env False (hb_pattern user) then he_regexMatch env False (hb_pattern user) subject else False)
      else he_lower env subject = he_lower env (hb_pattern user))"

definition nn_match :: "highlight_env \<Rightarrow> nickname \<Rightarrow> string \<Rightarrow> string option" where
  "nn_match env n usernameText =
     (if nn_isRegex n then
        (if \<not> he_regexValid env (nn_isCaseSensitive n) (nn_name n) then None
         else if nn_name n = [] then None
         else let workingCopy = he_regexReplace env (nn_isCaseSensitive n) (nn_name n) (nn_replace n) usernameText
              in if workingCopy \<noteq> usernameText then Some workingCopy else None)
      else if (if nn_isCaseSensitive n then nn_name n = usernameText
               else he_fold env (nn_name n) = he_fold env usernameText) then Some (nn_replace n)
      else None)"

section \<open>The lists in the settings\<close>

fun isHighlightedUser :: "highlight_env \<Rightarrow> highlight_phrase list \<Rightarrow> string \<Rightarrow> bool" where
  "isHighlightedUser env [] username = False"
| "isHighlightedUser env (highlightedUser # rest) username =
     (if hp_isMatch env highlightedUser username then True else isHighlightedUser env rest username)"

fun isBlacklistedUser :: "highlight_env \<Rightarrow> highlight_blacklist_user list \<Rightarrow> string \<Rightarrow> bool" where
  "isBlacklistedUser env [] username = False"
| "isBlacklistedUser env (blacklistedUser # rest) username =
     (if hb_isMatch env blacklistedUser username then True else isBlacklistedUser env rest username)"

fun isMutedChannel :: "highlight_env \<Rightarrow> string list \<Rightarrow> string \<Rightarrow> bool" where
  "isMutedChannel env [] channelName = False"
| "isMutedChannel env (channel # rest) channelName =
     (if he_lower env channelName = he_lower env channel then True else isMutedChannel env rest channelName)"

fun matchNickname :: "highlight_env \<Rightarrow> nickname list \<Rightarrow> string \<Rightarrow> string option" where
  "matchNickname env [] usernameText = None"
| "matchNickname env (n # rest) usernameText =
     (case nn_match env n usernameText of Some nicknameText \<Rightarrow> Some nicknameText | None \<Rightarrow> matchNickname env rest usernameText)"

definition mute :: "highlight_env \<Rightarrow> string list \<Rightarrow> string \<Rightarrow> string list" where
  "mute env muted channelName = (if \<not> isMutedChannel env muted channelName then muted @ [channelName] else muted)"

text \<open>The index steps back after a removal and is advanced again by the loop.\<close>

function unmuteLoop :: "highlight_env \<Rightarrow> string \<Rightarrow> nat \<Rightarrow> string list \<Rightarrow> string list" where
  "unmuteLoop env channelName i muted =
     (if i < length muted then
        (if he_lower env (muted ! i) = he_lower env channelName
         then unmuteLoop env channelName i (take i muted @ drop (i + 1) muted)
         else unmuteLoop env channelName (i + 1) muted)
      else muted)"
  by pat_completeness auto

termination
  by (relation "measure (\<lambda>(env, channelName, i, muted). length muted - i)") auto

declare unmuteLoop.simps [simp del]

definition unmute :: "highlight_env \<Rightarrow> string list \<Rightarrow> string \<Rightarrow> string list" where
  "unmute env muted channelName = unmuteLoop env channelName 0 muted"

definition toggleMutedChannel :: "highlight_env \<Rightarrow> string list \<Rightarrow> string \<Rightarrow> bool \<times> string list" where
  "toggleMutedChannel env muted channelName =
     (if isMutedChannel env muted channelName then (False, unmute env muted channelName)
      else (True, muted @ [channelName]))"

section \<open>Results\<close>

datatype color_ref = ProvidedColor highlight_kind | PhraseColor TableModel.qcolor

record highlight_result =
  hr_alert :: bool
  hr_playSound :: bool
  hr_customSoundUrl :: "string option"
  hr_color :: "color_ref option"
  hr_showInMentions :: bool

definition emptyResult :: highlight_result where
  "emptyResult = \<lparr>hr_alert = False, hr_playSound = False, hr_customSoundUrl = None, hr_color = None,
     hr_showInMentions = False\<rparr>"

fun colorOf :: "(highlight_kind \<Rightarrow> TableModel.qcolor) \<Rightarrow> color_ref \<Rightarrow> TableModel.qcolor" where
  "colorOf provided (ProvidedColor k) = provided k"
| "colorOf provided (PhraseColor c) = c"

definition hr_eq :: "(highlight_kind \<Rightarrow> TableModel.qcolor) \<Rightarrow> highlight_result \<Rightarrow> highlight_result \<Rightarrow> bool" where
  "hr_eq provided a b =
     (if hr_alert a \<noteq> hr_alert b then False
      else if hr_playSound a \<noteq> hr_playSound b then False
      else if hr_customSoundUrl a \<noteq> hr_customSoundUrl b then False
      else if (case (hr_color a, hr_color b) of
                 (Some x, Some y) \<Rightarrow> colorOf provided x \<noteq> colorOf provided y | _ \<Rightarrow> False) then False
      else if hr_showInMentions a \<noteq> hr_showInMentions b then False
      else True)"

definition hr_empty :: "highlight_result \<Rightarrow> bool" where
  "hr_empty r \<longleftrightarrow> \<not> hr_alert r \<and> \<not> hr_playSound r \<and> hr_customSoundUrl r = None \<and> hr_color r = None
     \<and> \<not> hr_showInMentions r"

definition hr_full :: "highlight_result \<Rightarrow> bool" where
  "hr_full r \<longleftrightarrow> hr_alert r \<and> hr_playSound r \<and> hr_customSoundUrl r \<noteq> None \<and> hr_color r \<noteq> None
     \<and> hr_showInMentions r"


section \<open>Checks\<close>

record message_parse_args =
  pa_disablePingSounds :: bool
  pa_isReceivedWhisper :: bool
  pa_isSentWhisper :: bool
  pa_trimSubscriberUsername :: bool
  pa_isStaffOrBroadcaster :: bool
  pa_isSubscriptionMessage :: bool
  pa_allowIgnore :: bool
  pa_isAction :: bool
  pa_channelPointRewardId :: string

type_synonym highlight_check =
  "message_parse_args \<Rightarrow> twitch_badge list \<Rightarrow> string \<Rightarrow> string \<Rightarrow> flags \<Rightarrow> bool \<Rightarrow> highlight_result option"

record highlight_settings =
  hs_bool :: "highlight_setting \<Rightarrow> bool"
  hs_soundUrl :: "highlight_kind \<Rightarrow> string"
  hs_messages :: "highlight_phrase list"
  hs_users :: "highlight_phrase list"
  hs_badges :: "highlight_badge list"
  hs_userName :: string
  hs_isAnon :: bool

definition optionalUrl :: "highlight_env \<Rightarrow> string \<Rightarrow> string option" where
  "optionalUrl env s = (if s \<noteq> [] then Some (go_url (he_gui env) s) else None)"

definition phraseResult :: "highlight_phrase \<Rightarrow> color_ref \<Rightarrow> highlight_result" where
  "phraseResult highlight c = \<lparr>hr_alert = hp_hasAlert highlight, hr_playSound = hp_hasSound highlight,
     hr_customSoundUrl = (if hp_hasCustomSound highlight then Some (hp_soundUrl highlight) else None),
     hr_color = Some c, hr_showInMentions = hp_showInMentions highlight\<rparr>"

definition badgeResult :: "highlight_badge \<Rightarrow> highlight_result" where
  "badgeResult highlight = \<lparr>hr_alert = bd_hasAlert highlight, hr_playSound = bd_hasSound highlight,
     hr_customSoundUrl = (if bd_hasCustomSound highlight then Some (bd_soundUrl highlight) else None),
     hr_color = Some (PhraseColor (bd_color highlight)), hr_showInMentions = bd_showInMentions highlight\<rparr>"

definition highlightPhraseCheck :: "highlight_env \<Rightarrow> highlight_phrase \<Rightarrow> color_ref \<Rightarrow> highlight_check" where
  "highlightPhraseCheck env highlight c = (\<lambda>args twitchBadges senderName originalMessage flags self.
     if self then None
     else if \<not> hp_isMatch env highlight originalMessage then None
     else Some (phraseResult highlight c))"

definition rebuildSubscriptionHighlights ::
  "highlight_env \<Rightarrow> highlight_settings \<Rightarrow> highlight_check list \<Rightarrow> highlight_check list" where
  "rebuildSubscriptionHighlights env s checks =
     (if hs_bool s (enable highlight_kind.Subscription) then
        (let highlightSound = hs_bool s (enableSound highlight_kind.Subscription);
             highlightAlert = hs_bool s (enableTaskbar highlight_kind.Subscription);
             highlightSoundUrl = optionalUrl env (hs_soundUrl s highlight_kind.Subscription)
         in checks @ [\<lambda>args twitchBadges senderName originalMessage flags self.
              if \<not> pa_isSubscriptionMessage args then None
              else Some \<lparr>hr_alert = highlightAlert, hr_playSound = highlightSound,
                hr_customSoundUrl = highlightSoundUrl,
                hr_color = Some (ProvidedColor highlight_kind.Subscription), hr_showInMentions = False\<rparr>])
      else checks)"

definition rebuildWhisperHighlights ::
  "highlight_env \<Rightarrow> highlight_settings \<Rightarrow> highlight_check list \<Rightarrow> highlight_check list" where
  "rebuildWhisperHighlights env s checks =
     (if hs_bool s (enable highlight_kind.Whisper) then
        (let highlightSound = hs_bool s (enableSound highlight_kind.Whisper);
             highlightAlert = hs_bool s (enableTaskbar highlight_kind.Whisper);
             highlightSoundUrl = optionalUrl env (hs_soundUrl s highlight_kind.Whisper)
         in checks @ [\<lambda>args twitchBadges senderName originalMessage flags self.
              if \<not> pa_isReceivedWhisper args then None
              else Some \<lparr>hr_alert = highlightAlert, hr_playSound = highlightSound,
                hr_customSoundUrl = highlightSoundUrl,
                hr_color = Some (ProvidedColor highlight_kind.Whisper), hr_showInMentions = False\<rparr>])
      else checks)"

definition rebuildReplyThreadHighlight ::
  "highlight_env \<Rightarrow> highlight_settings \<Rightarrow> highlight_check list \<Rightarrow> highlight_check list" where
  "rebuildReplyThreadHighlight env s checks =
     (if hs_bool s (enable ThreadMessageHighlight) then
        (let highlightSound = hs_bool s (enableSound ThreadMessageHighlight);
             highlightAlert = hs_bool s (enableTaskbar ThreadMessageHighlight);
             highlightSoundUrl = optionalUrl env (hs_soundUrl s ThreadMessageHighlight);
             highlightInMentions = hs_bool s (showInMentions ThreadMessageHighlight)
         in checks @ [\<lambda>args twitchBadges senderName originalMessage flags self.
              if fl_has flags SubscribedThread \<and> \<not> self
              then Some \<lparr>hr_alert = highlightAlert, hr_playSound = highlightSound,
                hr_customSoundUrl = highlightSoundUrl,
                hr_color = Some (ProvidedColor ThreadMessageHighlight), hr_showInMentions = highlightInMentions\<rparr>
              else None])
      else checks)"

text \<open>The phrase of the own name; its colour is the provided one and is not looked at here.\<close>

definition selfPhrase :: "highlight_env \<Rightarrow> highlight_settings \<Rightarrow> highlight_phrase" where
  "selfPhrase env s = HighlightPhrase (he_gui env) (hs_userName s) (hs_bool s (showInMentions SelfHighlight))
     (hs_bool s (enableTaskbar SelfHighlight)) (hs_bool s (enableSound SelfHighlight)) False False
     (hs_soundUrl s SelfHighlight) TableModel.InvalidColor"

definition automodCheck :: "highlight_env \<Rightarrow> highlight_settings \<Rightarrow> highlight_check" where
  "automodCheck env s =
     (let highlightSound = hs_bool s (enableSound AutomodHighlight);
          highlightAlert = hs_bool s (enableTaskbar AutomodHighlight);
          highlightSoundUrl = optionalUrl env (hs_soundUrl s AutomodHighlight)
      in (\<lambda>args twitchBadges senderName originalMessage flags self.
            if \<not> fl_has flags AutoModOffendingMessage then None
            else Some \<lparr>hr_alert = highlightAlert, hr_playSound = highlightSound,
              hr_customSoundUrl = highlightSoundUrl,
              hr_color = Some (ProvidedColor AutomodHighlight), hr_showInMentions = False\<rparr>))"

definition rebuildMessageHighlights ::
  "highlight_env \<Rightarrow> highlight_settings \<Rightarrow> highlight_check list \<Rightarrow> highlight_check list" where
  "rebuildMessageHighlights env s checks =
     (let checks1 = (if hs_bool s (enable SelfHighlight) \<and> hs_userName s \<noteq> [] \<and> \<not> hs_isAnon s
            then checks @ [highlightPhraseCheck env (selfPhrase env s) (ProvidedColor SelfHighlight)] else checks);
          checks2 = checks1 @ map (\<lambda>highlight. highlightPhraseCheck env highlight (PhraseColor (hp_color highlight))) (hs_messages s)
      in if hs_bool s (enable AutomodHighlight) then checks2 @ [automodCheck env s] else checks2)"

text \<open>\<open>(QUrl) nullptr\<close> is an empty URL, so the optional has a value.\<close>

definition selfMessageCheck :: "highlight_settings \<Rightarrow> highlight_check" where
  "selfMessageCheck s =
     (let inMentions = hs_bool s (showInMentions SelfMessageHighlight)
      in (\<lambda>args twitchBadges senderName originalMessage flags self.
            if \<not> self then None
            else Some \<lparr>hr_alert = False, hr_playSound = False, hr_customSoundUrl = Some [],
              hr_color = Some (ProvidedColor SelfMessageHighlight), hr_showInMentions = inMentions\<rparr>))"

definition userCheck :: "highlight_env \<Rightarrow> highlight_phrase \<Rightarrow> highlight_check" where
  "userCheck env highlight = (\<lambda>args twitchBadges senderName originalMessage flags self.
     if \<not> hp_isMatch env highlight senderName then None
     else Some (phraseResult highlight (PhraseColor (hp_color highlight))))"

definition rebuildUserHighlights ::
  "highlight_env \<Rightarrow> highlight_settings \<Rightarrow> highlight_check list \<Rightarrow> highlight_check list" where
  "rebuildUserHighlights env s checks =
     (if hs_bool s (enable SelfMessageHighlight) then checks @ [selfMessageCheck s] else checks)
     @ map (userCheck env) (hs_users s)"

fun badgesLoop :: "highlight_env \<Rightarrow> highlight_badge \<Rightarrow> twitch_badge list \<Rightarrow> highlight_result option" where
  "badgesLoop env highlight [] = None"
| "badgesLoop env highlight (badge # rest) =
     (if bd_isMatch env highlight badge then Some (badgeResult highlight) else badgesLoop env highlight rest)"

definition badgeCheck :: "highlight_env \<Rightarrow> highlight_badge \<Rightarrow> highlight_check" where
  "badgeCheck env highlight = (\<lambda>args twitchBadges senderName originalMessage flags self.
     badgesLoop env highlight twitchBadges)"

definition rebuildBadgeHighlights ::
  "highlight_env \<Rightarrow> highlight_settings \<Rightarrow> highlight_check list \<Rightarrow> highlight_check list" where
  "rebuildBadgeHighlights env s checks = checks @ map (badgeCheck env) (hs_badges s)"

definition rebuildChecks :: "highlight_env \<Rightarrow> highlight_settings \<Rightarrow> highlight_check list" where
  "rebuildChecks env s =
     rebuildBadgeHighlights env s (rebuildReplyThreadHighlight env s (rebuildUserHighlights env s
       (rebuildMessageHighlights env s (rebuildWhisperHighlights env s (rebuildSubscriptionHighlights env s [])))))"


section \<open>The controller\<close>

text \<open>The settings that the controller listens to.\<close>

definition rebuildListener :: "highlight_setting list" where
  "rebuildListener =
     [enable SelfHighlight, enableSound SelfHighlight, enableTaskbar SelfHighlight, soundUrl SelfHighlight,
      showInMentions SelfHighlight,
      enable highlight_kind.Whisper, enableSound highlight_kind.Whisper, enableTaskbar highlight_kind.Whisper,
      soundUrl highlight_kind.Whisper,
      enable highlight_kind.Subscription, enableSound highlight_kind.Subscription,
      enableTaskbar highlight_kind.Subscription, enable SelfMessageHighlight, showInMentions SelfMessageHighlight,
      soundUrl highlight_kind.Subscription,
      enable ThreadMessageHighlight, enableSound ThreadMessageHighlight, enableTaskbar ThreadMessageHighlight,
      soundUrl ThreadMessageHighlight, showInMentions ThreadMessageHighlight,
      enable AutomodHighlight, showInMentions AutomodHighlight, enableSound AutomodHighlight,
      enableTaskbar AutomodHighlight, soundUrl AutomodHighlight]"

datatype highlight_event =
    BoolChanged highlight_setting bool
  | SoundUrlChanged highlight_kind string
  | BadgesChanged "highlight_badge list"
  | UsersChanged "highlight_phrase list"
  | MessagesChanged "highlight_phrase list"
  | CurrentUserChanged string bool
  | CurrentUserNameChanged string

record highlight_controller =
  hc_settings :: highlight_settings
  hc_checks :: "highlight_check list"

definition HighlightController :: "highlight_env \<Rightarrow> highlight_settings \<Rightarrow> highlight_controller" where
  "HighlightController env s = \<lparr>hc_settings = s, hc_checks = rebuildChecks env s\<rparr>"

definition rebuilt :: "highlight_env \<Rightarrow> highlight_settings \<Rightarrow> highlight_controller \<Rightarrow> highlight_controller" where
  "rebuilt env s c = c\<lparr>hc_settings := s, hc_checks := rebuildChecks env s\<rparr>"

definition settingChanged ::
  "highlight_env \<Rightarrow> highlight_setting \<Rightarrow> highlight_settings \<Rightarrow> highlight_controller \<Rightarrow> highlight_controller" where
  "settingChanged env k s c = (if k \<in> set rebuildListener then rebuilt env s c else c\<lparr>hc_settings := s\<rparr>)"

fun highlight_event_step :: "highlight_env \<Rightarrow> highlight_controller \<Rightarrow> highlight_event \<Rightarrow> highlight_controller" where
  "highlight_event_step env c (BoolChanged k b) =
     settingChanged env k ((hc_settings c)\<lparr>hs_bool := (hs_bool (hc_settings c))(k := b)\<rparr>) c"
| "highlight_event_step env c (SoundUrlChanged k u) =
     settingChanged env (soundUrl k) ((hc_settings c)\<lparr>hs_soundUrl := (hs_soundUrl (hc_settings c))(k := u)\<rparr>) c"
| "highlight_event_step env c (BadgesChanged bs) = rebuilt env ((hc_settings c)\<lparr>hs_badges := bs\<rparr>) c"
| "highlight_event_step env c (UsersChanged us) = rebuilt env ((hc_settings c)\<lparr>hs_users := us\<rparr>) c"
| "highlight_event_step env c (MessagesChanged ms) = rebuilt env ((hc_settings c)\<lparr>hs_messages := ms\<rparr>) c"
| "highlight_event_step env c (CurrentUserChanged n a) = rebuilt env ((hc_settings c)\<lparr>hs_userName := n, hs_isAnon := a\<rparr>) c"
| "highlight_event_step env c (CurrentUserNameChanged n) = rebuilt env ((hc_settings c)\<lparr>hs_userName := n\<rparr>) c"

text \<open>\<open>check\<close>: a part of the result that is set stays as it is.\<close>

definition mergeResult :: "highlight_result \<Rightarrow> highlight_result \<Rightarrow> highlight_result" where
  "mergeResult result checkResult =
     \<lparr>hr_alert = (if hr_alert checkResult \<and> \<not> hr_alert result then hr_alert checkResult else hr_alert result),
      hr_playSound = (if hr_playSound checkResult \<and> \<not> hr_playSound result then hr_playSound checkResult
                      else hr_playSound result),
      hr_customSoundUrl = (if hr_customSoundUrl checkResult \<noteq> None \<and> hr_customSoundUrl result = None
                           then hr_customSoundUrl checkResult else hr_customSoundUrl result),
      hr_color = (if hr_color checkResult \<noteq> None \<and> hr_color result = None then hr_color checkResult
                  else hr_color result),
      hr_showInMentions = (if hr_showInMentions checkResult \<and> \<not> hr_showInMentions result
                           then hr_showInMentions checkResult else hr_showInMentions result)\<rparr>"

fun checkLoop :: "(highlight_check \<Rightarrow> highlight_result option) \<Rightarrow> highlight_check list \<Rightarrow> bool \<times> highlight_result \<Rightarrow>
   bool \<times> highlight_result" where
  "checkLoop run [] (highlighted, result) = (highlighted, result)"
| "checkLoop run (c # checks) (highlighted, result) =
     (case run c of
        None \<Rightarrow> checkLoop run checks (highlighted, result)
      | Some checkResult \<Rightarrow>
          (let result1 = mergeResult result checkResult
           in if hr_full result1 then (True, result1) else checkLoop run checks (True, result1)))"

definition hc_check ::
  "highlight_controller \<Rightarrow> message_parse_args \<Rightarrow> twitch_badge list \<Rightarrow> string \<Rightarrow> string \<Rightarrow> flags \<Rightarrow> bool \<times> highlight_result" where
  "hc_check c args twitchBadges senderName originalMessage messageFlags =
     (let self = (senderName = hs_userName (hc_settings c))
      in checkLoop (\<lambda>chk. chk args twitchBadges senderName originalMessage messageFlags self) (hc_checks c)
           (False, emptyResult))"

section \<open>What a message does with its highlight\<close>

record highlight_alert =
  al_customSound :: string
  al_playSound :: bool
  al_windowAlert :: bool

definition noAlert :: highlight_alert where
  "noAlert = \<lparr>al_customSound = [], al_playSound = False, al_windowAlert = False\<rparr>"

text \<open>The message: login name, flags and the highlight colour.\<close>

record highlight_message =
  hm_loginName :: string
  hm_flags :: flags
  hm_color :: "color_ref option"

definition hm_setFlag :: "message_flag \<Rightarrow> highlight_message \<Rightarrow> highlight_message" where
  "hm_setFlag f m = m\<lparr>hm_flags := fl_set (hm_flags m) (flagValue f)\<rparr>"

definition parseHighlights ::
  "highlight_env \<Rightarrow> highlight_controller \<Rightarrow> highlight_blacklist_user list \<Rightarrow> tag_map \<Rightarrow> string \<Rightarrow> message_parse_args \<Rightarrow>
   highlight_message \<Rightarrow> highlight_message \<times> highlight_alert" where
  "parseHighlights env c blacklisted tags originalMessage args m =
     (if isBlacklistedUser env blacklisted (hm_loginName m) then (m, noAlert)
      else let badges = parseBadgeTag tags ''badges'';
               (highlighted, r) = hc_check c args badges (hm_loginName m) originalMessage (hm_flags m)
      in if \<not> highlighted then (m, noAlert)
      else let m1 = hm_setFlag Highlighted m;
               m2 = m1\<lparr>hm_color := hr_color r\<rparr>;
               m3 = (if hr_showInMentions r then hm_setFlag ShowInMentions m2 else m2)
      in (m3, \<lparr>al_customSound = (case hr_customSoundUrl r of Some u \<Rightarrow> u | None \<Rightarrow> []),
               al_playSound = hr_playSound r, al_windowAlert = hr_alert r\<rparr>))"

text \<open>The part of \<open>makeIrcMessage\<close> that deals with the highlight.\<close>

definition highlightPart ::
  "highlight_env \<Rightarrow> highlight_controller \<Rightarrow> highlight_blacklist_user list \<Rightarrow> bool \<Rightarrow> tag_map \<Rightarrow> string \<Rightarrow> message_parse_args \<Rightarrow>
   highlight_message \<Rightarrow> highlight_message \<times> highlight_alert" where
  "highlightPart env c blacklisted highlightInlineWhispers tags content args m =
     (let (m1, highlight) = parseHighlights env c blacklisted tags content args m;
          highlight1 = (if tags ''historical'' \<noteq> None then highlight\<lparr>al_playSound := False, al_windowAlert := False\<rparr>
                        else highlight);
          m2 = (if pa_isReceivedWhisper args \<and> highlightInlineWhispers
                then (hm_setFlag HighlightedWhisper m1)\<lparr>hm_color := Some (ProvidedColor highlight_kind.Whisper)\<rparr> else m1)
      in (m2, highlight1))"

datatype highlight_effect = PlaySound string | SendAlert

record alert_settings =
  as_streamerModeEnabled :: bool
  as_streamerModeMuteMentions :: bool
  as_mutedChannels :: "string list"
  as_hasFocus :: bool
  as_highlightAlwaysPlaySound :: bool
  as_pathHighlightSound :: string
  as_isFile :: "string \<Rightarrow> bool"
  as_fromLocalFile :: "string \<Rightarrow> string"

definition getFallbackHighlightSound :: "alert_settings \<Rightarrow> string" where
  "getFallbackHighlightSound a =
     (let path = as_pathHighlightSound a
      in if path \<noteq> [] \<and> as_isFile a path then as_fromLocalFile a path else ''qrc:/sounds/ping2.wav'')"

definition actuallyTriggerHighlights ::
  "highlight_env \<Rightarrow> alert_settings \<Rightarrow> string \<Rightarrow> bool \<Rightarrow> string \<Rightarrow> bool \<Rightarrow> highlight_effect list" where
  "actuallyTriggerHighlights env a channelName playSound customSoundUrl windowAlert =
     (if as_streamerModeEnabled a \<and> as_streamerModeMuteMentions a then []
      else if isMutedChannel env (as_mutedChannels a) channelName then []
      else let resolveFocus = \<not> as_hasFocus a \<or> as_highlightAlwaysPlaySound a
      in (if playSound \<and> resolveFocus
          then [PlaySound (if customSoundUrl = [] then getFallbackHighlightSound a else customSoundUrl)] else [])
         @ (if windowAlert then [SendAlert] else []))"

definition triggerHighlights :: "highlight_env \<Rightarrow> alert_settings \<Rightarrow> string \<Rightarrow> highlight_alert \<Rightarrow> highlight_effect list" where
  "triggerHighlights env a channelName alert =
     (if \<not> al_windowAlert alert \<and> \<not> al_playSound alert then []
      else actuallyTriggerHighlights env a channelName (al_playSound alert) (al_customSound alert) (al_windowAlert alert))"

text \<open>The end of \<open>IrcMessageHandler::addMessage\<close>; \<open>isSimilar\<close> is what the similarity filter decides.  The message after the similarity filter, the effects and whether it
  goes to the mentions.\<close>

record sink_settings =
  ss_hideSimilar :: bool
  ss_shownSimilarTriggerHighlights :: bool
  ss_addMentions :: bool

definition afterBuild ::
  "highlight_env \<Rightarrow> alert_settings \<Rightarrow> sink_settings \<Rightarrow> bool \<Rightarrow> string \<Rightarrow> tag_map \<Rightarrow> bool \<Rightarrow> string \<Rightarrow>
   highlight_message \<Rightarrow> highlight_alert \<Rightarrow> highlight_message \<times> highlight_effect list \<times> bool" where
  "afterBuild env a s isSimilar channelName tags isSub msgType msg alert =
     (let msg1 = (if isSub then
            (let sub = hm_setFlag (if msgType = ''viewermilestone'' then message_flag.WatchStreak
                                   else message_flag.Subscription) msg
             in if tags ''msg-id'' \<noteq> Some ''announcement''
                then sub\<lparr>hm_flags := fl_unset (hm_flags sub) (flagValue Highlighted)\<rparr> else sub)
            else msg);
          msg2 = (if isSimilar then hm_setFlag Similar msg1 else msg1);
          effects = (if \<not> fl_has (hm_flags msg2) Similar \<or> (\<not> ss_hideSimilar s \<and> ss_shownSimilarTriggerHighlights s)
                     then triggerHighlights env a channelName alert else []);
          highlighted = fl_has (hm_flags msg2) Highlighted;
          inMentions = fl_has (hm_flags msg2) ShowInMentions
      in (msg2, effects, highlighted \<and> inMentions \<and> ss_addMentions s))"


section \<open>The checks are those of the settings\<close>

text \<open>The checks depend on the values that they are made of only.\<close>

definition same_bools :: "highlight_setting list \<Rightarrow> highlight_settings \<Rightarrow> highlight_settings \<Rightarrow> bool" where
  "same_bools ks s t \<longleftrightarrow> list_all (\<lambda>k. hs_bool s k = hs_bool t k) ks"

definition same_urls :: "highlight_kind list \<Rightarrow> highlight_settings \<Rightarrow> highlight_settings \<Rightarrow> bool" where
  "same_urls ks s t \<longleftrightarrow> list_all (\<lambda>k. hs_soundUrl s k = hs_soundUrl t k) ks"

definition same_lists :: "highlight_settings \<Rightarrow> highlight_settings \<Rightarrow> bool" where
  "same_lists s t \<longleftrightarrow> hs_messages s = hs_messages t \<and> hs_users s = hs_users t \<and> hs_badges s = hs_badges t
     \<and> hs_userName s = hs_userName t \<and> hs_isAnon s = hs_isAnon t"

lemma rebuildChecks_cong:
  assumes "same_bools rebuildListener s t" "same_lists s t"
    and "same_urls [SelfHighlight, highlight_kind.Whisper, highlight_kind.Subscription, ThreadMessageHighlight, AutomodHighlight] s t"
  shows "rebuildChecks env s = rebuildChecks env t"
proof -
  note same = assms[unfolded same_bools_def same_urls_def same_lists_def rebuildListener_def, simplified]
  have "rebuildSubscriptionHighlights env s = rebuildSubscriptionHighlights env t"
    using same by (intro ext) (simp add: rebuildSubscriptionHighlights_def)
  moreover have "rebuildWhisperHighlights env s = rebuildWhisperHighlights env t"
    using same by (intro ext) (simp add: rebuildWhisperHighlights_def)
  moreover have "rebuildReplyThreadHighlight env s = rebuildReplyThreadHighlight env t"
    using same by (intro ext) (simp add: rebuildReplyThreadHighlight_def)
  moreover have "rebuildMessageHighlights env s = rebuildMessageHighlights env t"
    using same by (intro ext) (simp add: rebuildMessageHighlights_def selfPhrase_def automodCheck_def Let_def)
  moreover have "rebuildUserHighlights env s = rebuildUserHighlights env t"
    using same by (intro ext) (simp add: rebuildUserHighlights_def selfMessageCheck_def)
  moreover have "rebuildBadgeHighlights env s = rebuildBadgeHighlights env t"
    using same by (intro ext) (simp add: rebuildBadgeHighlights_def)
  ultimately show ?thesis by (simp add: rebuildChecks_def)
qed

lemma rebuild_unlistened:
  "k \<notin> set rebuildListener \<Longrightarrow> rebuildChecks env (s\<lparr>hs_bool := (hs_bool s)(k := b)\<rparr>) = rebuildChecks env s"
  by (rule rebuildChecks_cong) (auto simp: same_bools_def same_urls_def same_lists_def list_all_iff)

lemma rebuild_unlistened_sound:
  "soundUrl k \<notin> set rebuildListener \<Longrightarrow>
   rebuildChecks env (s\<lparr>hs_soundUrl := (hs_soundUrl s)(k := u)\<rparr>) = rebuildChecks env s"
  by (rule rebuildChecks_cong) (auto simp: same_bools_def same_urls_def same_lists_def list_all_iff rebuildListener_def)

definition current :: "highlight_env \<Rightarrow> highlight_controller \<Rightarrow> bool" where
  "current env c \<longleftrightarrow> hc_checks c = rebuildChecks env (hc_settings c)"

lemma current_step: "current env c \<Longrightarrow> current env (highlight_event_step env c e)"
  by (cases e) (auto simp: current_def settingChanged_def rebuilt_def rebuild_unlistened rebuild_unlistened_sound)

text \<open>Whatever settings, lists and accounts change and in which order, the checks in use are the ones that the settings
  ask for: the controller listens to every setting that a check takes its values from.\<close>

theorem checks_are_current:
  "hc_checks (foldl (highlight_event_step env) (HighlightController env s) events)
     = rebuildChecks env (hc_settings (foldl (highlight_event_step env) (HighlightController env s) events))"
proof -
  have "current env (foldl (highlight_event_step env) c events)" if "current env c" for c
    using that by (induction events arbitrary: c) (simp_all add: current_step)
  then show ?thesis by (simp add: current_def HighlightController_def)
qed

section \<open>How the checks combine\<close>

text \<open>All results together: a switch is on when it is on in one of them, a sound and a colour are the first there is.\<close>

definition firstOf :: "('r \<Rightarrow> 'a option) \<Rightarrow> 'r list \<Rightarrow> 'a option" where
  "firstOf f rs = (case List.map_filter f rs of [] \<Rightarrow> None | x # _ \<Rightarrow> Some x)"

definition combined :: "highlight_result list \<Rightarrow> highlight_result" where
  "combined rs = \<lparr>hr_alert = list_ex hr_alert rs, hr_playSound = list_ex hr_playSound rs,
     hr_customSoundUrl = firstOf hr_customSoundUrl rs, hr_color = firstOf hr_color rs,
     hr_showInMentions = list_ex hr_showInMentions rs\<rparr>"

definition matchingResults ::
  "highlight_controller \<Rightarrow> message_parse_args \<Rightarrow> twitch_badge list \<Rightarrow> string \<Rightarrow> string \<Rightarrow> flags \<Rightarrow> highlight_result list" where
  "matchingResults c args twitchBadges senderName originalMessage messageFlags =
     List.map_filter (\<lambda>chk. chk args twitchBadges senderName originalMessage messageFlags
       (senderName = hs_userName (hc_settings c))) (hc_checks c)"

lemma firstOf_simps [simp]:
  "firstOf f [] = None" "firstOf f (r # rs) = (case f r of Some x \<Rightarrow> Some x | None \<Rightarrow> firstOf f rs)"
  by (simp_all add: firstOf_def map_filter_simps split: option.split)

definition orElse :: "'a option \<Rightarrow> 'a option \<Rightarrow> 'a option" where
  "orElse a b = (case a of None \<Rightarrow> b | Some x \<Rightarrow> Some x)"

lemma orElse_simps [simp]:
  "orElse None b = b" "orElse (Some x) b = Some x" "orElse a None = a" "orElse (orElse a b) c = orElse a (orElse b c)"
  by (simp_all add: orElse_def split: option.split)

lemma mergeResult_eq:
  "mergeResult r x = \<lparr>hr_alert = hr_alert r \<or> hr_alert x, hr_playSound = hr_playSound r \<or> hr_playSound x,
     hr_customSoundUrl = orElse (hr_customSoundUrl r) (hr_customSoundUrl x), hr_color = orElse (hr_color r) (hr_color x),
     hr_showInMentions = hr_showInMentions r \<or> hr_showInMentions x\<rparr>"
proof -
  have pick: "(if a \<noteq> None \<and> b = None then a else b) = orElse b a" for a b :: "'a option"
    by (cases a; cases b) simp_all
  have pick_bool: "(if a \<and> \<not> b then a else b) = (b \<or> a)" for a b
    by auto
  show ?thesis unfolding mergeResult_def by (simp only: pick pick_bool)
qed

lemma merge_full: "hr_full r \<Longrightarrow> mergeResult r x = r"
  by (cases r) (auto simp: hr_full_def mergeResult_eq)

lemma mergeResult_assoc: "mergeResult (mergeResult r x) y = mergeResult r (mergeResult x y)"
  by (simp add: mergeResult_eq disj_assoc)

lemma combined_Cons: "combined (x # rs) = mergeResult x (combined rs)"
  by (simp add: combined_def mergeResult_eq orElse_def)

lemma foldl_full: "hr_full r \<Longrightarrow> foldl mergeResult r rs = r"
  by (induction rs) (simp_all add: merge_full)

lemma checkLoop_foldl:
  "checkLoop run checks (h, r) = (h \<or> List.map_filter run checks \<noteq> [], foldl mergeResult r (List.map_filter run checks))"
  by (induction checks arbitrary: h r) (simp_all add: map_filter_simps foldl_full Let_def split: option.split)

lemma foldl_combined: "foldl mergeResult r rs = mergeResult r (combined rs)"
proof (induction rs arbitrary: r)
  case Nil
  show ?case by (cases r) (simp add: mergeResult_eq combined_def)
qed (simp add: combined_Cons mergeResult_assoc)

lemma merge_empty: "mergeResult emptyResult r = r"
  by (cases r) (simp add: mergeResult_eq emptyResult_def)

lemma check_combines_all:
  "hc_check c args badges sender msg fs
     = (matchingResults c args badges sender msg fs \<noteq> [], combined (matchingResults c args badges sender msg fs))"
  by (simp add: hc_check_def matchingResults_def checkLoop_foldl foldl_combined merge_empty Let_def)

text \<open>C7. A message is highlighted when one of the checks applies, and its highlight is that of all checks that apply taken
  together, in the order of the list; leaving the list early, when nothing is missing from the result, changes nothing.\<close>

theorem check_combines_all_checks:
  "hc_check c args badges sender msg fs
     = (matchingResults c args badges sender msg fs \<noteq> [], combined (matchingResults c args badges sender msg fs))"
  by (rule check_combines_all)

section \<open>What is heard\<close>

text \<open>The effects, from the checks that apply.\<close>

definition silenced ::
  "highlight_env \<Rightarrow> alert_settings \<Rightarrow> string \<Rightarrow> highlight_blacklist_user list \<Rightarrow> string \<Rightarrow> tag_map \<Rightarrow> bool" where
  "silenced env a channelName blacklisted login tags \<longleftrightarrow> list_ex (\<lambda>u. hb_isMatch env u login) blacklisted
     \<or> tags ''historical'' \<noteq> None \<or> (as_streamerModeEnabled a \<and> as_streamerModeMuteMentions a)
     \<or> list_ex (\<lambda>ch. he_lower env channelName = he_lower env ch) (as_mutedChannels a)"

definition soundAndAlert :: "alert_settings \<Rightarrow> highlight_result list \<Rightarrow> highlight_effect list" where
  "soundAndAlert a rs =
     (if list_ex hr_playSound rs \<and> (\<not> as_hasFocus a \<or> as_highlightAlwaysPlaySound a)
      then [PlaySound (case firstOf hr_customSoundUrl rs of
              Some u \<Rightarrow> if u = [] then getFallbackHighlightSound a else u | None \<Rightarrow> getFallbackHighlightSound a)] else [])
     @ (if list_ex hr_alert rs then [SendAlert] else [])"

lemma isBlacklistedUser_ex: "isBlacklistedUser env us n \<longleftrightarrow> list_ex (\<lambda>u. hb_isMatch env u n) us"
  by (induction us) simp_all

lemma isHighlightedUser_ex: "isHighlightedUser env us n \<longleftrightarrow> list_ex (\<lambda>u. hp_isMatch env u n) us"
  by (induction us) simp_all

lemma isMutedChannel_ex: "isMutedChannel env chs n \<longleftrightarrow> list_ex (\<lambda>ch. he_lower env n = he_lower env ch) chs"
  by (induction chs) simp_all

lemma triggerHighlights_noAlert [simp]: "triggerHighlights env a ch noAlert = []"
  by (simp add: triggerHighlights_def noAlert_def)

lemma soundAndAlert_Nil [simp]: "soundAndAlert a [] = []"
  by (simp add: soundAndAlert_def)

lemma triggerHighlights_combined:
  "triggerHighlights env a ch \<lparr>al_customSound = (case hr_customSoundUrl (combined rs) of Some u \<Rightarrow> u | None \<Rightarrow> []),
     al_playSound = hr_playSound (combined rs), al_windowAlert = hr_alert (combined rs)\<rparr>
   = (if (as_streamerModeEnabled a \<and> as_streamerModeMuteMentions a) \<or> isMutedChannel env (as_mutedChannels a) ch
      then [] else soundAndAlert a rs)"
  by (auto simp: triggerHighlights_def actuallyTriggerHighlights_def soundAndAlert_def combined_def Let_def
      split: option.split)

lemma parseHighlights_alert:
  "snd (parseHighlights env c blacklisted tags content args m) =
     (let rs = matchingResults c args (parseBadgeTag tags ''badges'') (hm_loginName m) content (hm_flags m)
      in if isBlacklistedUser env blacklisted (hm_loginName m) \<or> rs = [] then noAlert
      else \<lparr>al_customSound = (case hr_customSoundUrl (combined rs) of Some u \<Rightarrow> u | None \<Rightarrow> []),
            al_playSound = hr_playSound (combined rs), al_windowAlert = hr_alert (combined rs)\<rparr>)"
  by (simp add: parseHighlights_def check_combines_all Let_def)

text \<open>C13. A message plays one sound when one of the checks that apply plays a sound and the window has no focus or the settings
  always want it, namely the first custom sound of the checks or else the fallback, and it flashes the window when one of
  the checks does; messages of blacklisted users, messages loaded from the history, muted channels and a muting streamer
  mode do neither.\<close>

theorem highlights_are_heard:
  "let (m1, alert) = highlightPart env c blacklisted inline tags content args m
   in triggerHighlights env a ch alert
     = (if silenced env a ch blacklisted (hm_loginName m) tags then []
        else soundAndAlert a (matchingResults c args (parseBadgeTag tags ''badges'') (hm_loginName m) content (hm_flags m)))"
proof -
  let ?rs = "matchingResults c args (parseBadgeTag tags ''badges'') (hm_loginName m) content (hm_flags m)"
  obtain m1 al where p: "parseHighlights env c blacklisted tags content args m = (m1, al)" by fastforce
  have al: "al = snd (parseHighlights env c blacklisted tags content args m)" by (simp add: p)
  have off: "triggerHighlights env a ch (al\<lparr>al_playSound := False, al_windowAlert := False\<rparr>) = []"
    by (simp add: triggerHighlights_def)
  have "triggerHighlights env a ch al = (if isBlacklistedUser env blacklisted (hm_loginName m)
      \<or> (as_streamerModeEnabled a \<and> as_streamerModeMuteMentions a) \<or> isMutedChannel env (as_mutedChannels a) ch
      then [] else soundAndAlert a ?rs)"
    unfolding al parseHighlights_alert Let_def
    by (cases "?rs = []") (simp_all add: triggerHighlights_combined)
  with off show ?thesis
    by (auto simp: highlightPart_def p silenced_def isBlacklistedUser_ex isMutedChannel_ex Let_def)
qed


section \<open>Sample settings\<close>

definition exactly :: "string \<Rightarrow> string" where
  "exactly s = boundary ''^'' @ s @ boundary ''$''"

text \<open>Phrases match the whole text.\<close>

definition sampleHighlightEnv :: highlight_env where
  "sampleHighlightEnv = \<lparr>he_regexValid = (\<lambda>_ _. True), he_regexMatch = (\<lambda>_ r s. r = exactly s),
     he_regexReplace = (\<lambda>_ _ _ s. s), he_escape = (\<lambda>s. s), he_lower = (\<lambda>s. s), he_fold = (\<lambda>s. s), he_gui = plain_ops\<rparr>"

definition quietPhrase :: "string \<Rightarrow> highlight_phrase" where
  "quietPhrase s = \<lparr>hp_pattern = s, hp_showInMentions = False, hp_hasAlert = False, hp_hasSound = False, hp_isRegex = False,
     hp_isCaseSensitive = False, hp_soundUrl = [], hp_color = Argb 0\<rparr>"

definition sampleHighlights :: highlight_settings where
  "sampleHighlights = \<lparr>hs_bool = (\<lambda>_. False), hs_soundUrl = (\<lambda>_. []), hs_messages = [], hs_users = [], hs_badges = [],
     hs_userName = ''me'', hs_isAnon = False\<rparr>"

definition plainArgs :: message_parse_args where
  "plainArgs = \<lparr>pa_disablePingSounds = False, pa_isReceivedWhisper = False, pa_isSentWhisper = False,
     pa_trimSubscriberUsername = False, pa_isStaffOrBroadcaster = False, pa_isSubscriptionMessage = False,
     pa_allowIgnore = True, pa_isAction = False, pa_channelPointRewardId = []\<rparr>"

section \<open>What goes to the mentions\<close>

definition newHighlightMessage :: highlight_message where
  "newHighlightMessage = \<lparr>hm_loginName = ''you'', hm_flags = 0, hm_color = None\<rparr>"

definition unfocused :: alert_settings where
  "unfocused = \<lparr>as_streamerModeEnabled = False, as_streamerModeMuteMentions = False, as_mutedChannels = [], as_hasFocus = False,
     as_highlightAlwaysPlaySound = False, as_pathHighlightSound = [], as_isFile = (\<lambda>_. False), as_fromLocalFile = (\<lambda>s. s)\<rparr>"

lemma parseHighlights_flags:
  "fl_has (hm_flags (fst (parseHighlights env c blacklisted tags content args m))) f \<longleftrightarrow>
     fl_has (hm_flags m) f \<or>
     (let rs = matchingResults c args (parseBadgeTag tags ''badges'') (hm_loginName m) content (hm_flags m)
      in \<not> isBlacklistedUser env blacklisted (hm_loginName m) \<and> rs \<noteq> [] \<and>
         (f = Highlighted \<or> (f = ShowInMentions \<and> list_ex hr_showInMentions rs)))"
  by (auto simp: parseHighlights_def check_combines_all hm_setFlag_def fl_simps combined_def Let_def)

text \<open>A new message goes to the mentions when the sink adds mentions, its sender is not blacklisted, one of the checks that
  apply shows in mentions, and it is not the message of a subscription that is no announcement; the history, muted
  channels and similar messages make no difference.\<close>

theorem highlights_go_to_mentions:
  assumes "\<not> fl_has (hm_flags m) Highlighted" "\<not> fl_has (hm_flags m) ShowInMentions"
  shows "(case highlightPart env c blacklisted inline tags content args m of (m1, alert) \<Rightarrow>
     snd (snd (afterBuild env a s similar ch tags isSub msgType m1 alert)))
     \<longleftrightarrow> ss_addMentions s \<and> \<not> list_ex (\<lambda>u. hb_isMatch env u (hm_loginName m)) blacklisted
       \<and> list_ex hr_showInMentions (matchingResults c args (parseBadgeTag tags ''badges'') (hm_loginName m) content (hm_flags m))
       \<and> \<not> (isSub \<and> tags ''msg-id'' \<noteq> Some ''announcement'')"
proof -
  let ?rs = "matchingResults c args (parseBadgeTag tags ''badges'') (hm_loginName m) content (hm_flags m)"
  obtain m0 al where p: "parseHighlights env c blacklisted tags content args m = (m0, al)" by fastforce
  note flags = parseHighlights_flags[of env c blacklisted tags content args m, unfolded p fst_conv Let_def]
  obtain m1 al1 where h: "highlightPart env c blacklisted inline tags content args m = (m1, al1)" by fastforce
  have m1: "fl_has (hm_flags m1) f \<longleftrightarrow> fl_has (hm_flags m0) f" if "f = Highlighted \<or> f = ShowInMentions" for f
    using h that by (auto simp: highlightPart_def p hm_setFlag_def fl_simps Let_def split: if_splits)
  have some: "list_ex hr_showInMentions ?rs \<Longrightarrow> ?rs \<noteq> []" by auto
  show ?thesis
    using assms some flags[of Highlighted] flags[of ShowInMentions] m1[of Highlighted] m1[of ShowInMentions]
    by (auto simp: h afterBuild_def hm_setFlag_def flagValue_flagsOf fl_simps isBlacklistedUser_ex Let_def)
qed

theorem highlights_go_to_mentions_witness:
  "let c = HighlightController sampleHighlightEnv
         (sampleHighlights\<lparr>hs_messages := [(quietPhrase ''hi'')\<lparr>hp_showInMentions := True\<rparr>]\<rparr>)
   in case highlightPart sampleHighlightEnv c [] False Map.empty ''hi'' plainArgs newHighlightMessage of (m1, alert) \<Rightarrow>
      snd (snd (afterBuild sampleHighlightEnv unfocused \<lparr>ss_hideSimilar = False, ss_shownSimilarTriggerHighlights = False, ss_addMentions = True\<rparr>
        True ''ch'' Map.empty False [] m1 alert))"
proof -
  let ?c = "HighlightController sampleHighlightEnv
      (sampleHighlights\<lparr>hs_messages := [(quietPhrase ''hi'')\<lparr>hp_showInMentions := True\<rparr>]\<rparr>)"
  have new: "\<not> fl_has (hm_flags newHighlightMessage) Highlighted" "\<not> fl_has (hm_flags newHighlightMessage) ShowInMentions"
    by (simp_all add: newHighlightMessage_def fl_has_bit)
  have "list_ex hr_showInMentions (matchingResults ?c plainArgs (parseBadgeTag Map.empty ''badges'')
      (hm_loginName newHighlightMessage) ''hi'' (hm_flags newHighlightMessage))" by code_simp
  with highlights_go_to_mentions[OF new, of sampleHighlightEnv unfocused
      "\<lparr>ss_hideSimilar = False, ss_shownSimilarTriggerHighlights = False, ss_addMentions = True\<rparr>" True "''ch''" Map.empty
      False "[]" ?c "[]" False "''hi''" plainArgs]
  show ?thesis by (simp add: Let_def case_prod_unfold)
qed

section \<open>Muted channels\<close>

lemma unmuteLoop_filter:
  "i \<le> length muted \<Longrightarrow> unmuteLoop env ch i muted
     = take i muted @ filter (\<lambda>x. he_lower env x \<noteq> he_lower env ch) (drop i muted)"
proof (induction env ch i muted rule: unmuteLoop.induct)
  case (1 env ch i muted)
  show ?case
  proof (cases "i < length muted")
    case True
    then have d: "drop i muted = muted ! i # drop (Suc i) muted" by (simp add: Cons_nth_drop_Suc)
    show ?thesis
      using 1 True by (subst unmuteLoop.simps) (simp add: d take_Suc_conv_app_nth min_absorb2)
  qed (use 1 in \<open>subst unmuteLoop.simps, simp\<close>)
qed

lemma unmute_filter: "unmute env muted ch = filter (\<lambda>x. he_lower env x \<noteq> he_lower env ch) muted"
  by (simp add: unmute_def unmuteLoop_filter)

text \<open>Toggling a channel tells whether it is muted now, mutes or unmutes it whatever the case of its name is and however
  often it is in the list, and leaves all other channels as they were.\<close>

theorem toggle_mutes_one_channel:
  "case toggleMutedChannel env muted ch of (now, muted') \<Rightarrow>
     now = (\<not> isMutedChannel env muted ch) \<and>
     isMutedChannel env muted' other
       = (if he_lower env other = he_lower env ch then now else isMutedChannel env muted other)"
  by (auto simp: toggleMutedChannel_def isMutedChannel_ex unmute_filter list_ex_iff)

section \<open>Where it goes wrong\<close>

definition heardSound :: "highlight_settings \<Rightarrow> string \<Rightarrow> string \<Rightarrow> (bool \<times> string) option" where
  "heardSound s sender msg =
     (case hc_check (HighlightController sampleHighlightEnv s) plainArgs [] sender msg 0 of (highlighted, r) \<Rightarrow>
        if highlighted then Some (hr_playSound r, case hr_customSoundUrl r of Some u \<Rightarrow> u | None \<Rightarrow> ''none'') else None)"

text \<open>The checks before the one of own messages do not apply to an own message.\<close>

lemma checks_before_own:
  assumes "hs_bool s (enable SelfMessageHighlight)"
    and "\<not> pa_isSubscriptionMessage args" "\<not> pa_isReceivedWhisper args" "\<not> fl_has fs AutoModOffendingMessage"
  obtains before behind where "rebuildChecks env s = before @ selfMessageCheck s # behind"
    "\<And>chk. chk \<in> set before \<Longrightarrow> chk args badges sender msg fs True = None"
proof -
  let ?before = "rebuildMessageHighlights env s (rebuildWhisperHighlights env s (rebuildSubscriptionHighlights env s []))"
  have "\<exists>behind. rebuildChecks env s = ?before @ selfMessageCheck s # behind"
    using assms(1) by (simp add: rebuildChecks_def rebuildUserHighlights_def rebuildBadgeHighlights_def
        rebuildReplyThreadHighlight_def Let_def)
  moreover have "chk args badges sender msg fs True = None" if "chk \<in> set ?before" for chk
    using that assms(2-4) by (auto simp: rebuildMessageHighlights_def rebuildWhisperHighlights_def
        rebuildSubscriptionHighlights_def highlightPhraseCheck_def automodCheck_def Let_def split: if_splits)
  ultimately show thesis using that by blast
qed

text \<open>C38. The highlight of own messages hides every custom sound: with it switched on, an own message (that is no subscription, whisper
  or message held by AutoMod) has the empty URL as its custom sound, whichever sounds the lists of users and badges have for it.\<close>

theorem own_message_loses_its_sound:
  assumes "hs_bool s (enable SelfMessageHighlight)"
    and "\<not> pa_isSubscriptionMessage args" "\<not> pa_isReceivedWhisper args" "\<not> fl_has fs AutoModOffendingMessage"
  shows "hr_customSoundUrl (snd (hc_check (HighlightController env s) args badges (hs_userName s) msg fs)) = Some []"
proof -
  obtain before behind where c: "rebuildChecks env s = before @ selfMessageCheck s # behind"
    and none: "\<And>chk. chk \<in> set before \<Longrightarrow> chk args badges (hs_userName s) msg fs True = None"
    using checks_before_own[OF assms] by metis
  have "List.map_filter (\<lambda>chk. chk args badges (hs_userName s) msg fs True) before = []"
    using none by (simp add: List.map_filter_def filter_empty_conv)
  moreover have "List.map_filter f (xs @ ys) = List.map_filter f xs @ List.map_filter f ys" for f :: "highlight_check \<Rightarrow> highlight_result option" and xs ys
    by (induction xs) (simp_all add: map_filter_simps split: option.split)
  ultimately show ?thesis
    by (simp add: check_combines_all matchingResults_def HighlightController_def c combined_def map_filter_simps selfMessageCheck_def Let_def)
qed

theorem own_message_loses_its_sound_witness:
  "heardSound (sampleHighlights\<lparr>hs_users := [(quietPhrase ''me'')\<lparr>hp_hasSound := True, hp_soundUrl := ''pop.wav''\<rparr>]\<rparr>) ''me'' ''hi''
     = Some (True, ''pop.wav'') \<and>
   hr_customSoundUrl (snd (hc_check (HighlightController sampleHighlightEnv (sampleHighlights\<lparr>hs_users :=
       [(quietPhrase ''me'')\<lparr>hp_hasSound := True, hp_soundUrl := ''pop.wav''\<rparr>], hs_bool := (\<lambda>k. k = enable SelfMessageHighlight)\<rparr>))
     plainArgs [] ''me'' ''hi'' 0)) = Some []"
proof
  show "heardSound (sampleHighlights\<lparr>hs_users := [(quietPhrase ''me'')\<lparr>hp_hasSound := True, hp_soundUrl := ''pop.wav''\<rparr>]\<rparr>) ''me'' ''hi''
     = Some (True, ''pop.wav'')" by code_simp
  have "\<not> fl_has 0 AutoModOffendingMessage" by code_simp
  then show "hr_customSoundUrl (snd (hc_check (HighlightController sampleHighlightEnv (sampleHighlights\<lparr>hs_users :=
       [(quietPhrase ''me'')\<lparr>hp_hasSound := True, hp_soundUrl := ''pop.wav''\<rparr>], hs_bool := (\<lambda>k. k = enable SelfMessageHighlight)\<rparr>))
     plainArgs [] ''me'' ''hi'' 0)) = Some []"
    using own_message_loses_its_sound[of "sampleHighlights\<lparr>hs_users := [(quietPhrase ''me'')\<lparr>hp_hasSound := True, hp_soundUrl := ''pop.wav''\<rparr>],
      hs_bool := (\<lambda>k. k = enable SelfMessageHighlight)\<rparr>" plainArgs 0 sampleHighlightEnv "[]" "''hi''"]
    by (simp add: plainArgs_def sampleHighlights_def)
qed

text \<open>The custom sound of a phrase whose sound is switched off is played when another phrase of the message plays a sound.\<close>

theorem silent_phrase_gives_its_sound:
  "heardSound (sampleHighlights\<lparr>hs_messages := [(quietPhrase ''hi'')\<lparr>hp_soundUrl := ''pop.wav''\<rparr>]\<rparr>) ''you'' ''hi''
     = Some (False, ''pop.wav'') \<and>
   heardSound (sampleHighlights\<lparr>hs_messages := [(quietPhrase ''hi'')\<lparr>hp_soundUrl := ''pop.wav''\<rparr>,
       (quietPhrase ''hi'')\<lparr>hp_hasSound := True\<rparr>]\<rparr>) ''you'' ''hi'' = Some (True, ''pop.wav'')"
  by code_simp

text \<open>In a list of badges the slash of one entry makes all entries ask for a version: an entry without one, put in front of such
  a list, matches no badge that has a version, which it does when it stands alone.\<close>

theorem badge_without_version_is_lost:
  assumes "CHR ''/'' \<notin> set i" "CHR '','' \<notin> set i" "CHR ''/'' \<in> set j" "CHR '','' \<notin> set j"
    and "he_fold env (tb_value badge) \<noteq> he_fold env []"
  shows "(bd_isMatch env (h\<lparr>bd_badgeName := i\<rparr>) badge \<longleftrightarrow> he_fold env i = he_fold env (tb_key badge)) \<and>
    (bd_isMatch env (h\<lparr>bd_badgeName := i @ '','' @ j\<rparr>) badge \<longleftrightarrow> bd_isMatch env (h\<lparr>bd_badgeName := j\<rparr>) badge)"
proof -
  have "takeWhile (\<lambda>c. c \<noteq> CHR ''/'') i = i" using assms(1) by (auto simp: takeWhile_eq_all_conv)
  then have "slashKeyValue i = (i, [])" unfolding slashKeyValue_def by (simp only:) simp
  moreover have "splitOn (CHR '','') (i @ '','' @ j) = [i, j]"
    using assms(2,4) by (simp add: splitOn_append splitOn_no_sep)
  ultimately show ?thesis
    using assms by (auto simp: bd_isMatch_def bd_isMulti_def bd_compare_def bd_hasVersions_def Let_def)
qed

theorem badge_without_version_is_lost_witness:
  "(let h = \<lparr>bd_badgeName = [], bd_displayName = [], bd_showInMentions = False, bd_hasAlert = False, bd_hasSound = False,
       bd_soundUrl = [], bd_color = Argb 0\<rparr>
    in bd_isMatch sampleHighlightEnv (h\<lparr>bd_badgeName := ''vip''\<rparr>) (TwitchBadge ''vip'' ''1'') \<and>
       \<not> bd_isMatch sampleHighlightEnv (h\<lparr>bd_badgeName := ''vip,subscriber/12''\<rparr>) (TwitchBadge ''vip'' ''1''))"
proof -
  let ?h = "\<lparr>bd_badgeName = [], bd_displayName = [], bd_showInMentions = False, bd_hasAlert = False, bd_hasSound = False,
       bd_soundUrl = [], bd_color = Argb 0\<rparr>"
  have "he_fold sampleHighlightEnv (tb_value (TwitchBadge ''vip'' ''1'')) \<noteq> he_fold sampleHighlightEnv []"
    by (simp add: sampleHighlightEnv_def TwitchBadge_def)
  from badge_without_version_is_lost[of "''vip''" "''subscriber/12''" sampleHighlightEnv "TwitchBadge ''vip'' ''1''" ?h, OF _ _ _ _ this]
  show ?thesis
    by (simp add: sampleHighlightEnv_def TwitchBadge_def bd_isMatch_def bd_isMulti_def bd_compare_def bd_hasVersions_def
        slashKeyValue_def)
qed


lemma missing_color_equals_every_color:
  "hr_eq p (r\<lparr>hr_color := Some x\<rparr>) (r\<lparr>hr_color := None\<rparr>) \<and> hr_eq p (r\<lparr>hr_color := None\<rparr>) (r\<lparr>hr_color := Some y\<rparr>)
   \<and> (hr_eq p (r\<lparr>hr_color := Some x\<rparr>) (r\<lparr>hr_color := Some y\<rparr>) \<longleftrightarrow> colorOf p x = colorOf p y)"
  by (simp add: hr_eq_def)

end
