(* ===== verification/SplitTree.thy ===== *)
theory SplitTree
  imports Prelude ChannelTypes Complex_Main
begin

text \<open>
  The tree of splits in a tab: \<open>SplitContainer::Node\<close> and the operations of \<open>SplitContainer\<close> on it, in
  \<open>src/widgets/splits/SplitContainer.cpp\<close>.

  A node keeps its identity when it changes its type and takes over the children of another node, and positions
  refer to it; so a node has a number, and the container the next free one.  The parent of a node is the node above
  it.  The geometry of the nodes is not part of the model; their shares of the space (\<open>flex\<close>) are carried along.
  A failed assertion and an access to an element of an empty vector are \<open>None\<close>.  The focus that a widget gets
  is an event of its own (\<open>setSelected\<close>).  A loaded tab is built from a descriptor by \<open>applyFromDescriptor\<close>: a new
  \<open>Split\<close> gets the next number and what it shows is a \<open>split_info\<close>; the server that gives its channel is an argument.

  The lemmas show that in every state that operations reach the tree is well formed and its leaves are the splits of
  the tab, where a new split appears, that removing one removes it only, and that a split that is dragged and not
  dropped goes back to its place when directions alternate, but not when containers of one direction are nested.
\<close>

section \<open>Nodes\<close>

datatype split_direction = Left | Above | Right | Below

datatype node_type = EmptyRoot | SplitType | VerticalContainer | HorizontalContainer

type_synonym split = nat

datatype node = Node (nd_id: nat) (nd_type: node_type) (nd_split: "split option") (nd_prefered: "nat option")
  (nd_flexH: rat) (nd_flexV: rat) (nd_children: "node list")

type_synonym node_position = "nat option \<times> split_direction"

definition toContainerType :: "split_direction \<Rightarrow> node_type" where
  "toContainerType dir = (if dir = Left \<or> dir = Right then HorizontalContainer else VerticalContainer)"

fun node_ids :: "node \<Rightarrow> nat list" where
  "node_ids (Node i t sp pr fh fv cs) = i # concat (map node_ids cs)"

definition isOrContainsNode :: "nat \<Rightarrow> node \<Rightarrow> bool" where
  "isOrContainsNode j n \<longleftrightarrow> j \<in> set (node_ids n)"

fun findNodeContainingSplit :: "split \<Rightarrow> node \<Rightarrow> node option"
  and findInNodes :: "split \<Rightarrow> node list \<Rightarrow> node option" where
  "findNodeContainingSplit s (Node i t sp pr fh fv cs) =
     (if t = SplitType \<and> sp = Some s then Some (Node i t sp pr fh fv cs) else findInNodes s cs)"
| "findInNodes s [] = None"
| "findInNodes s (n # ns) =
     (case findNodeContainingSplit s n of Some m \<Rightarrow> Some m | None \<Rightarrow> findInNodes s ns)"

definition newNode :: "nat \<Rightarrow> split \<Rightarrow> node" where
  "newNode i s = Node i SplitType (Some s) None 1 1 []"

definition insertNextToThis :: "nat \<Rightarrow> split \<Rightarrow> split_direction \<Rightarrow> nat \<Rightarrow> node list \<Rightarrow> node list" where
  "insertNextToThis k s dir fresh siblings =
     (let it = (if dir = Right \<or> dir = Below then k + 1 else k)
      in take it siblings @ newNode fresh s # drop it siblings)"

fun nestSplitIntoCollection :: "split \<Rightarrow> split_direction \<Rightarrow> nat \<Rightarrow> node \<Rightarrow> node" where
  "nestSplitIntoCollection s dir fresh (Node i t sp pr fh fv cs) =
     (if toContainerType dir = t then Node i t sp pr fh fv (cs @ [newNode fresh s])
      else let clone = Node fresh t sp None 1 1 cs
      in Node i (toContainerType dir) None pr fh fv (insertNextToThis 0 s dir (fresh + 1) [clone]))"

fun setSplit :: "split \<Rightarrow> node \<Rightarrow> node" where
  "setSplit s (Node i t sp pr fh fv cs) = Node i SplitType (Some s) pr fh fv cs"

text \<open>\<open>insertSplitRelative\<close> of the node with a number: below the root, and at the root.\<close>

fun insertBelow :: "nat \<Rightarrow> split \<Rightarrow> split_direction \<Rightarrow> nat \<Rightarrow> node \<Rightarrow> node" where
  "insertBelow j s dir fresh (Node i t sp pr fh fv cs) =
     (case first_index (\<lambda>c. nd_id c = j) cs of
        Some k \<Rightarrow> Node i t sp pr fh fv
          (if t = toContainerType dir then insertNextToThis k s dir fresh cs
           else cs[k := nestSplitIntoCollection s dir fresh (cs ! k)])
      | None \<Rightarrow> Node i t sp pr fh fv (map (insertBelow j s dir fresh) cs))"

definition insertSplitRelative :: "nat \<Rightarrow> split \<Rightarrow> split_direction \<Rightarrow> nat \<Rightarrow> node \<Rightarrow> node" where
  "insertSplitRelative j s dir fresh base =
     (if nd_id base = j then (if nd_type base = EmptyRoot then setSplit s base else nestSplitIntoCollection s dir fresh base)
      else insertBelow j s dir fresh base)"

text \<open>\<open>Node::releaseSplit\<close> of the node with a number.\<close>

definition releaseChild :: "nat \<Rightarrow> node_type \<Rightarrow> nat \<Rightarrow> node list \<Rightarrow> (node list \<times> node_position) option" where
  "releaseChild i t k siblings =
     (if k = length siblings - 1 then
        (let rest = butlast siblings
         in if rest = [] then None
            else Some (rest, Some (nd_id (last rest)), if t = VerticalContainer then Below else Right))
      else Some (take k siblings @ drop (k + 1) siblings, Some (nd_id (siblings ! (k + 1))),
                 if t = VerticalContainer then Above else Left))"

fun releaseBelow :: "nat \<Rightarrow> node \<Rightarrow> (node \<times> node_position) option"
  and releaseInNodes :: "nat \<Rightarrow> node list \<Rightarrow> (node list \<times> node_position) option" where
  "releaseBelow j (Node i t sp pr fh fv cs) =
     (case first_index (\<lambda>c. nd_id c = j) cs of
        Some k \<Rightarrow>
          if length cs = 2 then
            (let dir = (if t = VerticalContainer then (if k = 0 then Above else Below) else (if k = 0 then Left else Right));
                 sibling = cs ! (1 - k)
             in Some (Node i (nd_type sibling) (nd_split sibling) pr fh fv (nd_children sibling), Some i, dir))
          else map_option (\<lambda>(cs', p). (Node i t sp pr fh fv cs', p)) (releaseChild i t k cs)
      | None \<Rightarrow> map_option (\<lambda>(cs', p). (Node i t sp pr fh fv cs', p)) (releaseInNodes j cs))"
| "releaseInNodes j [] = None"
| "releaseInNodes j (n # ns) =
     (if isOrContainsNode j n then map_option (\<lambda>(n', p). (n' # ns, p)) (releaseBelow j n)
      else map_option (\<lambda>(ns', p). (n # ns', p)) (releaseInNodes j ns))"

fun releaseRoot :: "node \<Rightarrow> node \<times> node_position" where
  "releaseRoot (Node i t sp pr fh fv cs) = (Node i EmptyRoot None pr fh fv cs, None, Right)"

definition releaseNode :: "nat \<Rightarrow> node \<Rightarrow> (node \<times> node_position) option" where
  "releaseNode j base = (if nd_id base = j then Some (releaseRoot base) else releaseBelow j base)"

section \<open>Focus\<close>

fun setPreferedTargetRecursive :: "nat \<Rightarrow> node \<Rightarrow> node" where
  "setPreferedTargetRecursive j (Node i t sp pr fh fv cs) =
     (case first_index (isOrContainsNode j) cs of
        None \<Rightarrow> Node i t sp pr fh fv cs
      | Some k \<Rightarrow> Node i t sp (Some (nd_id (cs ! k))) fh fv (map (setPreferedTargetRecursive j) cs))"

text \<open>The split that gets the focus; the first child of a container without children is undefined.\<close>

fun focusSplitRecursive :: "node \<Rightarrow> split option" where
  "focusSplitRecursive (Node i t sp pr fh fv cs) =
     (if t = SplitType then sp
      else if t = HorizontalContainer \<or> t = VerticalContainer then
        (let fs = map focusSplitRecursive cs
         in case first_index (\<lambda>c. pr = Some (nd_id c)) cs of
              Some k \<Rightarrow> fs ! k
            | None \<Rightarrow> (case fs of [] \<Rightarrow> None | f # _ \<Rightarrow> f))
      else None)"

fun getTopRightSplit :: "node \<Rightarrow> split option" where
  "getTopRightSplit (Node i t sp pr fh fv cs) =
     (if t = SplitType then sp
      else let fs = map getTopRightSplit cs
      in if t = VerticalContainer \<and> fs \<noteq> [] then hd fs
         else if t = HorizontalContainer \<and> fs \<noteq> [] then last fs
         else None)"

text \<open>The way up from a node, for \<open>selectSplitRecursive\<close>.\<close>

fun pathTo :: "nat \<Rightarrow> node \<Rightarrow> node list" where
  "pathTo j (Node i t sp pr fh fv cs) =
     (if i = j then [Node i t sp pr fh fv cs]
      else case filter (\<lambda>p. p \<noteq> []) (map (pathTo j) cs) of
             [] \<Rightarrow> []
           | p # _ \<Rightarrow> p @ [Node i t sp pr fh fv cs])"

fun selectSplitRecursive :: "split_direction \<Rightarrow> node list \<Rightarrow> split option" where
  "selectSplitRecursive dir (n # parent # rest) =
     (if nd_type parent = toContainerType dir then
        (case first_index (\<lambda>c. nd_id c = nd_id n) (nd_children parent) of
           None \<Rightarrow> None
         | Some k \<Rightarrow>
             if dir = Left \<or> dir = Above then
               (if k = 0 then selectSplitRecursive dir (parent # rest)
                else focusSplitRecursive (nd_children parent ! (k - 1)))
             else
               (if k = length (nd_children parent) - 1 then selectSplitRecursive dir (parent # rest)
                else focusSplitRecursive (nd_children parent ! (k + 1))))
      else selectSplitRecursive dir (parent # rest))"
| "selectSplitRecursive dir ns = None"

section \<open>The container\<close>

record split_container =
  sc_base :: node
  sc_splits :: "split list"
  sc_selected :: "split option"
  sc_fresh :: nat

definition newContainer :: split_container where
  "newContainer = \<lparr>sc_base = Node 0 EmptyRoot None None 1 1 [], sc_splits = [], sc_selected = None, sc_fresh = 1\<rparr>"

record insert_options =
  io_position :: "node_position option"
  io_relativeSplit :: "split option"
  io_relativeNode :: "nat option"
  io_direction :: "split_direction option"

definition noOptions :: insert_options where
  "noOptions = \<lparr>io_position = None, io_relativeSplit = None, io_relativeNode = None, io_direction = None\<rparr>"

definition addSplit :: "split \<Rightarrow> node \<Rightarrow> split_container \<Rightarrow> split_container" where
  "addSplit s base c = c\<lparr>sc_base := base, sc_splits := sc_splits c @ [s], sc_fresh := sc_fresh c + 2\<rparr>"

definition insertSplit :: "split \<Rightarrow> insert_options \<Rightarrow> split_container \<Rightarrow> split_container option" where
  "insertSplit s options c =
     (if io_position options \<noteq> None \<and>
          (io_relativeSplit options \<noteq> None \<or> io_relativeNode options \<noteq> None \<or> io_direction options \<noteq> None) then None
      else let options1 = (case io_position options of
               Some (n, d) \<Rightarrow> options\<lparr>io_relativeNode := n, io_direction := Some d\<rparr> | None \<Rightarrow> options)
      in if io_relativeSplit options1 \<noteq> None \<and>
            (io_relativeNode options1 \<noteq> None \<or> findNodeContainingSplit (the (io_relativeSplit options1)) (sc_base c) = None) then None
      else let relativeTo = (case io_relativeSplit options1 of
               Some r \<Rightarrow> map_option nd_id (findNodeContainingSplit r (sc_base c)) | None \<Rightarrow> io_relativeNode options1);
           dir = (case io_direction options1 of Some d \<Rightarrow> d | None \<Rightarrow> Right)
      in (case relativeTo of
            None \<Rightarrow>
              Some (addSplit s
                (if nd_type (sc_base c) = EmptyRoot then setSplit s (sc_base c)
                 else if nd_type (sc_base c) = SplitType then nestSplitIntoCollection s dir (sc_fresh c) (sc_base c)
                 else insertSplitRelative (nd_id (sc_base c)) s dir (sc_fresh c) (sc_base c)) c)
          | Some j \<Rightarrow>
              if \<not> isOrContainsNode j (sc_base c) then None
              else Some (addSplit s (insertSplitRelative j s dir (sc_fresh c) (sc_base c)) c)))"

definition setSelected :: "split \<Rightarrow> split_container \<Rightarrow> split_container" where
  "setSelected s c =
     (if s \<notin> set (sc_splits c) then c
      else let c1 = c\<lparr>sc_selected := Some s\<rparr>
      in (case findNodeContainingSplit s (sc_base c) of
            None \<Rightarrow> c1
          | Some n \<Rightarrow> c1\<lparr>sc_base := setPreferedTargetRecursive (nd_id n) (sc_base c)\<rparr>))"

definition getSelectedSplit :: "split_container \<Rightarrow> split option" where
  "getSelectedSplit c = (case sc_selected c of Some s \<Rightarrow> if s \<in> set (sc_splits c) then Some s else None | None \<Rightarrow> None)"

definition releaseSplit :: "split \<Rightarrow> split_container \<Rightarrow> (split_container \<times> node_position) option" where
  "releaseSplit s c =
     (case findNodeContainingSplit s (sc_base c) of
        None \<Rightarrow> None
      | Some n \<Rightarrow> (case releaseNode (nd_id n) (sc_base c) of
          None \<Rightarrow> None
        | Some (base, position) \<Rightarrow> Some (c\<lparr>sc_splits := remove1 s (sc_splits c), sc_base := base\<rparr>, position)))"

definition selectNextSplit :: "split_direction \<Rightarrow> split_container \<Rightarrow> split option" where
  "selectNextSplit dir c =
     (case sc_selected c of
        None \<Rightarrow> None
      | Some s \<Rightarrow> (case findNodeContainingSplit s (sc_base c) of
          None \<Rightarrow> None
        | Some n \<Rightarrow> selectSplitRecursive dir (pathTo (nd_id n) (sc_base c))))"


section \<open>Loading a tab\<close>

text \<open>A descriptor of \<open>src/common/WindowDescriptors.hpp\<close>, and what a split shows.\<close>

record split_descriptor =
  sd_type :: string
  sd_channelName :: string
  sd_server :: int
  sd_moderationMode :: bool
  sd_spellCheckOverride :: "bool option"
  sd_filters :: "string list"

datatype node_descriptor =
    SplitNode split_descriptor rat rat
  | ContainerNode rat rat bool "node_descriptor list"

record split_info =
  si_type :: channel_type
  si_channel :: string
  si_moderationMode :: bool
  si_spellOverride :: "bool option"
  si_filters :: "string list"

text \<open>\<open>decodeChannel\<close>: the argument \<open>server\<close> is the type and the name of the channel that the server gives for
  a type and a name.\<close>

definition decodeChannel :: "(channel_type \<Rightarrow> string \<Rightarrow> channel_type \<times> string) \<Rightarrow> split_descriptor \<Rightarrow> channel_type \<times> string" where
  "decodeChannel server d =
     (if sd_type d = ''twitch'' then server Twitch (sd_channelName d)
      else if sd_type d = ''mentions'' then server TwitchMentions []
      else if sd_type d = ''watching'' then server TwitchWatching []
      else if sd_type d = ''whispers'' then server TwitchWhispers []
      else if sd_type d = ''live'' then server TwitchLive []
      else if sd_type d = ''automod'' then server TwitchAutomod []
      else if sd_type d = ''misc'' then server Misc (sd_channelName d)
      else (TypeNone, []))"

definition newSplitInfo :: "(channel_type \<Rightarrow> string \<Rightarrow> channel_type \<times> string) \<Rightarrow> split_descriptor \<Rightarrow> split_info" where
  "newSplitInfo server d =
     (case decodeChannel server d of (t, n) \<Rightarrow>
        \<lparr>si_type = t, si_channel = n, si_moderationMode = sd_moderationMode d, si_spellOverride = sd_spellCheckOverride d,
         si_filters = sd_filters d\<rparr>)"

text \<open>A tab with what its splits show; the number of the next split is the number of splits that were made.\<close>

record split_tab =
  st_container :: split_container
  st_infos :: "split_info list"

definition infoOf :: "split_tab \<Rightarrow> split \<Rightarrow> split_info" where
  "infoOf tab s = st_infos tab ! s"

definition newTab :: split_tab where
  "newTab = \<lparr>st_container = newContainer, st_infos = []\<rparr>"

text \<open>The items of a container: the nodes, the next node, and the splits that were added.\<close>

fun applyItem :: "(channel_type \<Rightarrow> string \<Rightarrow> channel_type \<times> string) \<Rightarrow> node_descriptor \<Rightarrow> nat \<times> split_info list \<Rightarrow>
    node \<times> nat \<times> split_info list"
  and applyItems :: "(channel_type \<Rightarrow> string \<Rightarrow> channel_type \<times> string) \<Rightarrow> node_descriptor list \<Rightarrow> nat \<times> split_info list \<Rightarrow>
    node list \<times> nat \<times> split_info list" where
  "applyItem server (SplitNode d fh fv) (fresh, infos) =
     (Node fresh SplitType (Some (length infos)) None fh fv [], fresh + 1, infos @ [newSplitInfo server d])"
| "applyItem server (ContainerNode fh fv vert ns) (fresh, infos) =
     (case applyItems server ns (fresh + 1, infos) of (cs, st) \<Rightarrow>
        (Node fresh (if vert then VerticalContainer else HorizontalContainer) None None fh fv cs, st))"
| "applyItems server [] st = ([], st)"
| "applyItems server (n # ns) st =
     (case applyItem server n st of (c, st1) \<Rightarrow> (case applyItems server ns st1 of (cs, st2) \<Rightarrow> (c # cs, st2)))"

text \<open>\<open>applyFromDescriptor\<close> on an empty tab: a split is inserted, a container becomes the root.\<close>

fun asRoot :: "node_type \<Rightarrow> node list \<Rightarrow> node \<Rightarrow> node" where
  "asRoot t cs (Node i t' sp pr fh fv cs') = Node i t sp pr fh fv (cs' @ cs)"

fun applyFromDescriptor ::
  "(channel_type \<Rightarrow> string \<Rightarrow> channel_type \<times> string) \<Rightarrow> node_descriptor \<Rightarrow> split_tab \<Rightarrow> split_tab option" where
  "applyFromDescriptor server (SplitNode d fh fv) tab =
     (if nd_type (sc_base (st_container tab)) \<noteq> EmptyRoot then None
      else map_option (\<lambda>c. \<lparr>st_container = c, st_infos = st_infos tab @ [newSplitInfo server d]\<rparr>)
        (insertSplit (length (st_infos tab)) noOptions (st_container tab)))"
| "applyFromDescriptor server (ContainerNode fh fv vert ns) tab =
     (if nd_type (sc_base (st_container tab)) \<noteq> EmptyRoot then None
      else let c = st_container tab;
               (cs, fresh, infos) = applyItems server ns (sc_fresh c, st_infos tab)
      in Some \<lparr>st_container = c\<lparr>sc_base := asRoot (if vert then VerticalContainer else HorizontalContainer) cs (sc_base c),
                  sc_splits := sc_splits c @ [length (st_infos tab)..<length infos], sc_fresh := fresh\<rparr>, st_infos = infos\<rparr>)"


section \<open>Leaves and well-formed trees\<close>

text \<open>The nodes of splits in order, with their numbers.\<close>

fun leaves :: "node \<Rightarrow> (nat \<times> split) list" where
  "leaves (Node i t sp pr fh fv cs) =
     (if t = SplitType then (case sp of Some s \<Rightarrow> [(i, s)] | None \<Rightarrow> []) else concat (map leaves cs))"

definition splitsOf :: "node \<Rightarrow> split list" where
  "splitsOf n = map snd (leaves n)"

definition isContainer :: "node_type \<Rightarrow> bool" where
  "isContainer t \<longleftrightarrow> t = VerticalContainer \<or> t = HorizontalContainer"

lemma isContainer_simps [simp]:
  "\<not> isContainer SplitType" "\<not> isContainer EmptyRoot" "isContainer VerticalContainer" "isContainer HorizontalContainer"
  "isContainer (toContainerType dir)"
  by (simp_all add: isContainer_def toContainerType_def)

lemma toContainerType_neq [simp]: "toContainerType dir \<noteq> SplitType" "toContainerType dir \<noteq> EmptyRoot"
  "SplitType \<noteq> toContainerType dir" "EmptyRoot \<noteq> toContainerType dir"
  by (simp_all add: toContainerType_def)

fun wf_node :: "node \<Rightarrow> bool" where
  "wf_node (Node i t sp pr fh fv cs) \<longleftrightarrow>
     (t = SplitType \<and> sp \<noteq> None \<and> cs = []) \<or> (isContainer t \<and> sp = None \<and> length cs \<ge> 2 \<and> list_all wf_node cs)"

lemma leaves_container [simp]: "isContainer t \<Longrightarrow> leaves (Node i t sp pr fh fv cs) = concat (map leaves cs)"
  by (auto simp: isContainer_def)

lemma isContainer_neq [simp]: "isContainer t \<Longrightarrow> (t = SplitType) = False" "isContainer t \<Longrightarrow> (t = EmptyRoot) = False"
  by (auto simp: isContainer_def)

lemma leaves_newNode [simp]: "leaves (newNode i s) = [(i, s)]"
  by (simp add: newNode_def)

lemma newNode_simps [simp]: "wf_node (newNode i s)" "node_ids (newNode i s) = [i]" "nd_id (newNode i s) = i"
  by (simp_all add: newNode_def)

lemma nd_id_in_ids [simp]: "nd_id n \<in> set (node_ids n)"
  by (cases n) simp

lemma leaves_ids: "(j, s) \<in> set (leaves n) \<Longrightarrow> j \<in> set (node_ids n)"
  by (induction n) (auto split: option.splits if_splits)

lemma wf_not_empty: "wf_node n \<Longrightarrow> nd_type n \<noteq> EmptyRoot"
  by (cases n) auto

text \<open>The way to a node: the children before, the child on the way and the children behind.\<close>

lemma node_path_induct [consumes 3, case_names child deeper]:
  assumes "distinct (node_ids n)" "j \<in> set (node_ids n)" "j \<noteq> nd_id n"
    and child: "\<And>i t sp pr fh fv as c bs. distinct (node_ids (Node i t sp pr fh fv (as @ c # bs))) \<Longrightarrow> nd_id c = j \<Longrightarrow>
      list_all (\<lambda>x. j \<notin> set (node_ids x)) (as @ bs) \<Longrightarrow> j \<noteq> i \<Longrightarrow> P (Node i t sp pr fh fv (as @ c # bs))"
    and deeper: "\<And>i t sp pr fh fv as c bs. distinct (node_ids (Node i t sp pr fh fv (as @ c # bs))) \<Longrightarrow> nd_id c \<noteq> j \<Longrightarrow>
      j \<in> set (node_ids c) \<Longrightarrow> list_all (\<lambda>x. j \<notin> set (node_ids x)) (as @ bs) \<Longrightarrow> j \<noteq> i \<Longrightarrow> P c \<Longrightarrow>
      P (Node i t sp pr fh fv (as @ c # bs))"
  shows "P n"
  using assms(1-3)
proof (induction n)
  case (Node i t sp pr fh fv cs)
  from Node.prems have "j \<in> set (concat (map node_ids cs))" "j \<noteq> i" by auto
  then obtain c where c: "c \<in> set cs" "j \<in> set (node_ids c)" by auto
  then obtain as bs where cs: "cs = as @ c # bs" by (auto simp: in_set_conv_decomp)
  have apart: "list_all (\<lambda>x. j \<notin> set (node_ids x)) (as @ bs)" and dc: "distinct (node_ids c)"
    using Node.prems(1) c(2) by (auto simp: cs list_all_iff)
  show ?case
  proof (cases "nd_id c = j")
    case True
    show ?thesis using child[OF _ True apart \<open>j \<noteq> i\<close>] Node.prems(1) by (simp add: cs)
  next
    case False
    have "P c" using Node.IH[OF c(1) dc c(2)] False by simp
    then show ?thesis using deeper[OF _ False c(2) apart \<open>j \<noteq> i\<close>] Node.prems(1) by (simp add: cs)
  qed
qed

lemma first_child:
  "list_all (\<lambda>x. j \<notin> set (node_ids x)) as \<Longrightarrow>
   first_index (\<lambda>c. nd_id c = j) (as @ c # bs)
     = (if nd_id c = j then Some (length as) else map_option ((+) (Suc (length as))) (first_index (\<lambda>c. nd_id c = j) bs))"
proof (induction as)
  case (Cons a as)
  then have "nd_id a \<noteq> j" by auto
  with Cons show ?case by (cases "first_index (\<lambda>c. nd_id c = j) bs") simp_all
qed (cases "first_index (\<lambda>c. nd_id c = j) bs"; simp)

lemma no_child: "list_all (\<lambda>x. j \<notin> set (node_ids x)) bs \<Longrightarrow> first_index (\<lambda>c. nd_id c = j) bs = None"
  by (auto simp: first_index_None_iff list_all_iff)

lemma insertBelow_other: "j \<notin> set (node_ids n) \<Longrightarrow> insertBelow j s dir f n = n"
proof (induction n)
  case (Node i t sp pr fh fv cs)
  then have "first_index (\<lambda>c. nd_id c = j) cs = None" by (intro no_child) (auto simp: list_all_iff)
  with Node show ?case by (simp add: map_idI)
qed

definition after_dir :: "split_direction \<Rightarrow> bool" where
  "after_dir dir \<longleftrightarrow> dir = Right \<or> dir = Below"

lemma insertNextToThis_eq:
  "insertNextToThis (length as) s dir f (as @ c # bs)
     = as @ (if after_dir dir then [c, newNode f s] else [newNode f s, c]) @ bs"
  by (simp add: insertNextToThis_def after_dir_def)

lemma insertBelow_at:
  assumes "list_all (\<lambda>x. j \<notin> set (node_ids x)) (as @ bs)"
  shows "insertBelow j s dir f (Node i t sp pr fh fv (as @ c # bs)) =
    (if nd_id c = j then Node i t sp pr fh fv
       (if t = toContainerType dir then as @ (if after_dir dir then [c, newNode f s] else [newNode f s, c]) @ bs
        else as @ nestSplitIntoCollection s dir f c # bs)
     else Node i t sp pr fh fv (as @ insertBelow j s dir f c # bs))"
proof -
  have "map (insertBelow j s dir f) as = as" "map (insertBelow j s dir f) bs = bs"
    using assms by (auto simp: list_all_iff insertBelow_other intro!: map_idI)
  with assms show ?thesis
    by (simp add: first_child no_child insertNextToThis_eq list_update_append)
qed

lemma nest_leaf:
  "nestSplitIntoCollection s dir f (Node i SplitType sp pr fh fv cs)
     = Node i (toContainerType dir) None pr fh fv
         (if after_dir dir then [Node f SplitType sp None 1 1 cs, newNode (f + 1) s]
          else [newNode (f + 1) s, Node f SplitType sp None 1 1 cs])"
  by (simp add: insertNextToThis_def after_dir_def)

lemma wf_nest: "wf_node n \<Longrightarrow> wf_node (nestSplitIntoCollection s dir f n)"
  by (cases n) (auto simp: insertNextToThis_def)

lemma wf_insertBelow: "wf_node n \<Longrightarrow> wf_node (insertBelow j s dir f n)"
proof (induction n)
  case (Node i t sp pr fh fv cs)
  show ?case
  proof (cases "first_index (\<lambda>c. nd_id c = j) cs")
    case None
    with Node show ?thesis by (auto simp: list_all_iff)
  next
    case (Some k)
    then have k: "k < length cs" by (simp add: first_index_Some_iff)
    then have "cs ! k \<in> set cs" by simp
    with Some k Node.prems wf_nest[of "cs ! k"] show ?thesis
      by (auto simp: list_all_iff insertNextToThis_def Let_def dest: in_set_takeD in_set_dropD
          dest!: set_update_subset_insert[THEN subsetD])
  qed
qed

text \<open>The new split stands next to the split that it was put beside.\<close>

definition beside :: "nat \<Rightarrow> split \<Rightarrow> split_direction \<Rightarrow> (nat \<times> split) list \<Rightarrow> split list" where
  "beside j s dir ps = concat (map (\<lambda>(i, r). if i = j then (if after_dir dir then [r, s] else [s, r]) else [r]) ps)"

lemma beside_append [simp]: "beside j s dir (ps @ qs) = beside j s dir ps @ beside j s dir qs"
  by (simp add: beside_def)

lemma beside_other: "j \<notin> set (map fst ps) \<Longrightarrow> beside j s dir ps = map snd ps"
  by (induction ps) (auto simp: beside_def)

lemma beside_leaves: "j \<notin> set (node_ids n) \<Longrightarrow> beside j s dir (leaves n) = splitsOf n"
  unfolding splitsOf_def by (rule beside_other) (auto dest: leaves_ids)

lemma beside_children:
  "list_all (\<lambda>x. j \<notin> set (node_ids x)) ns \<Longrightarrow> beside j s dir (concat (map leaves ns)) = concat (map splitsOf ns)"
  by (induction ns) (simp_all add: beside_leaves, simp add: beside_def)

lemma splitsOf_container [simp]: "isContainer t \<Longrightarrow> splitsOf (Node i t sp pr fh fv cs) = concat (map splitsOf cs)"
  by (simp add: splitsOf_def[abs_def] map_concat comp_def)

lemma splitsOf_newNode [simp]: "splitsOf (newNode i s) = [s]"
  by (simp add: splitsOf_def)

lemma nest_leaf_splits:
  "splitsOf (nestSplitIntoCollection s dir f (Node i SplitType (Some r) pr fh fv cs)) = (if after_dir dir then [r, s] else [s, r])"
  unfolding nest_leaf by (simp add: splitsOf_def)

lemma leaf_child:
  assumes "distinct (node_ids c)" "(nd_id c, r) \<in> set (leaves c)"
  obtains pr fh fv cs where "c = Node (nd_id c) SplitType (Some r) pr fh fv cs"
proof -
  obtain i t sp pr fh fv cs where c: "c = Node i t sp pr fh fv cs" by (cases c)
  have "i \<notin> set (map fst (concat (map leaves cs)))"
    using assms(1) by (auto simp: c dest: leaves_ids)
  then have "(i, r) \<notin> set (concat (map leaves cs))" by force
  with assms(2) have "t = SplitType \<and> sp = Some r" by (auto simp: c split: option.splits if_splits)
  then show thesis using that c by simp
qed

lemma insertBelow_splits:
  assumes "distinct (node_ids n)" "j \<in> set (node_ids n)" "j \<noteq> nd_id n"
  shows "wf_node n \<Longrightarrow> (j, r) \<in> set (leaves n) \<Longrightarrow> splitsOf (insertBelow j s dir f n) = beside j s dir (leaves n)"
  using assms
proof (induction rule: node_path_induct)
  case (child i t sp pr fh fv as c bs)
  from child.prems(1) have t: "isContainer t" by auto
  have "(j, r) \<in> set (leaves c)"
    using child.prems(2) child.hyps(3) t by (auto simp: list_all_iff dest: leaves_ids)
  moreover have "distinct (node_ids c)" using child.hyps(1) by simp
  ultimately obtain pr' fh' fv' cs' where c: "c = Node j SplitType (Some r) pr' fh' fv' cs'"
    using child.hyps(2) leaf_child by metis
  have here: "beside j s dir (leaves c) = (if after_dir dir then [r, s] else [s, r])"
    by (simp add: c beside_def)
  have nested: "splitsOf (nestSplitIntoCollection s dir f c) = (if after_dir dir then [r, s] else [s, r])"
    unfolding c by (rule nest_leaf_splits)
  have "splitsOf c = [r]" by (simp add: c splitsOf_def)
  then show ?case
    unfolding insertBelow_at[OF child.hyps(3)] using child.hyps(2,3) t
    by (simp add: beside_children here nested)
next
  case (deeper i t sp pr fh fv as c bs)
  from deeper.prems(1) have t: "isContainer t" and "wf_node c" by auto
  have "(j, r) \<in> set (leaves c)"
    using deeper.prems(2) deeper.hyps(4) t by (auto simp: list_all_iff dest: leaves_ids)
  with deeper.IH \<open>wf_node c\<close> have "splitsOf (insertBelow j s dir f c) = beside j s dir (leaves c)" by simp
  then show ?case
    unfolding insertBelow_at[OF deeper.hyps(4)] using deeper.hyps(2,4) t by (simp add: beside_children)
qed


text \<open>Insertion adds one or two new nodes.\<close>

definition adds_nodes :: "nat \<Rightarrow> node \<Rightarrow> node \<Rightarrow> bool" where
  "adds_nodes f n n' \<longleftrightarrow> nd_id n' = nd_id n \<and>
     (mset (node_ids n') = add_mset f (mset (node_ids n)) \<or>
      mset (node_ids n') = add_mset f (add_mset (f + 1) (mset (node_ids n))))"

lemma adds_nest: "adds_nodes f n (nestSplitIntoCollection s dir f n)"
  by (cases n) (auto simp: adds_nodes_def insertNextToThis_def)

lemma adds_insertBelow:
  assumes "distinct (node_ids n)" "j \<in> set (node_ids n)" "j \<noteq> nd_id n"
  shows "adds_nodes f n (insertBelow j s dir f n)"
  using assms
proof (induction rule: node_path_induct)
  case (child i t sp pr fh fv as c bs)
  then show ?case
    unfolding insertBelow_at[OF child.hyps(3)] using adds_nest[of f c s dir]
    by (auto simp: adds_nodes_def)
next
  case (deeper i t sp pr fh fv as c bs)
  then show ?case
    unfolding insertBelow_at[OF deeper.hyps(4)] by (auto simp: adds_nodes_def)
qed

section \<open>Releasing a split\<close>

lemma releaseInNodes_at:
  assumes "list_all (\<lambda>x. j \<notin> set (node_ids x)) as" "j \<in> set (node_ids c)"
  shows "releaseInNodes j (as @ c # bs) = map_option (\<lambda>(c', p). (as @ c' # bs, p)) (releaseBelow j c)"
  using assms by (induction as) (auto simp: isOrContainsNode_def option.map_comp comp_def case_prod_unfold)

lemma releaseBelow_deeper:
  assumes "list_all (\<lambda>x. j \<notin> set (node_ids x)) (as @ bs)" "nd_id c \<noteq> j" "j \<in> set (node_ids c)"
  shows "releaseBelow j (Node i t sp pr fh fv (as @ c # bs))
    = map_option (\<lambda>(c', p). (Node i t sp pr fh fv (as @ c' # bs), p)) (releaseBelow j c)"
  using assms by (simp add: first_child no_child releaseInNodes_at option.map_comp comp_def case_prod_unfold)

definition side :: "node_type \<Rightarrow> bool \<Rightarrow> split_direction" where
  "side t before = (if t = VerticalContainer then (if before then Above else Below) else (if before then Left else Right))"

text \<open>The parent takes over the sibling that is left.\<close>

fun takeOver :: "nat \<Rightarrow> nat option \<Rightarrow> rat \<Rightarrow> rat \<Rightarrow> node \<Rightarrow> node" where
  "takeOver i pr fh fv (Node i' t sp pr' fh' fv' cs) = Node i t sp pr fh fv cs"

lemma releaseBelow_child:
  assumes apart: "list_all (\<lambda>x. j \<notin> set (node_ids x)) (as @ bs)" and id: "nd_id c = j"
  shows "releaseBelow j (Node i t sp pr fh fv (as @ c # bs)) =
    (if as = [] \<and> bs = [] then None
     else if length (as @ bs) = 1 then Some (takeOver i pr fh fv (hd (as @ bs)), Some i, side t (as = []))
     else if bs = [] then Some (Node i t sp pr fh fv as, Some (nd_id (last as)), side t False)
     else Some (Node i t sp pr fh fv (as @ bs), Some (nd_id (hd bs)), side t True))"
proof -
  have k: "first_index (\<lambda>c. nd_id c = j) (as @ c # bs) = Some (length as)"
    using apart id by (simp add: first_child)
  consider "as = []" "bs = []" | a where "as = [a]" "bs = []" | b where "as = []" "bs = [b]"
    | "length (as @ bs) \<ge> 2" "bs = []" | b bs' where "length (as @ bs) \<ge> 2" "bs = b # bs'"
    by (cases as; cases bs; cases "tl as"; cases "tl bs") auto
  then show ?thesis
  proof cases
    case 2
    then show ?thesis using k by (cases a) (simp add: side_def)
  next
    case 3
    then show ?thesis using k by (cases b) (simp add: side_def)
  next
    case 4
    then show ?thesis using k by (auto simp: releaseChild_def side_def butlast_append Let_def)
  next
    case 5
    then show ?thesis using k by (auto simp: releaseChild_def side_def nth_append Let_def)
  qed (use k in \<open>simp add: releaseChild_def\<close>)
qed

declare releaseBelow.simps [simp del] insertBelow.simps [simp del]

lemma takeOver_simps [simp]:
  "nd_id (takeOver i pr fh fv n) = i" "nd_type (takeOver i pr fh fv n) = nd_type n" "wf_node (takeOver i pr fh fv n) = wf_node n"
  "splitsOf (takeOver i pr fh fv n) = splitsOf n" "set (node_ids (takeOver i pr fh fv n)) \<subseteq> insert i (set (node_ids n))"
  by (cases n; auto simp: splitsOf_def split: option.split)+

lemma distinct_takeOver: "distinct (node_ids n) \<Longrightarrow> i \<notin> set (node_ids n) \<Longrightarrow> distinct (node_ids (takeOver i pr fh fv n))"
  by (cases n) auto

definition without :: "nat \<Rightarrow> (nat \<times> split) list \<Rightarrow> split list" where
  "without j ps = map snd (filter (\<lambda>p. fst p \<noteq> j) ps)"

lemma without_append [simp]: "without j (ps @ qs) = without j ps @ without j qs"
  by (simp add: without_def)

lemma without_leaves: "j \<notin> set (node_ids n) \<Longrightarrow> without j (leaves n) = splitsOf n"
  unfolding without_def splitsOf_def by (subst filter_True) (auto dest: leaves_ids)

lemma without_children:
  "list_all (\<lambda>x. j \<notin> set (node_ids x)) ns \<Longrightarrow> without j (concat (map leaves ns)) = concat (map splitsOf ns)"
  by (induction ns) (simp_all add: without_leaves, simp add: without_def)

lemma distinct_child: "distinct (concat (map f xs)) \<Longrightarrow> x \<in> set xs \<Longrightarrow> distinct (f x)"
  by (induction xs) auto

text \<open>What releasing a leaf gives: the node stays itself, the other splits stay, and the position is a node of the new tree.\<close>

definition released :: "nat \<Rightarrow> node \<Rightarrow> node \<Rightarrow> node_position \<Rightarrow> bool" where
  "released j n n' p \<longleftrightarrow> wf_node n' \<and> splitsOf n' = without j (leaves n) \<and> distinct (node_ids n') \<and>
     set (node_ids n') \<subseteq> set (node_ids n) \<and> nd_id n' = nd_id n \<and> (\<exists>q. fst p = Some q \<and> q \<in> set (node_ids n'))"

lemma releaseBelow_released:
  assumes "distinct (node_ids n)" "j \<in> set (node_ids n)" "j \<noteq> nd_id n"
  shows "wf_node n \<Longrightarrow> (j, r) \<in> set (leaves n) \<Longrightarrow> \<exists>n' p. releaseBelow j n = Some (n', p) \<and> released j n n' p"
  using assms
proof (induction rule: node_path_induct)
  case (child i t sp pr fh fv as c bs)
  from child.prems(1) have t: "isContainer t" and many: "1 \<le> length (as @ bs)" and wf: "list_all wf_node (as @ bs)"
    by (auto simp: list_all_iff)
  have "(j, r) \<in> set (leaves c)"
    using child.prems(2) child.hyps(3) t by (auto simp: list_all_iff dest: leaves_ids)
  moreover have "distinct (node_ids c)" using child.hyps(1) by simp
  ultimately obtain pr' fh' fv' cs' where c: "c = Node j SplitType (Some r) pr' fh' fv' cs'"
    using child.hyps(2) leaf_child by metis
  have left: "without j (leaves (Node i t sp pr fh fv (as @ c # bs))) = concat (map splitsOf (as @ bs))"
    using child.hyps(3) t by (simp add: without_children) (simp add: c without_def)
  consider (two) x where "as @ bs = [x]" | (more) "2 \<le> length (as @ bs)"
    using many by (cases "as @ bs"; cases "tl (as @ bs)") auto
  then show ?case
  proof cases
    case two
    then have x: "x \<in> set (as @ bs)" by simp
    have "releaseBelow j (Node i t sp pr fh fv (as @ c # bs)) = Some (takeOver i pr fh fv x, Some i, side t (as = []))"
      unfolding releaseBelow_child[OF child.hyps(3,2)] using two by auto
    moreover have "distinct (node_ids (takeOver i pr fh fv x))"
      using child.hyps(1) x by (intro distinct_takeOver) (auto dest: distinct_child)
    moreover have "set (node_ids (takeOver i pr fh fv x)) \<subseteq> set (node_ids (Node i t sp pr fh fv (as @ c # bs)))"
      by (rule order_trans[OF takeOver_simps(5)]) (use x in auto)
    moreover have "wf_node x" "splitsOf x = concat (map splitsOf (as @ bs))"
      using wf two by (simp_all only: two) simp_all
    moreover have "i \<in> set (node_ids (takeOver i pr fh fv x))" by (metis nd_id_in_ids takeOver_simps(1))
    ultimately show ?thesis unfolding released_def left by simp
  next
    case more
    have "distinct (node_ids (Node i t sp pr fh fv (as @ bs)))"
      "set (node_ids (Node i t sp pr fh fv (as @ bs))) \<subseteq> set (node_ids (Node i t sp pr fh fv (as @ c # bs)))"
      "wf_node (Node i t sp pr fh fv (as @ bs))"
      using child.hyps(1) child.prems(1) more t by auto
    moreover have "bs = [] \<Longrightarrow> as \<noteq> [] \<and> nd_id (last as) \<in> set (node_ids (Node i t sp pr fh fv as))"
      using more by (cases as rule: rev_cases) auto
    moreover have "bs \<noteq> [] \<Longrightarrow> nd_id (hd bs) \<in> set (node_ids (Node i t sp pr fh fv (as @ bs)))"
      by (auto intro!: bexI[of _ "hd bs"])
    ultimately show ?thesis
      using more t unfolding releaseBelow_child[OF child.hyps(3,2)] released_def left
      by (cases "bs = []") auto
  qed
next
  case (deeper i t sp pr fh fv as c bs)
  from deeper.prems(1) have t: "isContainer t" and "wf_node c" by auto
  have "(j, r) \<in> set (leaves c)"
    using deeper.prems(2) deeper.hyps(4) t by (auto simp: list_all_iff dest: leaves_ids)
  from deeper.IH[OF \<open>wf_node c\<close> this] obtain c' p where c': "releaseBelow j c = Some (c', p)" "released j c c' p" by blast
  have eq: "releaseBelow j (Node i t sp pr fh fv (as @ c # bs)) = Some (Node i t sp pr fh fv (as @ c' # bs), p)"
    unfolding releaseBelow_deeper[OF deeper.hyps(4,2,3)] by (simp add: c'(1))
  moreover have "released j (Node i t sp pr fh fv (as @ c # bs)) (Node i t sp pr fh fv (as @ c' # bs)) p"
    using c'(2) deeper.hyps(1,4) deeper.prems(1) t
    by (auto simp: released_def without_children) 
  ultimately show ?case by blast
qed


section \<open>The container\<close>

text \<open>A tree without splits is one empty root; the splits of the tree are the list of splits.\<close>

definition wf_container :: "split_container \<Rightarrow> bool" where
  "wf_container c \<longleftrightarrow>
     (if sc_splits c = [] then nd_type (sc_base c) = EmptyRoot \<and> nd_split (sc_base c) = None \<and> nd_children (sc_base c) = []
      else wf_node (sc_base c)) \<and>
     mset (splitsOf (sc_base c)) = mset (sc_splits c) \<and> distinct (sc_splits c) \<and>
     distinct (node_ids (sc_base c)) \<and> (\<forall>i \<in> set (node_ids (sc_base c)). i < sc_fresh c)"

lemma leaves_Some: "(j, s) \<in> set (leaves n) \<Longrightarrow> \<exists>m. findNodeContainingSplit s n \<noteq> None"
  and leaves_Some_nodes: "(j, s) \<in> set (concat (map leaves ns)) \<Longrightarrow> findInNodes s ns \<noteq> None"
  by (induction s n and s ns rule: findNodeContainingSplit_findInNodes.induct)
    (auto split: option.splits if_splits)

lemma find_leaf:
  "wf_node n \<Longrightarrow> findNodeContainingSplit s n = Some m \<Longrightarrow> (nd_id m, s) \<in> set (leaves n)"
  and find_leaf_nodes:
  "list_all wf_node ns \<Longrightarrow> findInNodes s ns = Some m \<Longrightarrow> (nd_id m, s) \<in> set (concat (map leaves ns))"
proof (induction s n and s ns rule: findNodeContainingSplit_findInNodes.induct)
  case (1 s i t sp pr fh fv cs)
  then show ?case by (auto split: if_splits)
qed (auto split: option.splits)

lemma find_iff: "wf_node n \<Longrightarrow> findNodeContainingSplit s n \<noteq> None \<longleftrightarrow> s \<in> set (splitsOf n)"
  using leaves_Some[of _ s n] find_leaf[of n s] by (force simp: splitsOf_def)

lemma wf_container_nonempty:
  assumes "wf_container c" "s \<in> set (sc_splits c)"
  shows "wf_node (sc_base c)" "s \<in> set (splitsOf (sc_base c))" "sc_splits c \<noteq> []"
  using assms by (auto simp: wf_container_def dest: mset_eq_setD split: if_splits)

lemma leaf_pair: "s \<in> set (splitsOf n) \<Longrightarrow> \<exists>j. (j, s) \<in> set (leaves n)"
  by (auto simp: splitsOf_def)

lemma wf_node_root_leaf:
  "wf_node n \<Longrightarrow> distinct (node_ids n) \<Longrightarrow> (nd_id n, s) \<in> set (leaves n) \<Longrightarrow>
   \<exists>pr fh fv. n = Node (nd_id n) SplitType (Some s) pr fh fv []"
  using leaf_child[of n s] by (metis wf_node.simps isContainer_simps(1))

text \<open>Insertion beside a node, in the whole tree.\<close>

lemma insertSplitRelative_ok:
  assumes "wf_node n" "distinct (node_ids n)" "j \<in> set (node_ids n)"
  shows "wf_node (insertSplitRelative j s dir f n)" "adds_nodes f n (insertSplitRelative j s dir f n)"
    "(j, r) \<in> set (leaves n) \<Longrightarrow> splitsOf (insertSplitRelative j s dir f n) = beside j s dir (leaves n)"
proof -
  have t: "nd_type n \<noteq> EmptyRoot" using wf_not_empty[OF assms(1)] .
  show "wf_node (insertSplitRelative j s dir f n)" "adds_nodes f n (insertSplitRelative j s dir f n)"
    using assms t by (auto simp: insertSplitRelative_def wf_nest adds_nest wf_insertBelow adds_insertBelow)
  show "splitsOf (insertSplitRelative j s dir f n) = beside j s dir (leaves n)" if leaf: "(j, r) \<in> set (leaves n)"
  proof (cases "nd_id n = j")
    case True
    with leaf assms wf_node_root_leaf[of n r] obtain pr fh fv where n: "n = Node j SplitType (Some r) pr fh fv []" by metis
    show ?thesis using nest_leaf_splits[of s dir f j r pr fh fv "[]"]
      by (simp add: n insertSplitRelative_def beside_def)
  next
    case False
    then show ?thesis using insertBelow_splits[OF assms(2,3), of r s dir f] leaf assms(1) t
      by (simp add: insertSplitRelative_def)
  qed
qed

text \<open>The nodes of a nest, without the split beside a leaf.\<close>

lemma nest_mset: "wf_node n \<Longrightarrow> mset (splitsOf (nestSplitIntoCollection s dir f n)) = add_mset s (mset (splitsOf n))"
  by (cases n) (auto simp: insertNextToThis_def splitsOf_def isContainer_def)

lemma insertBelow_mset:
  assumes "distinct (node_ids n)" "j \<in> set (node_ids n)" "j \<noteq> nd_id n"
  shows "wf_node n \<Longrightarrow> mset (splitsOf (insertBelow j s dir f n)) = add_mset s (mset (splitsOf n))"
  using assms
proof (induction rule: node_path_induct)
  case (child i t sp pr fh fv as c bs)
  then have "isContainer t" "wf_node c" by auto
  then show ?case
    unfolding insertBelow_at[OF child.hyps(3)] using child.hyps(2) nest_mset[of c s dir f] by simp
next
  case (deeper i t sp pr fh fv as c bs)
  then have "isContainer t" "wf_node c" by auto
  then show ?case
    unfolding insertBelow_at[OF deeper.hyps(4)] using deeper.hyps(2) deeper.IH by simp
qed

lemma insertSplitRelative_mset:
  assumes "wf_node n" "distinct (node_ids n)" "j \<in> set (node_ids n)"
  shows "mset (splitsOf (insertSplitRelative j s dir f n)) = add_mset s (mset (splitsOf n))"
  using assms wf_not_empty[OF assms(1)] insertBelow_mset[OF assms(2,3)]
  by (auto simp: insertSplitRelative_def nest_mset)


lemma leaf_unique:
  assumes "distinct (node_ids n)" "(j, r) \<in> set (leaves n)" "(j, x) \<in> set (leaves n)"
  shows "x = r"
proof (cases "nd_id n = j")
  case True
  with assms leaf_child[of n r] leaf_child[of n x] show ?thesis by (metis node.inject option.inject)
next
  case False
  have "j \<in> set (node_ids n)" using assms(2) by (rule leaves_ids)
  from assms(1) this False[symmetric] assms(2,3) show ?thesis
  proof (induction rule: node_path_induct)
    case (child i t sp pr fh fv as c bs)
    then have "(j, r) \<in> set (leaves c)" "(j, x) \<in> set (leaves c)" "distinct (node_ids c)"
      by (auto simp: list_all_iff dest: leaves_ids split: if_splits option.splits)
    with child.hyps(2) leaf_child[of c r] leaf_child[of c x] show ?case by (metis node.inject option.inject)
  next
    case (deeper i t sp pr fh fv as c bs)
    then have "(j, r) \<in> set (leaves c)" "(j, x) \<in> set (leaves c)"
      by (auto simp: list_all_iff dest: leaves_ids split: if_splits option.splits)
    with deeper.IH show ?case by blast
  qed
qed

definition putBeside :: "split \<Rightarrow> split \<Rightarrow> split_direction \<Rightarrow> split list \<Rightarrow> split list" where
  "putBeside r s dir xs = concat (map (\<lambda>x. if x = r then (if after_dir dir then [r, s] else [s, r]) else [x]) xs)"

lemma leaf_same_id:
  assumes "distinct (splitsOf n)" "(j, r) \<in> set (leaves n)" "(i, r) \<in> set (leaves n)"
  shows "i = j"
  using assms eq_key_imp_eq_value[of "map (\<lambda>(a, b). (b, a)) (leaves n)" r j i]
  by (force simp: splitsOf_def comp_def case_prod_unfold)

lemma beside_putBeside:
  assumes "distinct (node_ids n)" "distinct (splitsOf n)" "(j, r) \<in> set (leaves n)"
  shows "beside j s dir (leaves n) = putBeside r s dir (splitsOf n)"
proof -
  have "(fst p = j) = (snd p = r)" if "p \<in> set (leaves n)" for p
    using leaf_unique[OF assms(1,3)] leaf_same_id[OF assms(2,3)] that by (cases p) auto
  then have "map (\<lambda>(i, x). if i = j then (if after_dir dir then [x, s] else [s, x]) else [x]) (leaves n)
      = map (\<lambda>p. if snd p = r then (if after_dir dir then [r, s] else [s, r]) else [snd p]) (leaves n)"
    by (intro map_cong) auto
  then show ?thesis by (simp only: beside_def putBeside_def splitsOf_def map_map comp_def)
qed

lemma without_filter:
  assumes "distinct (node_ids n)" "distinct (splitsOf n)" "(j, r) \<in> set (leaves n)"
  shows "without j (leaves n) = filter (\<lambda>x. x \<noteq> r) (splitsOf n)"
proof -
  have "(fst p \<noteq> j) = (snd p \<noteq> r)" if "p \<in> set (leaves n)" for p
    using leaf_unique[OF assms(1,3)] leaf_same_id[OF assms(2,3)] that by (cases p) auto
  then have "filter (\<lambda>p. fst p \<noteq> j) (leaves n) = filter (\<lambda>p. snd p \<noteq> r) (leaves n)" by (intro filter_cong) auto
  then show ?thesis by (simp add: without_def splitsOf_def filter_map comp_def)
qed

lemma setPrefered_same [simp]:
  "nd_id (setPreferedTargetRecursive j n) = nd_id n" "nd_type (setPreferedTargetRecursive j n) = nd_type n"
  "nd_split (setPreferedTargetRecursive j n) = nd_split n"
  by (cases n; simp split: option.split)+

lemma setPrefered_tree [simp]:
  "node_ids (setPreferedTargetRecursive j n) = node_ids n" "leaves (setPreferedTargetRecursive j n) = leaves n"
  "wf_node (setPreferedTargetRecursive j n) = wf_node n"
  by (induction n) (auto simp: comp_def list_all_iff cong: map_cong split: option.split)

lemma setPrefered_children [simp]: "nd_children (setPreferedTargetRecursive j n) = [] \<longleftrightarrow> nd_children n = []"
  by (cases n) (simp split: option.split)

lemma wf_setSelected: "wf_container c \<Longrightarrow> wf_container (setSelected s c)"
  by (auto simp: wf_container_def setSelected_def splitsOf_def Let_def split: option.split)

lemma adds_nodes_fresh:
  assumes "adds_nodes f n n'" "distinct (node_ids n)" "\<forall>i \<in> set (node_ids n). i < f"
  shows "distinct (node_ids n')" "\<forall>i \<in> set (node_ids n'). i < f + 2"
proof -
  from assms(1) obtain xs where xs: "mset (node_ids n') = mset (xs @ node_ids n)" "xs = [f] \<or> xs = [f, f + 1]"
    by (auto simp: adds_nodes_def intro: that[of "[f]"] that[of "[f, f + 1]"])
  have "distinct (xs @ node_ids n)" using assms(2,3) xs(2) by auto
  then show "distinct (node_ids n')" using mset_eq_imp_distinct_iff[OF xs(1)] by simp
  have "set (node_ids n') = set (xs @ node_ids n)" using mset_eq_setD[OF xs(1)] .
  then show "\<forall>i \<in> set (node_ids n'). i < f + 2" using assms(3) xs(2) by auto
qed

text \<open>The tree that \<open>insertSplit\<close> adds the split to, beside a node or at the root.\<close>

lemma wf_addSplit:
  assumes "wf_container c" "s \<notin> set (sc_splits c)" "sc_splits c \<noteq> []" "j \<in> set (node_ids (sc_base c))"
  shows "wf_container (addSplit s (insertSplitRelative j s dir (sc_fresh c) (sc_base c)) c)"
proof -
  have wf: "wf_node (sc_base c)" "distinct (node_ids (sc_base c))" using assms(1,3) by (simp_all add: wf_container_def)
  note ok = insertSplitRelative_ok[OF wf assms(4)] insertSplitRelative_mset[OF wf assms(4)]
  show ?thesis
    using assms ok adds_nodes_fresh[OF ok(2)] by (simp add: wf_container_def addSplit_def)
qed

lemma wf_first_split:
  assumes "wf_container c" "sc_splits c = []"
  shows "wf_container (addSplit s (setSplit s (sc_base c)) c)"
  using assms by (cases "sc_base c") (auto simp: wf_container_def addSplit_def splitsOf_def)

lemma insertSplit_tree:
  assumes "wf_container c" "insertSplit s options c = Some c'"
  shows "c' = addSplit s (setSplit s (sc_base c)) c \<and> sc_splits c = [] \<or>
    (\<exists>j dir. j \<in> set (node_ids (sc_base c)) \<and> sc_splits c \<noteq> [] \<and>
       c' = addSplit s (insertSplitRelative j s dir (sc_fresh c) (sc_base c)) c)"
proof (cases "sc_splits c = []")
  case True
  with assms(1) obtain i pr fh fv where base: "sc_base c = Node i EmptyRoot None pr fh fv []"
    by (cases "sc_base c") (auto simp: wf_container_def)
  with assms(2) True show ?thesis
    by (auto simp: insertSplit_def insertSplitRelative_def isOrContainsNode_def Let_def split: if_splits option.splits)
next
  case False
  then have wf: "wf_node (sc_base c)" using assms(1) by (simp add: wf_container_def)
  then have t: "nd_type (sc_base c) \<noteq> EmptyRoot" by (rule wf_not_empty)
  have root: "nestSplitIntoCollection s dir f (sc_base c) = insertSplitRelative (nd_id (sc_base c)) s dir f (sc_base c)" for dir f
    using t by (simp add: insertSplitRelative_def)
  show ?thesis
    using assms(2) False t
    by (auto simp: insertSplit_def root isOrContainsNode_def Let_def split: if_splits option.splits)
      (blast intro: nd_id_in_ids)+
qed

lemma wf_insertSplit:
  "wf_container c \<Longrightarrow> s \<notin> set (sc_splits c) \<Longrightarrow> insertSplit s options c = Some c' \<Longrightarrow> wf_container c'"
  using insertSplit_tree wf_addSplit wf_first_split by blast


lemma leaf_exists: "wf_node n \<Longrightarrow> splitsOf n \<noteq> []"
proof (induction n)
  case (Node i t sp pr fh fv cs)
  show ?case
  proof (cases "isContainer t")
    case True
    with Node.prems obtain c cs' where "cs = c # cs'" by (cases cs) auto
    with Node True show ?thesis by auto
  qed (use Node.prems in \<open>auto simp: splitsOf_def\<close>)
qed

lemma releaseSplit_ok:
  assumes wf: "wf_container c" and s: "s \<in> set (sc_splits c)"
  shows "\<exists>c' p. releaseSplit s c = Some (c', p) \<and> wf_container c' \<and> sc_splits c' = remove1 s (sc_splits c)
    \<and> splitsOf (sc_base c') = filter (\<lambda>x. x \<noteq> s) (splitsOf (sc_base c))"
proof -
  let ?n = "sc_base c"
  note n = wf_container_nonempty[OF wf s]
  have d: "distinct (node_ids ?n)" "distinct (splitsOf ?n)" "mset (splitsOf ?n) = mset (sc_splits c)" "distinct (sc_splits c)"
    and fresh: "\<forall>i \<in> set (node_ids ?n). i < sc_fresh c"
    using wf mset_eq_imp_distinct_iff[of "splitsOf ?n" "sc_splits c"] by (simp_all add: wf_container_def)
  from n(2) find_iff[OF n(1)] obtain m where m: "findNodeContainingSplit s ?n = Some m" by blast
  let ?j = "nd_id m"
  have leaf: "(?j, s) \<in> set (leaves ?n)" using find_leaf[OF n(1) m] .
  have mset': "mset (filter (\<lambda>x. x \<noteq> s) (splitsOf ?n)) = mset (remove1 s (sc_splits c))"
    using d by (simp add: distinct_remove1_removeAll removeAll_filter_not_eq[abs_def] eq_commute[of s])
  show ?thesis
  proof (cases "nd_id ?n = ?j")
    case True
    with leaf n(1) d(1) wf_node_root_leaf[of ?n s] obtain pr fh fv where base: "?n = Node ?j SplitType (Some s) pr fh fv []"
      by metis
    then have one: "sc_splits c = [s]" using d(3) by (simp add: base splitsOf_def)
    have "releaseSplit s c = Some (c\<lparr>sc_splits := [], sc_base := Node ?j EmptyRoot None pr fh fv []\<rparr>, None, Right)"
      using m True one by (simp add: releaseSplit_def releaseNode_def) (subst base, simp)
    moreover have "wf_container (c\<lparr>sc_splits := [], sc_base := Node ?j EmptyRoot None pr fh fv []\<rparr>)"
      using fresh nd_id_in_ids[of ?n] True by (simp add: wf_container_def splitsOf_def)
    ultimately show ?thesis using one by (simp add: base splitsOf_def)
  next
    case False
    then obtain n' p where r: "releaseBelow ?j ?n = Some (n', p)" "released ?j ?n n' p"
      using releaseBelow_released[OF d(1) leaves_ids[OF leaf] False[symmetric] n(1) leaf] by blast
    have left: "splitsOf n' = filter (\<lambda>x. x \<noteq> s) (splitsOf ?n)"
      using r(2) without_filter[OF d(1,2) leaf] by (simp add: released_def)
    have wf': "wf_node n'" using r(2) by (simp add: released_def)
    have "sc_splits c \<noteq> [s]"
    proof
      assume "sc_splits c = [s]"
      then have "splitsOf n' = []" using left mset' by simp
      with leaf_exists[OF wf'] show False by simp
    qed
    then have "remove1 s (sc_splits c) \<noteq> []" using s by (cases "sc_splits c") auto
    with wf' r(2) left mset' fresh d(4) have "wf_container (c\<lparr>sc_splits := remove1 s (sc_splits c), sc_base := n'\<rparr>)"
      by (auto simp: wf_container_def released_def)
    moreover have "releaseSplit s c = Some (c\<lparr>sc_splits := remove1 s (sc_splits c), sc_base := n'\<rparr>, p)"
      using m r(1) False by (simp add: releaseSplit_def releaseNode_def)
    ultimately show ?thesis using left by simp
  qed
qed

section \<open>Runs\<close>

text \<open>Every container of a descriptor has at least two items, as in what the program saves.\<close>

fun branching :: "node_descriptor \<Rightarrow> bool" where
  "branching (SplitNode d fh fv) \<longleftrightarrow> True"
| "branching (ContainerNode fh fv vert ns) \<longleftrightarrow> 2 \<le> length ns \<and> list_all branching ns"

lemma upt_join: "i \<le> j \<Longrightarrow> j \<le> k \<Longrightarrow> [i..<j] @ [j..<k] = [i..<k]"
  using upt_add_eq_append[of i j "k - j"] by simp

text \<open>Loading numbers the nodes and the splits in the order of the descriptor.\<close>

lemma applyItem_wf:
  "applyItem server d st = (n, st') \<Longrightarrow> branching d \<Longrightarrow> wf_node n \<and> node_ids n = [fst st..<fst st']
     \<and> splitsOf n = [length (snd st)..<length (snd st')] \<and> fst st \<le> fst st' \<and> length (snd st) \<le> length (snd st')"
  and applyItems_wf:
  "applyItems server ds st = (ns, st') \<Longrightarrow> list_all branching ds \<Longrightarrow> list_all wf_node ns \<and> length ns = length ds
     \<and> concat (map node_ids ns) = [fst st..<fst st'] \<and> concat (map splitsOf ns) = [length (snd st)..<length (snd st')]
     \<and> fst st \<le> fst st' \<and> length (snd st) \<le> length (snd st')"
proof (induction server d st and server ds st arbitrary: n st' and ns st' rule: applyItem_applyItems.induct)
  case (1 server d fh fv fresh infos)
  then show ?case by (auto simp: splitsOf_def)
next
  case (2 server fh fv vert ds fresh infos)
  obtain cs st1 where items: "applyItems server ds (fresh + 1, infos) = (cs, st1)" by (rule prod.exhaust)
  with 2(1)[OF items] 2(2,3) show ?case by (auto simp: isContainer_def splitsOf_def map_concat comp_def upt_conv_Cons)
next
  case (3 server st)
  then show ?case by auto
next
  case (4 server d ds st)
  obtain c st1 where c: "applyItem server d st = (c, st1)" by (rule prod.exhaust)
  obtain cs st2 where cs: "applyItems server ds st1 = (cs, st2)" by (rule prod.exhaust)
  have 1: "wf_node c" "node_ids c = [fst st..<fst st1]" "splitsOf c = [length (snd st)..<length (snd st1)]"
    "fst st \<le> fst st1" "length (snd st) \<le> length (snd st1)"
    using 4(1)[OF c] 4(4) by simp_all
  have 2: "list_all wf_node cs" "length cs = length ds" "concat (map node_ids cs) = [fst st1..<fst st2]"
    "concat (map splitsOf cs) = [length (snd st1)..<length (snd st2)]" "fst st1 \<le> fst st2" "length (snd st1) \<le> length (snd st2)"
    using 4(2)[OF c[symmetric] cs] 4(4) by simp_all
  have "ns = c # cs" "st' = st2" using 4(3) c cs by simp_all
  with 1 2 show ?case by (simp add: upt_join)
qed

text \<open>What is done to a tab: it is new or loaded, new splits are inserted with any options that pass the assertions, splits are released or
  selected.\<close>

inductive split_run :: "split_container \<Rightarrow> bool" where
  split_start: "split_run newContainer"
| split_load: "branching d \<Longrightarrow> applyFromDescriptor server d newTab = Some tab \<Longrightarrow> split_run (st_container tab)"
| split_insert: "split_run c \<Longrightarrow> s \<notin> set (sc_splits c) \<Longrightarrow> insertSplit s options c = Some c' \<Longrightarrow> split_run c'"
| split_release: "split_run c \<Longrightarrow> s \<in> set (sc_splits c) \<Longrightarrow> releaseSplit s c = Some (c', p) \<Longrightarrow> split_run c'"
| split_select: "split_run c \<Longrightarrow> split_run (setSelected s c)"

lemma wf_newContainer: "wf_container newContainer"
  by (simp add: wf_container_def newContainer_def splitsOf_def)

lemma wf_loaded:
  assumes "branching d" "applyFromDescriptor server d newTab = Some tab"
  shows "wf_container (st_container tab)"
proof (cases d)
  case (SplitNode sd fh fv)
  with assms(2) obtain c where c: "insertSplit 0 noOptions newContainer = Some c" "st_container tab = c"
    by (auto simp: newTab_def newContainer_def)
  with wf_insertSplit[OF wf_newContainer _ c(1)] show ?thesis by (simp add: newContainer_def)
next
  case (ContainerNode fh fv vert ns)
  obtain cs fresh infos where items: "applyItems server ns (1, []) = (cs, fresh, infos)" by (rule prod_cases3)
  have ns: "list_all branching ns" "2 \<le> length ns" using assms(1) ContainerNode by simp_all
  from applyItems_wf[OF items ns(1)] have cs: "list_all wf_node cs" "length cs = length ns" "concat (map node_ids cs) = [1..<fresh]"
    "concat (map splitsOf cs) = [0..<length infos]" "1 \<le> fresh" by simp_all
  have tab: "st_container tab = \<lparr>sc_base = Node 0 (if vert then VerticalContainer else HorizontalContainer) None None 1 1 cs,
      sc_splits = [0..<length infos], sc_selected = None, sc_fresh = fresh\<rparr>"
    using assms(2) items ContainerNode by (auto simp: newTab_def newContainer_def)
  have wf: "wf_node (sc_base (st_container tab))" using cs(1,2) ns(2) by (simp add: tab)
  have splits: "splitsOf (sc_base (st_container tab)) = [0..<length infos]" using cs(4) by (simp add: tab)
  then have "infos \<noteq> []" using leaf_exists[OF wf] by auto
  moreover have "node_ids (sc_base (st_container tab)) = [0..<fresh]" using cs(3,5) by (simp add: tab upt_conv_Cons)
  ultimately show ?thesis using wf splits unfolding wf_container_def by (simp add: tab)
qed

lemma run_wf: "split_run c \<Longrightarrow> wf_container c"
proof (induction rule: split_run.induct)
  case split_start
  show ?case by (rule wf_newContainer)
next
  case (split_load d server tab)
  then show ?case by (rule wf_loaded)
next
  case (split_insert c s options c')
  then show ?case using wf_insertSplit by blast
next
  case (split_release c s c' p)
  then show ?case using releaseSplit_ok[of c s] by auto
next
  case (split_select c s)
  then show ?case by (simp add: wf_setSelected)
qed

text \<open>C22. In every state of a tab the tree is well formed: no split is an empty root, containers have at least two children, every node
  is there once, and the leaves are exactly the splits of the tab.  The tab is new or built from a descriptor whose containers
  have at least two items, as every saved tree's have, and splits were inserted, released and selected since.  (The layout file
  may hold containers with one item, which the code builds as they are.)\<close>

theorem split_tree_is_well_formed: "split_run c \<Longrightarrow> wf_container c"
  by (rule run_wf)

lemma insertSplit_beside:
  assumes wf: "wf_container c" and r: "r \<in> set (sc_splits c)"
  shows "\<exists>j. insertSplit s (noOptions\<lparr>io_relativeSplit := Some r, io_direction := Some dir\<rparr>) c
      = Some (addSplit s (insertSplitRelative j s dir (sc_fresh c) (sc_base c)) c)
    \<and> splitsOf (insertSplitRelative j s dir (sc_fresh c) (sc_base c)) = putBeside r s dir (splitsOf (sc_base c))"
proof -
  let ?n = "sc_base c"
  note n = wf_container_nonempty[OF wf r]
  have d: "distinct (node_ids ?n)" "distinct (splitsOf ?n)"
    using wf mset_eq_imp_distinct_iff[of "splitsOf ?n" "sc_splits c"] by (simp_all add: wf_container_def)
  from n(2) find_iff[OF n(1)] obtain m where m: "findNodeContainingSplit r ?n = Some m" by blast
  have leaf: "(nd_id m, r) \<in> set (leaves ?n)" using find_leaf[OF n(1) m] .
  note j = leaves_ids[OF leaf]
  show ?thesis
    using m j insertSplitRelative_ok(3)[OF n(1) d(1) j leaf] beside_putBeside[OF d leaf]
    by (intro exI[of _ "nd_id m"]) (simp add: insertSplit_def noOptions_def isOrContainsNode_def Let_def)
qed

text \<open>C32. A split that is added next to another one appears directly before or behind it, as the direction asks, and all other splits
  keep their order; removing a split leaves the others in their order.\<close>

theorem splits_appear_and_go:
  assumes "split_run c" "r \<in> set (sc_splits c)"
  shows "map_option (\<lambda>c'. splitsOf (sc_base c'))
      (insertSplit s (noOptions\<lparr>io_relativeSplit := Some r, io_direction := Some dir\<rparr>) c)
    = Some (putBeside r s dir (splitsOf (sc_base c)))
    \<and> map_option (\<lambda>(c', p). splitsOf (sc_base c')) (releaseSplit r c) = Some (filter (\<lambda>x. x \<noteq> r) (splitsOf (sc_base c)))"
  using insertSplit_beside[OF run_wf[OF assms(1)] assms(2), of s dir] releaseSplit_ok[OF run_wf[OF assms(1)] assms(2)]
  by (auto simp: addSplit_def)


section \<open>Back to the old place\<close>

text \<open>What a tree looks like: the numbers of the nodes, their shares and focus left out.\<close>

datatype shape = Leaf split | Box node_type "shape list"

fun shapeOf :: "node \<Rightarrow> shape" where
  "shapeOf (Node i t sp pr fh fv cs) =
     (case sp of Some s \<Rightarrow> if t = SplitType then Leaf s else Box t (map shapeOf cs) | None \<Rightarrow> Box t (map shapeOf cs))"

text \<open>No container in a container of the same direction.\<close>

fun alternating :: "node \<Rightarrow> bool" where
  "alternating (Node i t sp pr fh fv cs) \<longleftrightarrow> list_all (\<lambda>c. nd_type c \<noteq> t \<and> alternating c) cs"

lemma side_container [simp]: "isContainer t \<Longrightarrow> toContainerType (side t b) = t"
  by (auto simp: isContainer_def side_def toContainerType_def)

lemma side_after [simp]: "after_dir (side t b) \<longleftrightarrow> \<not> b"
  by (simp add: side_def after_dir_def)

lemma shape_newNode [simp]: "shapeOf (newNode i s) = Leaf s"
  by (simp add: newNode_def)

lemma shape_nest:
  assumes "wf_node n" "nd_type n \<noteq> toContainerType dir"
  shows "shapeOf (nestSplitIntoCollection s dir f n)
    = Box (toContainerType dir) (if after_dir dir then [shapeOf n, Leaf s] else [Leaf s, shapeOf n])"
  using assms by (cases n) (auto simp: insertNextToThis_def after_dir_def split: option.split)

lemma shape_takeOver [simp]: "shapeOf (takeOver i pr fh fv n) = shapeOf n"
  by (cases n) (simp split: option.split)

text \<open>Inserting a released split at its position gives the old shape, whether the position is the node itself or below it.\<close>

definition goes_back :: "split \<Rightarrow> node \<Rightarrow> node \<Rightarrow> node_position \<Rightarrow> bool" where
  "goes_back s n n' p \<longleftrightarrow> (\<exists>q dir. p = (Some q, dir) \<and> q \<in> set (node_ids n') \<and> (\<forall>f.
     if q = nd_id n' then nd_type n = toContainerType dir \<and> nd_type n' \<noteq> toContainerType dir \<and>
       shapeOf (nestSplitIntoCollection s dir f n') = shapeOf n
     else nd_type n' = nd_type n \<and> shapeOf (insertBelow q s dir f n') = shapeOf n))"

lemma apart_ids: "distinct (node_ids (Node i t sp pr fh fv (as @ c # bs))) \<Longrightarrow> q \<in> set (node_ids c) \<Longrightarrow>
    list_all (\<lambda>x. q \<notin> set (node_ids x)) (as @ bs) \<and> q \<noteq> i"
  by (auto simp: list_all_iff)

lemma releaseBelow_goes_back:
  assumes "distinct (node_ids n)" "j \<in> set (node_ids n)" "j \<noteq> nd_id n"
  shows "wf_node n \<Longrightarrow> alternating n \<Longrightarrow> (j, s) \<in> set (leaves n) \<Longrightarrow> releaseBelow j n = Some (n', p) \<Longrightarrow>
    set (node_ids n') \<subseteq> set (node_ids n) \<Longrightarrow> goes_back s n n' p"
  using assms
proof (induction arbitrary: n' rule: node_path_induct)
  case (child i t sp pr fh fv as c bs)
  from child.prems(1,2) have t: "isContainer t" "sp = None" and many: "1 \<le> length (as @ bs)"
    and wf: "list_all wf_node (as @ bs)" and alt: "list_all (\<lambda>c. nd_type c \<noteq> t) (as @ bs)"
    by (auto simp: list_all_iff)
  have "(j, s) \<in> set (leaves c)"
    using child.prems(3) child.hyps(3) t by (auto simp: list_all_iff dest: leaves_ids)
  moreover have "distinct (node_ids c)" using child.hyps(1) by simp
  ultimately obtain pr' fh' fv' cs' where c: "c = Node j SplitType (Some s) pr' fh' fv' cs'"
    using child.hyps(2) leaf_child by metis
  have shape: "shapeOf (Node i t sp pr fh fv (as @ c # bs)) = Box t (map shapeOf as @ Leaf s # map shapeOf bs)"
    by (simp add: t c)
  note release = child.prems(4)[unfolded releaseBelow_child[OF child.hyps(3,2)]]
  consider (two) x where "as @ bs = [x]" | (more) "2 \<le> length (as @ bs)"
    using many by (cases "as @ bs"; cases "tl (as @ bs)") auto
  then show ?case
  proof cases
    case two
    then consider "as = []" "bs = [x]" | "as = [x]" "bs = []" by (cases as) auto
    then have n': "n' = takeOver i pr fh fv x \<and> p = (Some i, side t (as = []))" using release by cases simp_all
    have x: "wf_node x" "nd_type x \<noteq> t" using wf alt by (simp_all only: two) simp_all
    have "shapeOf (nestSplitIntoCollection s (side t (as = [])) f n') = shapeOf (Node i t sp pr fh fv (as @ c # bs))" for f
      using x t two shape_nest[of n' "side t (as = [])" s f] unfolding shape
      by (auto simp: n' Cons_eq_append_conv append_eq_Cons_conv)
    moreover have "i \<in> set (node_ids n')" by (metis n'(1) nd_id_in_ids takeOver_simps(1))
    ultimately show ?thesis using x t by (auto simp: goes_back_def n')
  next
    case more
    show ?thesis
    proof (cases "bs = []")
      case True
      then obtain as' a where as: "as = as' @ [a]" using more by (cases as rule: rev_cases) auto
      have n': "n' = Node i t sp pr fh fv as" "p = (Some (nd_id a), side t False)"
        using release more True by (auto simp: as split: if_splits)
      have apart: "list_all (\<lambda>x. nd_id a \<notin> set (node_ids x)) (as' @ [])" "nd_id a \<noteq> i"
        using child.hyps(1) by (auto simp: as list_all_iff dest: bspec[OF _ nd_id_in_ids])
      have "insertBelow (nd_id a) s (side t False) f n' = Node i t sp pr fh fv (as' @ [a, newNode f s])" for f
        using insertBelow_at[OF apart(1), of s "side t False" f i t sp pr fh fv a] t by (simp add: n' as)
      then show ?thesis using apart t True by (auto simp: goes_back_def n' as c)
    next
      case False
      then obtain b bs' where bs: "bs = b # bs'" by (cases bs) auto
      have n': "n' = Node i t sp pr fh fv (as @ bs)" "p = (Some (nd_id b), side t True)"
        using release more False by (auto simp: bs split: if_splits)
      have apart: "list_all (\<lambda>x. nd_id b \<notin> set (node_ids x)) (as @ bs')" "nd_id b \<noteq> i"
        using apart_ids[of i t sp pr fh fv "as @ [c]" b bs' "nd_id b"] child.hyps(1) by (simp_all add: bs)
      have "insertBelow (nd_id b) s (side t True) f n' = Node i t sp pr fh fv (as @ newNode f s # b # bs')" for f
        using insertBelow_at[OF apart(1), of s "side t True" f i t sp pr fh fv b] t by (simp add: n' bs)
      then show ?thesis using apart t by (auto simp: goes_back_def n' bs c)
    qed
  qed
next
  case (deeper i t sp pr fh fv as c bs)
  from deeper.prems(1,2) have t: "isContainer t" "sp = None" and c: "wf_node c" "alternating c" "nd_type c \<noteq> t" by auto
  have leaf: "(j, s) \<in> set (leaves c)"
    using deeper.prems(3) deeper.hyps(4) t by (auto simp: list_all_iff dest: leaves_ids)
  have dc: "distinct (node_ids c)" using deeper.hyps(1) by simp
  obtain c' p' where c': "releaseBelow j c = Some (c', p')" "released j c c' p'"
    using releaseBelow_released[OF dc deeper.hyps(3) deeper.hyps(2)[symmetric] c(1) leaf] by blast
  then have n': "n' = Node i t sp pr fh fv (as @ c' # bs)" "p' = p"
    using deeper.prems(4) unfolding releaseBelow_deeper[OF deeper.hyps(4,2,3)] by auto
  have sub: "set (node_ids c') \<subseteq> set (node_ids c)" "nd_id c' = nd_id c" using c'(2) by (simp_all add: released_def)
  have "goes_back s c c' p" using deeper.IH[OF c(1,2) leaf, of c'] c'(1) n'(2) sub(1) by blast
  then obtain q dir where q: "p = (Some q, dir)" "q \<in> set (node_ids c')"
    and again: "\<And>f. if q = nd_id c' then nd_type c = toContainerType dir \<and> nd_type c' \<noteq> toContainerType dir \<and>
       shapeOf (nestSplitIntoCollection s dir f c') = shapeOf c
     else nd_type c' = nd_type c \<and> shapeOf (insertBelow q s dir f c') = shapeOf c"
    unfolding goes_back_def by blast
  have apart: "list_all (\<lambda>x. q \<notin> set (node_ids x)) (as @ bs)" "q \<noteq> i"
    using apart_ids[OF deeper.hyps(1), of q] q(2) sub(1) by auto
  have "shapeOf (insertBelow q s dir f n') = shapeOf (Node i t sp pr fh fv (as @ c # bs))" for f
    unfolding n'(1) insertBelow_at[OF apart(1)] using again[of f] c(3) t by auto
  then show ?case using q apart(2) by (auto simp: goes_back_def n'(1))
qed

text \<open>C24. A split that is dragged and not dropped goes back: inserting a released split at the position that releasing it gave makes the
  tree look as before, when no container lies in a container of the same direction.\<close>

theorem released_split_goes_back:
  assumes "split_run c" "s \<in> set (sc_splits c)" "alternating (sc_base c)"
  shows "\<exists>c1 p c2. releaseSplit s c = Some (c1, p) \<and> insertSplit s (noOptions\<lparr>io_position := Some p\<rparr>) c1 = Some c2
    \<and> shapeOf (sc_base c2) = shapeOf (sc_base c)"
proof -
  let ?n = "sc_base c"
  note wf = run_wf[OF assms(1)]
  note n = wf_container_nonempty[OF wf assms(2)]
  have d: "distinct (node_ids ?n)" using wf by (simp add: wf_container_def)
  from n(2) find_iff[OF n(1)] obtain m where m: "findNodeContainingSplit s ?n = Some m" by blast
  let ?j = "nd_id m"
  have leaf: "(?j, s) \<in> set (leaves ?n)" using find_leaf[OF n(1) m] .
  show ?thesis
  proof (cases "nd_id ?n = ?j")
    case True
    with leaf n(1) d wf_node_root_leaf[of ?n s] obtain pr fh fv where base: "?n = Node ?j SplitType (Some s) pr fh fv []"
      by metis
    let ?c1 = "c\<lparr>sc_splits := remove1 s (sc_splits c), sc_base := Node ?j EmptyRoot None pr fh fv []\<rparr>"
    have "releaseSplit s c = Some (?c1, None, Right)"
      using m True by (simp add: releaseSplit_def releaseNode_def) (subst base, simp)
    moreover have "insertSplit s (noOptions\<lparr>io_position := Some (None, Right)\<rparr>) ?c1
        = Some (addSplit s (Node ?j SplitType (Some s) pr fh fv []) ?c1)"
      by (simp add: insertSplit_def noOptions_def)
    moreover have "shapeOf (sc_base (addSplit s (Node ?j SplitType (Some s) pr fh fv []) ?c1)) = shapeOf ?n"
      by (subst base) (simp add: addSplit_def)
    ultimately show ?thesis by blast
  next
    case False
    obtain n' p where r: "releaseBelow ?j ?n = Some (n', p)" "released ?j ?n n' p"
      using releaseBelow_released[OF d leaves_ids[OF leaf] False[symmetric] n(1) leaf] by blast
    have wf': "wf_node n'" and sub: "set (node_ids n') \<subseteq> set (node_ids ?n)" using r(2) by (simp_all add: released_def)
    have "goes_back s ?n n' p"
      using releaseBelow_goes_back[OF d leaves_ids[OF leaf] False[symmetric] n(1) assms(3) leaf r(1) sub] .
    then obtain q dir where q: "p = (Some q, dir)" "q \<in> set (node_ids n')"
      and shapes: "\<And>f. if q = nd_id n' then nd_type ?n = toContainerType dir \<and> nd_type n' \<noteq> toContainerType dir \<and>
         shapeOf (nestSplitIntoCollection s dir f n') = shapeOf ?n
       else nd_type n' = nd_type ?n \<and> shapeOf (insertBelow q s dir f n') = shapeOf ?n"
      unfolding goes_back_def by blast
    have again: "shapeOf (insertSplitRelative q s dir f n') = shapeOf ?n" for f
      using shapes[of f] wf_not_empty[OF wf'] by (auto simp: insertSplitRelative_def split: if_splits)
    have "releaseSplit s c = Some (c\<lparr>sc_splits := remove1 s (sc_splits c), sc_base := n'\<rparr>, p)"
      using m r(1) False by (simp add: releaseSplit_def releaseNode_def)
    then show ?thesis using q again
      by (simp add: insertSplit_def noOptions_def isOrContainsNode_def addSplit_def Let_def)
  qed
qed


section \<open>Examples\<close>

definition put :: "split \<Rightarrow> split \<Rightarrow> split_direction \<Rightarrow> split_container \<Rightarrow> split_container" where
  "put s r dir c = (case insertSplit s (noOptions\<lparr>io_relativeSplit := Some r, io_direction := Some dir\<rparr>) c of Some c' \<Rightarrow> c' | None \<Rightarrow> c)"

definition firstSplit :: split_container where
  "firstSplit = (case insertSplit 1 noOptions newContainer of Some c \<Rightarrow> c | None \<Rightarrow> newContainer)"

definition cornerTab :: split_container where
  "cornerTab = put 3 2 Below (put 2 1 Right firstSplit)"

lemma run_firstSplit: "split_run firstSplit"
proof -
  have "insertSplit 1 noOptions newContainer = Some firstSplit" by code_simp
  then show ?thesis by (intro split_insert[OF split_start]) (simp_all add: newContainer_def)
qed

lemma run_put: "split_run c \<Longrightarrow> s \<notin> set (sc_splits c) \<Longrightarrow> split_run (put s r dir c)"
  by (auto simp: put_def split: option.split intro: split_insert)

lemma run_cornerTab: "split_run cornerTab"
proof -
  have "2 \<notin> set (sc_splits firstSplit)" "3 \<notin> set (sc_splits (put 2 1 Right firstSplit))" by code_simp+
  then show ?thesis by (simp add: cornerTab_def run_put run_firstSplit)
qed

theorem split_tree_is_well_formed_witness:
  "wf_container cornerTab \<and> shapeOf (sc_base cornerTab) = Box HorizontalContainer [Leaf 1, Box VerticalContainer [Leaf 2, Leaf 3]]"
proof
  show "shapeOf (sc_base cornerTab) = Box HorizontalContainer [Leaf 1, Box VerticalContainer [Leaf 2, Leaf 3]]" by code_simp
qed (rule split_tree_is_well_formed[OF run_cornerTab])

theorem splits_appear_and_go_witness:
  "map_option (\<lambda>c'. splitsOf (sc_base c')) (insertSplit 4 (noOptions\<lparr>io_relativeSplit := Some 2, io_direction := Some Left\<rparr>) cornerTab)
     = Some [1, 4, 2, 3] \<and>
   map_option (\<lambda>(c', p). splitsOf (sc_base c')) (releaseSplit 2 cornerTab) = Some [1, 3]"
proof -
  have "2 \<in> set (sc_splits cornerTab)" "putBeside 2 4 Left (splitsOf (sc_base cornerTab)) = [1, 4, 2, 3]"
    "filter (\<lambda>x. x \<noteq> 2) (splitsOf (sc_base cornerTab)) = [1, 3]" by code_simp+
  with splits_appear_and_go[OF run_cornerTab, of 2 4 Left] show ?thesis by simp
qed

theorem released_split_goes_back_witness:
  "\<exists>c1 p c2. releaseSplit 1 cornerTab = Some (c1, p) \<and> insertSplit 1 (noOptions\<lparr>io_position := Some p\<rparr>) c1 = Some c2
    \<and> shapeOf (sc_base c2) = shapeOf (sc_base cornerTab)"
proof -
  have "1 \<in> set (sc_splits cornerTab)" "alternating (sc_base cornerTab)" by code_simp+
  from released_split_goes_back[OF run_cornerTab this] show ?thesis .
qed

text \<open>C40. When a tab is a split before a container of the tab's own direction, as releasing splits leaves it behind, a drag of this split that
  is not dropped moves it: wherever the container's splits are, the split is appended behind them although it stood before them.\<close>

theorem dragged_split_moves:
  assumes "split_run c" "shapeOf (sc_base c) = Box t [Leaf s, Box t ls]"
  shows "\<exists>c1 p c2. releaseSplit s c = Some (c1, p) \<and> insertSplit s (noOptions\<lparr>io_position := Some p\<rparr>) c1 = Some c2
    \<and> shapeOf (sc_base c2) = Box t (ls @ [Leaf s])"
proof -
  have wf: "wf_container c" by (rule run_wf[OF assms(1)])
  have root: "wf_node (sc_base c)" "distinct (node_ids (sc_base c))"
    using wf assms(2) by (cases "sc_base c"; auto simp: wf_container_def split: if_splits)+
  obtain i pr fh fv x y where base: "sc_base c = Node i t None pr fh fv [x, y]" and t: "isContainer t"
    and x: "shapeOf x = Leaf s" and y: "shapeOf y = Box t ls"
    using assms(2) root(1) by (cases "sc_base c") (auto split: if_splits)
  obtain j prx fhx fvx where x': "x = Node j SplitType (Some s) prx fhx fvx []"
    using x root(1) t unfolding base by (cases x) (auto split: if_splits)
  obtain k pry fhy fvy cs where y': "y = Node k t None pry fhy fvy cs" and ls: "ls = map shapeOf cs"
    using y root(1) t unfolding base by (cases y) (auto split: if_splits)
  have ij: "i \<noteq> j" using root(2) by (simp add: base x')
  let ?dir = "if t = VerticalContainer then Above else Left"
  let ?c1 = "c\<lparr>sc_splits := remove1 s (sc_splits c), sc_base := Node i t None pr fh fv cs\<rparr>"
  have rel: "releaseSplit s c = Some (?c1, Some i, ?dir)"
    using ij by (simp add: releaseSplit_def releaseNode_def releaseBelow.simps Let_def base x' y')
  have dir: "toContainerType ?dir = t" using t by (auto simp: toContainerType_def isContainer_def)
  have "insertSplit s (noOptions\<lparr>io_position := Some (Some i, ?dir)\<rparr>) ?c1
      = Some (addSplit s (Node i t None pr fh fv (cs @ [newNode (sc_fresh c) s])) ?c1)"
    using dir t by (simp add: insertSplit_def noOptions_def insertSplitRelative_def isOrContainsNode_def Let_def del: if_split)
  moreover have new: "shapeOf (Node i t None pr fh fv (cs @ [newNode (sc_fresh c) s])) = Box t (ls @ [Leaf s])"
    using t by (simp add: ls)
  from new have "shapeOf (sc_base (addSplit s (Node i t None pr fh fv (cs @ [newNode (sc_fresh c) s])) ?c1)) = Box t (ls @ [Leaf s])"
    by (simp add: addSplit_def)
  ultimately show ?thesis using rel by blast
qed

theorem dragged_split_moves_witness:
  "\<exists>c0 c1 p c2. split_run c0 \<and> releaseSplit 1 c0 = Some (c1, p) \<and> insertSplit 1 (noOptions\<lparr>io_position := Some p\<rparr>) c1 = Some c2
    \<and> shapeOf (sc_base c0) = Box HorizontalContainer [Leaf 1, Box HorizontalContainer [Leaf 3, Leaf 4]]
    \<and> shapeOf (sc_base c2) = Box HorizontalContainer ([Leaf 3, Leaf 4] @ [Leaf 1])"
proof -
  let ?c = "put 4 3 Right cornerTab"
  let ?r = "case releaseSplit 2 ?c of Some (c, p) \<Rightarrow> c | None \<Rightarrow> newContainer"
  have "4 \<notin> set (sc_splits cornerTab)" by code_simp
  from run_put[OF run_cornerTab this] have run: "split_run ?c" .
  have "2 \<in> set (sc_splits ?c)" "releaseSplit 2 ?c \<noteq> None" by code_simp+
  then have "split_run ?r" using split_run.split_release[OF run] by (auto split: option.splits)
  moreover have sh: "shapeOf (sc_base ?r) = Box HorizontalContainer [Leaf 1, Box HorizontalContainer [Leaf 3, Leaf 4]]" by code_simp
  ultimately show ?thesis using dragged_split_moves[of ?r HorizontalContainer 1 "[Leaf 3, Leaf 4]"] by blast
qed

end
