(* ===== verification/WindowLayouts.thy ===== *)
theory WindowLayouts
  imports SplitTree ChannelTypes
begin

text \<open>
  How tabs and windows are saved and restored: \<open>src/common/WindowDescriptors.cpp\<close>, the encoding in
  \<open>src/singletons/WindowManager.cpp\<close> and the descriptors of \<open>SplitContainer\<close>.

  A JSON value is a datatype; \<open>JUndefined\<close> is what \<open>QJsonObject::value\<close> gives for a missing key.  Numbers
  are rationals.  A filter is named by its identifier; \<open>QUuid::fromString\<close> is an argument.  A tab is built
  from its descriptor in \<open>SplitTree\<close>.

  The lemmas show that a saved tab is loaded and built as it was, that a loaded layout has at most one main window and
  one selected tab in each window, what duplicating a tab keeps and loses, and that activating a channel selects
  one tab that shows it.
\<close>

section \<open>JSON\<close>

datatype json = JUndefined | JNull | JBool bool | JNum rat | JStr string | JArr "json list" | JObj "(string \<times> json) list"

type_synonym json_object = "(string \<times> json) list"

definition jvalue :: "json_object \<Rightarrow> string \<Rightarrow> json" where
  "jvalue obj k = (case map_of obj k of Some v \<Rightarrow> v | None \<Rightarrow> JUndefined)"

definition jinsert :: "string \<Rightarrow> json \<Rightarrow> json_object \<Rightarrow> json_object" where
  "jinsert k v obj = filter (\<lambda>p. fst p \<noteq> k) obj @ [(k, v)]"

fun toObject :: "json \<Rightarrow> json_object" where
  "toObject (JObj obj) = obj"
| "toObject _ = []"

fun toArray :: "json \<Rightarrow> json list" where
  "toArray (JArr vs) = vs"
| "toArray _ = []"

fun jString :: "json \<Rightarrow> string" where
  "jString (JStr s) = s"
| "jString _ = []"

fun jBool :: "bool \<Rightarrow> json \<Rightarrow> bool" where
  "jBool d (JBool b) = b"
| "jBool d _ = d"

fun jDouble :: "rat \<Rightarrow> json \<Rightarrow> rat" where
  "jDouble d (JNum r) = r"
| "jDouble d _ = d"

text \<open>\<open>toInt\<close> gives the default for a number that is no 32-bit integer.\<close>

fun jInt :: "int \<Rightarrow> json \<Rightarrow> int" where
  "jInt d (JNum r) = (case quotient_of r of (p, q) \<Rightarrow> if q = 1 \<and> - 2147483648 \<le> p \<and> p \<le> 2147483647 then p else d)"
| "jInt d _ = d"

section \<open>Descriptors\<close>

record tab_descriptor =
  td_customTitle :: string
  td_selected :: bool
  td_highlightsEnabled :: bool
  td_rootNode :: "node_descriptor option"

datatype window_type = MainWindow | PopupWindow | AttachedWindow

datatype window_state = NoState | Minimized | Maximized

type_synonym qrect = "int \<times> int \<times> int \<times> int"

record window_descriptor =
  wd_type :: window_type
  wd_state :: window_state
  wd_geometry :: qrect
  wd_tabs :: "tab_descriptor list"

record window_layout =
  wl_emotePopupBounds :: qrect
  wl_windows :: "window_descriptor list"

section \<open>Loading\<close>

definition loadFilters :: "(string \<Rightarrow> string) \<Rightarrow> json \<Rightarrow> string list" where
  "loadFilters uuid val = (if val \<noteq> JUndefined then map (\<lambda>i. uuid (jString i)) (toArray val) else [])"

definition SplitDescriptor_loadFromJSON :: "(string \<Rightarrow> string) \<Rightarrow> json_object \<Rightarrow> json_object \<Rightarrow> split_descriptor" where
  "SplitDescriptor_loadFromJSON uuid base data =
     \<lparr>sd_type = jString (jvalue data ''type''),
      sd_channelName = (if map_of data ''channel'' \<noteq> None then jString (jvalue data ''channel'') else jString (jvalue data ''name'')),
      sd_server = jInt (- 1) (jvalue data ''server''),
      sd_moderationMode = jBool False (jvalue base ''moderationMode''),
      sd_spellCheckOverride = (case jvalue base ''checkSpelling'' of JBool b \<Rightarrow> Some b | _ \<Rightarrow> None),
      sd_filters = loadFilters uuid (jvalue base ''filters'')\<rparr>"

definition loadSplitNode :: "(string \<Rightarrow> string) \<Rightarrow> json_object \<Rightarrow> node_descriptor" where
  "loadSplitNode uuid base =
     SplitNode (SplitDescriptor_loadFromJSON uuid base (toObject (jvalue base ''data'')))
       (jDouble 1 (jvalue base ''flexh'')) (jDouble 1 (jvalue base ''flexv''))"

lemma size_items: "x \<in> set (toArray (jvalue (toObject v) k)) \<Longrightarrow> size x < size v"
proof -
  assume x: "x \<in> set (toArray (jvalue (toObject v) k))"
  then obtain obj where v: "v = JObj obj" by (cases v) (auto simp: jvalue_def)
  with x obtain w where w: "map_of obj k = Some w" by (auto simp: jvalue_def split: option.splits)
  then have "(k, w) \<in> set obj" by (rule map_of_SomeD)
  then have "size w < size v"
    using size_list_estimation[of "(k, w)" obj "size w" "size_prod (\<lambda>x. 0) size"] by (simp add: v)
  moreover have "size x < size w"
    using x w by (cases w) (auto simp: v jvalue_def less_Suc_eq_le intro: size_list_estimation')
  ultimately show ?thesis by simp
qed


text \<open>Items: whatever is no split is a container.\<close>

function loadNode :: "(string \<Rightarrow> string) \<Rightarrow> json \<Rightarrow> node_descriptor" where
  "loadNode uuid v =
     (let obj = toObject v
      in if jvalue obj ''type'' = JStr ''split'' then loadSplitNode uuid obj
         else ContainerNode (jDouble 1 (jvalue obj ''flexh'')) (jDouble 1 (jvalue obj ''flexv''))
                (jString (jvalue obj ''type'') = ''vertical'')
                (map (loadNode uuid) (toArray (jvalue obj ''items''))))"
  by pat_completeness auto

termination
  by (relation "measure (\<lambda>(uuid, v). size v)") (auto dest: size_items)

declare loadNode.simps [simp del]

definition TabDescriptor_loadFromJSON :: "(string \<Rightarrow> string) \<Rightarrow> json_object \<Rightarrow> tab_descriptor" where
  "TabDescriptor_loadFromJSON uuid tabObj =
     (let splitRoot = toObject (jvalue tabObj ''splits2'');
          nodeType = jString (jvalue splitRoot ''type'')
      in \<lparr>td_customTitle = jString (jvalue tabObj ''title''),
          td_selected = jBool False (jvalue tabObj ''selected''),
          td_highlightsEnabled = jBool True (jvalue tabObj ''highlightsEnabled''),
          td_rootNode =
            (if splitRoot = [] then None
             else if nodeType = ''split'' then Some (loadSplitNode uuid splitRoot)
             else if nodeType = ''horizontal'' \<or> nodeType = ''vertical'' then Some (loadNode uuid (JObj splitRoot))
             else None)\<rparr>)"

fun tabsLoop :: "(string \<Rightarrow> string) \<Rightarrow> json list \<Rightarrow> bool \<Rightarrow> tab_descriptor list" where
  "tabsLoop uuid [] hasSetASelectedTab = []"
| "tabsLoop uuid (v # vs) hasSetASelectedTab =
     (let tab = TabDescriptor_loadFromJSON uuid (toObject v)
      in if td_selected tab
         then (if hasSetASelectedTab then tab\<lparr>td_selected := False\<rparr> else tab) # tabsLoop uuid vs True
         else tab # tabsLoop uuid vs hasSetASelectedTab)"

definition rectOf :: "int \<Rightarrow> json_object \<Rightarrow> qrect" where
  "rectOf d obj = (jInt d (jvalue obj ''x''), jInt d (jvalue obj ''y''), jInt d (jvalue obj ''width''), jInt d (jvalue obj ''height''))"

fun windowsLoop :: "(string \<Rightarrow> string) \<Rightarrow> json list \<Rightarrow> bool \<Rightarrow> window_layout \<Rightarrow> window_layout" where
  "windowsLoop uuid [] hasSetAMainWindow layout = layout"
| "windowsLoop uuid (v # vs) hasSetAMainWindow layout =
     (let obj = toObject v;
          isMain = jString (jvalue obj ''type'') = ''main'';
          window = \<lparr>wd_type = (if isMain \<and> \<not> hasSetAMainWindow then MainWindow else PopupWindow),
            wd_state = (if jvalue obj ''state'' = JStr ''minimized'' then Minimized
                        else if jvalue obj ''state'' = JStr ''maximized'' then Maximized else NoState),
            wd_geometry = rectOf (- 1) obj,
            wd_tabs = tabsLoop uuid (toArray (jvalue obj ''tabs'')) False\<rparr>
      in windowsLoop uuid vs (isMain \<or> hasSetAMainWindow)
           (layout\<lparr>wl_emotePopupBounds := rectOf 0 (toObject (jvalue obj ''emotePopup'')),
             wl_windows := wl_windows layout @ [window]\<rparr>))"

text \<open>A file that cannot be opened has no windows.\<close>

definition loadWindowArray :: "json option \<Rightarrow> json list" where
  "loadWindowArray file = (case file of None \<Rightarrow> [] | Some doc \<Rightarrow> toArray (jvalue (toObject doc) ''windows''))"

definition emptyLayout :: window_layout where
  "emptyLayout = \<lparr>wl_emotePopupBounds = (0, 0, 0, 0), wl_windows = []\<rparr>"

definition WindowLayout_loadFromFile :: "(string \<Rightarrow> string) \<Rightarrow> json option \<Rightarrow> window_layout" where
  "WindowLayout_loadFromFile uuid file = windowsLoop uuid (loadWindowArray file) False emptyLayout"

section \<open>Activating a channel\<close>

datatype provider_id = TwitchProvider | OtherProvider

definition twitchSplit :: "string \<Rightarrow> node_descriptor" where
  "twitchSplit n = SplitNode \<lparr>sd_type = ''twitch'', sd_channelName = n, sd_server = - 1, sd_moderationMode = False,
     sd_spellCheckOverride = None, sd_filters = []\<rparr> 1 1"

definition channelTab :: "string \<Rightarrow> tab_descriptor" where
  "channelTab n = \<lparr>td_customTitle = [], td_selected = True, td_highlightsEnabled = True, td_rootNode = Some (twitchSplit n)\<rparr>"

text \<open>The visitor: the score and whether the channel is there.\<close>

fun visitNode :: "string \<Rightarrow> node_descriptor \<Rightarrow> nat \<times> bool \<Rightarrow> nat \<times> bool" where
  "visitNode spec (SplitNode d fh fv) (score, hasChannel) =
     (let score1 = score + 2
      in if sd_channelName d = spec then (if sd_filters d \<noteq> [] then score1 + 1 else score1, True) else (score1, hasChannel))"
| "visitNode spec (ContainerNode fh fv vert ns) st = fold (visitNode spec) ns st"

text \<open>The loop over the tabs: best tab and its score; the score starts at the largest number.\<close>

definition tabScore :: "string \<Rightarrow> tab_descriptor \<Rightarrow> nat option" where
  "tabScore n tab = (case td_rootNode tab of
     None \<Rightarrow> None
   | Some node \<Rightarrow> (case visitNode n node (0, False) of (score, hasChannel) \<Rightarrow> if hasChannel then Some score else None))"

fun bestTabLoop :: "string \<Rightarrow> nat \<Rightarrow> tab_descriptor list \<Rightarrow> (nat \<times> nat) option \<Rightarrow> (nat \<times> nat) option" where
  "bestTabLoop n i [] best = best"
| "bestTabLoop n i (tab # tabs) best =
     (case tabScore n tab of
        None \<Rightarrow> bestTabLoop n (i + 1) tabs best
      | Some score \<Rightarrow>
          (case best of
             None \<Rightarrow> bestTabLoop n (i + 1) tabs (Some (i, score))
           | Some (b, bestTabScore) \<Rightarrow>
               bestTabLoop n (i + 1) tabs (if score < bestTabScore then Some (i, score) else Some (b, bestTabScore))))"

definition deselect :: "tab_descriptor \<Rightarrow> tab_descriptor" where
  "deselect tab = tab\<lparr>td_selected := False\<rparr>"

definition activateInWindow :: "string \<Rightarrow> window_descriptor \<Rightarrow> window_descriptor" where
  "activateInWindow n w =
     (let tabs = map deselect (wd_tabs w)
      in (case bestTabLoop n 0 (wd_tabs w) None of
            Some (i, _) \<Rightarrow> w\<lparr>wd_tabs := tabs[i := (tabs ! i)\<lparr>td_selected := True\<rparr>]\<rparr>
          | None \<Rightarrow> w\<lparr>wd_tabs := tabs @ [channelTab n]\<rparr>))"

definition activateOrAddChannel :: "provider_id \<Rightarrow> string \<Rightarrow> window_layout \<Rightarrow> window_layout" where
  "activateOrAddChannel provider n layout =
     (if provider \<noteq> TwitchProvider \<or> startsWith n ''/'' \<or> startsWith n ''$'' then layout
      else (case first_index (\<lambda>w. wd_type w = MainWindow) (wl_windows layout) of
              None \<Rightarrow> layout\<lparr>wl_windows := wl_windows layout @
                [\<lparr>wd_type = MainWindow, wd_state = NoState, wd_geometry = (- 1, - 1, - 1, - 1), wd_tabs = [channelTab n]\<rparr>]\<rparr>
            | Some k \<Rightarrow> layout\<lparr>wl_windows := (wl_windows layout)[k := activateInWindow n (wl_windows layout ! k)]\<rparr>))"

section \<open>Saving\<close>

definition encodeChannel :: "channel_type \<Rightarrow> string \<Rightarrow> json_object" where
  "encodeChannel t n =
     (case t of
        Twitch \<Rightarrow> [(''type'', JStr ''twitch''), (''name'', JStr n)]
      | TwitchAutomod \<Rightarrow> [(''type'', JStr ''automod'')]
      | TwitchMentions \<Rightarrow> [(''type'', JStr ''mentions'')]
      | TwitchWatching \<Rightarrow> [(''type'', JStr ''watching'')]
      | TwitchWhispers \<Rightarrow> [(''type'', JStr ''whispers'')]
      | TwitchLive \<Rightarrow> [(''type'', JStr ''live'')]
      | Misc \<Rightarrow> [(''type'', JStr ''misc''), (''name'', JStr n)]
      | _ \<Rightarrow> [])"

definition encodeFilters :: "split_info \<Rightarrow> json list" where
  "encodeFilters info = map JStr (si_filters info)"

fun encodeNodeRecursively :: "(split \<Rightarrow> split_info) \<Rightarrow> node \<Rightarrow> json_object" where
  "encodeNodeRecursively info (Node i t sp pr fh fv cs) =
     (case t of
        SplitType \<Rightarrow> (let s = info (the sp)
          in [(''type'', JStr ''split''), (''moderationMode'', JBool (si_moderationMode s)),
              (''data'', JObj (encodeChannel (si_type s) (si_channel s))), (''filters'', JArr (encodeFilters s))]
             @ (case si_spellOverride s of Some b \<Rightarrow> [(''checkSpelling'', JBool b)] | None \<Rightarrow> []))
      | EmptyRoot \<Rightarrow> []
      | _ \<Rightarrow> [(''type'', JStr (if t = HorizontalContainer then ''horizontal'' else ''vertical'')),
              (''items'', JArr (map (\<lambda>c. JObj (encodeNodeRecursively info c)) cs))])
     @ [(''flexh'', JNum fh), (''flexv'', JNum fv)]"

definition encodeTab :: "string option \<Rightarrow> bool \<Rightarrow> bool \<Rightarrow> (split \<Rightarrow> split_info) \<Rightarrow> node \<Rightarrow> json_object" where
  "encodeTab customTitle isSelected highlightsEnabled info base =
     (case customTitle of Some t \<Rightarrow> [(''title'', JStr t)] | None \<Rightarrow> [])
     @ (if isSelected then [(''selected'', JBool True)] else [])
     @ [(''highlightsEnabled'', JBool highlightsEnabled), (''splits2'', JObj (encodeNodeRecursively info base))]"

section \<open>Building a tab\<close>

text \<open>\<open>buildDescriptor\<close>, for duplicating a tab; it is \<open>None\<close> where a node without children has no split to ask.\<close>

definition channelTypeToString :: "channel_type \<Rightarrow> string" where
  "channelTypeToString t =
     (case t of
        Twitch \<Rightarrow> ''twitch'' | TwitchWhispers \<Rightarrow> ''whispers'' | TwitchWatching \<Rightarrow> ''watching''
      | TwitchMentions \<Rightarrow> ''mentions'' | TwitchLive \<Rightarrow> ''live'' | TwitchAutomod \<Rightarrow> ''automod'' | Misc \<Rightarrow> ''misc''
      | _ \<Rightarrow> ''never'')"

fun buildDescriptorRecursively :: "(split \<Rightarrow> split_info) \<Rightarrow> node \<Rightarrow> node_descriptor option" where
  "buildDescriptorRecursively info (Node i t sp pr fh fv cs) =
     (if cs = [] then
        map_option (\<lambda>s. SplitNode \<lparr>sd_type = channelTypeToString (si_type (info s)), sd_channelName = si_channel (info s), sd_server = - 1,
          sd_moderationMode = False, sd_spellCheckOverride = None, sd_filters = si_filters (info s)\<rparr> 1 1) sp
      else map_option (ContainerNode 1 1 (t = VerticalContainer)) (those (map (buildDescriptorRecursively info) cs)))"

definition buildDescriptor :: "split_tab \<Rightarrow> node_descriptor option" where
  "buildDescriptor tab = buildDescriptorRecursively (infoOf tab) (sc_base (st_container tab))"

text \<open>The copy of a tab, and the tab of a popup window with its title and its flag for highlights.\<close>

definition duplicatePage ::
  "(channel_type \<Rightarrow> string \<Rightarrow> channel_type \<times> string) \<Rightarrow> split_tab \<Rightarrow> split_tab option" where
  "duplicatePage server tab =
     (if sc_splits (st_container tab) \<noteq> [] then
        (case buildDescriptor tab of None \<Rightarrow> None | Some d \<Rightarrow> applyFromDescriptor server d newTab)
      else Some newTab)"

definition popup ::
  "(channel_type \<Rightarrow> string \<Rightarrow> channel_type \<times> string) \<Rightarrow> (string \<Rightarrow> string) \<Rightarrow> string option \<Rightarrow> bool \<Rightarrow> split_tab \<Rightarrow>
     (string option \<times> bool \<times> split_tab) option" where
  "popup server uuid customTitle highlightsEnabled tab =
     (let td = TabDescriptor_loadFromJSON uuid
            (encodeTab customTitle True highlightsEnabled (infoOf tab) (sc_base (st_container tab)));
          title = (if td_customTitle td = [] then None else Some (td_customTitle td))
      in case td_rootNode td of
           None \<Rightarrow> Some (title, td_highlightsEnabled td, newTab)
         | Some d \<Rightarrow> map_option (\<lambda>new. (title, td_highlightsEnabled td, new)) (applyFromDescriptor server d newTab))"


section \<open>Loaded layouts\<close>

lemma tabsLoop_selected: "length (filter td_selected (tabsLoop uuid vs done_before)) \<le> (if done_before then 0 else 1)"
  by (induction uuid vs done_before rule: tabsLoop.induct) (auto simp: Let_def)

definition oneSelected :: "window_descriptor \<Rightarrow> bool" where
  "oneSelected w \<longleftrightarrow> length (filter td_selected (wd_tabs w)) \<le> 1"

definition mains :: "window_layout \<Rightarrow> nat" where
  "mains layout = length (filter (\<lambda>w. wd_type w = MainWindow) (wl_windows layout))"

lemma windowsLoop_sane:
  "list_all oneSelected (wl_windows layout) \<Longrightarrow> mains layout \<le> (if seen then 1 else 0) \<Longrightarrow>
   list_all oneSelected (wl_windows (windowsLoop uuid vs seen layout)) \<and> mains (windowsLoop uuid vs seen layout) \<le> 1"
proof (induction uuid vs seen layout rule: windowsLoop.induct)
  case (1 uuid seen layout)
  then show ?case by (simp split: if_splits)
next
  case (2 uuid v vs seen layout)
  have "oneSelected (w\<lparr>wd_tabs := tabsLoop uuid ws False\<rparr>)" for w ws
    using tabsLoop_selected[of uuid ws False] by (simp add: oneSelected_def)
  with 2 show ?case by (auto simp: Let_def mains_def oneSelected_def tabsLoop_selected[of _ _ False, simplified])
qed

text \<open>C33. Whatever the file says, a loaded layout has at most one main window, and every window at most one selected tab.\<close>

theorem loaded_layout_is_sane:
  "list_all oneSelected (wl_windows (WindowLayout_loadFromFile uuid file)) \<and> mains (WindowLayout_loadFromFile uuid file) \<le> 1"
  unfolding WindowLayout_loadFromFile_def by (rule windowsLoop_sane) (simp_all add: emptyLayout_def mains_def)

section \<open>Saving and restoring a tab\<close>

definition descriptorOf :: "split_info \<Rightarrow> split_descriptor" where
  "descriptorOf s = \<lparr>sd_type = jString (jvalue (encodeChannel (si_type s) (si_channel s)) ''type''),
     sd_channelName = (if si_type s = Twitch \<or> si_type s = Misc then si_channel s else []), sd_server = - 1,
     sd_moderationMode = si_moderationMode s, sd_spellCheckOverride = si_spellOverride s, sd_filters = si_filters s\<rparr>"

fun described :: "(split \<Rightarrow> split_info) \<Rightarrow> node \<Rightarrow> node_descriptor" where
  "described info (Node i t sp pr fh fv cs) =
     (if t = SplitType then SplitNode (descriptorOf (info (the sp))) fh fv
      else ContainerNode fh fv (t = VerticalContainer) (map (described info) cs))"

lemma jvalue_simps [simp]:
  "jvalue [] k = JUndefined" "jvalue ((l, v) # obj) k = (if k = l then v else jvalue obj k)"
  by (simp_all add: jvalue_def)

lemma load_encodedChannel:
  "SplitDescriptor_loadFromJSON uuid base (encodeChannel t n) =
     \<lparr>sd_type = jString (jvalue (encodeChannel t n) ''type''),
      sd_channelName = (if t = Twitch \<or> t = Misc then n else []), sd_server = - 1,
      sd_moderationMode = jBool False (jvalue base ''moderationMode''),
      sd_spellCheckOverride = (case jvalue base ''checkSpelling'' of JBool b \<Rightarrow> Some b | _ \<Rightarrow> None),
      sd_filters = loadFilters uuid (jvalue base ''filters'')\<rparr>"
  by (cases t) (simp_all add: SplitDescriptor_loadFromJSON_def encodeChannel_def)

definition filters_fixed :: "(string \<Rightarrow> string) \<Rightarrow> split_info \<Rightarrow> bool" where
  "filters_fixed uuid s \<longleftrightarrow> list_all (\<lambda>f. uuid f = f) (si_filters s)"

lemma loadFilters_encode: "filters_fixed uuid s \<Longrightarrow> loadFilters uuid (JArr (encodeFilters s)) = si_filters s"
  by (simp add: loadFilters_def encodeFilters_def filters_fixed_def list_all_iff map_idI)

lemma load_encodedNode:
  "wf_node n \<Longrightarrow> list_all (\<lambda>s. filters_fixed uuid (info s)) (splitsOf n) \<Longrightarrow>
   loadNode uuid (JObj (encodeNodeRecursively info n)) = described info n"
proof (induction n)
  case (Node i t sp pr fh fv cs)
  show ?case
  proof (cases "t = SplitType")
    case True
    with Node.prems obtain s where s: "sp = Some s" "cs = []" "filters_fixed uuid (info s)"
      by (cases sp) (auto simp: splitsOf_def)
    have "loadNode uuid (JObj (encodeNodeRecursively info (Node i SplitType (Some s) pr fh fv [])))
        = SplitNode (descriptorOf (info s)) fh fv"
      using s(3) by (subst loadNode.simps)
        (cases "si_spellOverride (info s)"; simp add: loadSplitNode_def load_encodedChannel loadFilters_encode descriptorOf_def Let_def)
    with True s show ?thesis by simp
  next
    case False
    with Node.prems(1) have t: "isContainer t" and wf: "list_all wf_node cs" by auto
    have "loadNode uuid (JObj (encodeNodeRecursively info c)) = described info c" if "c \<in> set cs" for c
      using Node.IH[OF that] wf that Node.prems(2) t by (auto simp: list_all_iff)
    then have items: "map (\<lambda>c. loadNode uuid (JObj (encodeNodeRecursively info c))) cs = map (described info) cs" by simp
    from t consider "t = VerticalContainer" | "t = HorizontalContainer" by (auto simp: isContainer_def)
    then show ?thesis
      by cases (subst loadNode.simps, simp add: items comp_def)+
  qed
qed

text \<open>What a tree of splits shows, with the shares of the space.\<close>

datatype look = SplitLook split_info rat rat | BoxLook node_type rat rat "look list"

fun lookOf :: "(split \<Rightarrow> split_info) \<Rightarrow> node \<Rightarrow> look" where
  "lookOf info (Node i t sp pr fh fv cs) =
     (if t = SplitType then SplitLook (info (the sp)) fh fv else BoxLook t fh fv (map (lookOf info) cs))"

fun lookD :: "(channel_type \<Rightarrow> string \<Rightarrow> channel_type \<times> string) \<Rightarrow> node_descriptor \<Rightarrow> look" where
  "lookD server (SplitNode d fh fv) = SplitLook (newSplitInfo server d) fh fv"
| "lookD server (ContainerNode fh fv vert ns) =
     BoxLook (if vert then VerticalContainer else HorizontalContainer) fh fv (map (lookD server) ns)"

lemma applyItem_look:
  "applyItem server d st = (n, st') \<Longrightarrow> \<exists>new. snd st' = snd st @ new \<and>
     (\<forall>more. lookOf (\<lambda>s. (snd st' @ more) ! s) n = lookD server d)"
  and applyItems_look:
  "applyItems server ds st = (ns, st') \<Longrightarrow> \<exists>new. snd st' = snd st @ new \<and>
     (\<forall>more. map (lookOf (\<lambda>s. (snd st' @ more) ! s)) ns = map (lookD server) ds)"
proof (induction server d st and server ds st arbitrary: n st' and ns st' rule: applyItem_applyItems.induct)
  case (1 server d fh fv fresh infos)
  then show ?case by (auto simp: nth_append)
next
  case (2 server fh fv vert ns fresh infos)
  obtain cs st1 where items: "applyItems server ns (fresh + 1, infos) = (cs, st1)" by (rule prod.exhaust)
  with 2(1)[OF items] 2(2) show ?case by (auto simp: isContainer_def)
next
  case (3 server st)
  then show ?case by auto
next
  case (4 server d ds st)
  obtain c st1 where c: "applyItem server d st = (c, st1)" by (rule prod.exhaust)
  obtain cs st2 where cs: "applyItems server ds st1 = (cs, st2)" by (rule prod.exhaust)
  from 4(1)[OF c] obtain new1 where new1: "snd st1 = snd st @ new1"
    "\<And>more. lookOf (\<lambda>s. (snd st1 @ more) ! s) c = lookD server d" by blast
  from 4(2)[OF c[symmetric] cs] obtain new2 where new2: "snd st2 = snd st1 @ new2"
    "\<And>more. map (lookOf (\<lambda>s. (snd st2 @ more) ! s)) cs = map (lookD server) ds" by blast
  have "lookOf (\<lambda>s. (snd st2 @ more) ! s) c = lookD server d" for more
    using new1(2)[of "new2 @ more"] by (simp add: new2(1))
  with new1(1) new2 4(3) c cs show ?case by auto
qed


text \<open>The root of a restored tab takes the whole space.\<close>

fun fillTab :: "look \<Rightarrow> look" where
  "fillTab (SplitLook s fh fv) = SplitLook s 1 1"
| "fillTab (BoxLook t fh fv ls) = BoxLook t 1 1 ls"

text \<open>What is required of a split: the server, asked for a channel by its type and name, or for the one channel of a special type,
  gives this channel; a split without a channel shows none.  Encoding and decoding are not mentioned.\<close>

definition served :: "(channel_type \<Rightarrow> string \<Rightarrow> channel_type \<times> string) \<Rightarrow> channel_type \<Rightarrow> string \<Rightarrow> bool" where
  "served server t n \<longleftrightarrow>
     (if t = Twitch \<or> t = Misc then server t n = (t, n)
      else if t \<in> {TwitchWhispers, TwitchWatching, TwitchMentions, TwitchLive, TwitchAutomod} then server t [] = (t, n)
      else t = TypeNone \<and> n = [])"

lemma decode_encoded: "served server (si_type s) (si_channel s) \<Longrightarrow> decodeChannel server (descriptorOf s) = (si_type s, si_channel s)"
  by (cases "si_type s") (simp_all add: served_def decodeChannel_def descriptorOf_def encodeChannel_def)

definition restorable :: "(channel_type \<Rightarrow> string \<Rightarrow> channel_type \<times> string) \<Rightarrow> (string \<Rightarrow> string) \<Rightarrow> split_info \<Rightarrow> bool" where
  "restorable server uuid s \<longleftrightarrow> filters_fixed uuid s \<and> served server (si_type s) (si_channel s)"

lemma lookD_described:
  "wf_node n \<Longrightarrow> list_all (\<lambda>s. restorable server uuid (info s)) (splitsOf n) \<Longrightarrow> lookD server (described info n) = lookOf info n"
proof (induction n)
  case (Node i t sp pr fh fv cs)
  show ?case
  proof (cases "t = SplitType")
    case True
    with Node.prems show ?thesis
      by (auto simp: splitsOf_def restorable_def newSplitInfo_def decode_encoded) (simp add: descriptorOf_def)
  next
    case False
    with Node.prems(1) have t: "isContainer t" and wf: "list_all wf_node cs" by auto
    have "lookD server (described info c) = lookOf info c" if "c \<in> set cs" for c
      using Node.IH[OF that] wf that Node.prems(2) t by (auto simp: list_all_iff splitsOf_def)
    with t show ?thesis by (auto simp: isContainer_def)
  qed
qed

lemma build_look:
  "\<exists>tab. applyFromDescriptor server d newTab = Some tab
     \<and> lookOf (infoOf tab) (sc_base (st_container tab)) = fillTab (lookD server d)"
proof (cases d)
  case (SplitNode s fh fv)
  then show ?thesis
    by (simp add: newTab_def newContainer_def insertSplit_def noOptions_def addSplit_def infoOf_def Let_def)
next
  case (ContainerNode fh fv vert ns)
  obtain cs st where items: "applyItems server ns (1, []) = (cs, st)" by (rule prod.exhaust)
  obtain fresh infos where st: "st = (fresh, infos)" by (rule prod.exhaust)
  from applyItems_look[OF items] have "map (lookOf ((!) infos)) cs = map (lookD server) ns"
    using st by (metis append_Nil2 snd_conv)
  then show ?thesis
    using items st by (simp add: ContainerNode newTab_def newContainer_def infoOf_def[abs_def])
qed

lemma saved_root:
  assumes "wf_node n" "list_all (\<lambda>s. filters_fixed uuid (info s)) (splitsOf n)"
  shows "td_rootNode (TabDescriptor_loadFromJSON uuid (encodeTab title sel hl info n)) = Some (described info n)"
proof -
  obtain i t sp pr fh fv cs where n: "n = Node i t sp pr fh fv cs" by (cases n)
  have splits2: "jvalue (encodeTab title sel hl info n) ''splits2'' = JObj (encodeNodeRecursively info n)"
    by (simp add: encodeTab_def split: option.splits)
  have ne: "encodeNodeRecursively info n \<noteq> []" by (simp add: n)
  from assms(1) consider "t = SplitType" | "t = VerticalContainer" | "t = HorizontalContainer"
    by (auto simp: n isContainer_def)
  then show ?thesis
  proof cases
    case 1
    then have ty: "jvalue (encodeNodeRecursively info n) ''type'' = JStr ''split''" by (simp add: n Let_def)
    have "loadSplitNode uuid (encodeNodeRecursively info n) = described info n"
      using load_encodedNode[OF assms] ty by (simp add: loadNode.simps Let_def)
    with ne ty show ?thesis by (simp add: TabDescriptor_loadFromJSON_def splits2)
  next
    case 2
    then have ty: "jvalue (encodeNodeRecursively info n) ''type'' = JStr ''vertical''" by (simp add: n)
    with ne show ?thesis by (simp add: TabDescriptor_loadFromJSON_def splits2 load_encodedNode[OF assms])
  next
    case 3
    then have ty: "jvalue (encodeNodeRecursively info n) ''type'' = JStr ''horizontal''" by (simp add: n)
    with ne show ?thesis by (simp add: TabDescriptor_loadFromJSON_def splits2 load_encodedNode[OF assms])
  qed
qed

text \<open>C23. A tab that is saved is restored: its flags, and a tree that shows the same splits with the same channels, filters,
  moderation modes and spell checking in the same containers with the same shares; only the root's share becomes one.  It is
  required that parsing the identifier of a filter gives it back, and that the server gives a channel for its type and name (for
  a special channel: for its type); that the saved type and name are those of the channel, whatever its type, is proved.  The
  assertion that a tab is empty before it is restored never fails.\<close>

theorem saved_tab_comes_back:
  assumes "wf_node n" "list_all (\<lambda>s. restorable server uuid (info s)) (splitsOf n)"
  shows "\<exists>d tab. TabDescriptor_loadFromJSON uuid (encodeTab title sel hl info n)
       = \<lparr>td_customTitle = (case title of Some t \<Rightarrow> t | None \<Rightarrow> []), td_selected = sel, td_highlightsEnabled = hl,
          td_rootNode = Some d\<rparr>
     \<and> applyFromDescriptor server d newTab = Some tab
     \<and> lookOf (infoOf tab) (sc_base (st_container tab)) = fillTab (lookOf info n)"
proof -
  from assms(2) have f: "list_all (\<lambda>s. filters_fixed uuid (info s)) (splitsOf n)"
    by (auto simp: list_all_iff restorable_def)
  let ?td = "TabDescriptor_loadFromJSON uuid (encodeTab title sel hl info n)"
  have "td_customTitle ?td = (case title of Some t \<Rightarrow> t | None \<Rightarrow> [])" "td_selected ?td = sel" "td_highlightsEnabled ?td = hl"
    by (simp_all add: TabDescriptor_loadFromJSON_def encodeTab_def Let_def split: option.splits)
  with saved_root[OF assms(1) f, of title sel hl] have "?td = \<lparr>td_customTitle = (case title of Some t \<Rightarrow> t | None \<Rightarrow> []), td_selected = sel,
      td_highlightsEnabled = hl, td_rootNode = Some (described info n)\<rparr>"
    by (cases ?td) simp
  moreover obtain tab where "applyFromDescriptor server (described info n) newTab = Some tab"
    "lookOf (infoOf tab) (sc_base (st_container tab)) = fillTab (lookD server (described info n))"
    using build_look by blast
  ultimately show ?thesis using lookD_described[OF assms] by simp
qed


definition exampleTab :: node where
  "exampleTab = Node 0 HorizontalContainer None None 1 1
     [Node 1 SplitType (Some 0) None (1 / 2) 1 [], Node 2 VerticalContainer None None 2 1
       [Node 3 SplitType (Some 1) None 1 1 [], Node 4 SplitType (Some 2) None 1 3 []]]"

definition exampleInfo :: "split \<Rightarrow> split_info" where
  "exampleInfo s = (if s = 0 then \<lparr>si_type = Twitch, si_channel = ''pajlada'', si_moderationMode = True, si_spellOverride = None, si_filters = [''f1'']\<rparr>
     else if s = 1 then \<lparr>si_type = TwitchMentions, si_channel = ''/mentions'', si_moderationMode = False, si_spellOverride = Some False, si_filters = []\<rparr>
     else \<lparr>si_type = TypeNone, si_channel = [], si_moderationMode = False, si_spellOverride = None, si_filters = []\<rparr>)"

definition exampleServer :: "channel_type \<Rightarrow> string \<Rightarrow> channel_type \<times> string" where
  "exampleServer t n = (t, if t = TwitchMentions then ''/mentions'' else n)"

lemma example_restorable: "wf_node exampleTab" "list_all (\<lambda>s. restorable exampleServer id (exampleInfo s)) (splitsOf exampleTab)"
  by (simp add: exampleTab_def)
    (simp add: exampleTab_def splitsOf_def restorable_def exampleInfo_def filters_fixed_def served_def exampleServer_def)

theorem saved_tab_comes_back_witness:
  "\<exists>d tab. TabDescriptor_loadFromJSON id (encodeTab None True False exampleInfo exampleTab)
       = \<lparr>td_customTitle = (case None of Some t \<Rightarrow> t | None \<Rightarrow> []), td_selected = True, td_highlightsEnabled = False,
          td_rootNode = Some d\<rparr>
     \<and> applyFromDescriptor exampleServer d newTab = Some tab
     \<and> lookOf (infoOf tab) (sc_base (st_container tab)) = fillTab (lookOf exampleInfo exampleTab)"
  by (rule saved_tab_comes_back) (fact example_restorable)+

text \<open>A saved tree has at least two items in each container, so that loading it makes a well-formed tree.\<close>

lemma saved_branching: "wf_node n \<Longrightarrow> branching (described info n)"
  by (induction n) (auto simp: list_all_iff)

section \<open>Copies of a tab\<close>

lemma popup_same:
  assumes "wf_node (sc_base (st_container tab))" "title \<noteq> Some []"
    "list_all (\<lambda>s. restorable server uuid (infoOf tab s)) (splitsOf (sc_base (st_container tab)))"
  shows "\<exists>new. popup server uuid title hl tab = Some (title, hl, new)
    \<and> lookOf (infoOf new) (sc_base (st_container new)) = fillTab (lookOf (infoOf tab) (sc_base (st_container tab)))"
proof -
  let ?n = "sc_base (st_container tab)"
  have f: "list_all (\<lambda>s. filters_fixed uuid (infoOf tab s)) (splitsOf ?n)"
    using assms(3) by (auto simp: list_all_iff restorable_def)
  let ?td = "TabDescriptor_loadFromJSON uuid (encodeTab title True hl (infoOf tab) ?n)"
  have "td_customTitle ?td = (case title of Some t \<Rightarrow> t | None \<Rightarrow> [])" "td_highlightsEnabled ?td = hl"
    by (simp_all add: TabDescriptor_loadFromJSON_def encodeTab_def Let_def split: option.splits)
  with saved_root[OF assms(1) f, of title True hl] build_look[of server "described (infoOf tab) ?n"]
    lookD_described[OF assms(1,3)] assms(2)
  show ?thesis by (cases title) (auto simp: popup_def Let_def)
qed

text \<open>What is left of a split in a copy.\<close>

fun copyLook :: "look \<Rightarrow> look" where
  "copyLook (SplitLook s fh fv) = SplitLook (s\<lparr>si_moderationMode := False, si_spellOverride := None\<rparr>) 1 1"
| "copyLook (BoxLook t fh fv ls) = BoxLook t 1 1 (map copyLook ls)"

definition copyable :: "(channel_type \<Rightarrow> string \<Rightarrow> channel_type \<times> string) \<Rightarrow> split_info \<Rightarrow> bool" where
  "copyable server s \<longleftrightarrow> decodeChannel server \<lparr>sd_type = channelTypeToString (si_type s), sd_channelName = si_channel s,
     sd_server = - 1, sd_moderationMode = False, sd_spellCheckOverride = None, sd_filters = si_filters s\<rparr> = (si_type s, si_channel s)"

lemma those_map_Some: "(\<And>x. x \<in> set xs \<Longrightarrow> f x = Some (g x)) \<Longrightarrow> those (map f xs) = Some (map g xs)"
  by (induction xs) auto

lemma build_described:
  "wf_node n \<Longrightarrow> list_all (\<lambda>s. copyable server (info s)) (splitsOf n) \<Longrightarrow>
   \<exists>d. buildDescriptorRecursively info n = Some d \<and> lookD server d = copyLook (lookOf info n)"
proof (induction n)
  case (Node i t sp pr fh fv cs)
  show ?case
  proof (cases "t = SplitType")
    case True
    with Node.prems show ?thesis
      by (auto simp: splitsOf_def copyable_def newSplitInfo_def decodeChannel_def)
  next
    case False
    with Node.prems(1) have t: "isContainer t" and wf: "list_all wf_node cs" and ne: "cs \<noteq> []" by auto
    have "\<exists>d. buildDescriptorRecursively info c = Some d \<and> lookD server d = copyLook (lookOf info c)" if "c \<in> set cs" for c
      using Node.IH[OF that] wf that Node.prems(2) t by (auto simp: list_all_iff splitsOf_def)
    then obtain g where g: "\<And>c. c \<in> set cs \<Longrightarrow> buildDescriptorRecursively info c = Some (g c) \<and> lookD server (g c) = copyLook (lookOf info c)"
      by metis
    then have "those (map (buildDescriptorRecursively info) cs) = Some (map g cs)"
      by (intro those_map_Some) simp
    with t ne g show ?thesis by (auto simp: isContainer_def)
  qed
qed

text \<open>Duplicating a tab whose channels the server gives again makes a tab with the same containers, channels and
  filters, but every split of the copy has moderation mode off and no override of spell checking, and all shares of
  the space are one: the copy does not keep what the user set.\<close>

theorem duplicate_loses_settings:
  assumes "wf_node (sc_base (st_container tab))" "sc_splits (st_container tab) \<noteq> []"
    "list_all (\<lambda>s. copyable server (infoOf tab s)) (splitsOf (sc_base (st_container tab)))"
  shows "\<exists>new. duplicatePage server tab = Some new
    \<and> lookOf (infoOf new) (sc_base (st_container new)) = copyLook (lookOf (infoOf tab) (sc_base (st_container tab)))"
proof -
  have root: "fillTab (copyLook l) = copyLook l" for l by (cases l) simp_all
  from build_described[OF assms(1,3)] obtain d where
    d: "buildDescriptor tab = Some d" "lookD server d = copyLook (lookOf (infoOf tab) (sc_base (st_container tab)))"
    unfolding buildDescriptor_def by blast
  with assms(2) build_look[of server d] show ?thesis by (auto simp: duplicatePage_def root)
qed

definition exampleSplits :: split_tab where
  "exampleSplits = \<lparr>st_container = \<lparr>sc_base = exampleTab, sc_splits = [0, 1, 2], sc_selected = None, sc_fresh = 5\<rparr>,
     st_infos = [exampleInfo 0, exampleInfo 1, exampleInfo 0]\<rparr>"

theorem duplicate_loses_settings_witness:
  "\<exists>new. duplicatePage exampleServer exampleSplits = Some new
    \<and> lookOf (infoOf new) (sc_base (st_container new))
      = copyLook (lookOf (infoOf exampleSplits) (sc_base (st_container exampleSplits)))"
proof (rule duplicate_loses_settings)
  show "wf_node (sc_base (st_container exampleSplits))" "sc_splits (st_container exampleSplits) \<noteq> []"
    by (simp_all add: exampleSplits_def example_restorable)
  show "list_all (\<lambda>s. copyable exampleServer (infoOf exampleSplits s)) (splitsOf (sc_base (st_container exampleSplits)))"
    by (simp add: exampleSplits_def exampleTab_def splitsOf_def infoOf_def exampleInfo_def copyable_def channelTypeToString_def
      decodeChannel_def exampleServer_def)
qed

text \<open>A container with one item, as a file may have it: its only split cannot be closed, since the code then reads the
  last element of an empty vector.\<close>

definition oneItem :: json where
  "oneItem = JObj [(''type'', JStr ''vertical''),
     (''items'', JArr [JObj [(''type'', JStr ''split''), (''data'', JObj [(''type'', JStr ''twitch''), (''name'', JStr ''a'')])]])]"

lemma single_item_cannot_be_closed:
  "map_option (releaseSplit 0 \<circ> st_container) (applyFromDescriptor server (loadNode uuid oneItem) newTab) = Some None"
  by (simp add: oneItem_def loadNode.simps loadSplitNode_def newTab_def newContainer_def releaseSplit_def releaseNode_def
    releaseChild_def releaseBelow.simps Let_def)


section \<open>Activated channels\<close>

text \<open>A tab shows a channel when one of its splits has the channel's name.  A tab weighs two for each split and one for each split of
  the channel that has filters.\<close>

fun splitsIn :: "node_descriptor \<Rightarrow> split_descriptor list" where
  "splitsIn (SplitNode d fh fv) = [d]"
| "splitsIn (ContainerNode fh fv vert ns) = concat (map splitsIn ns)"

definition tabSplits :: "tab_descriptor \<Rightarrow> split_descriptor list" where
  "tabSplits tab = (case td_rootNode tab of None \<Rightarrow> [] | Some node \<Rightarrow> splitsIn node)"

definition tabShows :: "string \<Rightarrow> tab_descriptor \<Rightarrow> bool" where
  "tabShows n tab \<longleftrightarrow> (\<exists>d\<in>set (tabSplits tab). sd_channelName d = n)"

definition tabWeight :: "string \<Rightarrow> tab_descriptor \<Rightarrow> nat" where
  "tabWeight n tab = 2 * length (tabSplits tab)
     + length (filter (\<lambda>d. sd_channelName d = n \<and> sd_filters d \<noteq> []) (tabSplits tab))"

definition nodeVisit :: "string \<Rightarrow> split_descriptor list \<Rightarrow> nat \<times> bool \<Rightarrow> nat \<times> bool" where
  "nodeVisit n ds st = (fst st + 2 * length ds + length (filter (\<lambda>d. sd_channelName d = n \<and> sd_filters d \<noteq> []) ds),
     snd st \<or> (\<exists>d\<in>set ds. sd_channelName d = n))"

lemma nodeVisit_append: "nodeVisit n (ds @ es) st = nodeVisit n es (nodeVisit n ds st)"
  by (auto simp: nodeVisit_def)

lemma visitNode_splits: "visitNode n node st = nodeVisit n (splitsIn node) st"
proof (induction n node st rule: visitNode.induct)
  case (1 spec d fh fv score hasChannel)
  then show ?case by (simp add: nodeVisit_def Let_def)
next
  case (2 spec fh fv vert ns st)
  have "fold (visitNode spec) ms st' = nodeVisit spec (concat (map splitsIn ms)) st'" if "set ms \<subseteq> set ns" for ms st'
    using that
  proof (induction ms arbitrary: st')
    case Nil
    then show ?case by (simp add: nodeVisit_def)
  next
    case (Cons m ms)
    then show ?case using 2[of m] by (simp add: nodeVisit_append)
  qed
  then show ?case by simp
qed

lemma tabScore_eq: "tabScore n tab = (if tabShows n tab then Some (tabWeight n tab) else None)"
  by (auto simp: tabScore_def visitNode_splits nodeVisit_def tabShows_def tabWeight_def tabSplits_def split: option.splits)

definition bestOf :: "string \<Rightarrow> tab_descriptor list \<Rightarrow> (nat \<times> nat) option \<Rightarrow> bool" where
  "bestOf n tabs best = (case best of
     None \<Rightarrow> (\<forall>t\<in>set tabs. tabScore n t = None)
   | Some (b, k) \<Rightarrow> b < length tabs \<and> tabScore n (tabs ! b) = Some k \<and> (\<forall>t\<in>set tabs. \<forall>k'. tabScore n t = Some k' \<longrightarrow> k \<le> k'))"

lemma bestTabLoop_best: "bestOf n before best \<Longrightarrow> bestOf n (before @ tabs) (bestTabLoop n (length before) tabs best)"
proof (induction tabs arbitrary: before best)
  case (Cons tab tabs)
  let ?best = "case tabScore n tab of None \<Rightarrow> best
    | Some score \<Rightarrow> (case best of None \<Rightarrow> Some (length before, score)
        | Some (b, k) \<Rightarrow> if score < k then Some (length before, score) else Some (b, k))"
  have loop: "bestTabLoop n (length before) (tab # tabs) best = bestTabLoop n (length (before @ [tab])) tabs ?best"
    by (simp split: option.splits prod.splits)
  have "bestOf n (before @ [tab]) ?best"
    using Cons.prems by (fastforce simp: bestOf_def nth_append split: option.splits prod.splits)
  from Cons.IH[OF this] show ?case unfolding loop by simp
qed simp

lemma tabScore_selected [simp]: "tabScore n (tab\<lparr>td_selected := b\<rparr>) = tabScore n tab"
  by (simp add: tabScore_def)

lemma tabScore_deselect [simp]: "tabScore n (deselect tab) = tabScore n tab"
  by (simp add: deselect_def)

lemma td_selected_deselect [simp]: "td_selected (deselect tab) = False"
  by (simp add: deselect_def)

lemma tabScore_channelTab: "tabScore n (channelTab n) = Some 2"
  by (simp add: tabScore_def channelTab_def twitchSplit_def)

text \<open>The only selected tab is one that shows the channel, and no other that does is lighter.\<close>

definition showsChannel :: "string \<Rightarrow> window_descriptor \<Rightarrow> bool" where
  "showsChannel n w \<longleftrightarrow> (\<exists>tab. filter td_selected (wd_tabs w) = [tab] \<and> tabShows n tab
     \<and> (\<forall>t\<in>set (wd_tabs w). tabShows n t \<longrightarrow> tabWeight n tab \<le> tabWeight n t))"

lemma showsChannelI:
  "filter td_selected (wd_tabs w) = [tab] \<Longrightarrow> tabScore n tab = Some k \<Longrightarrow>
   (\<And>t k'. t \<in> set (wd_tabs w) \<Longrightarrow> tabScore n t = Some k' \<Longrightarrow> k \<le> k') \<Longrightarrow> showsChannel n w"
  unfolding showsChannel_def by (intro exI[of _ tab]) (auto simp: tabScore_eq split: if_splits)

lemma activateInWindow_shows: "showsChannel n (activateInWindow n w)"
proof -
  have best: "bestOf n (wd_tabs w) (bestTabLoop n 0 (wd_tabs w) None)"
    using bestTabLoop_best[of n "[]" None] by (simp add: bestOf_def)
  show ?thesis
  proof (cases "bestTabLoop n 0 (wd_tabs w) None")
    case None
    with best have "\<forall>t\<in>set (wd_tabs w). tabScore n t = None" by (simp add: bestOf_def)
    with None show ?thesis
      by (intro showsChannelI[of _ "channelTab n" n 2])
        (auto simp: activateInWindow_def Let_def tabScore_channelTab filter_map comp_def, simp add: channelTab_def)
  next
    case (Some r)
    then obtain i k where r: "bestTabLoop n 0 (wd_tabs w) None = Some (i, k)" by (cases r) simp
    with best have i: "i < length (wd_tabs w)" "tabScore n (wd_tabs w ! i) = Some k"
      and low: "\<And>t k'. t \<in> set (wd_tabs w) \<Longrightarrow> tabScore n t = Some k' \<Longrightarrow> k \<le> k'" by (auto simp: bestOf_def)
    obtain as t bs where tabs: "wd_tabs w = as @ t # bs" "length as = i" using i(1) by (metis id_take_nth_drop length_take min.absorb4)
    have new: "wd_tabs (activateInWindow n w) = map deselect as @ (deselect t)\<lparr>td_selected := True\<rparr> # map deselect bs"
      using tabs(1) tabs(2)[symmetric] r by (simp add: activateInWindow_def Let_def nth_append list_update_append)
    have "filter td_selected (wd_tabs (activateInWindow n w)) = [(deselect t)\<lparr>td_selected := True\<rparr>]"
      by (simp add: new filter_map comp_def)
    moreover have "tabScore n t = Some k" using i(2) tabs by (simp add: nth_append)
    moreover have "k \<le> k'" if x: "x \<in> set (wd_tabs (activateInWindow n w))" and k': "tabScore n x = Some k'" for x k'
    proof -
      have "\<exists>y\<in>set (wd_tabs w). tabScore n x = tabScore n y" using x by (auto simp: new tabs(1))
      then obtain y where y: "y \<in> set (wd_tabs w)" "tabScore n x = tabScore n y" by blast
      with low[of y k'] k' show ?thesis by simp
    qed
    ultimately show ?thesis
      by (intro showsChannelI[of _ "(deselect t)\<lparr>td_selected := True\<rparr>" n k]) simp_all
  qed
qed

definition mainWindow :: "window_layout \<Rightarrow> window_descriptor option" where
  "mainWindow layout = map_option ((!) (wl_windows layout)) (first_index (\<lambda>w. wd_type w = MainWindow) (wl_windows layout))"

lemma first_index_update:
  "first_index P xs = Some k \<Longrightarrow> P x \<Longrightarrow> first_index P (xs[k := x]) = Some k"
  by (induction xs arbitrary: k) (auto split: if_splits nat.splits)

lemma first_index_none_append: "first_index P xs = None \<Longrightarrow> P x \<Longrightarrow> first_index P (xs @ [x]) = Some (length xs)"
  by (induction xs) (auto split: if_splits)

text \<open>C25. After activating a Twitch channel whose name begins with no slash and no dollar sign, the layout has a main window, and
  exactly one of its tabs is selected: one in which a split has the channel's name, and of those that do one with the least weight,
  which is two for each split and one for each filtered split of the channel.\<close>

theorem activated_channel_is_selected:
  assumes "\<not> startsWith n ''/''" "\<not> startsWith n ''$''"
  shows "map_option (showsChannel n) (mainWindow (activateOrAddChannel TwitchProvider n layout)) = Some True"
proof (cases "first_index (\<lambda>w. wd_type w = MainWindow) (wl_windows layout)")
  case None
  have "showsChannel n \<lparr>wd_type = MainWindow, wd_state = NoState, wd_geometry = (- 1, - 1, - 1, - 1), wd_tabs = [channelTab n]\<rparr>"
    by (rule showsChannelI[of _ "channelTab n" n 2]) (auto simp: tabScore_channelTab, simp add: channelTab_def)
  with None assms show ?thesis
    by (simp add: activateOrAddChannel_def mainWindow_def first_index_none_append)
next
  case (Some k)
  have "wd_type (activateInWindow n w) = wd_type w" for w by (simp add: activateInWindow_def Let_def split: option.splits)
  moreover have "wd_type (wl_windows layout ! k) = MainWindow" using first_index_Some_D[OF Some] by simp
  ultimately have "first_index (\<lambda>w. wd_type w = MainWindow) ((wl_windows layout)[k := activateInWindow n (wl_windows layout ! k)]) = Some k"
    using Some by (simp add: first_index_update)
  with Some assms show ?thesis
    by (simp add: activateOrAddChannel_def mainWindow_def first_index_Some_D activateInWindow_shows)
qed

theorem activated_channel_is_selected_witness:
  "map_option (showsChannel ''forsen'') (mainWindow (activateOrAddChannel TwitchProvider ''forsen'' emptyLayout)) = Some True"
  by (rule activated_channel_is_selected) (simp_all add: startsWith_def)

end
