(* ===== verification/Commands.thy ===== *)
theory Commands
  imports SettingsTables Messages ChannelTypes
begin

text \<open>
  \<open>CommandController\<close> of \<open>src/controllers/commands/CommandController.cpp\<close>: the commands of the user and the built-in
  ones, how a text is executed as a command, and how the text of a command of the user is filled in.

  What a built-in command does is not part of the model: executing one is an outcome with its name and its words.  The
  replacement of emoji short codes is an argument.  The regular expression for placeholders is written out as a
  matcher.

  The lemmas show that the map of the user's commands follows the vector of commands, that no command is executed that
  the input does not highlight, and what becomes of a text with placeholders; examples show braces that get lost.
\<close>

section \<open>State\<close>

datatype command_function = CommandFunction string | PluginFunction string

record command_controller =
  cc_items :: "command signal_vector"
  cc_userCommands :: "string \<Rightarrow> command option"
  cc_maxSpaces :: nat
  cc_commands :: "string \<Rightarrow> command_function option"
  cc_completions :: "string list"
  cc_pluginCommands :: "string list"

definition spacesIn :: "string \<Rightarrow> nat" where
  "spacesIn s = length (filter (\<lambda>c. c = CHR '' '') s)"

text \<open>The slot of the constructor for inserted and removed commands.\<close>

definition addFirstMatchToMap :: "string \<Rightarrow> command_controller \<Rightarrow> command_controller" where
  "addFirstMatchToMap n cc =
     (let removed = (cc_userCommands cc)(n := None);
          matching = filter (\<lambda>cmd. cmd_name cmd = n) (items (cc_items cc))
      in cc\<lparr>cc_userCommands := (case matching of [] \<Rightarrow> removed | cmd # _ \<Rightarrow> removed(cmd_name cmd := Some cmd)),
           cc_maxSpaces := foldl (\<lambda>m cmd. if spacesIn (cmd_name cmd) > m then spacesIn (cmd_name cmd) else m) 0
             (items (cc_items cc))\<rparr>)"

fun signalItem :: "'i vector_signal \<Rightarrow> 'i" where
  "signalItem (ItemInserted ev) = ev_item ev"
| "signalItem (ItemRemoved ev) = ev_item ev"

definition editCommands :: "command vector_op \<Rightarrow> command_controller \<Rightarrow> vector_error + command_controller" where
  "editCommands op cc = pbind (exec_op op (cc_items cc))
     (\<lambda>(sigs, v). Inr (fold (\<lambda>sig. addFirstMatchToMap (cmd_name (signalItem sig))) sigs (cc\<lparr>cc_items := v\<rparr>)))"

definition registerCommand :: "string \<Rightarrow> command_function \<Rightarrow> command_controller \<Rightarrow> command_controller option" where
  "registerCommand n f cc =
     (if cc_commands cc n \<noteq> None then None
      else Some (cc\<lparr>cc_commands := (cc_commands cc)(n \<mapsto> f), cc_completions := cc_completions cc @ [n]\<rparr>))"

definition registerPluginCommand :: "string \<Rightarrow> command_controller \<Rightarrow> bool \<times> command_controller" where
  "registerPluginCommand n cc =
     (if cc_commands cc n \<noteq> None then (False, cc)
      else (True, cc\<lparr>cc_commands := (cc_commands cc)(n \<mapsto> PluginFunction n), cc_pluginCommands := cc_pluginCommands cc @ [n]\<rparr>))"

definition unregisterPluginCommand :: "string \<Rightarrow> command_controller \<Rightarrow> bool \<times> command_controller" where
  "unregisterPluginCommand n cc =
     (if n \<notin> set (cc_pluginCommands cc) then (False, cc)
      else (cc_commands cc n \<noteq> None,
            cc\<lparr>cc_pluginCommands := removeAll n (cc_pluginCommands cc), cc_commands := (cc_commands cc)(n := None)\<rparr>))"

definition TWITCH_WHISPER_COMMANDS :: "string list" where
  "TWITCH_WHISPER_COMMANDS = [''/w'', ''.w'']"

definition builtinCommands :: "bool \<Rightarrow> (string \<times> string) list" where
  "builtinCommands debug =
     [(''/ignore'', ''ignoreUser''), (''/unignore'', ''unignoreUser''), (''/follow'', ''follow''),
      (''/unfollow'', ''unfollow''), (''/debug-args'', ''listArgs''), (''/debug-env'', ''listEnvironmentVariables''),
      (''/uptime'', ''uptime''), (''/block'', ''blockUser''), (''/unblock'', ''unblockUser''), (''/user'', ''user''),
      (''/usercard'', ''openUsercard''), (''/requests'', ''requests''), (''/lowtrust'', ''lowtrust''),
      (''/chatters'', ''chatters''), (''/test-chatters'', ''testChatters''), (''/mods'', ''getModerators''),
      (''/clip'', ''clip''), (''/marker'', ''marker''), (''/streamlink'', ''streamlink''), (''/popout'', ''popout''),
      (''/popup'', ''popup''), (''/clearmessages'', ''clearmessages''), (''/settitle'', ''setTitle''),
      (''/setgame'', ''setGame''), (''/openurl'', ''openURL''), (''/raw'', ''sendRawMessage''), (''/reply'', ''sendReply'')]
     @ (if debug then
     [(''/fakemsg'', ''injectFakeMessage''), (''/debug-update-to-no-stream'', ''injectStreamUpdateNoStream'')]
     else [])
     @ [(''/copy'', ''copyToClipboard''), (''/color'', ''updateUserColor''), (''/clear'', ''deleteAllMessages''),
      (''/delete'', ''deleteOneMessage''), (''/mod'', ''addModerator''), (''/unmod'', ''removeModerator''),
      (''/announce'', ''sendAnnouncement''), (''/announceblue'', ''sendAnnouncementBlue''),
      (''/announcegreen'', ''sendAnnouncementGreen''), (''/announceorange'', ''sendAnnouncementOrange''),
      (''/announcepurple'', ''sendAnnouncementPurple''), (''/vip'', ''addVIP''), (''/unvip'', ''removeVIP''),
      (''/unban'', ''unbanUser''), (''/untimeout'', ''unbanUser''), (''/raid'', ''startRaid''),
      (''/unraid'', ''cancelRaid''), (''/emoteonly'', ''emoteOnly''), (''/emoteonlyoff'', ''emoteOnlyOff''),
      (''/subscribers'', ''subscribers''), (''/subscribersoff'', ''subscribersOff''), (''/slow'', ''slow''),
      (''/slowoff'', ''slowOff''), (''/followers'', ''followers''), (''/followersoff'', ''followersOff''),
      (''/uniquechat'', ''uniqueChat''), (''/r9kbeta'', ''uniqueChat''), (''/uniquechatoff'', ''uniqueChatOff''),
      (''/r9kbetaoff'', ''uniqueChatOff''), (''/timeout'', ''sendTimeout''), (''/ban'', ''sendBan''),
      (''/banid'', ''sendBanById''), (''/warn'', ''sendWarn''), (''/monitor'', ''monitorUser''),
      (''/restrict'', ''restrictUser''), (''/unmonitor'', ''unmonitorUser''), (''/unrestrict'', ''unrestrictUser'')]
     @ map (\<lambda>cmd. (cmd, ''sendWhisper'')) TWITCH_WHISPER_COMMANDS
     @ [(''/gw'', ''sendGroupWhisper''), (''/gwhisper'', ''sendGroupWhisper''), (''/groupwhisper'', ''sendGroupWhisper''),
      (''/vips'', ''getVIPs''), (''/commercial'', ''startCommercial''),
      (''/unstable-set-user-color'', ''unstableSetUserClientSideColor''),
      (''/debug-force-image-gc'', ''forceImageGarbageCollection''), (''/debug-force-image-unload'', ''forceImageUnload''),
      (''/debug-force-layout-channel-views'', ''forceLayoutChannelViews''),
      (''/debug-increment-image-generation'', ''incrementImageGeneration''),
      (''/debug-invalidate-buffers'', ''invalidateBuffers''), (''/debug-eventsub'', ''eventsub''),
      (''/debug-test'', ''debugTest''), (''/shield'', ''shieldModeOn''), (''/shieldoff'', ''shieldModeOff''),
      (''/shoutout'', ''sendShoutout''), (''/poll'', ''createPoll''), (''/cancelpoll'', ''cancelPoll''),
      (''/endpoll'', ''endPoll''), (''/prediction'', ''createPrediction''), (''/lockprediction'', ''lockPrediction''),
      (''/cancelprediction'', ''cancelPrediction''), (''/completeprediction'', ''completePrediction''),
      (''/c2-set-logging-rules'', ''setLoggingRules''), (''/c2-theme-autoreload'', ''toggleThemeReload'')]"

fun registerCommands :: "(string \<times> string) list \<Rightarrow> command_controller \<Rightarrow> command_controller option" where
  "registerCommands [] cc = Some cc"
| "registerCommands ((n, f) # cmds) cc =
     (case registerCommand n (CommandFunction f) cc of None \<Rightarrow> None | Some cc1 \<Rightarrow> registerCommands cmds cc1)"

fun appendCommands :: "command list \<Rightarrow> command_controller \<Rightarrow> vector_error + command_controller" where
  "appendCommands [] cc = Inr cc"
| "appendCommands (cmd # cmds) cc = pbind (editCommands (Append cmd None) cc) (appendCommands cmds)"

definition emptyController :: command_controller where
  "emptyController = \<lparr>cc_items = SignalVector None, cc_userCommands = (\<lambda>n. None), cc_maxSpaces = 0,
     cc_commands = (\<lambda>n. None), cc_completions = [], cc_pluginCommands = []\<rparr>"

text \<open>The constructor: the stored commands are appended, the built-in ones are registered.\<close>

definition CommandController :: "bool \<Rightarrow> command list \<Rightarrow> command_controller option" where
  "CommandController debug stored =
     (case appendCommands stored emptyController of Inl _ \<Rightarrow> None | Inr cc \<Rightarrow> registerCommands (builtinCommands debug) cc)"

section \<open>Commands of the user\<close>

record twitch_info =
  tw_roomId :: string
  tw_live :: bool
  tw_game :: string
  tw_title :: string

record command_channel =
  ch_name :: string
  ch_type :: channel_type
  ch_twitch :: "twitch_info option"

text \<open>What a command can refer to: the channel, a message, values of the caller, and the account.\<close>

record command_env =
  ce_channel :: command_channel
  ce_message :: "message option"
  ce_context :: "string \<Rightarrow> string option"
  ce_userId :: string
  ce_userName :: string

definition orAlt :: "string \<Rightarrow> string \<Rightarrow> string" where
  "orAlt altText v = (if v = [] then altText else v)"

definition messageVar :: "(message \<Rightarrow> string) \<Rightarrow> string \<Rightarrow> command_env \<Rightarrow> string" where
  "messageVar field altText env = (case ce_message env of None \<Rightarrow> altText | Some m \<Rightarrow> orAlt altText (field m))"

definition streamVar :: "(twitch_info \<Rightarrow> string) \<Rightarrow> string \<Rightarrow> command_env \<Rightarrow> string" where
  "streamVar field altText env =
     (case ch_twitch (ce_channel env) of None \<Rightarrow> altText | Some tc \<Rightarrow> if tw_live tc then field tc else altText)"

definition commandVar :: "string \<Rightarrow> (string \<Rightarrow> command_env \<Rightarrow> string) option" where
  "commandVar n =
     (if n = ''channel.name'' \<or> n = ''channel'' then Some (\<lambda>altText env. ch_name (ce_channel env))
      else if n = ''channel.id'' then
        Some (\<lambda>altText env. case ch_twitch (ce_channel env) of None \<Rightarrow> altText | Some tc \<Rightarrow> tw_roomId tc)
      else if n = ''stream.game'' then Some (streamVar tw_game)
      else if n = ''stream.title'' then Some (streamVar tw_title)
      else if n = ''my.id'' then Some (\<lambda>altText env. orAlt altText (ce_userId env))
      else if n = ''my.name'' then Some (\<lambda>altText env. orAlt altText (ce_userName env))
      else if n = ''user.name'' \<or> n = ''user'' then Some (messageVar m_loginName)
      else if n = ''msg.id'' \<or> n = ''msg-id'' then Some (messageVar m_id)
      else if n = ''msg.text'' \<or> n = ''message'' then Some (messageVar m_messageText)
      else if n = ''input.text'' then Some (\<lambda>altText env. altText)
      else None)"

text \<open>The regular expression of placeholders after their opening brace: the third, fourth and fifth group and the
  length, and then a match of the whole, which begins with another character or at the start of the text.\<close>

definition nameChar :: "char \<Rightarrow> bool" where
  "nameChar c \<longleftrightarrow> (97 \<le> code c \<and> code c \<le> 122) \<or> (65 \<le> code c \<and> code c \<le> 90) \<or> c = CHR ''.'' \<or> c = CHR ''-''"

fun closingBrace :: "string \<Rightarrow> nat option" where
  "closingBrace [] = None"
| "closingBrace (c # cs) =
     (if c = CHR ''}'' then Some 0 else if code c = 10 then None else map_option Suc (closingBrace cs))"

definition altLength :: "string \<Rightarrow> nat option" where
  "altLength s = (case s of [] \<Rightarrow> None | c # cs \<Rightarrow> if code c = 10 then None else map_option Suc (closingBrace cs))"

definition placeholderAt :: "string \<Rightarrow> (string \<times> string \<times> string \<times> nat) option" where
  "placeholderAt s =
     (let digits = takeWhile isDigit s; rest = drop (length digits) s;
          n = takeWhile nameChar s; after = drop (length n) s
      in if digits \<noteq> [] then
           (if startsWith rest ''}'' then Some (digits, [], [], length digits + 1)
            else if startsWith rest ''+}'' then Some (digits @ ''+'', [], [], length digits + 2) else None)
         else if n \<noteq> [] then
           (if startsWith after ''}'' then Some (n, n, [], length n + 1)
            else if startsWith after '';'' then
              (case altLength (drop 1 after) of
                 None \<Rightarrow> None
               | Some k \<Rightarrow> Some (n @ '';'' @ take k (drop 1 after), n, take k (drop 1 after), length n + k + 2))
            else None)
         else None)"

record command_match =
  cm_start :: nat
  cm_end :: nat
  cm_index :: string
  cm_name :: string
  cm_alt :: string

definition matchAt :: "string \<Rightarrow> nat \<Rightarrow> command_match option" where
  "matchAt s p =
     (let q = (if startsWith (drop p s) ''{'' then p else p + 1);
          k = length (takeWhile (\<lambda>c. c = CHR ''{'') (drop q s))
      in if p \<ge> length s \<or> (startsWith (drop p s) ''{'' \<and> p \<noteq> 0) \<or> even k then None
         else map_option (\<lambda>(i, n, a, len). \<lparr>cm_start = p, cm_end = q + k + len, cm_index = i, cm_name = n, cm_alt = a\<rparr>)
           (placeholderAt (drop (q + k) s)))"

fun matchFrom :: "string \<Rightarrow> nat list \<Rightarrow> command_match option" where
  "matchFrom s [] = None"
| "matchFrom s (p # ps) = (case matchAt s p of None \<Rightarrow> matchFrom s ps | Some m \<Rightarrow> Some m)"

definition parseCommandMatch :: "string \<Rightarrow> nat \<Rightarrow> command_match option" where
  "parseCommandMatch s offset = matchFrom s [offset..<length s]"

definition wordsFrom :: "string list \<Rightarrow> nat \<Rightarrow> string" where
  "wordsFrom words i = joinStr '' '' (drop i words)"

text \<open>What is appended for a match.\<close>

definition replacement :: "command_env \<Rightarrow> string list \<Rightarrow> command_match \<Rightarrow> string" where
  "replacement env words m =
     (let plus = (last (cm_index m) = CHR ''+'');
          wordIndexMatch = filter (\<lambda>c. c \<noteq> CHR ''='') (filter (\<lambda>c. c \<noteq> CHR ''+'') (cm_index m));
          variable = (case ce_context env (cm_name m) of
                Some v \<Rightarrow> orAlt (cm_alt m) v
              | None \<Rightarrow> (case commandVar (cm_name m) of
                  Some f \<Rightarrow> f (cm_alt m) env
                | None \<Rightarrow> ''{'' @ cm_index m @ ''}''))
      in case toIntOk wordIndexMatch of
           None \<Rightarrow> variable
         | Some i \<Rightarrow>
             if i = 0 then variable
             else if int (length words) \<le> i then []
             else if plus then wordsFrom words (nat i) else words ! nat i)"

lemma matchAt_bounds: "matchAt s p = Some m \<Longrightarrow> cm_start m = p \<and> p + 2 \<le> cm_end m"
  by (auto simp: matchAt_def Let_def placeholderAt_def Suc_le_eq intro!: odd_pos split: if_splits option.splits)

lemma matchFrom_Some: "matchFrom s ps = Some m \<Longrightarrow> cm_start m \<in> set ps \<and> cm_start m + 2 \<le> cm_end m"
  by (induction s ps rule: matchFrom.induct) (auto dest: matchAt_bounds split: option.splits)

lemma parseCommandMatch_bounds:
  "parseCommandMatch s offset = Some m \<Longrightarrow> offset \<le> cm_start m \<and> cm_start m < length s \<and> cm_start m + 2 \<le> cm_end m"
  using matchFrom_Some[of s "[offset..<length s]" m] by (auto simp: parseCommandMatch_def)

function customLoop :: "command_env \<Rightarrow> string list \<Rightarrow> string \<Rightarrow> nat \<Rightarrow> nat \<Rightarrow> string \<Rightarrow> string" where
  "customLoop env words func lastCaptureEnd matchOffset result =
     (case parseCommandMatch func matchOffset of
        None \<Rightarrow> result @ midFrom func lastCaptureEnd
      | Some m \<Rightarrow>
          customLoop env words func (cm_end m) (cm_end m - 1)
            (result @ mid func lastCaptureEnd (cm_start m + 1 - lastCaptureEnd) @ replacement env words m))"
  by pat_completeness auto

termination
  by (relation "measure (\<lambda>(env, words, func, lastCaptureEnd, matchOffset, result). length func - matchOffset)")
    (auto dest: parseCommandMatch_bounds)

declare customLoop.simps [simp del]

definition execCustomCommand :: "command_env \<Rightarrow> string list \<Rightarrow> command \<Rightarrow> string" where
  "execCustomCommand env words cmd =
     (let result = customLoop env words (cmd_func cmd) 0 0 [];
          stripped = (if startsWith result ''{'' then midFrom result 1 else result)
      in replaceAll ''{{'' ''{'' stripped)"

section \<open>Executing a text\<close>

definition splitSkip :: "string \<Rightarrow> string list" where
  "splitSkip text = filter (\<lambda>w. w \<noteq> []) (splitOn (CHR '' '') text)"

datatype exec_outcome = ReturnText string | RunCommand command_function string "string list" | WhisperHint

text \<open>The loop over names of several words.\<close>

fun namedLoop :: "command_controller \<Rightarrow> string list \<Rightarrow> nat \<Rightarrow> string \<Rightarrow> command option" where
  "namedLoop cc [] n commandName = None"
| "namedLoop cc (w # ws) n commandName =
     (if n = 0 then None
      else (case cc_userCommands cc (commandName @ '' '' @ w) of
              Some cmd \<Rightarrow> Some cmd
            | None \<Rightarrow> namedLoop cc ws (n - 1) (commandName @ '' '' @ w)))"

definition execCommand ::
  "(string \<Rightarrow> string) \<Rightarrow> command_env \<Rightarrow> string \<Rightarrow> bool \<Rightarrow> command_controller \<Rightarrow> exec_outcome" where
  "execCommand replaceShortCodes env textNoEmoji dryRun cc =
     (let text0 = replaceShortCodes textNoEmoji; words0 = splitSkip text0
      in case words0 of
           [] \<Rightarrow> ReturnText text0
         | w0 # _ \<Rightarrow>
             (let text = (case cc_userCommands cc w0 of
                    Some cmd \<Rightarrow> replaceShortCodes (execCustomCommand env words0 cmd) | None \<Rightarrow> text0);
                  words = splitSkip text
              in case words of
                   [] \<Rightarrow> ReturnText text
                 | commandName # others \<Rightarrow>
                     (case (if dryRun then None else cc_commands cc commandName) of
                        Some f \<Rightarrow> RunCommand f commandName words
                      | None \<Rightarrow>
                          (case namedLoop cc others (min (cc_maxSpaces cc) (length words - 1)) commandName of
                             Some cmd \<Rightarrow> ReturnText (execCustomCommand env words cmd)
                           | None \<Rightarrow>
                               if \<not> dryRun \<and> ch_type (ce_channel env) = TwitchWhispers then WhisperHint
                               else ReturnText text))))"

fun triggerLoop :: "command_controller \<Rightarrow> string list \<Rightarrow> string \<Rightarrow> nat \<Rightarrow> nat \<Rightarrow> nat" where
  "triggerLoop cc [] commandName triggerLen spaces = 0"
| "triggerLoop cc (w # ws) commandName triggerLen spaces =
     (if spaces > cc_maxSpaces cc then 0
      else let name1 = commandName @ w; len = triggerLen + length w
      in if cc_commands cc name1 \<noteq> None \<or> cc_userCommands cc name1 \<noteq> None then len
         else triggerLoop cc ws (if w \<noteq> [] then name1 @ '' '' else name1) (len + 1) (if w \<noteq> [] then spaces + 1 else spaces))"

definition commandTriggerLen :: "command_controller \<Rightarrow> string \<Rightarrow> nat" where
  "commandTriggerLen cc text = triggerLoop cc (splitOn (CHR '' '') text) [] 0 0"


section \<open>The map of the user's commands\<close>

definition firstNamed :: "string \<Rightarrow> command list \<Rightarrow> command option" where
  "firstNamed n cmds = find (\<lambda>cmd. cmd_name cmd = n) cmds"

definition follows_items :: "command_controller \<Rightarrow> bool" where
  "follows_items cc \<longleftrightarrow> cc_userCommands cc = (\<lambda>n. firstNamed n (items (cc_items cc)))
     \<and> cc_maxSpaces cc = Max (insert 0 ((\<lambda>cmd. spacesIn (cmd_name cmd)) ` set (items (cc_items cc))))"

lemma maxSpaces_foldl:
  "foldl (\<lambda>m cmd. if f cmd > m then f cmd else m) (b::nat) cmds = Max (insert b (f ` set cmds))"
proof (induction cmds arbitrary: b)
  case (Cons cmd cmds)
  have "Max (insert (if f cmd > b then f cmd else b) (f ` set cmds)) = Max (insert b (insert (f cmd) (f ` set cmds)))"
    by (cases "f ` set cmds = {}") (auto simp: max_def Max_insert)
  with Cons show ?case by (simp add: insert_commute)
qed simp

lemma filter_find: "filter P xs = [] \<longleftrightarrow> find P xs = None" "filter P xs = x # ys \<Longrightarrow> find P xs = Some x"
  by (induction xs) (auto split: if_splits)

lemma addFirstMatch_map:
  "cc_userCommands (addFirstMatchToMap n cc) = (cc_userCommands cc)(n := firstNamed n (items (cc_items cc)))"
proof (cases "filter (\<lambda>cmd. cmd_name cmd = n) (items (cc_items cc))")
  case Nil
  then have "firstNamed n (items (cc_items cc)) = None" by (simp add: firstNamed_def filter_find(1))
  with Nil show ?thesis by (simp add: addFirstMatchToMap_def Let_def)
next
  case (Cons cmd cmds)
  then have "cmd_name cmd = n" by (auto dest!: filter_eq_ConsD)
  with Cons show ?thesis by (auto simp: addFirstMatchToMap_def firstNamed_def Let_def filter_find(2)[OF Cons])
qed

lemma addFirstMatch_others [simp]:
  "cc_items (addFirstMatchToMap n cc) = cc_items cc" "cc_commands (addFirstMatchToMap n cc) = cc_commands cc"
  "cc_maxSpaces (addFirstMatchToMap n cc) = Max (insert 0 ((\<lambda>cmd. spacesIn (cmd_name cmd)) ` set (items (cc_items cc))))"
  by (simp_all add: addFirstMatchToMap_def Let_def maxSpaces_foldl)


lemma find_append_option: "find P (xs @ ys) = (case find P xs of None \<Rightarrow> find P ys | Some x \<Rightarrow> Some x)"
  by (induction xs) auto

lemma firstNamed_insert: "cmd_name c \<noteq> n \<Longrightarrow> firstNamed n (vec_insert i c cmds) = firstNamed n cmds"
  using find_append_option[of "\<lambda>cmd. cmd_name cmd = n" "take i cmds" "drop i cmds"]
  by (simp add: firstNamed_def vec_insert_def find_append_option cong: option.case_cong)

lemma firstNamed_erase:
  assumes "i < length cmds" "cmd_name (cmds ! i) \<noteq> n"
  shows "firstNamed n (vec_erase i cmds) = firstNamed n cmds"
  using firstNamed_insert[OF assms(2), of i "vec_erase i cmds"] assms(1) by simp


lemma exec_op_change:
  assumes "exec_op op v = Inr (sigs, w)"
  shows "(sigs = [] \<and> items w = items v)
    \<or> (\<exists>sig. sigs = [sig] \<and> (\<forall>n. n \<noteq> cmd_name (signalItem sig) \<longrightarrow> firstNamed n (items w) = firstNamed n (items v)))"
proof (cases op)
  case (Insert item index caller)
  with assms obtain at sig where "insert_sv item index caller v = Inr (at, sig, w)" "sigs = [sig]"
    by (auto simp: pbind_def split: sum.splits)
  then show ?thesis by (auto elim!: insert_sv_cases simp: firstNamed_insert)
next
  case (Append item caller)
  with assms obtain at sig where "append_sv item caller v = Inr (at, sig, w)" "sigs = [sig]"
    by (auto simp: pbind_def split: sum.splits)
  then show ?thesis unfolding append_sv_def by (auto elim!: insert_sv_cases simp: firstNamed_insert)
next
  case (RemoveAt index caller)
  with assms obtain sig where "removeAt_sv index caller v = Inr (sig, w)" "sigs = [sig]"
    by (auto simp: pbind_def split: sum.splits)
  then show ?thesis by (auto elim!: removeAt_sv_cases simp: firstNamed_erase)
next
  case (RemoveFirstMatching matcher caller)
  with assms show ?thesis
    by (auto simp: removeFirstMatching_sv_spec firstNamed_erase dest!: first_index_Some_D split: option.splits)
next
  case Timeout
  with assms show ?thesis by (auto simp: timeout_sv_def)
qed

lemma editCommands_follows:
  assumes "follows_items cc" "editCommands op cc = Inr cc'"
  shows "follows_items cc'"
proof -
  from assms(2) obtain sigs v where op: "exec_op op (cc_items cc) = Inr (sigs, v)"
    and cc': "cc' = fold (\<lambda>sig. addFirstMatchToMap (cmd_name (signalItem sig))) sigs (cc\<lparr>cc_items := v\<rparr>)"
    by (auto simp: editCommands_def pbind_def split: sum.splits)
  from exec_op_change[OF op] show ?thesis
  proof
    assume "sigs = [] \<and> items v = items (cc_items cc)"
    with assms(1) cc' show ?thesis by (simp add: follows_items_def)
  next
    assume "\<exists>sig. sigs = [sig] \<and>
      (\<forall>n. n \<noteq> cmd_name (signalItem sig) \<longrightarrow> firstNamed n (items v) = firstNamed n (items (cc_items cc)))"
    then obtain sig where "sigs = [sig]"
      "\<And>n. n \<noteq> cmd_name (signalItem sig) \<Longrightarrow> firstNamed n (items v) = firstNamed n (items (cc_items cc))" by blast
    with assms(1) cc' show ?thesis by (auto simp: follows_items_def addFirstMatch_map)
  qed
qed

inductive command_run :: "command_controller \<Rightarrow> bool" where
  start: "CommandController debug stored = Some cc \<Longrightarrow> command_run cc"
| edit: "command_run cc \<Longrightarrow> editCommands op cc = Inr cc' \<Longrightarrow> command_run cc'"
| plugin: "command_run cc \<Longrightarrow> command_run (snd (registerPluginCommand n cc))"
| unplug: "command_run cc \<Longrightarrow> command_run (snd (unregisterPluginCommand n cc))"

lemma appendCommands_follows: "follows_items cc \<Longrightarrow> appendCommands cmds cc = Inr cc' \<Longrightarrow> follows_items cc'"
  by (induction cmds cc rule: appendCommands.induct) (auto simp: pbind_def split: sum.splits dest: editCommands_follows)

lemma registerCommands_follows: "follows_items cc \<Longrightarrow> registerCommands cmds cc = Some cc' \<Longrightarrow> follows_items cc'"
  by (induction cmds cc rule: registerCommands.induct)
    (auto simp: registerCommand_def follows_items_def split: option.splits if_splits)

lemma start_follows: "CommandController debug stored = Some cc \<Longrightarrow> follows_items cc"
proof -
  assume start: "CommandController debug stored = Some cc"
  then obtain cc1 where cc1: "appendCommands stored emptyController = Inr cc1" "registerCommands (builtinCommands debug) cc1 = Some cc"
    by (auto simp: CommandController_def split: sum.splits)
  have "follows_items emptyController"
    by (simp add: follows_items_def emptyController_def SignalVector_def firstNamed_def)
  from registerCommands_follows[OF appendCommands_follows[OF this cc1(1)] cc1(2)] show ?thesis .
qed

lemma plugin_follows:
  "follows_items cc \<Longrightarrow> follows_items (snd (registerPluginCommand n cc))"
  "follows_items cc \<Longrightarrow> follows_items (snd (unregisterPluginCommand n cc))"
  by (simp_all add: follows_items_def registerPluginCommand_def unregisterPluginCommand_def)

text \<open>C15. Whatever is done with the commands of the user and the plugins, the map that execution looks names up in holds for every name the
  first command of that name in the list of the settings page, and the number of words that execution tries is that of
  the longest name.\<close>

theorem user_commands_follow_the_list: "command_run cc \<Longrightarrow> follows_items cc"
  by (induction rule: command_run.induct)
    (auto intro: start_follows editCommands_follows plugin_follows)

text \<open>The built-in commands have different names, so the assertion of \<open>registerCommand\<close> holds.\<close>

lemma registerCommands_total:
  "distinct (map fst cmds) \<Longrightarrow> list_all (\<lambda>(n, f). cc_commands cc n = None) cmds \<Longrightarrow> \<exists>cc'. registerCommands cmds cc = Some cc'"
proof (induction cmds cc rule: registerCommands.induct)
  case (2 n f cmds cc)
  then have "list_all (\<lambda>(k, g). ((cc_commands cc)(n \<mapsto> CommandFunction f)) k = None) cmds"
    by (fastforce simp: list_all_iff image_iff)
  with 2 show ?case by (simp add: registerCommand_def)
qed simp

lemma builtin_distinct: "distinct (map fst (builtinCommands debug))"
  by (cases debug) (simp_all add: builtinCommands_def TWITCH_WHISPER_COMMANDS_def)

lemma appendCommands_total:
  "itemCompare (cc_items cc) = None \<Longrightarrow> \<exists>cc'. appendCommands cmds cc = Inr cc' \<and> cc_commands cc' = cc_commands cc"
proof (induction cmds arbitrary: cc)
  case (Cons cmd cmds)
  then obtain cc1 where cc1: "editCommands (Append cmd None) cc = Inr cc1" "cc_commands cc1 = cc_commands cc"
    "itemCompare (cc_items cc1) = None"
    by (simp add: editCommands_def append_sv_unsorted pbind_def)
  from Cons.IH[OF cc1(3)] cc1 show ?case by (auto simp: pbind_def)
qed simp

lemma CommandController_total: "\<exists>cc. CommandController debug stored = Some cc"
proof -
  obtain cc where "appendCommands stored emptyController = Inr cc" "cc_commands cc = (\<lambda>n. None)"
    using appendCommands_total[of emptyController stored] by (auto simp: emptyController_def SignalVector_def)
  then show ?thesis
    using registerCommands_total[OF builtin_distinct, where cc = cc] by (auto simp: CommandController_def list_all_iff)
qed

theorem user_commands_follow_the_list_witness:
  "follows_items (the (CommandController False [\<lparr>cmd_name = ''/hi'', cmd_func = ''hello {1}'', cmd_showInMsgContextMenu = False\<rparr>]))"
proof (rule user_commands_follow_the_list)
  obtain cc where "CommandController False [\<lparr>cmd_name = ''/hi'', cmd_func = ''hello {1}'', cmd_showInMsgContextMenu = False\<rparr>] = Some cc"
    using CommandController_total by blast
  then show "command_run (the (CommandController False
      [\<lparr>cmd_name = ''/hi'', cmd_func = ''hello {1}'', cmd_showInMsgContextMenu = False\<rparr>]))"
    by (simp add: command_run.start)
qed


section \<open>Filling in placeholders\<close>

datatype piece = Lit string | WordAt nat | WordsFrom nat | Var string string

fun pieceText :: "piece \<Rightarrow> string" where
  "pieceText (Lit s) = s"
| "pieceText (WordAt i) = ''{'' @ natDigits i @ ''}''"
| "pieceText (WordsFrom i) = ''{'' @ natDigits i @ ''+}''"
| "pieceText (Var n alt) = ''{'' @ n @ (if alt = [] then [] else '';'' @ alt) @ ''}''"

fun pieceMeaning :: "command_env \<Rightarrow> string list \<Rightarrow> piece \<Rightarrow> string" where
  "pieceMeaning env words (Lit s) = s"
| "pieceMeaning env words (WordAt i) = (if i < length words then words ! i else [])"
| "pieceMeaning env words (WordsFrom i) = joinStr '' '' (drop i words)"
| "pieceMeaning env words (Var n alt) =
     (case ce_context env n of
        Some v \<Rightarrow> if v = [] then alt else v
      | None \<Rightarrow> (case commandVar n of Some f \<Rightarrow> f alt env | None \<Rightarrow> pieceText (Var n alt)))"

fun good_piece :: "piece \<Rightarrow> bool" where
  "good_piece (Lit s) \<longleftrightarrow> CHR ''{'' \<notin> set s"
| "good_piece (WordAt i) \<longleftrightarrow> 0 < i \<and> i < 2147483648"
| "good_piece (WordsFrom i) \<longleftrightarrow> 0 < i \<and> i < 2147483648"
| "good_piece (Var n alt) \<longleftrightarrow> n \<noteq> [] \<and> list_all nameChar n \<and> list_all (\<lambda>c. c \<noteq> CHR ''}'' \<and> code c \<noteq> 10) alt"

fun isLit :: "piece \<Rightarrow> bool" where
  "isLit (Lit s) = True"
| "isLit _ = False"

lemma char_facts [simp]:
  "\<not> isDigit CHR ''}''" "\<not> isDigit CHR ''{''" "\<not> isDigit CHR '';''"
  "\<not> nameChar CHR ''}''" "\<not> nameChar CHR ''{''" "\<not> nameChar CHR '';''"
  "isDigit c \<Longrightarrow> \<not> nameChar c" "nameChar c \<Longrightarrow> \<not> isDigit c"
  by (auto simp: isDigit_def nameChar_def code_def)

lemma takeWhile_stop: "list_all P xs \<Longrightarrow> \<not> P y \<Longrightarrow> takeWhile P (xs @ y # ys) = xs"
  by (induction xs) auto

lemma closingBrace_text: "list_all (\<lambda>c. c \<noteq> CHR ''}'' \<and> code c \<noteq> 10) alt \<Longrightarrow> closingBrace (alt @ CHR ''}'' # rest) = Some (length alt)"
  by (induction alt) auto

lemma takeWhile_digit_name: "list_all nameChar n \<Longrightarrow> n \<noteq> [] \<Longrightarrow> takeWhile isDigit (n @ rest) = []"
  by (cases n) auto

lemma natDigits_clean: "last (natDigits k) \<noteq> CHR ''+''"
  "filter (\<lambda>c. c \<noteq> CHR ''='') (filter (\<lambda>c. c \<noteq> CHR ''+'') (natDigits k)) = natDigits k"
proof -
  have no: "CHR ''+'' \<notin> set (natDigits k)" "CHR ''='' \<notin> set (natDigits k)"
    using natDigits_digits[of k] by (auto simp: list_all_iff isDigit_def code_def)
  then show "filter (\<lambda>c. c \<noteq> CHR ''='') (filter (\<lambda>c. c \<noteq> CHR ''+'') (natDigits k)) = natDigits k"
    by (simp add: filter_id_conv) metis
  show "last (natDigits k) \<noteq> CHR ''+''" using no(1) last_in_set[OF natDigits_not_Nil[of k]] by metis
qed

lemma in_dropWhile: "c \<in> set s \<Longrightarrow> \<not> P c \<Longrightarrow> c \<in> set (dropWhile P s)"
  by (induction s) auto

lemma in_trimmed: "c \<in> set s \<Longrightarrow> \<not> isSpace c \<Longrightarrow> c \<in> set (trimmed s)"
  by (simp add: trimmed_def in_dropWhile)

lemma not_integer: "c \<in> set s \<Longrightarrow> \<not> isDigit c \<Longrightarrow> \<not> isSpace c \<Longrightarrow> c \<noteq> CHR ''-'' \<Longrightarrow> c \<noteq> CHR ''+'' \<Longrightarrow> toIntOk s = None"
proof -
  assume c: "c \<in> set s" "\<not> isDigit c" "\<not> isSpace c" "c \<noteq> CHR ''-''" "c \<noteq> CHR ''+''"
  have "c \<in> set (trimmed s)" using c by (simp add: in_trimmed)
  with c(2,4,5) show ?thesis by (auto simp: toIntOk_def parseInteger_def Let_def list_all_iff split: list.splits)
qed

text \<open>The placeholder of a piece behind its brace.\<close>

lemma placeholder_piece:
  assumes "good_piece p" "\<not> isLit p"
  obtains i n alt where "\<And>rest. placeholderAt (drop 1 (pieceText p) @ rest) = Some (i, n, alt, length (pieceText p) - 1)"
    "\<And>a b. replacement env words \<lparr>cm_start = a, cm_end = b, cm_index = i, cm_name = n, cm_alt = alt\<rparr> = pieceMeaning env words p"
proof (cases p)
  case (Lit s)
  with assms show thesis by simp
next
  case (WordAt k)
  have d: "takeWhile isDigit (natDigits k @ CHR ''}'' # rest) = natDigits k" for rest
    by (rule takeWhile_stop) (simp_all add: natDigits_digits)
  have k: "toIntOk (natDigits k) = Some (int k)" "k \<noteq> 0" using assms(1) WordAt by (simp_all add: toIntOk_def)
  show thesis
    by (rule that[of "natDigits k" "[]" "[]"])
      (use d k natDigits_clean in \<open>auto simp: WordAt placeholderAt_def replacement_def Let_def\<close>)
next
  case (WordsFrom k)
  have d: "takeWhile isDigit (natDigits k @ CHR ''+'' # rest) = natDigits k" for rest
    by (rule takeWhile_stop) (simp_all add: natDigits_digits)
  have k: "toIntOk (natDigits k) = Some (int k)" "k \<noteq> 0" using assms(1) WordsFrom by (simp_all add: toIntOk_def)
  show thesis
    by (rule that[of "natDigits k @ ''+''" "[]" "[]"])
      (use d k natDigits_clean in \<open>auto simp: WordsFrom placeholderAt_def replacement_def wordsFrom_def Let_def\<close>)
next
  case (Var n alt)
  with assms(1) have n: "n \<noteq> []" "list_all nameChar n" and alt: "list_all (\<lambda>c. c \<noteq> CHR ''}'' \<and> code c \<noteq> 10) alt" by simp_all
  have w: "takeWhile nameChar (n @ CHR ''}'' # rest) = n" "takeWhile nameChar (n @ CHR '';'' # rest) = n" for rest
    using n(2) by (simp_all add: takeWhile_stop)
  let ?i = "if alt = [] then n else n @ '';'' @ alt"
  have p: "placeholderAt (drop 1 (pieceText p) @ rest) = Some (?i, n, alt, length (pieceText p) - 1)" for rest
    using n w alt closingBrace_text[OF alt]
    by (cases alt) (auto simp: Var placeholderAt_def takeWhile_digit_name altLength_def Let_def closingBrace_text)
  have "toIntOk (filter (\<lambda>c. c \<noteq> CHR ''='') (filter (\<lambda>c. c \<noteq> CHR ''+'') ?i)) = None"
  proof (cases "alt = []")
    case True
    with n(2) show ?thesis by (intro no_digits_no_integer) (auto simp: list_all_iff)
  next
    case False
    then show ?thesis by (intro not_integer[of "CHR '';''"]) (auto simp: isSpace_def code_def)
  qed
  then show thesis
    by (intro that[OF p]) (auto simp: replacement_def Var orAlt_def Let_def split: option.splits)
qed

text \<open>Where the next placeholder is.\<close>

lemma no_match_in_text:
  assumes "matchAt s p = Some m"
  shows "startsWith (drop p s) ''{'' \<or> startsWith (drop (p + 1) s) ''{''"
proof (rule ccontr)
  assume no: "\<not> ?thesis"
  then have "takeWhile (\<lambda>c. c = CHR ''{'') (drop (p + 1) s) = []" by (cases "drop (p + 1) s") auto
  with no assms show False by (auto simp: matchAt_def Let_def)
qed

lemma matchFrom_append: "list_all (\<lambda>p. matchAt s p = None) ps \<Longrightarrow> matchFrom s (ps @ qs) = matchFrom s qs"
  by (induction ps) auto

lemma matchAt_I:
  assumes "drop k s = x # xs" "k < length s" "x \<noteq> CHR ''{''" "drop (k + 1) s = ys" "takeWhile (\<lambda>c. c = CHR ''{'') ys = ''{''"
    "drop (k + 1 + 1) s = zs" "placeholderAt zs = Some (i, n, alt, len)"
  shows "matchAt s k = Some \<lparr>cm_start = k, cm_end = k + 1 + 1 + len, cm_index = i, cm_name = n, cm_alt = alt\<rparr>"
  using assms by (simp add: matchAt_def Let_def)

text \<open>A placeholder behind a text without braces, which begins at the start or with the character before it.\<close>

lemma next_placeholder:
  assumes p: "good_piece p" "\<not> isLit p" and pre: "CHR ''{'' \<notin> set pre" "pre \<noteq> []"
    and s: "s = front @ pre @ pieceText p @ rest"
  obtains i n alt where "parseCommandMatch s (length front) = Some \<lparr>cm_start = length front + length pre - 1,
      cm_end = length front + length pre + length (pieceText p), cm_index = i, cm_name = n, cm_alt = alt\<rparr>"
    "\<And>a b. replacement env words \<lparr>cm_start = a, cm_end = b, cm_index = i, cm_name = n, cm_alt = alt\<rparr> = pieceMeaning env words p"
proof -
  obtain i n alt where ph: "\<And>rest. placeholderAt (drop 1 (pieceText p) @ rest) = Some (i, n, alt, length (pieceText p) - 1)"
    and r: "\<And>a b. replacement env words \<lparr>cm_start = a, cm_end = b, cm_index = i, cm_name = n, cm_alt = alt\<rparr> = pieceMeaning env words p"
    using placeholder_piece[OF p] by metis
  have t: "pieceText p = CHR ''{'' # drop 1 (pieceText p)" "pieceText p \<noteq> []" using p by (cases p; simp)+
  have brace: "takeWhile (\<lambda>c. c = CHR ''{'') (pieceText p @ rest) = ''{''"
  proof -
    have "drop 1 (pieceText p) @ rest = [] \<or> hd (drop 1 (pieceText p) @ rest) \<noteq> CHR ''{''"
      using ph[of rest] by (cases "drop 1 (pieceText p) @ rest") (auto simp: placeholderAt_def split: if_splits)
    then show ?thesis by (subst t(1)) (cases "drop 1 (pieceText p) @ rest"; auto)
  qed
  let ?k = "length front + length pre - 1"
  have before: "matchAt s j = None" if "length front \<le> j" "j < ?k" for j
  proof (rule ccontr)
    assume "matchAt s j \<noteq> None"
    then have "startsWith (drop j s) ''{'' \<or> startsWith (drop (j + 1) s) ''{''" by (auto dest: no_match_in_text)
    moreover have "drop j s = drop (j - length front) pre @ pieceText p @ rest"
      "drop (j + 1) s = drop (j + 1 - length front) pre @ pieceText p @ rest" using that by (simp_all add: s)
    moreover have "drop (j - length front) pre = pre ! (j - length front) # drop (j + 1 - length front) pre"
      "drop (j + 1 - length front) pre = pre ! (j + 1 - length front) # drop (j + 2 - length front) pre"
      using that by (simp_all add: Cons_nth_drop_Suc Suc_diff_le)
    moreover have "pre ! (j - length front) \<in> set pre" "pre ! (j + 1 - length front) \<in> set pre"
      using that by (auto intro!: nth_mem)
    ultimately show False using pre(1) by auto
  qed
  have at: "drop ?k s = last pre # pieceText p @ rest" "drop (?k + 1) s = pieceText p @ rest" "?k < length s"
    using pre(2) t(2) by (cases pre rule: rev_cases; simp add: s)+
  have "last pre \<noteq> CHR ''{''" using pre last_in_set[of pre] by metis
  then have here: "matchAt s ?k = Some \<lparr>cm_start = ?k, cm_end = length front + length pre + length (pieceText p), cm_index = i,
      cm_name = n, cm_alt = alt\<rparr>"
  proof -
    have d: "drop (?k + 1 + 1) s = drop 1 (pieceText p) @ rest"
    proof -
      have "drop (?k + 1 + 1) s = drop 1 (drop (?k + 1) s)" by simp
      then show ?thesis unfolding at(2) using t(2) by (cases "pieceText p") auto
    qed
    have len: "?k + 1 + 1 + (length (pieceText p) - 1) = length front + length pre + length (pieceText p)"
      using pre(2) t(2) by (cases pre; cases "pieceText p") auto
    show ?thesis using matchAt_I[OF at(1,3) \<open>last pre \<noteq> CHR ''{''\<close> at(2) brace d ph] len by simp
  qed
  have "[length front..<length s] = [length front..<?k] @ ?k # [?k + 1..<length s]"
  proof -
    have "length front \<le> ?k" using pre(2) by (cases pre) simp_all
    then have "[length front..<length s] = [length front..<?k] @ [?k..<length s]"
      using at(3) by (metis less_imp_le_nat le_Suc_ex upt_add_eq_append)
    with at(3) show ?thesis by (simp add: upt_conv_Cons)
  qed
  then have "parseCommandMatch s (length front) = matchAt s ?k"
    using before here by (simp add: parseCommandMatch_def matchFrom_append list_all_iff)
  with here r show thesis by (intro that) auto
qed


lemma startsWith_in: "startsWith s [c] \<Longrightarrow> c \<in> set s"
  by (cases s) auto

lemma no_placeholder: "CHR ''{'' \<notin> set pre \<Longrightarrow> drop k s = pre \<Longrightarrow> k \<noteq> 0 \<or> pre = s \<Longrightarrow> parseCommandMatch s k = None"
proof -
  assume pre: "CHR ''{'' \<notin> set pre" "drop k s = pre"
  have "matchAt s j = None" if "j \<in> set [k..<length s]" for j
  proof (rule ccontr)
    assume "matchAt s j \<noteq> None"
    then have b: "startsWith (drop j s) ''{'' \<or> startsWith (drop (j + 1) s) ''{''" by (auto dest: no_match_in_text)
    have "drop j s = drop (j - k) pre" "drop (j + 1) s = drop (j + 1 - k) pre" using that pre(2) by (auto simp: drop_drop)
    moreover have "set (drop (j - k) pre) \<subseteq> set pre" "set (drop (j + 1 - k) pre) \<subseteq> set pre" by (simp_all add: set_drop_subset)
    ultimately show False using b pre(1) startsWith_in[of "drop j s" "CHR ''{''"] startsWith_in[of "drop (j + 1) s" "CHR ''{''"] by auto
  qed
  then show ?thesis using matchFrom_append[of s "[k..<length s]" "[]"] by (simp add: parseCommandMatch_def list_all_iff)
qed

definition templateText :: "piece list \<Rightarrow> string" where
  "templateText ps = concat (map pieceText ps)"

definition templateMeaning :: "command_env \<Rightarrow> string list \<Rightarrow> piece list \<Rightarrow> string" where
  "templateMeaning env words ps = concat (map (pieceMeaning env words) ps)"

text \<open>The text before the first placeholder.\<close>

lemma split_pieces:
  assumes "list_all good_piece ps"
  obtains pre where "templateText ps = pre" "templateMeaning env words ps = pre" "CHR ''{'' \<notin> set pre"
  | pre p qs where "templateText ps = pre @ pieceText p @ templateText qs"
    "templateMeaning env words ps = pre @ pieceMeaning env words p @ templateMeaning env words qs"
    "CHR ''{'' \<notin> set pre" "good_piece p" "\<not> isLit p" "list_all good_piece qs" "length qs < length ps"
  using assms
proof (induction ps arbitrary: thesis)
  case Nil
  then show ?case by (simp add: templateText_def templateMeaning_def)
next
  case (Cons q ps)
  show ?case
  proof (cases q)
    case (Lit l)
    with Cons.prems(3) have l: "CHR ''{'' \<notin> set l" "list_all good_piece ps" by simp_all
    show ?thesis
    proof (rule Cons.IH[OF _ _ l(2)])
      fix pre assume "templateText ps = pre" "templateMeaning env words ps = pre" "CHR ''{'' \<notin> set pre"
      with l(1) Lit show thesis by (intro Cons.prems(1)[of "l @ pre"]) (simp_all add: templateText_def templateMeaning_def)
    next
      fix pre p qs
      assume "templateText ps = pre @ pieceText p @ templateText qs"
        "templateMeaning env words ps = pre @ pieceMeaning env words p @ templateMeaning env words qs"
        "CHR ''{'' \<notin> set pre" "good_piece p" "\<not> isLit p" "list_all good_piece qs" "length qs < length ps"
      with l(1) Lit show thesis
        by (intro Cons.prems(2)[of "l @ pre" p qs]) (simp_all add: templateText_def templateMeaning_def)
    qed
  qed (use Cons.prems in \<open>auto intro!: Cons.prems(2)[of "[]" q ps] simp: templateText_def templateMeaning_def\<close>)
qed

lemma customLoop_template:
  "list_all good_piece ps \<Longrightarrow> front \<noteq> [] \<Longrightarrow> last front \<noteq> CHR ''{'' \<Longrightarrow> func = front @ templateText ps \<Longrightarrow>
   customLoop env words func (length front) (length front - 1) result = result @ templateMeaning env words ps"
proof (induction "length ps" arbitrary: ps front result rule: less_induct)
  case less
  obtain f0 c where front: "front = f0 @ [c]" "c \<noteq> CHR ''{''"
    using less.prems(2,3) by (cases front rule: rev_cases) auto
  from split_pieces[OF less.prems(1), of env words] show ?case
  proof cases
    case (1 pre)
    have "parseCommandMatch func (length f0) = None"
      by (rule no_placeholder[of "c # pre"]) (use front 1 less.prems(4) in auto)
    with 1 front less.prems(4) show ?thesis by (subst customLoop.simps) (simp add: midFrom_def)
  next
    case (2 pre p qs)
    have s: "func = f0 @ (c # pre) @ pieceText p @ templateText qs" using 2(1) front less.prems(4) by simp
    have cpre: "CHR ''{'' \<notin> set (c # pre)" "c # pre \<noteq> []" using 2(3) front(2) by simp_all
    obtain i n alt where m: "parseCommandMatch func (length f0) = Some \<lparr>cm_start = length f0 + length (c # pre) - 1,
      cm_end = length f0 + length (c # pre) + length (pieceText p), cm_index = i, cm_name = n, cm_alt = alt\<rparr>"
      and r: "\<And>a b. replacement env words \<lparr>cm_start = a, cm_end = b, cm_index = i, cm_name = n, cm_alt = alt\<rparr> = pieceMeaning env words p"
      using next_placeholder[OF 2(4,5) cpre s] by metis
    let ?front = "front @ pre @ pieceText p"
    have l: "last ?front \<noteq> CHR ''{''" using 2(5) by (cases p) auto
    have "customLoop env words func (length ?front) (length ?front - 1) (result @ pre @ pieceMeaning env words p)
      = (result @ pre @ pieceMeaning env words p) @ templateMeaning env words qs"
      by (rule less.hyps[OF 2(7,6) _ l]) (use front s in auto)
    with m r front s 2(2) show ?thesis
      by (subst customLoop.simps) (simp add: mid_def add.assoc)
  qed
qed

lemma matchAt_start:
  assumes p: "good_piece p" "\<not> isLit p" and s: "s = pieceText p @ rest"
  obtains i n alt where "parseCommandMatch s 0 = Some \<lparr>cm_start = 0, cm_end = length (pieceText p), cm_index = i, cm_name = n, cm_alt = alt\<rparr>"
    "\<And>a b. replacement env words \<lparr>cm_start = a, cm_end = b, cm_index = i, cm_name = n, cm_alt = alt\<rparr> = pieceMeaning env words p"
proof -
  obtain i n alt where ph: "\<And>rest. placeholderAt (drop 1 (pieceText p) @ rest) = Some (i, n, alt, length (pieceText p) - 1)"
    and r: "\<And>a b. replacement env words \<lparr>cm_start = a, cm_end = b, cm_index = i, cm_name = n, cm_alt = alt\<rparr> = pieceMeaning env words p"
    using placeholder_piece[OF p] by metis
  obtain body where t: "pieceText p = CHR ''{'' # body" using p by (cases p) auto
  have "body @ rest = [] \<or> hd (body @ rest) \<noteq> CHR ''{''"
    using ph[of rest] t by (cases "body @ rest") (auto simp: placeholderAt_def split: if_splits)
  then have brace: "takeWhile (\<lambda>c. c = CHR ''{'') s = ''{''" using s t by (cases "body @ rest") auto
  have "matchAt s 0 = Some \<lparr>cm_start = 0, cm_end = length (pieceText p), cm_index = i, cm_name = n, cm_alt = alt\<rparr>"
    using brace ph[of rest] s t by (simp add: matchAt_def Let_def)
  moreover have "[0..<length s] = 0 # [Suc 0..<length s]" by (rule upt_conv_Cons) (simp add: s t)
  ultimately show thesis using r by (intro that) (simp_all add: parseCommandMatch_def)
qed

lemma replaceAll_absent: "b \<noteq> [] \<Longrightarrow> \<not> sublist b s \<Longrightarrow> replaceAll b a s = s"
proof (induction s)
  case (Cons c cs)
  have "\<not> prefix b (c # cs)" "\<not> sublist b cs" using Cons.prems(2) by (auto simp: sublist_Cons_right)
  moreover from this(1) have "\<not> startsWith (c # cs) b" unfolding startsWith_def by (metis take_is_prefix)
  ultimately show ?case using Cons by simp
qed simp

text \<open>C26. In a command whose text has no other opening braces than those of placeholders, every placeholder is replaced by its meaning:
  a number by the word at that place (nothing if there is none), a number with a plus by all words from there, a name by the value of
  the caller or the variable of that name with its alternative text, and a name that is not known by itself.  Of the text that results, in
  which words and values may hold braces, doubled opening braces become single ones; without doubled braces it is the result.\<close>

theorem placeholders_are_replaced:
  assumes "list_all good_piece ps" "cmd_func cmd = templateText ps"
  shows "execCustomCommand env words cmd = replaceAll ''{{'' ''{'' (templateMeaning env words ps)
    \<and> (\<not> sublist ''{{'' (templateMeaning env words ps) \<longrightarrow> execCustomCommand env words cmd = templateMeaning env words ps)"
proof -
  let ?func = "cmd_func cmd"
  from split_pieces[OF assms(1), of env words]
  have "customLoop env words ?func 0 0 [] =
    (if startsWith ?func ''{'' then ''{'' @ templateMeaning env words ps else templateMeaning env words ps)
    \<and> (\<not> startsWith ?func ''{'' \<longrightarrow> \<not> startsWith (templateMeaning env words ps) ''{'')"
  proof cases
    case (1 pre)
    have "parseCommandMatch ?func 0 = None" by (rule no_placeholder[of pre]) (use 1 assms(2) in auto)
    moreover have "\<not> startsWith pre ''{''" using 1(3) by (cases pre) auto
    ultimately show ?thesis using 1 assms(2) by (subst customLoop.simps) (simp add: midFrom_def)
  next
    case (2 pre p qs)
    have l: "last (pre @ pieceText p) \<noteq> CHR ''{''" "pre @ pieceText p \<noteq> []" "startsWith (pieceText p @ x) ''{''" for x
      using 2(5) by (cases p; auto)+
    show ?thesis
    proof (cases "pre = []")
      case True
      obtain i n alt where m: "parseCommandMatch ?func 0 = Some \<lparr>cm_start = 0, cm_end = length (pieceText p), cm_index = i,
          cm_name = n, cm_alt = alt\<rparr>"
        and r: "\<And>a b. replacement env words \<lparr>cm_start = a, cm_end = b, cm_index = i, cm_name = n, cm_alt = alt\<rparr> = pieceMeaning env words p"
        using matchAt_start[OF 2(4,5), of ?func "templateText qs"] 2(1) True assms(2) by (metis append_Nil)
      have "customLoop env words ?func (length (pieceText p)) (length (pieceText p) - 1) (''{'' @ pieceMeaning env words p)
          = (''{'' @ pieceMeaning env words p) @ templateMeaning env words qs"
        by (rule customLoop_template) (use 2 l True assms(2) in auto)
      moreover have "mid ?func 0 1 = ''{''" using 2(1,5) True assms(2) l(3) by (cases p) (auto simp: mid_def)
      ultimately show ?thesis using m r 2(1,2) True assms(2) l(3)
        by (subst customLoop.simps) simp
    next
      case False
      have s: "?func = [] @ pre @ pieceText p @ templateText qs" using 2(1) assms(2) by simp
      obtain i n alt where m: "parseCommandMatch ?func 0 = Some \<lparr>cm_start = length pre - 1,
          cm_end = length pre + length (pieceText p), cm_index = i, cm_name = n, cm_alt = alt\<rparr>"
        and r: "\<And>a b. replacement env words \<lparr>cm_start = a, cm_end = b, cm_index = i, cm_name = n, cm_alt = alt\<rparr> = pieceMeaning env words p"
        using next_placeholder[OF 2(4,5,3) False s] by (metis add_0 list.size(3))
      have "customLoop env words ?func (length (pre @ pieceText p)) (length (pre @ pieceText p) - 1) (pre @ pieceMeaning env words p)
          = (pre @ pieceMeaning env words p) @ templateMeaning env words qs"
        by (rule customLoop_template) (use 2 l assms(2) in auto)
      moreover have "mid ?func 0 (length pre) = pre" using s by (simp add: mid_def)
      moreover have "\<not> startsWith (pre @ x) ''{''" for x using False 2(3) by (cases pre) auto
      ultimately show ?thesis using m r 2(1,2) False assms(2)
        by (subst customLoop.simps) simp
    qed
  qed
  then have "execCustomCommand env words cmd = replaceAll ''{{'' ''{'' (templateMeaning env words ps)"
    by (auto simp: execCustomCommand_def midFrom_def Let_def)
  then show ?thesis by (simp add: replaceAll_absent)
qed


definition exampleMessage :: message where
  "exampleMessage = newMessage 0\<lparr>m_loginName := ''forsen''\<rparr>"

definition exampleEnv :: command_env where
  "exampleEnv = \<lparr>ce_channel = \<lparr>ch_name = ''pajlada'', ch_type = Twitch, ch_twitch = None\<rparr>, ce_message = Some exampleMessage,
     ce_context = (\<lambda>n. None), ce_userId = [], ce_userName = ''me''\<rparr>"

definition exampleTemplate :: "piece list" where
  "exampleTemplate = [WordAt 1, Lit '' says '', WordsFrom 2, Lit '' to '', Var ''user.name'' ''all'']"

lemma example_digits: "natDigits (Suc 0) = ''1''" "natDigits 2 = ''2''"
  by code_simp+

theorem placeholders_are_replaced_witness:
  "execCustomCommand exampleEnv [''/say'', ''A'', ''b'', ''c''] \<lparr>cmd_name = ''/say'', cmd_func = ''{1} says {2+} to {user.name;all}'',
       cmd_showInMsgContextMenu = False\<rparr> = ''A says b c to forsen''"
proof -
  have m: "templateMeaning exampleEnv [''/say'', ''A'', ''b'', ''c''] exampleTemplate = ''A says b c to forsen''"
    by (simp add: exampleTemplate_def templateMeaning_def commandVar_def exampleEnv_def exampleMessage_def messageVar_def orAlt_def)
  have "list_all good_piece exampleTemplate" "''{1} says {2+} to {user.name;all}'' = templateText exampleTemplate"
    by (simp_all add: exampleTemplate_def templateText_def nameChar_def code_def example_digits)
  moreover have "\<not> sublist ''{{'' ''A says b c to forsen''" by (simp add: sublist_Cons_right)
  ultimately show ?thesis
    using placeholders_are_replaced[of exampleTemplate "\<lparr>cmd_name = ''/say'', cmd_func = ''{1} says {2+} to {user.name;all}'',
       cmd_showInMsgContextMenu = False\<rparr>" exampleEnv "[''/say'', ''A'', ''b'', ''c'']"] by (simp add: m)
qed

text \<open>Braces that get lost: the pair before a placeholder, a single brace at the start, and braces of the user's words.\<close>

lemma braces_are_lost:
  "execCustomCommand exampleEnv [''/c'', ''x''] \<lparr>cmd_name = ''/c'', cmd_func = ''a{{{1}'', cmd_showInMsgContextMenu = False\<rparr> = ''ax''"
  "execCustomCommand exampleEnv [''/c'', ''x''] \<lparr>cmd_name = ''/c'', cmd_func = ''{ x y}'', cmd_showInMsgContextMenu = False\<rparr> = '' x y}''"
  "execCustomCommand exampleEnv [''/c'', ''{{''] \<lparr>cmd_name = ''/c'', cmd_func = ''say {1}'', cmd_showInMsgContextMenu = False\<rparr> = ''say {''"
  by code_simp+

section \<open>What is highlighted and what is executed\<close>

definition named :: "command_controller \<Rightarrow> string \<Rightarrow> bool" where
  "named cc n \<longleftrightarrow> cc_commands cc n \<noteq> None \<or> cc_userCommands cc n \<noteq> None"

lemma joinStr_take_Cons: "xs \<noteq> [] \<Longrightarrow> joinStr sep (x # take (Suc k) xs) = x @ sep @ joinStr sep (take (Suc k) xs)"
  by (cases xs) simp_all

lemma triggerLoop_zero:
  assumes "\<not> named cc []"
  shows "triggerLoop cc ws n len spaces = 0 \<Longrightarrow> n = [] \<or> 0 < len \<Longrightarrow> spaces + k \<le> cc_maxSpaces cc \<Longrightarrow>
    k < length (filter (\<lambda>w. w \<noteq> []) ws) \<Longrightarrow> \<not> named cc (n @ joinStr '' '' (take (Suc k) (filter (\<lambda>w. w \<noteq> []) ws)))"
proof (induction ws arbitrary: n len spaces k)
  case (Cons w ws)
  from Cons.prems(3) have sp: "\<not> spaces > cc_maxSpaces cc" by simp
  show ?case
  proof (cases "w = []")
    case True
    have "\<not> named cc n"
      using assms Cons.prems(1,2) sp True by (cases "n = []") (auto simp: named_def Let_def split: if_splits)
    with Cons.prems(1) sp True have "triggerLoop cc ws n (len + 1) spaces = 0" by (simp add: named_def Let_def)
    from Cons.IH[OF this _ Cons.prems(3)] Cons.prems(2,4) True show ?thesis by simp
  next
    case False
    have no: "\<not> named cc (n @ w)"
      using Cons.prems(1) sp False by (auto simp: named_def Let_def split: if_splits)
    with Cons.prems(1) sp False have rest: "triggerLoop cc ws (n @ w @ '' '') (len + length w + 1) (spaces + 1) = 0"
      by (simp add: named_def Let_def)
    show ?thesis
    proof (cases k)
      case 0
      with no False show ?thesis by simp
    next
      case (Suc j)
      with Cons.prems(4) False have j: "j < length (filter (\<lambda>w. w \<noteq> []) ws)" by simp
      then have ne: "filter (\<lambda>w. w \<noteq> []) ws \<noteq> []" by (metis less_nat_zero_code list.size(3))
      have "\<not> named cc ((n @ w @ '' '') @ joinStr '' '' (take (Suc j) (filter (\<lambda>w. w \<noteq> []) ws)))"
        by (rule Cons.IH[OF rest _ _ j]) (use Cons.prems(3) Suc in auto)
      with Suc False ne joinStr_take_Cons[OF ne, of "'' ''" w j] show ?thesis by simp
    qed
  qed
qed simp

lemma namedLoop_None:
  "(\<And>k. k < n \<Longrightarrow> k < length ws \<Longrightarrow> \<not> named cc (c @ '' '' @ joinStr '' '' (take (Suc k) ws))) \<Longrightarrow> namedLoop cc ws n c = None"
proof (induction cc ws n c rule: namedLoop.induct)
  case (2 cc w ws n c)
  show ?case
  proof (cases "n = 0")
    case False
    have none: "cc_userCommands cc (c @ '' '' @ w) = None" using 2(2)[of 0] False by (simp add: named_def)
    have "namedLoop cc ws (n - 1) (c @ '' '' @ w) = None"
    proof (rule 2(1)[OF False none])
      fix k assume "k < n - 1" "k < length ws"
      moreover from this have "ws \<noteq> []" by auto
      ultimately show "\<not> named cc ((c @ '' '' @ w) @ '' '' @ joinStr '' '' (take (Suc k) ws))"
        using 2(2)[of "Suc k"] joinStr_take_Cons[of ws "'' ''" w k] by simp
    qed
    with False none show ?thesis by simp
  qed simp
qed simp

text \<open>C27. If no command has the empty name: a text without short codes in which the input box finds no trigger of a command
  (\<open>commandTriggerLen\<close> of the text is zero) executes no command and is sent unchanged; only in the whispers channel a text with
  words gives the hint how to whisper instead.\<close>

theorem unhighlighted_text_is_sent:
  assumes "\<not> named cc []" "commandTriggerLen cc t = 0" "emoji t = t"
  shows "execCommand emoji env t False cc =
    (if ch_type (ce_channel env) = TwitchWhispers \<and> splitSkip t \<noteq> [] then WhisperHint else ReturnText t)"
proof (cases "splitSkip t")
  case Nil
  then show ?thesis by (simp add: execCommand_def assms(3))
next
  case (Cons w0 others)
  have no: "\<not> named cc (joinStr '' '' (take (Suc k) (w0 # others)))" if "k \<le> cc_maxSpaces cc" "k < length (w0 # others)" for k
    using triggerLoop_zero[OF assms(1) assms(2)[unfolded commandTriggerLen_def], of k] that Cons by (simp add: splitSkip_def)
  have w0: "cc_userCommands cc w0 = None" "cc_commands cc w0 = None" using no[of 0] by (simp_all add: named_def)
  have "namedLoop cc others (min (cc_maxSpaces cc) (length others)) w0 = None"
  proof (rule namedLoop_None)
    fix k assume k: "k < min (cc_maxSpaces cc) (length others)" "k < length others"
    then have "others \<noteq> []" by auto
    with no[of "Suc k"] k show "\<not> named cc (w0 @ '' '' @ joinStr '' '' (take (Suc k) others))"
      using joinStr_take_Cons[of others "'' ''" w0 k] by simp
  qed
  with Cons w0 show ?thesis by (simp add: execCommand_def Let_def assms(3))
qed

definition hiController :: command_controller where
  "hiController = emptyController\<lparr>cc_userCommands := [''hi all'' \<mapsto> \<lparr>cmd_name = ''hi all'', cmd_func = ''hello'',
     cmd_showInMsgContextMenu = False\<rparr>], cc_maxSpaces := 1\<rparr>"

theorem unhighlighted_text_is_sent_witness: "execCommand id exampleEnv ''hi there'' False hiController = ReturnText ''hi there''"
proof -
  have "\<not> named hiController []" by (simp add: named_def hiController_def emptyController_def)
  moreover have "commandTriggerLen hiController ''hi there'' = 0" by code_simp
  ultimately show ?thesis
    using unhighlighted_text_is_sent[of hiController "''hi there''" id exampleEnv] by (simp add: exampleEnv_def)
qed

text \<open>Short codes: the name of a command may be an emoji, whose short code the input box does not take for a trigger, but it is
  executed.\<close>

lemma short_code_is_executed:
  "commandTriggerLen (emptyController\<lparr>cc_userCommands := [''^'' \<mapsto> \<lparr>cmd_name = ''^'', cmd_func = ''hello'',
     cmd_showInMsgContextMenu = False\<rparr>]\<rparr>) '':up:'' = 0"
  "execCommand (\<lambda>t. if t = '':up:'' then ''^'' else t) exampleEnv '':up:'' False (emptyController\<lparr>cc_userCommands := [''^'' \<mapsto>
     \<lparr>cmd_name = ''^'', cmd_func = ''hello'', cmd_showInMsgContextMenu = False\<rparr>]\<rparr>) = ReturnText ''hello''"
  by code_simp+

end
