(* ===== verification/ChannelActions.thy ===== *)
theory ChannelActions
  imports Durations
begin

text \<open>
  The arguments of the moderation commands: \<open>src/controllers/commands/common/ChannelAction.cpp\<close> and the user names of
  \<open>src/util/Twitch.cpp\<close>.

  Qt's command line parser is an argument: it gives the positional arguments and the values of every option.  Case
  conversion and folding are arguments as well.  The lemmas show what the actions of a command have in common, that the
  duration of a poll stays in its bounds, and that the duration of a timeout can wrap around.
\<close>

section \<open>User and channel names\<close>

definition stripFront :: "string \<Rightarrow> string \<Rightarrow> string" where
  "stripFront marks s = (case s of [] \<Rightarrow> [] | c # cs \<Rightarrow> if c \<in> set marks then cs else s)"

definition stripComma :: "string \<Rightarrow> string" where
  "stripComma s = (if endsWith s '','' then chop s 1 else s)"

definition stripUserName :: "string \<Rightarrow> string" where
  "stripUserName userName = stripComma (stripFront ''@'' userName)"

definition stripChannelName :: "string \<Rightarrow> string" where
  "stripChannelName channelName = stripComma (stripFront ''@#'' channelName)"

definition cleanChannelName :: "(string \<Rightarrow> string) \<Rightarrow> string \<Rightarrow> string" where
  "cleanChannelName toLower s = (if startsWith s ''#'' then toLower (midFrom s 1) else toLower s)"

text \<open>The name and the identifier; one of them is empty.\<close>

definition parseUserNameOrID :: "string \<Rightarrow> string \<times> string" where
  "parseUserNameOrID input =
     (if startsWith input ''id:'' then ([], midFrom input 3) else (stripComma (stripFront ''@#'' input), []))"

section \<open>Actions\<close>

record helix_user =
  hu_id :: string
  hu_login :: string
  hu_displayName :: string

definition hydrateFrom :: "(string \<Rightarrow> string) \<Rightarrow> helix_user \<Rightarrow> helix_user list \<Rightarrow> helix_user option" where
  "hydrateFrom fold_case u users =
     (case find (\<lambda>user. if hu_login u \<noteq> [] then fold_case (hu_login user) = fold_case (hu_login u)
                        else if hu_id u \<noteq> [] then fold_case (hu_id user) = fold_case (hu_id u) else False) users of
        None \<Rightarrow> None
      | Some resolved \<Rightarrow> Some (u\<lparr>hu_id := hu_id resolved, hu_login := hu_login resolved, hu_displayName := hu_displayName resolved\<rparr>))"

record channel_action =
  ca_channel :: helix_user
  ca_target :: helix_user
  ca_reason :: string
  ca_duration :: int

text \<open>The context: whether there is a channel, and the Twitch channel with its identifier, name and display name.\<close>

record action_context =
  ac_hasChannel :: bool
  ac_twitchChannel :: "helix_user option"

text \<open>What Qt's parser gives for the words: the positional arguments and the values of \<open>--channel\<close>.\<close>

record parsed_words =
  pw_positional :: "string list"
  pw_channels :: "string list"

definition user_of :: "string \<Rightarrow> helix_user" where
  "user_of s = (case parseUserNameOrID s of (n, i) \<Rightarrow> \<lparr>hu_id = i, hu_login = n, hu_displayName = []\<rparr>)"

text \<open>The duration and the reason from the arguments behind the target.\<close>

definition durationAndReason :: "string \<Rightarrow> bool \<Rightarrow> bool \<Rightarrow> string list \<Rightarrow> string + int \<times> string" where
  "durationAndReason usage withDuration withReason args =
     (if withDuration then
        (case args of
           [] \<Rightarrow> Inr (600, [])
         | durationStr # others \<Rightarrow>
             (let d = to_int32 (parseDurationToSeconds durationStr 1)
              in if d \<le> 0 then Inl (''Invalid duration - '' @ usage)
                 else Inr (d, if withReason then joinStr '' '' others else [])))
      else Inr (0, if withReason then joinStr '' '' args else []))"

definition parseChannelAction ::
  "(string list \<Rightarrow> parsed_words) \<Rightarrow> action_context \<Rightarrow> string list \<Rightarrow> string \<Rightarrow> string \<Rightarrow> bool \<Rightarrow> bool \<Rightarrow>
     string + channel_action list" where
  "parseChannelAction parse ctx words command usage withDuration withReason =
     (if \<not> ac_hasChannel ctx then
        Inl (''A '' @ command @ '' action must be performed with a channel as a context'')
      else let parsed = parse words
      in case pw_positional parsed of
           [] \<Rightarrow> Inl (''Missing target - '' @ usage)
         | target # args \<Rightarrow>
             pbind (durationAndReason usage withDuration withReason args) (\<lambda>(d, reason).
               let act = (\<lambda>c. \<lparr>ca_channel = c, ca_target = user_of target, ca_reason = reason, ca_duration = d\<rparr>)
               in if pw_channels parsed = [] then
                    (case ac_twitchChannel ctx of
                       None \<Rightarrow> Inl (''The '' @ command @ '' command only works in Twitch channels'')
                     | Some c \<Rightarrow> Inr [act c])
                  else Inr (map (\<lambda>c. act (user_of c)) (pw_channels parsed))))"

text \<open>Polls and predictions: \<open>opts\<close> are the values of an option in the words, joined and split as on a command line.\<close>

record participation_action =
  pa_broadcasterID :: string
  pa_title :: string
  pa_choices :: "string list"
  pa_duration :: int
  pa_pointsPerVote :: int

definition clamp :: "int \<Rightarrow> int \<Rightarrow> int \<Rightarrow> int" where
  "clamp v lo hi = (if v < lo then lo else if hi < v then hi else v)"

definition parseUserParticipationAction ::
  "(string \<Rightarrow> string \<Rightarrow> string list) \<Rightarrow> action_context \<Rightarrow> string list \<Rightarrow> string \<Rightarrow> string \<Rightarrow> int \<Rightarrow> int \<Rightarrow>
     string + participation_action" where
  "parseUserParticipationAction parse ctx words command usage minDuration maxDuration =
     (case ac_twitchChannel ctx of
        None \<Rightarrow> Inl (''The '' @ command @ '' command only works in Twitch channels'')
      | Some channel \<Rightarrow>
          (let opts = parse (joinStr '' '' words)
           in if opts ''title'' = [] then Inl (''Missing title - '' @ usage)
              else if opts ''duration'' = [] then Inl (''Missing duration - '' @ usage)
              else let dur = parseDurationToSeconds (last (opts ''duration'')) 1
              in if dur \<le> 0 then Inl (''Invalid duration - '' @ usage)
                 else if opts ''choice'' = [] then Inl (''Missing choices - '' @ usage)
                 else let action = \<lparr>pa_broadcasterID = hu_id channel, pa_title = last (opts ''title''), pa_choices = opts ''choice'',
                        pa_duration = clamp dur minDuration maxDuration, pa_pointsPerVote = 0\<rparr>
                 in if opts ''points'' = [] then Inr action
                    else (case toIntOk (last (opts ''points'')) of
                            None \<Rightarrow> Inl (''Invalid points - '' @ usage)
                          | Some i \<Rightarrow> Inr (action\<lparr>pa_pointsPerVote := i\<rparr>))))"

section \<open>Properties\<close>

lemma durationAndReason_duration:
  "durationAndReason usage withDuration withReason args = Inr (d, r) \<Longrightarrow> if withDuration then 0 < d \<and> d < 2 ^ 31 else d = 0"
  using mod_less_divisor[of "2 ^ 32"]
  by (auto simp: durationAndReason_def Let_def to_int32_def split: list.splits if_splits)

text \<open>The actions of a moderation command: at least one, one for every channel that was given; all have the same target, reason and
  duration; a duration is positive and fits into 31 bits, and without a duration it is zero; the target is a name or an
  identifier, not both.\<close>

theorem channel_actions_agree:
  assumes "parseChannelAction parse ctx words command usage withDuration withReason = Inr actions"
  shows "\<exists>target reason d. actions \<noteq> [] \<and> length actions = max 1 (length (pw_channels (parse words)))
    \<and> map (\<lambda>a. (ca_target a, ca_reason a, ca_duration a)) actions = replicate (length actions) (target, reason, d)
    \<and> (if withDuration then 0 < d \<and> d < 2 ^ 31 else d = 0) \<and> (hu_id target = [] \<or> hu_login target = [])"
proof -
  from assms obtain t args where p: "pw_positional (parse words) = t # args"
    by (auto simp: parseChannelAction_def Let_def split: if_splits list.splits)
  with assms obtain d r where dr: "durationAndReason usage withDuration withReason args = Inr (d, r)"
    by (auto simp: parseChannelAction_def pbind_def Let_def split: if_splits sum.splits)
  have u: "hu_id (user_of t) = [] \<or> hu_login (user_of t) = []" by (simp add: user_of_def parseUserNameOrID_def)
  have a: "actions = (if pw_channels (parse words) = [] then [\<lparr>ca_channel = the (ac_twitchChannel ctx), ca_target = user_of t, ca_reason = r, ca_duration = d\<rparr>]
      else map (\<lambda>c. \<lparr>ca_channel = user_of c, ca_target = user_of t, ca_reason = r, ca_duration = d\<rparr>) (pw_channels (parse words)))"
    using assms p dr by (auto simp: parseChannelAction_def pbind_def Let_def split: if_splits option.splits)
  show ?thesis
    by (rule exI[of _ "user_of t"], rule exI[of _ r], rule exI[of _ d])
      (use u durationAndReason_duration[OF dr] in \<open>cases "pw_channels (parse words)"; simp add: a map_replicate_const comp_def split: if_splits\<close>)
qed

definition exampleWords :: "string list \<Rightarrow> parsed_words" where
  "exampleWords words = \<lparr>pw_positional = drop 1 words, pw_channels = [''#pajlada'', ''id:11148817'']\<rparr>"

definition noContext :: action_context where
  "noContext = \<lparr>ac_hasChannel = True, ac_twitchChannel = None\<rparr>"

definition exampleAction :: "helix_user \<Rightarrow> channel_action" where
  "exampleAction c = \<lparr>ca_channel = c, ca_target = \<lparr>hu_id = [], hu_login = ''forsen'', hu_displayName = []\<rparr>, ca_reason = ''too loud'',
     ca_duration = 300\<rparr>"

lemma example_actions:
  "parseChannelAction exampleWords noContext [''/timeout'', ''@forsen'', ''5m'', ''too'', ''loud''] ''timeout'' ''Usage'' True True
   = Inr [exampleAction \<lparr>hu_id = [], hu_login = ''pajlada'', hu_displayName = []\<rparr>,
       exampleAction \<lparr>hu_id = ''11148817'', hu_login = [], hu_displayName = []\<rparr>]"
  by code_simp

theorem channel_actions_agree_witness:
  "\<exists>target reason d. [exampleAction \<lparr>hu_id = [], hu_login = ''pajlada'', hu_displayName = []\<rparr>,
       exampleAction \<lparr>hu_id = ''11148817'', hu_login = [], hu_displayName = []\<rparr>] \<noteq> [] \<and> length [exampleAction \<lparr>hu_id = [], hu_login = ''pajlada'', hu_displayName = []\<rparr>,
       exampleAction \<lparr>hu_id = ''11148817'', hu_login = [], hu_displayName = []\<rparr>] = max 1 (length (pw_channels (exampleWords [''/timeout'', ''@forsen'', ''5m'', ''too'', ''loud''])))
    \<and> map (\<lambda>a. (ca_target a, ca_reason a, ca_duration a)) [exampleAction \<lparr>hu_id = [], hu_login = ''pajlada'', hu_displayName = []\<rparr>,
       exampleAction \<lparr>hu_id = ''11148817'', hu_login = [], hu_displayName = []\<rparr>] = replicate (length [exampleAction \<lparr>hu_id = [], hu_login = ''pajlada'', hu_displayName = []\<rparr>,
       exampleAction \<lparr>hu_id = ''11148817'', hu_login = [], hu_displayName = []\<rparr>]) (target, reason, d)
    \<and> (if True then 0 < d \<and> d < 2 ^ 31 else d = 0) \<and> (hu_id target = [] \<or> hu_login target = [])"
  by (rule channel_actions_agree[OF example_actions])

lemma to_int32_positive: "(0 < to_int32 x) = (0 < x mod 2 ^ 32 \<and> x mod 2 ^ 32 < 2 ^ 31) \<and> (0 < to_int32 x \<longrightarrow> to_int32 x = x mod 2 ^ 32)"
proof -
  have "0 \<le> x mod 2 ^ 32" "x mod 2 ^ 32 < 2 ^ 32" by simp_all
  moreover have "(x + 2 ^ 31) mod 2 ^ 32 = (x mod 2 ^ 32 + 2 ^ 31) mod 2 ^ 32" by (simp add: mod_add_left_eq)
  moreover have "(y + 2 ^ 31) mod 2 ^ 32 = (if y < 2 ^ 31 then y + 2 ^ 31 else y - 2 ^ 31)" if "0 \<le> y" "y < 2 ^ 32" for y :: int
  proof (cases "y < 2 ^ 31")
    case False
    have "y + 2 ^ 31 = (y - 2 ^ 31) + 2 ^ 32" by simp
    then have "(y + 2 ^ 31) mod 2 ^ 32 = ((y - 2 ^ 31) + 2 ^ 32) mod 2 ^ 32" by (simp only:)
    also have "\<dots> = (y - 2 ^ 31) mod 2 ^ 32" by (rule mod_add_self2)
    also have "\<dots> = y - 2 ^ 31" by (rule mod_pos_pos_trivial) (use False that(2) in simp_all)
    finally show ?thesis using False by simp
  qed (use that in simp)
  ultimately show ?thesis unfolding to_int32_def by (simp split: if_splits)
qed

lemma duration_refused: "\<not> 0 < to_int32 (parseDurationToSeconds d 1) \<Longrightarrow>
    durationAndReason usage True withReason (d # others) = Inl (''Invalid duration - '' @ usage)"
  unfolding durationAndReason_def Let_def list.case by (simp only: not_less if_True)

text \<open>C39. The seconds of a timeout wrap around: the parser of durations gives 64 bits, the action keeps the last 32 of them.  A duration is
  accepted when these are a positive number of 31 bits, which is then the duration of every action, and refused otherwise; so for every
  number of seconds from \<open>2^31\<close> on, an accepted timeout is shorter than it was asked for.\<close>

theorem long_timeout_wraps:
  assumes "ac_hasChannel ctx" "pw_positional (parse words) = target # durationStr # others"
    and "pw_channels (parse words) \<noteq> [] \<or> ac_twitchChannel ctx \<noteq> None"
  shows "let s = parseDurationToSeconds durationStr 1; d = s mod 2 ^ 32;
      r = parseChannelAction parse ctx words command usage True withReason
    in if 0 < d \<and> d < 2 ^ 31
       then (\<exists>actions. r = Inr actions \<and> actions \<noteq> [] \<and> list_all (\<lambda>a. ca_duration a = d) actions) \<and> (2 ^ 31 \<le> s \<longrightarrow> d < s)
       else r = Inl (''Invalid duration - '' @ usage)"
proof (cases "0 < to_int32 (parseDurationToSeconds durationStr 1)")
  case True
  let ?s = "parseDurationToSeconds durationStr 1"
  have d: "0 < ?s mod 2 ^ 32" "?s mod 2 ^ 32 < 2 ^ 31" "to_int32 ?s = ?s mod 2 ^ 32" using to_int32_positive[of ?s] True by simp_all
  have "\<exists>actions. parseChannelAction parse ctx words command usage True withReason = Inr actions \<and> actions \<noteq> []
      \<and> list_all (\<lambda>a. ca_duration a = to_int32 ?s) actions"
    using assms True by (auto simp: parseChannelAction_def durationAndReason_def pbind_def Let_def list_all_iff)
  with d have "(\<exists>actions. parseChannelAction parse ctx words command usage True withReason = Inr actions \<and> actions \<noteq> []
      \<and> list_all (\<lambda>a. ca_duration a = ?s mod 2 ^ 32) actions) \<and> (2 ^ 31 \<le> ?s \<longrightarrow> ?s mod 2 ^ 32 < ?s)" by (intro conjI) (simp, linarith)
  then show ?thesis unfolding Let_def if_P[OF conjI[OF d(1,2)]] .
next
  case False
  then have no: "\<not> (0 < parseDurationToSeconds durationStr 1 mod 2 ^ 32 \<and> parseDurationToSeconds durationStr 1 mod 2 ^ 32 < 2 ^ 31)"
    unfolding conjunct1[OF to_int32_positive] .
  have "parseChannelAction parse ctx words command usage True withReason = Inl (''Invalid duration - '' @ usage)"
    unfolding parseChannelAction_def Let_def assms(2) list.case duration_refused[OF False] pbind_def sum.case
    by (simp only: assms(1) simp_thms if_False)
  then show ?thesis unfolding Let_def if_not_P[OF no] .
qed

theorem long_timeout_wraps_witness:
  "parseDurationToSeconds ''7102w'' 1 = 4295289600 \<and>
   (\<exists>actions. parseChannelAction (\<lambda>words. \<lparr>pw_positional = drop 1 words, pw_channels = [''pajlada'']\<rparr>) noContext
       [''/timeout'', ''forsen'', ''7102w''] ''timeout'' ''Usage'' True True = Inr actions
     \<and> list_all (\<lambda>a. ca_duration a = 322304) actions)"
proof -
  have seven: "parseDurationToSeconds ''7102w'' 1 = 4295289600"
    by (simp add: parseDurationToSeconds_def trimmed_def isSpace_def isDigit_def code_def durationLoop.simps Let_def
      findUnitMultiplierToSec_def unitEnd_def unitMultiplier_def matchesIgnorePlural_def mid_def toUInt_def parseInteger_def digitsVal_def digitVal_def)
  with long_timeout_wraps[of noContext "\<lambda>words. \<lparr>pw_positional = drop 1 words, pw_channels = [''pajlada'']\<rparr>"
      "[''/timeout'', ''forsen'', ''7102w'']" "''forsen''" "''7102w''" "[]" "''timeout''" "''Usage''" True]
  show ?thesis by (auto simp: noContext_def Let_def)
qed

text \<open>The duration of a poll or prediction lies between the bounds of the command, and it has a title and choices from the options.\<close>

theorem participation_in_bounds:
  assumes "parseUserParticipationAction parse ctx words command usage lo hi = Inr a" "lo \<le> hi"
  shows "lo \<le> pa_duration a \<and> pa_duration a \<le> hi \<and> pa_choices a \<noteq> [] \<and> pa_choices a = parse (joinStr '' '' words) ''choice''"
  using assms by (auto simp: parseUserParticipationAction_def Let_def clamp_def split: option.splits if_splits)

definition exampleOptions :: "string \<Rightarrow> string \<Rightarrow> string list" where
  "exampleOptions line opt = (if opt = ''title'' then [''Who wins?''] else if opt = ''duration'' then [''1h''] else if opt = ''choice'' then [''A'', ''B'']
     else [])"

theorem participation_in_bounds_witness:
  "(15::int) \<le> 1800 \<and> (1800::int) \<le> 1800 \<and> [''A'', ''B''] \<noteq> [] \<and> [''A'', ''B''] = exampleOptions (joinStr '' '' [''/poll'']) ''choice''"
proof -
  have "parseUserParticipationAction exampleOptions
      \<lparr>ac_hasChannel = True, ac_twitchChannel = Some \<lparr>hu_id = ''1'', hu_login = ''a'', hu_displayName = ''A''\<rparr>\<rparr> [''/poll''] ''poll'' ''Usage'' 15 1800
    = Inr \<lparr>pa_broadcasterID = ''1'', pa_title = ''Who wins?'', pa_choices = [''A'', ''B''], pa_duration = 1800, pa_pointsPerVote = 0\<rparr>"
    by code_simp
  from participation_in_bounds[OF this] show ?thesis by (simp add: exampleOptions_def)
qed

section \<open>Colours of names\<close>

definition HELIX_COLOR_REPLACEMENTS :: "(string \<times> string) list" where
  "HELIX_COLOR_REPLACEMENTS =
     [(''blueviolet'', ''blue_violet''), (''cadetblue'', ''cadet_blue''),
      (''dodgerblue'', ''dodger_blue''), (''goldenrod'', ''golden_rod''),
      (''hotpink'', ''hot_pink''), (''orangered'', ''orange_red''),
      (''seagreen'', ''sea_green''), (''springgreen'', ''spring_green''),
      (''yellowgreen'', ''yellow_green'')]"

definition VALID_HELIX_COLORS :: "string list" where
  "VALID_HELIX_COLORS =
     [''blue'', ''blue_violet'', ''cadet_blue'', ''chocolate'', ''coral'',
      ''dodger_blue'', ''firebrick'', ''golden_rod'', ''green'', ''hot_pink'',
      ''orange_red'', ''red'', ''sea_green'', ''spring_green'', ''yellow_green'']"

definition cleanHelixColorName :: "(string \<Rightarrow> string) \<Rightarrow> string \<Rightarrow> string" where
  "cleanHelixColorName toLower color =
     (let c = toLower color in case map_of HELIX_COLOR_REPLACEMENTS c of None \<Rightarrow> c | Some r \<Rightarrow> r)"

text \<open>The two tables agree: a name without underscores is replaced exactly when it is a valid name with underscores.\<close>

lemma color_tables_agree:
  "map (filter (\<lambda>c. c \<noteq> CHR ''_'')) (filter (\<lambda>n. CHR ''_'' \<in> set n) VALID_HELIX_COLORS) = map fst HELIX_COLOR_REPLACEMENTS"
  "filter (\<lambda>n. CHR ''_'' \<in> set n) VALID_HELIX_COLORS = map snd HELIX_COLOR_REPLACEMENTS"
  by code_simp+

end
