(* ===== verification/EmojiParser.thy ===== *)
theory EmojiParser
  imports TwitchTags
begin

text \<open>
  Emojis: \<open>src/providers/emoji/Emojis.cpp\<close>.  Texts are UTF-16 code units.

  The entries of \<open>emoji.json\<close> are records with the fields that the code reads; the emote with its image is not modelled, a
  match gives the emoji's data.  The table of emojis by first unit is a function to lists.  The lemmas show that
  parsing splits a text into emojis and the text between them without losing or overlooking any, that of the emojis written out in
  full the longest is taken, and that replacing short codes with a running offset is the same as replacing them one by one.
\<close>

section \<open>Data\<close>

record emoji_data =
  em_value :: qstr
  em_nonQualified :: "qstr option"
  em_unifiedCode :: string
  em_nonQualifiedCode :: string
  em_shortCodes :: "string list"
  em_category :: string
  em_capabilities :: "string list"

text \<open>An entry of the file: the short names, the codes, the category, the sets that have an image, and for the emojis with tones the
  entries by tones.\<close>

record emoji_entry =
  ee_short_names :: "string list"
  ee_non_qualified :: string
  ee_unified :: string
  ee_category :: string
  ee_has_img :: "string list"

type_synonym emoji_json = "emoji_entry \<times> (string \<times> emoji_entry) list"

definition TONE_NAMES :: "(string \<times> string) list" where
  "TONE_NAMES = [(''1F3FB'', ''tone1''), (''1F3FC'', ''tone2''), (''1F3FD'', ''tone3''), (''1F3FE'', ''tone4''), (''1F3FF'', ''tone5'')]"

definition hexVal :: "char \<Rightarrow> nat option" where
  "hexVal c = (if isDigit c then Some (code c - 48)
     else if 97 \<le> code c \<and> code c \<le> 102 then Some (code c - 87)
     else if 65 \<le> code c \<and> code c \<le> 70 then Some (code c - 55) else None)"

fun hexNumber :: "nat \<Rightarrow> string \<Rightarrow> nat option" where
  "hexNumber acc [] = Some acc"
| "hexNumber acc (c # cs) = (case hexVal c of None \<Rightarrow> None | Some d \<Rightarrow> hexNumber (16 * acc + d) cs)"

text \<open>\<open>toUInt(&ok, 16)\<close> of a part of a code, which has no sign and no space.\<close>

definition hexToUInt :: "string \<Rightarrow> nat option" where
  "hexToUInt s = (if s = [] then None
     else case hexNumber 0 s of None \<Rightarrow> None | Some n \<Rightarrow> if n < 4294967296 then Some n else None)"

text \<open>\<open>QString::fromUcs4\<close>: one unit, or a pair of surrogates.\<close>

definition fromUcs4 :: "nat list \<Rightarrow> qstr" where
  "fromUcs4 cps = concat (map (\<lambda>c. if c < 65536 then [of_nat c]
     else [of_nat (55232 + c div 1024), of_nat (56320 + c mod 1024)]) cps)"

definition codeUnits :: "string \<Rightarrow> qstr option" where
  "codeUnits unified = map_option fromUcs4 (those (map hexToUInt (splitOn (CHR ''-'') unified)))"

definition parseEmoji :: "emoji_entry \<Rightarrow> string \<Rightarrow> emoji_data" where
  "parseEmoji entry shortCode =
     (let emoji = \<lparr>em_value = [], em_nonQualified = None, em_unifiedCode = ee_unified entry,
            em_nonQualifiedCode = ee_non_qualified entry,
            em_shortCodes = (if shortCode \<noteq> [] then [shortCode] else ee_short_names entry), em_category = ee_category entry,
            em_capabilities = filter (\<lambda>s. s \<in> set (ee_has_img entry)) [''Apple'', ''Google'', ''Twitter'', ''Facebook'']\<rparr>
      in case codeUnits (ee_unified entry) of
           None \<Rightarrow> emoji
         | Some v \<Rightarrow>
             if ee_non_qualified entry = [] then emoji\<lparr>em_value := v\<rparr>
             else (case codeUnits (ee_non_qualified entry) of
                     None \<Rightarrow> emoji\<lparr>em_value := v\<rparr>
                   | Some nq \<Rightarrow> emoji\<lparr>em_value := v, em_nonQualified := Some nq\<rparr>))"

text \<open>\<open>None\<close> where the assertion fails.\<close>

definition getToneNames :: "string \<Rightarrow> string option" where
  "getToneNames tones =
     (let toneNameResults = List.map_filter (map_of TONE_NAMES) (splitOn (CHR ''-'') tones)
      in if toneNameResults = [] then None else Some (joinOn (CHR ''-'') toneNameResults))"

section \<open>Loading\<close>

record emojis =
  es_emojis :: "emoji_data list"
  es_shortCodes :: "string list"
  es_byShortCode :: "string \<Rightarrow> emoji_data option"
  es_byFirst :: "16 word \<Rightarrow> emoji_data list option"

definition noEmojis :: emojis where
  "noEmojis = \<lparr>es_emojis = [], es_shortCodes = [], es_byShortCode = (\<lambda>s. None), es_byFirst = (\<lambda>c. None)\<rparr>"

text \<open>Adding an emoji under short codes; an empty value has no first character.\<close>

definition addEmoji :: "emoji_data \<Rightarrow> string list \<Rightarrow> emojis \<Rightarrow> emojis option" where
  "addEmoji emoji codes e =
     (case em_value emoji of
        [] \<Rightarrow> None
      | c # _ \<Rightarrow> Some (e\<lparr>es_emojis := es_emojis e @ [emoji], es_shortCodes := es_shortCodes e @ codes,
          es_byShortCode := (\<lambda>s. if s \<in> set codes then Some emoji else es_byShortCode e s),
          es_byFirst := (es_byFirst e)(c := Some ((case es_byFirst e c of None \<Rightarrow> [] | Some es \<Rightarrow> es) @ [emoji]))\<rparr>))"

fun addVariations :: "emoji_data \<Rightarrow> (string \<times> emoji_entry) list \<Rightarrow> emojis \<Rightarrow> emojis option" where
  "addVariations emoji [] e = Some e"
| "addVariations emoji ((tones, entry) # variations) e =
     (case getToneNames tones of
        None \<Rightarrow> None
      | Some toneName \<Rightarrow>
          (let v = parseEmoji entry (hd (em_shortCodes emoji) @ ''_'' @ toneName);
               variation = v\<lparr>em_category := em_category emoji\<rparr>
           in case addEmoji variation [hd (em_shortCodes variation)] e of
                None \<Rightarrow> None | Some e1 \<Rightarrow> addVariations emoji variations e1))"

fun loadEmojis :: "emoji_json list \<Rightarrow> emojis \<Rightarrow> emojis option" where
  "loadEmojis [] e = Some e"
| "loadEmojis ((entry, variations) # entries) e =
     (let emoji = parseEmoji entry []
      in case addEmoji emoji (em_shortCodes emoji) e of
           None \<Rightarrow> None
         | Some e1 \<Rightarrow> (case addVariations emoji variations e1 of None \<Rightarrow> None | Some e2 \<Rightarrow> loadEmojis entries e2))"

fun codeLess :: "string \<Rightarrow> string \<Rightarrow> bool" where
  "codeLess s [] = False"
| "codeLess [] (d # ds) = True"
| "codeLess (c # cs) (d # ds) = (code c < code d \<or> (c = d \<and> codeLess cs ds))"

fun insertCode :: "string \<Rightarrow> string list \<Rightarrow> string list" where
  "insertCode s [] = [s]"
| "insertCode s (t # ts) = (if codeLess t s then t # insertCode s ts else s # t # ts)"

text \<open>The longest values first; the short codes in order of their characters.\<close>

definition sortEmojis :: "emojis \<Rightarrow> emojis" where
  "sortEmojis e = e\<lparr>es_byFirst := (\<lambda>c. map_option (sort_key (\<lambda>x. - int (length (em_value x)))) (es_byFirst e c)),
     es_shortCodes := foldr insertCode (es_shortCodes e) []\<rparr>"

section \<open>Parsing a text\<close>

datatype emoji_part = EmojiPart emoji_data | TextPart qstr

text \<open>The loop over the emojis with the first unit, on what follows it: the emoji and the length that matched.\<close>

fun findEmoji :: "emoji_data list \<Rightarrow> qstr \<Rightarrow> (emoji_data \<times> nat) option" where
  "findEmoji [] following = None"
| "findEmoji (emoji # possibleEmojis) following =
     (let extra = length (em_value emoji) - 1
      in if length following \<ge> extra \<and> drop 1 (em_value emoji) = take extra following then Some (emoji, length (em_value emoji))
         else (case em_nonQualified emoji of
                 Some nq \<Rightarrow>
                   if length following \<ge> length nq - 1 \<and> drop 1 nq = take (length nq - 1) following then Some (emoji, length nq)
                   else findEmoji possibleEmojis following
               | None \<Rightarrow> findEmoji possibleEmojis following))"

definition emojiAt :: "(16 word \<Rightarrow> emoji_data list option) \<Rightarrow> qstr \<Rightarrow> nat \<Rightarrow> (emoji_data \<times> nat) option" where
  "emojiAt table text i =
     (if isLowSurrogate (text ! i) then None
      else case table (text ! i) of
             None \<Rightarrow> None
           | Some possibleEmojis \<Rightarrow>
               (case findEmoji possibleEmojis (drop (i + 1) text) of
                  None \<Rightarrow> None | Some (emoji, n) \<Rightarrow> if n = 0 then None else Some (emoji, n)))"

function parseLoop :: "(16 word \<Rightarrow> emoji_data list option) \<Rightarrow> qstr \<Rightarrow> nat \<Rightarrow> nat \<Rightarrow> emoji_part list \<Rightarrow> emoji_part list" where
  "parseLoop table text i lastEnd result =
     (if i \<ge> length text then result @ (if lastEnd < length text then [TextPart (drop lastEnd text)] else [])
      else (case emojiAt table text i of
              None \<Rightarrow> parseLoop table text (i + 1) lastEnd result
            | Some (emoji, n) \<Rightarrow>
                parseLoop table text (i + n) (i + n)
                  (result @ (if i - lastEnd > 0 then [TextPart (take (i - lastEnd) (drop lastEnd text))] else []) @ [EmojiPart emoji])))"
  by pat_completeness auto

termination
  by (relation "measure (\<lambda>(table, text, i, lastEnd, result). length text - i)")
    (auto simp: emojiAt_def split: if_splits option.splits)

declare parseLoop.simps [simp del]

definition Emojis_parse :: "emojis \<Rightarrow> qstr \<Rightarrow> emoji_part list" where
  "Emojis_parse e text = parseLoop (es_byFirst e) text 0 0 []"

section \<open>Short codes\<close>

definition shortCodeUnit :: "16 word \<Rightarrow> bool" where
  "shortCodeUnit c \<longleftrightarrow> c = 45 \<or> c = 43 \<or> c = 95 \<or> (48 \<le> c \<and> c \<le> 57) \<or> (65 \<le> c \<and> c \<le> 90) \<or> (97 \<le> c \<and> c \<le> 122)"

text \<open>The matches of the regular expression from a position, as starts and lengths.\<close>

function shortCodeMatches :: "qstr \<Rightarrow> nat \<Rightarrow> (nat \<times> nat) list" where
  "shortCodeMatches text p =
     (if p \<ge> length text then []
      else let k = length (takeWhile shortCodeUnit (drop (p + 1) text))
      in if text ! p = 58 \<and> k > 0 \<and> p + k + 1 < length text \<and> text ! (p + k + 1) = 58
         then (p, k + 2) # shortCodeMatches text (p + k + 2)
         else shortCodeMatches text (p + 1))"
  by pat_completeness auto

termination
  by (relation "measure (\<lambda>(text, p). length text - p)") auto

declare shortCodeMatches.simps [simp del]

definition lowerUnit :: "16 word \<Rightarrow> 16 word" where
  "lowerUnit c = (if 65 \<le> c \<and> c \<le> 90 then c + 32 else c)"

definition codeOf :: "qstr \<Rightarrow> string" where
  "codeOf captured = map (\<lambda>c. char_of (unat (lowerUnit c))) (take (length captured - 2) (drop 1 captured))"

text \<open>The loop over the matches: the text so far and the offset.\<close>

fun replaceLoop :: "(string \<Rightarrow> emoji_data option) \<Rightarrow> qstr \<Rightarrow> (nat \<times> nat) list \<Rightarrow> qstr \<Rightarrow> int \<Rightarrow> qstr" where
  "replaceLoop byShortCode text [] ret offset = ret"
| "replaceLoop byShortCode text ((start, len) # matches) ret offset =
     (case byShortCode (codeOf (take len (drop start text))) of
        None \<Rightarrow> replaceLoop byShortCode text matches ret offset
      | Some emojiData \<Rightarrow>
          (let at = nat (offset + int start)
           in replaceLoop byShortCode text matches (take at ret @ em_value emojiData @ drop (at + len) ret)
                (offset + int (length (em_value emojiData)) - int len)))"

definition replaceShortCodes :: "emojis \<Rightarrow> qstr \<Rightarrow> qstr" where
  "replaceShortCodes e text = replaceLoop (es_byShortCode e) text (shortCodeMatches text 0) text 0"


section \<open>What a parsed text is\<close>

text \<open>A table for a list of emojis: the emojis by the first unit of both spellings, the longest value first.\<close>

definition good_table :: "emoji_data list \<Rightarrow> (16 word \<Rightarrow> emoji_data list option) \<Rightarrow> bool" where
  "good_table all table \<longleftrightarrow>
     list_all (\<lambda>e. em_value e \<noteq> [] \<and> (case em_nonQualified e of None \<Rightarrow> True | Some nq \<Rightarrow> take 1 nq = take 1 (em_value e))) all \<and>
     (\<forall>c. set (case table c of None \<Rightarrow> [] | Some es \<Rightarrow> es) = {e \<in> set all. hd (em_value e) = c}) \<and>
     (\<forall>c es. table c = Some es \<longrightarrow> sorted_wrt (\<lambda>x y. length (em_value x) \<ge> length (em_value y)) es)"

definition written :: "emoji_data \<Rightarrow> qstr \<Rightarrow> bool" where
  "written e u \<longleftrightarrow> u = em_value e \<or> em_nonQualified e = Some u"

text \<open>An emoji of a list begins a text: one of its two spellings is a prefix, which does not start in the middle of a pair of
  surrogates.  This does not mention the tables or the search.\<close>

definition begins :: "emoji_data list \<Rightarrow> qstr \<Rightarrow> bool" where
  "begins es s \<longleftrightarrow> s \<noteq> [] \<and> \<not> isLowSurrogate (hd s) \<and> (\<exists>e\<in>set es. \<exists>u. written e u \<and> prefix u s)"

text \<open>The parts of a text: no emoji begins between the emojis, and no emoji that is written out in full is longer than the
  one that was taken.\<close>

fun reads :: "emoji_data list \<Rightarrow> emoji_part list \<Rightarrow> qstr \<Rightarrow> bool" where
  "reads es [] s \<longleftrightarrow> s = []"
| "reads es (TextPart t # ps) s \<longleftrightarrow> t \<noteq> [] \<and> prefix t s \<and> (\<forall>k < length t. \<not> begins es (drop k s))
     \<and> reads es ps (drop (length t) s) \<and> (case ps of TextPart _ # _ \<Rightarrow> False | _ \<Rightarrow> True)"
| "reads es (EmojiPart e # ps) s \<longleftrightarrow>
     e \<in> set es \<and> (\<exists>u. u \<noteq> [] \<and> written e u \<and> prefix u s \<and> reads es ps (drop (length u) s))
     \<and> (\<forall>e'\<in>set es. prefix (em_value e') s \<longrightarrow> length (em_value e') \<le> length (em_value e))"

lemma findEmoji_sound:
  "findEmoji es following = Some (e, n) \<Longrightarrow>
   e \<in> set es \<and> (\<exists>u. written e u \<and> n = length u \<and> drop 1 u = take (n - 1) following \<and> n - 1 \<le> length following)"
  by (induction es following rule: findEmoji.induct) (auto simp: Let_def written_def split: if_splits option.splits)

lemma findEmoji_longest:
  "sorted_wrt (\<lambda>x y. length (em_value x) \<ge> length (em_value y)) es \<Longrightarrow> findEmoji es following = Some (e, n) \<Longrightarrow> e' \<in> set es \<Longrightarrow>
   length (em_value e') - 1 \<le> length following \<Longrightarrow> drop 1 (em_value e') = take (length (em_value e') - 1) following \<Longrightarrow>
   length (em_value e') \<le> length (em_value e)"
  by (induction es following rule: findEmoji.induct) (auto simp: Let_def split: if_splits option.splits)

lemma findEmoji_complete:
  "findEmoji es following = None \<Longrightarrow> e \<in> set es \<Longrightarrow> written e u \<Longrightarrow> length u - 1 \<le> length following \<Longrightarrow>
   drop 1 u \<noteq> take (length u - 1) following"
  by (induction es following rule: findEmoji.induct) (auto simp: Let_def written_def split: if_splits option.splits)

text \<open>A spelling is a prefix when its first unit is there and the rest follows, which is what the search compares.\<close>

lemma prefix_Cons_iff:
  "u \<noteq> [] \<Longrightarrow> prefix u (c # f) \<longleftrightarrow> hd u = c \<and> length u - 1 \<le> length f \<and> drop 1 u = take (length u - 1) f"
  by (cases u) (auto simp: prefix_def, metis append_eq_conv_conj append_take_drop_id)

lemma good_spelling: "good_table all table \<Longrightarrow> e \<in> set all \<Longrightarrow> written e u \<Longrightarrow> u \<noteq> [] \<and> hd u = hd (em_value e)"
  by (cases u; cases "em_value e") (auto simp: good_table_def list_all_iff written_def split: option.splits)

lemma emojiAt_None:
  assumes "good_table all table" "i < length text"
  shows "emojiAt table text i = None \<longleftrightarrow> \<not> begins all (drop i text)"
proof -
  let ?c = "text ! i" and ?f = "drop (i + 1) text"
  let ?es = "case table ?c of None \<Rightarrow> [] | Some es \<Rightarrow> es"
  have d: "drop i text = ?c # ?f" using assms(2) by (simp add: Cons_nth_drop_Suc)
  have es: "set ?es = {e \<in> set all. hd (em_value e) = ?c}" using assms(1) by (simp add: good_table_def)
  have here: "prefix u (?c # ?f) \<longleftrightarrow> hd (em_value e) = ?c \<and> length u - 1 \<le> length ?f \<and> drop 1 u = take (length u - 1) ?f"
    if "e \<in> set all" "written e u" for e u
    using good_spelling[OF assms(1) that] prefix_Cons_iff[of u ?c ?f] by auto
  have found: "emojiAt table text i = None \<longleftrightarrow> isLowSurrogate ?c \<or> findEmoji ?es ?f = None"
  proof (cases "findEmoji ?es ?f")
    case (Some r)
    then obtain e n where r: "findEmoji ?es ?f = Some (e, n)" by (cases r) simp
    from findEmoji_sound[OF r] es obtain u where "e \<in> set all" "written e u" "n = length u" by blast
    with good_spelling[OF assms(1)] have "n \<noteq> 0" by fastforce
    with r show ?thesis by (auto simp: emojiAt_def split: option.splits)
  qed (auto simp: emojiAt_def split: option.splits)
  have "findEmoji ?es ?f = None \<longleftrightarrow> \<not> (\<exists>e\<in>set all. \<exists>u. written e u \<and> prefix u (?c # ?f))"
  proof
    assume none: "findEmoji ?es ?f = None"
    show "\<not> (\<exists>e\<in>set all. \<exists>u. written e u \<and> prefix u (?c # ?f))"
    proof
      assume "\<exists>e\<in>set all. \<exists>u. written e u \<and> prefix u (?c # ?f)"
      then obtain e u where e: "e \<in> set all" "written e u" "prefix u (?c # ?f)" by blast
      with here es findEmoji_complete[OF none _ e(2)] show False by blast
    qed
  next
    assume no: "\<not> (\<exists>e\<in>set all. \<exists>u. written e u \<and> prefix u (?c # ?f))"
    show "findEmoji ?es ?f = None"
    proof (rule ccontr)
      assume "findEmoji ?es ?f \<noteq> None"
      then obtain e n where "findEmoji ?es ?f = Some (e, n)" by auto
      from findEmoji_sound[OF this] es obtain u where
        "e \<in> set all" "hd (em_value e) = ?c" "written e u" "drop 1 u = take (length u - 1) ?f" "length u - 1 \<le> length ?f" by blast
      with no here show False by blast
    qed
  qed
  with found show ?thesis unfolding begins_def d by simp
qed

text \<open>An emoji that is found.\<close>

lemma emojiAt_part:
  assumes "good_table all table" "i < length text" "emojiAt table text i = Some (e, n)"
  shows "i + n \<le> length text \<and> (reads all ps (drop (i + n) text) \<longrightarrow> reads all (EmojiPart e # ps) (drop i text))"
proof -
  let ?c = "text ! i" and ?f = "drop (i + 1) text"
  have d: "drop i text = ?c # ?f" using assms(2) by (simp add: Cons_nth_drop_Suc)
  obtain es where es: "table ?c = Some es" "findEmoji es ?f = Some (e, n)" "0 < n"
    using assms(3) by (auto simp: emojiAt_def split: if_splits option.splits)
  have "set (case table ?c of None \<Rightarrow> [] | Some es \<Rightarrow> es) = {e \<in> set all. hd (em_value e) = ?c}"
    using assms(1) unfolding good_table_def by (elim conjE) (rule spec)
  then have all: "set es = {e \<in> set all. hd (em_value e) = ?c}" using es(1) by simp
  have sorted: "sorted_wrt (\<lambda>x y. length (em_value x) \<ge> length (em_value y)) es"
    using assms(1) es(1) unfolding good_table_def by (elim conjE) blast
  from findEmoji_sound[OF es(2)] obtain u where e: "e \<in> set es" and u: "written e u" "n = length u"
    "drop 1 u = take (n - 1) ?f" "n - 1 \<le> length ?f" by blast
  have u1: "u \<noteq> []" "hd u = ?c" using good_spelling[OF assms(1) _ u(1)] e all by auto
  have here: "prefix u (drop i text)" unfolding d using prefix_Cons_iff[OF u1(1)] u u1 by simp
  have longest: "length (em_value e') \<le> length (em_value e)" if "e' \<in> set all" "prefix (em_value e') (drop i text)" for e'
  proof -
    have w: "em_value e' \<noteq> []" using good_spelling[OF assms(1) that(1)] by (simp add: written_def)
    with that(2) have "hd (em_value e') = ?c" "length (em_value e') - 1 \<le> length ?f"
      "drop 1 (em_value e') = take (length (em_value e') - 1) ?f"
      using prefix_Cons_iff[OF w] unfolding d by blast+
    with findEmoji_longest[OF sorted es(2)] that(1) all show ?thesis by blast
  qed
  have "drop (length u) (drop i text) = drop (i + n) text" using u(2) by (simp add: add.commute)
  then have "reads all ps (drop (i + n) text) \<longrightarrow> reads all (EmojiPart e # ps) (drop i text)"
    using here u(1) u1(1) longest e all by (auto simp del: drop_drop)
  with u(2,4) assms(2) show ?thesis by auto
qed

lemma reads_text:
  assumes "t = take n s" "0 < n" "n \<le> length s" "\<And>k. k < n \<Longrightarrow> \<not> begins all (drop k s)" "reads all ps (drop n s)"
    "case ps of TextPart _ # _ \<Rightarrow> False | _ \<Rightarrow> True"
  shows "reads all (TextPart t # ps) s"
  using assms by (auto simp: min_def take_is_prefix split: list.splits)

lemma parseLoop_reads:
  "good_table all table \<Longrightarrow> l \<le> i \<Longrightarrow> i \<le> length s \<Longrightarrow> (\<And>k. l \<le> k \<Longrightarrow> k < i \<Longrightarrow> \<not> begins all (drop k s)) \<Longrightarrow>
    \<exists>ps. parseLoop table s i l result = result @ ps \<and> reads all ps (drop l s)"
proof (induction table s i l result rule: parseLoop.induct)
  case (1 table s i l result)
  have before: "\<not> begins all (drop k (drop l s))" if "k < i - l" for k
    using 1(6)[of "l + k"] that \<open>l \<le> i\<close> by (simp add: add.commute)
  show ?case
  proof (cases "i \<ge> length s")
    case True
    show ?thesis
    proof (cases "l < length s")
      case True
      have "reads all [TextPart (drop l s)] (drop l s)"
        by (rule reads_text[of _ "length s - l"]) (use True before \<open>i \<ge> length s\<close> \<open>i \<le> length s\<close> in auto)
      with True \<open>i \<ge> length s\<close> show ?thesis by (subst parseLoop.simps) simp
    qed (use True in \<open>subst parseLoop.simps; simp\<close>)
  next
    case False
    then have i: "i < length s" by simp
    show ?thesis
    proof (cases "emojiAt table s i")
      case None
      then have "\<not> begins all (drop i s)" using emojiAt_None[OF 1(3) i] by simp
      then have "\<not> begins all (drop k s)" if "l \<le> k" "k < i + 1" for k
        using 1(6)[of k] that by (cases "k = i") auto
      from 1(1)[OF False None 1(3) _ _ this] 1(4) False None show ?thesis by (subst parseLoop.simps) simp
    next
      case (Some r)
      then obtain e n where r: "emojiAt table s i = Some (e, n)" by (cases r) simp
      let ?t = "if i - l > 0 then [TextPart (take (i - l) (drop l s))] else []"
      note part = emojiAt_part[OF 1(3) i r]
      from 1(2)[OF False r refl 1(3) _ conjunct1[OF part]] obtain ps where
        ps: "parseLoop table s (i + n) (i + n) (result @ ?t @ [EmojiPart e]) = (result @ ?t @ [EmojiPart e]) @ ps"
          "reads all ps (drop (i + n) s)" by auto
      then have e: "reads all (EmojiPart e # ps) (drop i s)" using part by blast
      have "reads all (?t @ EmojiPart e # ps) (drop l s)"
      proof (cases "i - l > 0")
        case True
        have "drop (i - l) (drop l s) = drop i s" using \<open>l \<le> i\<close> by simp
        then have "reads all (TextPart (take (i - l) (drop l s)) # EmojiPart e # ps) (drop l s)"
          by (intro reads_text[of _ "i - l"]) (use True before e i \<open>l \<le> i\<close> in \<open>simp_all del: reads.simps\<close>)
        with True show ?thesis by simp
      qed (use e \<open>l \<le> i\<close> in simp)
      with ps(1) False r show ?thesis by (subst parseLoop.simps) simp
    qed
  qed
qed


text \<open>The table after loading.\<close>

definition sameFirst :: "emoji_data \<Rightarrow> bool" where
  "sameFirst e \<longleftrightarrow> (case em_nonQualified e of None \<Rightarrow> True | Some nq \<Rightarrow> take 1 nq = take 1 (em_value e))"

definition table_of :: "emojis \<Rightarrow> bool" where
  "table_of e \<longleftrightarrow> list_all (\<lambda>x. em_value x \<noteq> []) (es_emojis e) \<and>
     (\<forall>c. set (case es_byFirst e c of None \<Rightarrow> [] | Some es \<Rightarrow> es) = {x \<in> set (es_emojis e). hd (em_value x) = c})"

lemma addEmoji_table: "addEmoji emoji codes e = Some e' \<Longrightarrow> table_of e \<Longrightarrow> table_of e'"
proof (cases "em_value emoji")
  case (Cons c cs)
  assume "addEmoji emoji codes e = Some e'" "table_of e"
  then have by_first: "set (case es_byFirst e' k of None \<Rightarrow> [] | Some es \<Rightarrow> es)
      = set (case es_byFirst e k of None \<Rightarrow> [] | Some es \<Rightarrow> es) \<union> (if k = c then {emoji} else {})" for k
    using Cons by (auto simp: addEmoji_def split: option.splits)
  have all: "es_emojis e' = es_emojis e @ [emoji]"
    using \<open>addEmoji emoji codes e = Some e'\<close> Cons by (auto simp: addEmoji_def)
  show ?thesis
    unfolding table_of_def by_first using \<open>table_of e\<close> Cons by (auto simp: all table_of_def)
qed (simp add: addEmoji_def)

lemma addVariations_table: "addVariations emoji variations e = Some e' \<Longrightarrow> table_of e \<Longrightarrow> table_of e'"
proof (induction variations arbitrary: e)
  case (Cons v variations)
  obtain tones entry where v: "v = (tones, entry)" by (cases v)
  with Cons.prems(1) obtain x codes e1 where "addEmoji x codes e = Some e1" "addVariations emoji variations e1 = Some e'"
    by (auto simp: Let_def split: option.splits)
  with Cons.IH Cons.prems(2) addEmoji_table show ?case by blast
qed simp

lemma loadEmojis_table: "loadEmojis entries e = Some e' \<Longrightarrow> table_of e \<Longrightarrow> table_of e'"
proof (induction entries e rule: loadEmojis.induct)
  case (2 entry variations entries e)
  then obtain e1 e2 where l: "addEmoji (parseEmoji entry []) (em_shortCodes (parseEmoji entry [])) e = Some e1"
    "addVariations (parseEmoji entry []) variations e1 = Some e2" "loadEmojis entries e2 = Some e'"
    by (auto simp: Let_def split: option.splits)
  from 2(1)[OF refl l] addVariations_table[OF l(2)] addEmoji_table[OF l(1)] 2(3) show ?case by blast
qed simp

lemma sorted_table: "table_of e \<Longrightarrow> list_all sameFirst (es_emojis e) \<Longrightarrow> good_table (es_emojis e) (es_byFirst (sortEmojis e))"
proof -
  assume t: "table_of e" "list_all sameFirst (es_emojis e)"
  have s: "sorted_wrt (\<lambda>x y. length (em_value x) \<ge> length (em_value y)) (sort_key (\<lambda>x. - int (length (em_value x))) es)" for es
    using sorted_sort_key[of "\<lambda>x. - int (length (em_value x))" es] by (simp add: sorted_map)
  have "set (case es_byFirst (sortEmojis e) c of None \<Rightarrow> [] | Some es \<Rightarrow> es) = set (case es_byFirst e c of None \<Rightarrow> [] | Some es \<Rightarrow> es)" for c
    by (simp add: sortEmojis_def split: option.splits)
  with t show ?thesis
    by (auto simp: good_table_def table_of_def list_all_iff sameFirst_def sortEmojis_def s)
qed

text \<open>C16. Parsing a text with the emojis that were loaded splits it into parts: joined together they are the text, inside a part of
  text none of the loaded emojis begins in either of its two spellings, an emoji is one of those that were loaded and stands for one of its
  spellings, and no loaded emoji whose value is there is longer.  The code relies on both spellings of an emoji beginning with the
  same unit, which is a hypothesis.\<close>

theorem emojis_are_found:
  assumes "loadEmojis entries noEmojis = Some e" "list_all sameFirst (es_emojis e)"
  shows "reads (es_emojis e) (Emojis_parse (sortEmojis e) s) s"
proof -
  have "table_of noEmojis" by (simp add: table_of_def noEmojis_def)
  from sorted_table[OF loadEmojis_table[OF assms(1) this] assms(2)]
  show ?thesis using parseLoop_reads[of "es_emojis e" "es_byFirst (sortEmojis e)" 0 0 s "[]"] by (auto simp: Emojis_parse_def)
qed

definition exampleEntries :: "emoji_json list" where
  "exampleEntries =
     [(\<lparr>ee_short_names = [''wave''], ee_non_qualified = [], ee_unified = ''1F44B'', ee_category = ''People'', ee_has_img = [''Twitter'']\<rparr>,
       [(''1F3FB'', \<lparr>ee_short_names = [], ee_non_qualified = [], ee_unified = ''1F44B-1F3FB'', ee_category = [], ee_has_img = []\<rparr>)]),
      (\<lparr>ee_short_names = [''eye''], ee_non_qualified = ''1F441'', ee_unified = ''1F441-FE0F'', ee_category = ''People'', ee_has_img = []\<rparr>, [])]"

theorem emojis_are_found_witness:
  "\<exists>e. loadEmojis exampleEntries noEmojis = Some e \<and>
     reads (es_emojis e) (Emojis_parse (sortEmojis e) [104, 0xD83D, 0xDC4B, 0xD83D, 0xDC41]) [104, 0xD83D, 0xDC4B, 0xD83D, 0xDC41]"
proof -
  have "case loadEmojis exampleEntries noEmojis of None \<Rightarrow> False | Some e \<Rightarrow> list_all sameFirst (es_emojis e)"
    by (simp add: exampleEntries_def noEmojis_def parseEmoji_def codeUnits_def hexToUInt_def hexVal_def isDigit_def code_def fromUcs4_def
      addEmoji_def getToneNames_def TONE_NAMES_def List.map_filter_def sameFirst_def Let_def)
  then obtain e where "loadEmojis exampleEntries noEmojis = Some e" "list_all sameFirst (es_emojis e)"
    by (auto split: option.splits)
  with emojis_are_found[of exampleEntries e] show ?thesis by blast
qed

section \<open>Replacing short codes\<close>

text \<open>One short code after the other.\<close>

function replaceFrom :: "(string \<Rightarrow> emoji_data option) \<Rightarrow> qstr \<Rightarrow> nat \<Rightarrow> qstr" where
  "replaceFrom byShortCode s p =
     (if p \<ge> length s then []
      else let k = length (takeWhile shortCodeUnit (drop (p + 1) s))
      in if s ! p = 58 \<and> k > 0 \<and> p + k + 1 < length s \<and> s ! (p + k + 1) = 58
         then (case byShortCode (codeOf (take (k + 2) (drop p s))) of
                 None \<Rightarrow> take (k + 2) (drop p s) | Some d \<Rightarrow> em_value d) @ replaceFrom byShortCode s (p + k + 2)
         else s ! p # replaceFrom byShortCode s (p + 1))"
  by pat_completeness auto

termination
  by (relation "measure (\<lambda>(byShortCode, s, p). length s - p)") auto

declare replaceFrom.simps [simp del]

lemma replaceLoop_from:
  "q \<le> p \<Longrightarrow> p \<le> length s \<Longrightarrow>
   replaceLoop byShortCode s (shortCodeMatches s p) (out @ drop q s) (int (length out) - int q)
     = out @ take (p - q) (drop q s) @ replaceFrom byShortCode s p"
proof (induction s p arbitrary: out q rule: shortCodeMatches.induct)
  case (1 s p)
  let ?k = "length (takeWhile shortCodeUnit (drop (p + 1) s))"
  let ?match = "s ! p = 58 \<and> ?k > 0 \<and> p + ?k + 1 < length s \<and> s ! (p + ?k + 1) = 58"
  have next_take: "take (p + m - q) (drop q s) = take (p - q) (drop q s) @ take m (drop p s)" for m
    using 1(3) by (metis add_diff_assoc2 diff_add le_add_diff_inverse2 take_add drop_drop)
  show ?case
  proof (cases "p \<ge> length s")
    case True
    then show ?thesis using 1(3,4) by (subst shortCodeMatches.simps, subst replaceFrom.simps) simp
  next
    case False
    show ?thesis
    proof (cases ?match)
      case match: True
      let ?len = "?k + 2"
      have m: "shortCodeMatches s p = (p, ?len) # shortCodeMatches s (p + ?len)"
        using False match by (subst shortCodeMatches.simps) (simp add: Let_def add.assoc)
      have r: "replaceFrom byShortCode s p = (case byShortCode (codeOf (take ?len (drop p s))) of
          None \<Rightarrow> take ?len (drop p s) | Some d \<Rightarrow> em_value d) @ replaceFrom byShortCode s (p + ?k + 2)"
        by (subst replaceFrom.simps) (simp only: Let_def False match if_False if_True simp_thms)
      show ?thesis
      proof (cases "byShortCode (codeOf (take ?len (drop p s)))")
        case None
        have "replaceLoop byShortCode s (shortCodeMatches s (p + ?k + 2)) (out @ drop q s) (int (length out) - int q)
          = out @ take (p + ?k + 2 - q) (drop q s) @ replaceFrom byShortCode s (p + ?k + 2)"
          by (rule 1(1)[OF False refl match]) (use 1(3) match in auto)
        with None m r next_take[of ?len] show ?thesis by (simp add: add.assoc)
      next
        case (Some d)
        let ?out = "out @ take (p - q) (drop q s) @ em_value d"
        have len: "length (take (p - q) (drop q s)) = p - q" using 1(4) by simp
        have "replaceLoop byShortCode s (shortCodeMatches s (p + ?k + 2)) (?out @ drop (p + ?k + 2) s) (int (length ?out) - int (p + ?k + 2))
          = ?out @ take (p + ?k + 2 - (p + ?k + 2)) (drop (p + ?k + 2) s) @ replaceFrom byShortCode s (p + ?k + 2)"
          by (rule 1(1)[OF False refl match]) (use match in auto)
        moreover have at: "nat (int (length out) - int q + int p) = length out + (p - q)" using 1(3) by linarith
        moreover have "int (length out) - int q + int (length (em_value d)) - int ?len = int (length ?out) - int (p + ?k + 2)"
          using 1(3) len by (simp add: of_nat_diff)
        moreover have "take (length out + (p - q)) (out @ drop q s) @ em_value d @ drop (length out + (p - q) + ?len) (out @ drop q s)
            = ?out @ drop (p + ?k + 2) s"
          using 1(3) by (simp add: drop_drop ac_simps)
        moreover have "shortCodeMatches s (p + ?len) = shortCodeMatches s (p + ?k + 2)" by (simp only: add.assoc)
        ultimately show ?thesis unfolding m r replaceLoop.simps Some option.case Let_def by (simp only: append_assoc diff_self_eq_0 take_0 append_Nil)
      qed
    next
      case no: False
      have "replaceLoop byShortCode s (shortCodeMatches s (p + 1)) (out @ drop q s) (int (length out) - int q)
          = out @ take (p + 1 - q) (drop q s) @ replaceFrom byShortCode s (p + 1)"
        by (rule 1(2)[OF False refl no]) (use 1(3) False in auto)
      moreover have "take 1 (drop p s) = [s ! p]" using False by (simp add: take_Suc_conv_app_nth hd_drop_conv_nth take_Suc)
      moreover have "shortCodeMatches s p = shortCodeMatches s (p + 1)"
        by (subst shortCodeMatches.simps) (simp only: Let_def False if_False if_not_P[OF no])
      moreover have "replaceFrom byShortCode s p = s ! p # replaceFrom byShortCode s (p + 1)"
        by (subst replaceFrom.simps) (simp only: Let_def False if_False if_not_P[OF no])
      ultimately show ?thesis using next_take[of 1] by simp
    qed
  qed
qed

text \<open>C28. Replacing short codes by the places in the old text and a running offset gives what replacing one after the other from the
  left gives: every short code that is known becomes its emoji, every other text stays.\<close>

theorem short_codes_are_replaced: "replaceShortCodes e s = replaceFrom (es_byShortCode e) s 0"
  using replaceLoop_from[of 0 0 s "es_byShortCode e" "[]"] by (simp add: replaceShortCodes_def)

end
