(* ===== verification/RatelimitBucket.thy ===== *)
theory RatelimitBucket
  imports Main "HOL-Library.Multiset"
begin

text \<open>
  \<open>RatelimitBucket\<close> of \<open>src/util/RatelimitBucket.cpp\<close>, which limits how fast channels are joined.

  The state has the queue, the budget and the timers that run, each with the time when it is due, and what the callback was called
  with at which time.  A timer fires at any time from a tolerance before it is due: Qt's precise timers fire when they are due or later, its
  coarse ones, which \<open>QTimer::singleShot\<close> takes from 2000 milliseconds on, up to a twentieth of their interval early.  The lemmas show
  that in no span as long as the cooldown without the tolerance more items are handled than the budget allows, that items are handled in
  order, and that an item waits only while a timer runs.
\<close>

section \<open>The bucket\<close>

record bucket =
  bk_budget :: int
  bk_cooldown :: int
  bk_queue :: "string list"
  bk_timers :: "int list"
  bk_handled :: "(int \<times> string) list"

definition RatelimitBucket :: "int \<Rightarrow> int \<Rightarrow> bucket" where
  "RatelimitBucket budget cooldown =
     \<lparr>bk_budget = budget, bk_cooldown = cooldown, bk_queue = [], bk_timers = [], bk_handled = []\<rparr>"

definition handleOne :: "int \<Rightarrow> bucket \<Rightarrow> bucket" where
  "handleOne now b =
     (case bk_queue b of
        [] \<Rightarrow> b
      | item # queue \<Rightarrow> b\<lparr>bk_queue := queue, bk_budget := bk_budget b - 1, bk_handled := bk_handled b @ [(now, item)],
          bk_timers := bk_timers b @ [now + bk_cooldown b]\<rparr>)"

definition send :: "int \<Rightarrow> string \<Rightarrow> bucket \<Rightarrow> bucket" where
  "send now channel b =
     (let b1 = b\<lparr>bk_queue := bk_queue b @ [channel]\<rparr> in if bk_budget b1 > 0 then handleOne now b1 else b1)"

text \<open>The function of the timer.\<close>

definition timerFired :: "int \<Rightarrow> int \<Rightarrow> bucket \<Rightarrow> bucket" where
  "timerFired now due b =
     handleOne now (b\<lparr>bk_timers := remove1 due (bk_timers b), bk_budget := bk_budget b + 1\<rparr>)"

section \<open>Histories\<close>

text \<open>The time, everything that was sent, and the bucket; timers are at most \<open>early\<close> milliseconds early.\<close>

inductive bucket_run :: "int \<Rightarrow> int \<Rightarrow> int \<Rightarrow> int \<Rightarrow> string list \<Rightarrow> bucket \<Rightarrow> bool" for early budget cooldown where
  start: "bucket_run early budget cooldown now [] (RatelimitBucket budget cooldown)"
| send: "bucket_run early budget cooldown now sent b \<Longrightarrow> now \<le> t \<Longrightarrow> bucket_run early budget cooldown t (sent @ [c]) (send t c b)"
| fire: "bucket_run early budget cooldown now sent b \<Longrightarrow> now \<le> t \<Longrightarrow> due \<in> set (bk_timers b) \<Longrightarrow> due - early \<le> t \<Longrightarrow>
    bucket_run early budget cooldown t sent (timerFired t due b)"

definition recent :: "int \<Rightarrow> int \<Rightarrow> bucket \<Rightarrow> int list" where
  "recent early now b = filter (\<lambda>d. now < d - early) (map (\<lambda>(u, c). u + bk_cooldown b) (bk_handled b))"

definition handledIn :: "int \<Rightarrow> int \<Rightarrow> bucket \<Rightarrow> (int \<times> string) list" where
  "handledIn early t b = filter (\<lambda>(u, c). t - (bk_cooldown b - early) < u \<and> u \<le> t) (bk_handled b)"

definition bucket_inv :: "int \<Rightarrow> int \<Rightarrow> int \<Rightarrow> int \<Rightarrow> string list \<Rightarrow> bucket \<Rightarrow> bool" where
  "bucket_inv early budget cooldown now sent b \<longleftrightarrow>
     bk_cooldown b = cooldown \<and> bk_budget b + int (length (bk_timers b)) = budget \<and> 0 \<le> bk_budget b
     \<and> (bk_queue b \<noteq> [] \<longrightarrow> bk_budget b = 0) \<and> sent = map snd (bk_handled b) @ bk_queue b
     \<and> (\<forall>(u, c) \<in> set (bk_handled b). u \<le> now)
     \<and> mset (recent early now b) \<subseteq># mset (bk_timers b)
     \<and> (\<forall>t. int (length (handledIn early t b)) \<le> budget)"

lemma subset_add: "A \<subseteq># B \<Longrightarrow> A \<subseteq># add_mset x B"
  by (metis add_mset_add_single mset_subset_eq_add_left subset_mset.order_trans)

lemma subset_remove: "A \<subseteq># B \<Longrightarrow> x \<notin># A \<Longrightarrow> A \<subseteq># B - {#x#}"
  by (auto simp: subseteq_mset_def not_in_iff)

lemma filter_filter_subset: "(\<And>x. P x \<Longrightarrow> Q x) \<Longrightarrow> mset (filter P xs) \<subseteq># mset (filter Q xs)"
  by (induction xs) (auto simp: subset_mset.add_increasing2 intro: subset_mset.order_trans)

lemma recent_later: "now \<le> t \<Longrightarrow> mset (recent early t b) \<subseteq># mset (recent early now b)"
  unfolding recent_def by (rule filter_filter_subset) simp

lemma handleOne_inv:
  assumes "bk_cooldown b = cooldown" "bk_budget b + int (length (bk_timers b)) = budget" "0 < bk_budget b"
    "length (bk_queue b) > 1 \<Longrightarrow> bk_budget b = 1" "sent = map snd (bk_handled b) @ bk_queue b"
    "\<forall>(u, c) \<in> set (bk_handled b). u \<le> now" "mset (recent early now b) \<subseteq># mset (bk_timers b)"
    "\<forall>t. int (length (handledIn early t b)) \<le> budget"
  shows "bucket_inv early budget cooldown now sent (handleOne now b)"
proof (cases "bk_queue b")
  case Nil
  with assms show ?thesis by (simp add: bucket_inv_def handleOne_def)
next
  case (Cons item queue)
  let ?b = "handleOne now b"
  have b: "bk_cooldown ?b = cooldown" "bk_budget ?b = bk_budget b - 1" "bk_timers ?b = bk_timers b @ [now + cooldown]"
    "bk_handled ?b = bk_handled b @ [(now, item)]" "bk_queue ?b = queue"
    using Cons assms(1) by (simp_all add: handleOne_def)
  have r: "recent early now ?b = recent early now b @ (if cooldown > early then [now + cooldown] else [])"
    using b assms(1) by (simp add: recent_def)
  then have sub: "mset (recent early now ?b) \<subseteq># mset (bk_timers ?b)" using assms(7) b(3) by (auto simp: subset_add)
  have window: "int (length (handledIn early t ?b)) \<le> budget" for t
  proof (cases "t - (cooldown - early) < now \<and> now \<le> t")
    case True
    have "length (handledIn early t ?b) \<le> length (recent early now ?b)"
    proof -
      have "t - (cooldown - early) < u \<Longrightarrow> now < u + cooldown - early" for u using True by linarith
      then have "length (filter (\<lambda>(u, c). t - (cooldown - early) < u \<and> u \<le> t) xs)
          \<le> length (filter (\<lambda>d. now < d - early) (map (\<lambda>(u, c). u + cooldown) xs))"
        for xs :: "(int \<times> string) list" by (induction xs) auto
      then show ?thesis using b(1) by (simp add: handledIn_def recent_def)
    qed
    also have "\<dots> \<le> length (bk_timers ?b)" using size_mset_mono[OF sub] by simp
    finally show ?thesis using assms(2,3) b(3) by simp
  next
    case False
    then have "handledIn early t ?b = handledIn early t b" using b(1,4) assms(1) by (auto simp: handledIn_def)
    with assms(8) show ?thesis by simp
  qed
  show ?thesis
    using assms(1-6) b sub window Cons by (auto simp: bucket_inv_def)
qed

lemma bucket_run_inv: "bucket_run early budget cooldown now sent b \<Longrightarrow> 0 \<le> budget \<Longrightarrow> bucket_inv early budget cooldown now sent b"
proof (induction rule: bucket_run.induct)
  case (start now)
  then show ?case by (simp add: bucket_inv_def RatelimitBucket_def recent_def handledIn_def)
next
  case (send now sent b t c)
  then have inv: "bucket_inv early budget cooldown now sent b" by simp
  let ?b = "b\<lparr>bk_queue := bk_queue b @ [c]\<rparr>"
  have same: "recent early t ?b = recent early t b" "handledIn early u ?b = handledIn early u b" for u by (simp_all add: recent_def handledIn_def)
  have late: "mset (recent early t b) \<subseteq># mset (bk_timers b)"
    using inv recent_later[OF send.hyps(2), of early b] by (auto simp: bucket_inv_def intro: subset_mset.order_trans)
  have old: "\<forall>(u, c) \<in> set (bk_handled b). u \<le> t" using inv send.hyps(2) by (fastforce simp: bucket_inv_def)
  show ?case
  proof (cases "bk_budget b > 0")
    case True
    with inv have "bk_queue b = []" by (auto simp: bucket_inv_def)
    have "bucket_inv early budget cooldown t (sent @ [c]) (handleOne t ?b)"
      by (rule handleOne_inv) (use inv late old same True \<open>bk_queue b = []\<close> in \<open>auto simp: bucket_inv_def\<close>)
    with True show ?thesis by (simp add: send_def)
  next
    case False
    with inv late old same show ?thesis by (auto simp: bucket_inv_def send_def)
  qed
next
  case (fire now sent b t due)
  then have inv: "bucket_inv early budget cooldown now sent b" by simp
  let ?b = "b\<lparr>bk_timers := remove1 due (bk_timers b), bk_budget := bk_budget b + 1\<rparr>"
  have same: "recent early t ?b = recent early t b" "handledIn early u ?b = handledIn early u b" for u by (simp_all add: recent_def handledIn_def)
  have late: "mset (recent early t b) \<subseteq># mset (bk_timers b)"
    using inv recent_later[OF fire.hyps(2), of early b] by (auto simp: bucket_inv_def intro: subset_mset.order_trans)
  have "due \<notin># mset (recent early t b)" using fire.hyps(4) by (auto simp: recent_def)
  with late have sub: "mset (recent early t ?b) \<subseteq># mset (bk_timers ?b)"
    unfolding same using subset_remove[OF late \<open>due \<notin># mset (recent early t b)\<close>] by simp
  have old: "\<forall>(u, c) \<in> set (bk_handled b). u \<le> t" using inv fire.hyps(2) by (fastforce simp: bucket_inv_def)
  have len: "int (length (remove1 due (bk_timers b))) = int (length (bk_timers b)) - 1"
    using length_pos_if_in_set[OF fire.hyps(3)] fire.hyps(3) by (simp add: length_remove1 of_nat_diff Suc_le_eq)
  have "bucket_inv early budget cooldown t sent (handleOne t ?b)"
    by (rule handleOne_inv) (use inv sub old same len in \<open>auto simp: bucket_inv_def\<close>)
  then show ?case by (simp add: timerFired_def)
qed


text \<open>C17. In no span of time as long as the cooldown without the tolerance of the timers are more channels joined than the budget
  allows, whatever is sent and however late the timers fire.  The program's buckets have a cooldown of 12500 milliseconds, whose timers
  may be 625 early: in no 11875 milliseconds are more than the budget joined.\<close>

theorem rate_is_limited:
  assumes "bucket_run early budget cooldown now sent b" "0 \<le> budget"
  shows "int (length (filter (\<lambda>(u, c). t - (cooldown - early) < u \<and> u \<le> t) (bk_handled b))) \<le> budget"
  using bucket_run_inv[OF assms] by (auto simp: bucket_inv_def handledIn_def)

text \<open>C29. Nothing is lost and nothing overtakes: what was sent is what was handled followed by what waits, and while something waits and
  the budget is positive a timer runs, whose firing handles the first that waits.\<close>

theorem requests_are_served_in_order:
  assumes "bucket_run early budget cooldown now sent b" "0 < budget"
  shows "sent = map snd (bk_handled b) @ bk_queue b \<and>
    (bk_queue b = [] \<or> (case bk_timers b of [] \<Rightarrow> False
       | due # _ \<Rightarrow> bk_handled (timerFired t due b) = bk_handled b @ [(t, hd (bk_queue b))]
           \<and> bk_queue (timerFired t due b) = tl (bk_queue b)))"
proof -
  have inv: "bucket_inv early budget cooldown now sent b" using bucket_run_inv[OF assms(1)] assms(2) by simp
  show ?thesis
  proof (cases "bk_queue b")
    case (Cons item queue)
    with inv assms(2) have "bk_timers b \<noteq> []" by (auto simp: bucket_inv_def)
    with inv Cons show ?thesis by (cases "bk_timers b") (auto simp: bucket_inv_def timerFired_def handleOne_def)
  qed (use inv in \<open>auto simp: bucket_inv_def\<close>)
qed

definition exampleBucket :: bucket where
  "exampleBucket = timerFired 9 10 (send 3 ''c'' (send 2 ''b'' (send 0 ''a'' (RatelimitBucket 1 10))))"

lemma exampleBucket_run: "bucket_run 1 1 10 9 [''a'', ''b'', ''c''] exampleBucket"
proof -
  have "bucket_run 1 1 10 0 ([] @ [''a'']) (send 0 ''a'' (RatelimitBucket 1 10))"
    by (rule bucket_run.send[OF bucket_run.start[of 1 1 10 0]]) simp
  from bucket_run.send[OF this, of 2 "''b''"]
  have "bucket_run 1 1 10 2 [''a'', ''b''] (send 2 ''b'' (send 0 ''a'' (RatelimitBucket 1 10)))" by simp
  from bucket_run.send[OF this, of 3 "''c''"]
  have "bucket_run 1 1 10 3 [''a'', ''b'', ''c''] (send 3 ''c'' (send 2 ''b'' (send 0 ''a'' (RatelimitBucket 1 10))))" by simp
  from bucket_run.fire[OF this, of 9 10] show ?thesis
    by (simp add: exampleBucket_def send_def handleOne_def RatelimitBucket_def)
qed

theorem rate_is_limited_witness:
  "int (length (filter (\<lambda>(u, c). 9 - (10 - 1) < u \<and> u \<le> 9) (bk_handled exampleBucket))) \<le> 1"
  by (rule rate_is_limited[OF exampleBucket_run]) simp

theorem requests_are_served_in_order_witness:
  "[''a'', ''b'', ''c''] = map snd (bk_handled exampleBucket) @ bk_queue exampleBucket \<and>
    (bk_queue exampleBucket = [] \<or> (case bk_timers exampleBucket of [] \<Rightarrow> False
       | due # _ \<Rightarrow> bk_handled (timerFired 25 due exampleBucket) = bk_handled exampleBucket @ [(25, hd (bk_queue exampleBucket))]
           \<and> bk_queue (timerFired 25 due exampleBucket) = tl (bk_queue exampleBucket)))"
  by (rule requests_are_served_in_order[OF exampleBucket_run]) simp

end
