(* ===== verification/Chatters.thy ===== *)
theory Chatters
  imports Prelude "HOL-Library.Word"
begin

text \<open>
  The chatters of a channel: \<open>src/common/ChatterSet.cpp\<close>, \<open>src/common/ChannelChatters.cpp\<close> and the cache of
  \<open>lib/lrucache/lrucache/lrucache.hpp\<close>; the colours of user names of \<open>src/providers/twitch/UserColor.cpp\<close> and
  \<open>getRandomColor\<close> of \<open>src/util/Helpers.cpp\<close>.

  A cache is its list, the last used entry first; the hash map of the source points into the list.  Conversion to lower case
  is an argument, and so is the order in which a hash set of names is visited: the list of the names.

  The lemmas show that a cache never exceeds its size and keeps its keys apart, what is found after each operation, and
  that updating the online chatters keeps exactly those that are online, with their display names.
\<close>

section \<open>The cache\<close>

record ('k, 'v) lru_cache =
  lru_items :: "('k \<times> 'v) list"
  lru_max :: nat

definition new_lru :: "nat \<Rightarrow> ('k, 'v) lru_cache" where
  "new_lru max_size = \<lparr>lru_items = [], lru_max = max_size\<rparr>"

definition lru_put :: "'k \<Rightarrow> 'v \<Rightarrow> ('k, 'v) lru_cache \<Rightarrow> ('k, 'v) lru_cache" where
  "lru_put key v c =
     (let entries = (key, v) # filter (\<lambda>p. fst p \<noteq> key) (lru_items c)
      in c\<lparr>lru_items := (if length entries > lru_max c then butlast entries else entries)\<rparr>)"

text \<open>\<open>get\<close>: the value, and the entry moves to the front; \<open>None\<close> is the exception.\<close>

definition lru_get :: "'k \<Rightarrow> ('k, 'v) lru_cache \<Rightarrow> ('v \<times> ('k, 'v) lru_cache) option" where
  "lru_get key c = (case map_of (lru_items c) key of
     None \<Rightarrow> None
   | Some v \<Rightarrow> Some (v, c\<lparr>lru_items := (key, v) # filter (\<lambda>p. fst p \<noteq> key) (lru_items c)\<rparr>))"

definition lru_exists :: "'k \<Rightarrow> ('k, 'v) lru_cache \<Rightarrow> bool" where
  "lru_exists key c \<longleftrightarrow> map_of (lru_items c) key \<noteq> None"

definition lru_size :: "('k, 'v) lru_cache \<Rightarrow> nat" where
  "lru_size c = length (lru_items c)"

section \<open>Chatters\<close>

type_synonym chatter_set = "(string, string) lru_cache"

definition CHATTER_LIMIT :: nat where
  "CHATTER_LIMIT = 2000"

definition ChatterSet :: chatter_set where
  "ChatterSet = new_lru CHATTER_LIMIT"

definition addRecentChatter :: "(string \<Rightarrow> string) \<Rightarrow> string \<Rightarrow> chatter_set \<Rightarrow> chatter_set" where
  "addRecentChatter toLower userName c = lru_put (toLower userName) userName c"

text \<open>The loop over the names: the old cache, whose entries \<open>get\<close> moves, and the new one.\<close>

fun onlineLoop :: "nat \<Rightarrow> string list \<Rightarrow> chatter_set \<Rightarrow> chatter_set \<Rightarrow> chatter_set" where
  "onlineLoop totalCount [] old tmp = tmp"
| "onlineLoop totalCount (chatter # chatters) old tmp =
     (case lru_get chatter old of
        Some (v, old1) \<Rightarrow> onlineLoop totalCount chatters old1 (lru_put chatter v tmp)
      | None \<Rightarrow> onlineLoop totalCount chatters old (if totalCount < CHATTER_LIMIT then lru_put chatter chatter tmp else tmp))"

definition updateOnlineChatters :: "string list \<Rightarrow> chatter_set \<Rightarrow> chatter_set" where
  "updateOnlineChatters lowerCaseUsernames c =
     onlineLoop (length lowerCaseUsernames) lowerCaseUsernames c (new_lru CHATTER_LIMIT)"

definition containsChatter :: "(string \<Rightarrow> string) \<Rightarrow> string \<Rightarrow> chatter_set \<Rightarrow> bool" where
  "containsChatter toLower userName c = lru_exists (toLower userName) c"

definition filterByPrefix :: "(string \<Rightarrow> string) \<Rightarrow> string \<Rightarrow> chatter_set \<Rightarrow> string list" where
  "filterByPrefix toLower pre c = map snd (filter (\<lambda>item. startsWith (fst item) (toLower pre)) (lru_items c))"

definition all_chatters :: "chatter_set \<Rightarrow> (string \<times> string) list" where
  "all_chatters c = lru_items c"

section \<open>The chatters of a channel\<close>

text \<open>The lists of users that joined or parted wait for a timer, which posts one message for them.\<close>

record channel_chatters =
  cc_chatters :: chatter_set
  cc_colors :: "(string, nat) lru_cache"
  cc_joined :: "string list"
  cc_joinedQueued :: bool
  cc_parted :: "string list"
  cc_partedQueued :: bool

definition maxChatterColorCount :: nat where
  "maxChatterColorCount = 5000"

definition ChannelChatters :: channel_chatters where
  "ChannelChatters = \<lparr>cc_chatters = ChatterSet, cc_colors = new_lru maxChatterColorCount, cc_joined = [],
     cc_joinedQueued = False, cc_parted = [], cc_partedQueued = False\<rparr>"

text \<open>\<open>isIgnored\<close> is whether messages of the user are ignored.\<close>

definition addJoinedUser :: "bool \<Rightarrow> string \<Rightarrow> channel_chatters \<Rightarrow> channel_chatters" where
  "addJoinedUser isIgnored user c =
     (if isIgnored then c else c\<lparr>cc_joined := cc_joined c @ [user], cc_joinedQueued := True\<rparr>)"

definition addPartedUser :: "bool \<Rightarrow> string \<Rightarrow> channel_chatters \<Rightarrow> channel_chatters" where
  "addPartedUser isIgnored user c =
     (if isIgnored then c else c\<lparr>cc_parted := cc_parted c @ [user], cc_partedQueued := True\<rparr>)"

text \<open>The timers: the users of the message and the new state.  \<open>sortedBy\<close> is \<open>QStringList::sort\<close>.\<close>

definition joinedTimer :: "(string list \<Rightarrow> string list) \<Rightarrow> channel_chatters \<Rightarrow> string list \<times> channel_chatters" where
  "joinedTimer sortedBy c = (sortedBy (cc_joined c), c\<lparr>cc_joined := [], cc_joinedQueued := False\<rparr>)"

definition partedTimer :: "(string list \<Rightarrow> string list) \<Rightarrow> channel_chatters \<Rightarrow> string list \<times> channel_chatters" where
  "partedTimer sortedBy c = (sortedBy (cc_parted c), c\<lparr>cc_parted := [], cc_partedQueued := False\<rparr>)"

text \<open>\<open>None\<close> is the invalid colour; reading moves the entry to the front.\<close>

definition getUserColor :: "(string \<Rightarrow> string) \<Rightarrow> string \<Rightarrow> channel_chatters \<Rightarrow> nat option \<times> channel_chatters" where
  "getUserColor toLower user c =
     (case lru_get (toLower user) (cc_colors c) of
        None \<Rightarrow> (None, c)
      | Some (rgb, colors) \<Rightarrow> (Some rgb, c\<lparr>cc_colors := colors\<rparr>))"

definition setUserColor :: "(string \<Rightarrow> string) \<Rightarrow> string \<Rightarrow> nat \<Rightarrow> channel_chatters \<Rightarrow> channel_chatters" where
  "setUserColor toLower user rgb c = c\<lparr>cc_colors := lru_put (toLower user) rgb (cc_colors c)\<rparr>"

text \<open>\<open>twitch::getUserColor\<close>: the colour the user of this program chose, the colour of the message, the colour last seen.\<close>

definition messageUserColor ::
  "(string \<Rightarrow> string) \<Rightarrow> (string \<Rightarrow> nat option) option \<Rightarrow> string \<Rightarrow> nat option \<Rightarrow> string \<Rightarrow> channel_chatters option \<Rightarrow> nat option" where
  "messageUserColor toLower userData userID color userLogin chatters =
     (case (if userID = [] then None else Option.bind userData (\<lambda>f. f userID)) of
        Some c \<Rightarrow> Some c
      | None \<Rightarrow>
          (case color of
             Some c \<Rightarrow> Some c
           | None \<Rightarrow> (case chatters of
               None \<Rightarrow> None
             | Some cc \<Rightarrow> if userLogin = [] then None else fst (getUserColor toLower userLogin cc))))"

definition TWITCH_USERNAME_COLORS :: "(nat \<times> nat \<times> nat) list" where
  "TWITCH_USERNAME_COLORS = [
     (255, 0, 0), (0, 0, 255), (0, 255, 0), (178, 34, 34), (255, 127, 80),
     (154, 205, 50), (255, 69, 0), (46, 139, 87), (218, 165, 32), (210, 105, 30),
     (95, 158, 160), (30, 144, 255), (255, 105, 180), (138, 43, 226), (0, 255, 127)]"

text \<open>\<open>colorSeed % size()\<close>: the seed is converted to the unsigned 64-bit type of the size.\<close>

definition digitValue :: "char \<Rightarrow> int" where
  "digitValue c = (if isDigit c then int (digitVal c) else - 1)"

definition getRandomColor :: "string \<Rightarrow> nat \<times> nat \<times> nat" where
  "getRandomColor userId =
     (let colorSeed = (case toIntOk userId of Some i \<Rightarrow> i | None \<Rightarrow> foldl (\<lambda>s c. s + digitValue c) 0 userId);
          colorIndex = unat ((word_of_int colorSeed :: 64 word) mod of_nat (length TWITCH_USERNAME_COLORS))
      in TWITCH_USERNAME_COLORS ! colorIndex)"


section \<open>Properties\<close>

definition lru_wf :: "('k, 'v) lru_cache \<Rightarrow> bool" where
  "lru_wf c \<longleftrightarrow> distinct (map fst (lru_items c)) \<and> length (lru_items c) \<le> lru_max c"

lemma distinct_front: "distinct (map fst xs) \<Longrightarrow> distinct (map fst ((k, v) # filter (\<lambda>p. fst p \<noteq> k) xs))"
  by (auto simp: distinct_map inj_on_def)

lemma distinct_butlast_map: "distinct (map f xs) \<Longrightarrow> distinct (map f (butlast xs))"
  by (simp add: map_butlast distinct_butlast)

lemma length_front: "length ((k, v) # filter (\<lambda>p. fst p \<noteq> k) xs) \<le> Suc (length xs)"
  by simp

lemma length_front_existing: "map_of xs k = Some w \<Longrightarrow> length ((k, v) # filter (\<lambda>p. fst p \<noteq> k) xs) \<le> length xs"
  using length_filter_less[of "(k, w)" xs "\<lambda>p. fst p \<noteq> k"] by (auto dest: map_of_SomeD)

lemma lru_put_wf: "lru_wf c \<Longrightarrow> lru_wf (lru_put k v c)"
proof -
  assume wf: "lru_wf c"
  let ?xs = "(k, v) # filter (\<lambda>p. fst p \<noteq> k) (lru_items c)"
  have d: "distinct (map fst ?xs)" using wf by (intro distinct_front) (simp add: lru_wf_def)
  have "length (filter (\<lambda>p. fst p \<noteq> k) (lru_items c)) \<le> lru_max c"
    using wf length_filter_le[of "\<lambda>p. fst p \<noteq> k" "lru_items c"] unfolding lru_wf_def by linarith
  then have "length (butlast ?xs) \<le> lru_max c" by simp
  with d distinct_butlast_map[OF d] show ?thesis
    unfolding lru_wf_def lru_put_def Let_def by (cases "length ?xs > lru_max c") (simp_all del: butlast.simps distinct.simps)
qed

lemma lru_get_wf: "lru_wf c \<Longrightarrow> lru_get k c = Some (v, c') \<Longrightarrow> lru_wf c'"
proof -
  assume wf: "lru_wf c" and "lru_get k c = Some (v, c')"
  then have m: "map_of (lru_items c) k = Some v" and c': "c' = c\<lparr>lru_items := (k, v) # filter (\<lambda>p. fst p \<noteq> k) (lru_items c)\<rparr>"
    by (auto simp: lru_get_def split: option.splits)
  have "distinct (map fst ((k, v) # filter (\<lambda>p. fst p \<noteq> k) (lru_items c)))" using wf by (intro distinct_front) (simp add: lru_wf_def)
  moreover have "length ((k, v) # filter (\<lambda>p. fst p \<noteq> k) (lru_items c)) \<le> lru_max c"
    using wf length_front_existing[OF m, of v] unfolding lru_wf_def by linarith
  ultimately show ?thesis unfolding lru_wf_def c' by simp
qed

lemma map_of_front: "map_of ((k, v) # filter (\<lambda>p. fst p \<noteq> k) xs) = (map_of xs)(k \<mapsto> v)"
proof -
  have "x \<noteq> k \<Longrightarrow> map_of (filter (\<lambda>p. fst p \<noteq> k) xs) x = map_of xs x" for x by (induction xs) auto
  then show ?thesis by (simp add: fun_eq_iff)
qed

lemma lru_get_lookup: "lru_get k c = Some (v, c') \<Longrightarrow> map_of (lru_items c) k = Some v \<and> map_of (lru_items c') = map_of (lru_items c)"
  by (auto simp: lru_get_def map_of_front fun_upd_idem simp del: map_of.simps split: option.splits)

lemma lru_put_lookup:
  "Suc (length (lru_items c)) \<le> lru_max c \<Longrightarrow> map_of (lru_items (lru_put k v c)) = (map_of (lru_items c))(k \<mapsto> v)
     \<and> length (lru_items (lru_put k v c)) \<le> Suc (length (lru_items c)) \<and> lru_max (lru_put k v c) = lru_max c"
proof -
  assume "Suc (length (lru_items c)) \<le> lru_max c"
  then have "\<not> length ((k, v) # filter (\<lambda>p. fst p \<noteq> k) (lru_items c)) > lru_max c"
    using length_front[of k v "lru_items c"] by linarith
  then have "lru_items (lru_put k v c) = (k, v) # filter (\<lambda>p. fst p \<noteq> k) (lru_items c)" by (simp add: lru_put_def Let_def)
  then show ?thesis using map_of_front[of k v "lru_items c"] by (simp add: lru_put_def Let_def del: map_of.simps)
qed

inductive chatters_run :: "(string \<Rightarrow> string) \<Rightarrow> chatter_set \<Rightarrow> bool" for toLower where
  new: "chatters_run toLower ChatterSet"
| recent: "chatters_run toLower c \<Longrightarrow> chatters_run toLower (addRecentChatter toLower u c)"
| online: "chatters_run toLower c \<Longrightarrow> chatters_run toLower (updateOnlineChatters us c)"

lemma onlineLoop_wf: "lru_wf tmp \<Longrightarrow> lru_wf (onlineLoop n us old tmp)"
  by (induction n us old tmp rule: onlineLoop.induct) (auto simp: lru_put_wf split: option.splits)

lemma onlineLoop_max: "lru_max (onlineLoop n us old tmp) = lru_max tmp"
  by (induction n us old tmp rule: onlineLoop.induct) (auto simp: lru_put_def Let_def split: option.splits)

text \<open>A set of chatters never holds more than 2000 names and every name once, whatever is added and however often the list of those
  online is updated.\<close>

theorem chatters_stay_small:
  assumes "chatters_run toLower c"
  shows "distinct (map fst (all_chatters c)) \<and> length (all_chatters c) \<le> 2000"
proof -
  have "lru_wf c \<and> lru_max c = CHATTER_LIMIT" using assms
  proof induction
    case new
    show ?case by (simp add: ChatterSet_def new_lru_def lru_wf_def)
  next
    case (recent c u)
    then show ?case by (simp add: addRecentChatter_def lru_put_wf) (simp add: lru_put_def Let_def)
  next
    case (online c us)
    have "lru_wf (new_lru CHATTER_LIMIT :: chatter_set)" by (simp add: new_lru_def lru_wf_def)
    then show ?case by (simp add: updateOnlineChatters_def onlineLoop_wf onlineLoop_max) (simp add: new_lru_def)
  qed
  then show ?thesis by (simp add: lru_wf_def all_chatters_def CHATTER_LIMIT_def)
qed

lemma onlineLoop_lookup:
  "totalCount < CHATTER_LIMIT \<Longrightarrow> length (lru_items tmp) + length us \<le> lru_max tmp \<Longrightarrow>
   map_of (lru_items (onlineLoop totalCount us old tmp)) = (\<lambda>n. if n \<in> set us then
       Some (case map_of (lru_items old) n of Some v \<Rightarrow> v | None \<Rightarrow> n) else map_of (lru_items tmp) n)"
proof (induction totalCount us old tmp rule: onlineLoop.induct)
  case (2 totalCount u us old tmp)
  show ?case
  proof (cases "lru_get u old")
    case None
    then have none: "map_of (lru_items old) u = None" by (auto simp: lru_get_def split: option.splits)
    have "length (lru_items (lru_put u u tmp)) + length us \<le> lru_max (lru_put u u tmp)"
      using lru_put_lookup[of tmp u u] 2(4) by simp
    from 2(1)[OF None 2(3)] this 2(3) None none lru_put_lookup[of tmp u u] 2(4) show ?thesis by (auto simp: fun_eq_iff)
  next
    case (Some r)
    then obtain v old1 where r: "lru_get u old = Some (v, old1)" by (cases r) simp
    have "length (lru_items (lru_put u v tmp)) + length us \<le> lru_max (lru_put u v tmp)"
      using lru_put_lookup[of tmp u v] 2(4) by simp
    from 2(2)[OF r refl 2(3) this] r lru_get_lookup[OF r] lru_put_lookup[of tmp u v] 2(4) show ?thesis by (auto simp: fun_eq_iff)
  qed
qed simp

text \<open>After an update with fewer than 2000 online users exactly those are known, each with the display name it had, or with the name itself
  if it was not known.\<close>

theorem online_chatters_are_known:
  assumes "length us < 2000"
  shows "map_of (all_chatters (updateOnlineChatters us c)) = (\<lambda>n. if n \<in> set us then
     Some (case map_of (all_chatters c) n of Some v \<Rightarrow> v | None \<Rightarrow> n) else None)"
  using onlineLoop_lookup[of "length us" "new_lru CHATTER_LIMIT" us c] assms
  unfolding all_chatters_def updateOnlineChatters_def CHATTER_LIMIT_def new_lru_def by (simp add: fun_eq_iff)

lemma seed_of_letters: "list_all (\<lambda>c. \<not> isDigit c) s \<Longrightarrow> foldl (\<lambda>s c. s + digitValue c) b s = b - int (length s)"
  by (induction s arbitrary: b) (auto simp: digitValue_def)

text \<open>A name is never given a colour outside the table, also when the sum is negative; but two names without digits that are equally
  long always get the same colour, since every character counts as minus one and not with its code, as the comment says.\<close>

theorem names_of_letters_share_colors:
  assumes "list_all (\<lambda>c. \<not> isDigit c) a" "list_all (\<lambda>c. \<not> isDigit c) b" "length a = length b"
  shows "getRandomColor a = getRandomColor b \<and> getRandomColor s \<in> set TWITCH_USERNAME_COLORS"
proof
  show "getRandomColor a = getRandomColor b"
    using assms by (simp add: getRandomColor_def no_digits_no_integer seed_of_letters)
  have "unat (x mod of_nat (length TWITCH_USERNAME_COLORS)) < length TWITCH_USERNAME_COLORS" for x :: "64 word"
    by (simp add: unat_mod TWITCH_USERNAME_COLORS_def)
  then show "getRandomColor s \<in> set TWITCH_USERNAME_COLORS" by (simp add: getRandomColor_def Let_def)
qed

definition nameSet :: chatter_set where
  "nameSet = addRecentChatter (\<lambda>s. s) ''b'' (updateOnlineChatters [''a'', ''b''] ChatterSet)"

theorem chatters_stay_small_witness:
  "distinct (map fst (all_chatters nameSet)) \<and> length (all_chatters nameSet) \<le> 2000"
  by (rule chatters_stay_small[of "\<lambda>s. s"]) (unfold nameSet_def, intro chatters_run.intros)

theorem online_chatters_are_known_witness:
  "map_of (all_chatters (updateOnlineChatters [''a'', ''c''] nameSet)) = (\<lambda>n. if n \<in> set [''a'', ''c''] then
     Some (case map_of (all_chatters nameSet) n of Some v \<Rightarrow> v | None \<Rightarrow> n) else None)"
  by (rule online_chatters_are_known) simp

theorem names_of_letters_share_colors_witness:
  "getRandomColor ''abc'' = getRandomColor ''xyz'' \<and> getRandomColor ''12'' \<in> set TWITCH_USERNAME_COLORS"
  by (rule names_of_letters_share_colors) (simp_all add: isDigit_def code_def)

end
