(* ===== verification/Spec2Isabelle.thy ===== *)
theory Spec2Isabelle
  imports MessageFilter ChannelStacking MessageSimilarity Durations LongDurations LinkParser PubSubInvariants
    HighlightTable HotkeyGroups IgnorePhrases Highlights WindowLayouts
    Commands ChannelActions EmojiParser RatelimitBucket Chatters
begin

text \<open>
  Verification library of OpenEmote, a chat client in C++ on Qt (paths are relative to the
  repository root).

  \<^bold>\<open>The program and its parts.\<close>  A channel (\<open>src/common/Channel.cpp\<close>) keeps its messages in a
  bounded queue (\<open>src/messages/LimitedQueue.hpp\<close>) of shared pointers and tells its views about
  every change with signals; timeouts and clear-chat messages are stacked on earlier ones
  (\<open>src/util/ChannelHelpers.hpp\<close>), and similar messages are marked
  (\<open>src/messages/MessageSimilarity.cpp\<close>).  A message is a record of texts, times and a 64-bit word
  of flags (\<open>src/messages/Message.hpp\<close>, \<open>src/common/FlagsEnum.hpp\<close>).  Filters of a split are texts
  of a small typed language (\<open>src/controllers/filters\<close>): they are tokenized, parsed, typed and
  evaluated on each message of a channel.  Words of a message are recognised as links
  (\<open>src/common/LinkParser.cpp\<close>), durations are printed and parsed (\<open>src/util/FormatTime.cpp\<close>,
  \<open>src/util/Helpers.cpp\<close>), and live updates of emotes come over a pool of web-socket connections
  (\<open>src/providers/liveupdates\<close>).  Every list of the settings is a vector with signals
  (\<open>src/common/SignalVector.hpp\<close>) that the tables of the settings pages follow
  (\<open>src/common/SignalVectorModel.hpp\<close>); the controllers for highlights, ignored phrases and hotkeys
  (\<open>src/controllers\<close>) hold such lists.  A text that is sent may be a command of the user or a built-in one
  (\<open>src/controllers/commands\<close>), and short codes in it become emojis (\<open>src/providers/emoji\<close>).  A message from Twitch carries tags
  (\<open>src/providers/twitch/TwitchIrc.cpp\<close>) that say where its emotes are; ignored phrases change its text, its
  words and emotes become elements (\<open>src/messages/MessageBuilder.cpp\<close>), and the highlights decide its colour, its
  sound and whether it is a mention.  A tab shows a tree of splits
  (\<open>src/widgets/splits/SplitContainer.cpp\<close>), and the layout of all windows is saved and restored
  (\<open>src/singletons/WindowManager.cpp\<close>, \<open>src/common/WindowDescriptors.cpp\<close>).

  \<^bold>\<open>Theories, and what they model.\<close>
  \<^item> \<open>Prelude\<close>: lists, strings as character lists in the Latin-1 range with the operations of
    \<open>QString\<close> the program uses, decimal numbers, 32-bit conversion and C++ division.
  \<^item> \<open>LimitedQueue\<close>: every member function of the queue over an abstract \<open>boost::circular_buffer\<close>,
    whose documented behaviour is the locale \<open>circular_buffer\<close>; what a client relies on is the locale
    \<open>bounded_queue\<close>, and a sublocale shows that the queue's own code provides it.
  \<^item> \<open>FilterTypes\<close>, \<open>FilterExpr\<close>: the contents of a \<open>QVariant\<close>, static types, the five expression
    classes with \<open>execute\<close>, \<open>synthesizeType\<close>, \<open>debug\<close> and \<open>filterString\<close>.  Qt's conversions, comparison
    and regular expressions are the record \<open>qt_ops\<close> with the locale \<open>qt_variants\<close> of documented laws.
  \<^item> \<open>Tokenizer\<close>, \<open>FilterParser\<close>: \<open>Tokenizer.cpp\<close> and the recursive-descent \<open>FilterParser.cpp\<close>; the two
    recursive calls take a depth bound, and the constructor starts with one more than the number
    of tokens, which is proved to be enough.  \<open>FilterRoundTrip\<close> relates the printer and the parser.
  \<^item> \<open>Messages\<close>, \<open>MessageFilter\<close>: flags, messages, threads; the context map, filters, filter records
    and filter sets.
  \<^item> \<open>ChannelMessages\<close>: the state of a channel with the heap of messages, and one function per
    operation of \<open>Channel.cpp\<close> that changes its messages, with the emitted signals and the calls of virtual functions as one list.
    \<open>ChannelOrder\<close>, \<open>ChannelSignals\<close>, \<open>ChannelStacking\<close> hold its proofs: order of filled-in messages,
    views that follow the emitted signals alone (as \<open>src/widgets/helper/ChannelView.cpp\<close> does), stacked timeouts.
  \<^item> \<open>MessageSimilarity\<close>: the dynamic program for the longest common substring and the flags it sets.
  \<^item> \<open>Durations\<close>, \<open>LongDurations\<close>: \<open>formatTime\<close>, \<open>parseDurationToSeconds\<close> and
    \<open>formatLongFriendlyDuration\<close>, with boost's date iterators as arguments.
  \<^item> \<open>LinkParser\<close>: \<open>linkparser::parse\<close>; the set of top level domains is an argument.
  \<^item> \<open>PubSub\<close>, \<open>PubSubInvariants\<close>: the manager, its clients, the events of the listener, the retry
    timer and the backoff as functions on a state, a step relation over them and its invariants.  The
    iteration order of the hash containers is an argument with the locale \<open>hash_iteration\<close>.
  \<^item> \<open>SignalVector\<close>, \<open>TableModel\<close>, \<open>TableMirror\<close>: the vector of settings with the signals it emits, the table model
    with its rows, and the slots that connect them; the locale \<open>row_conversion\<close> is the contract of a derived
    table.  \<open>SettingsTables\<close> interprets it for the seven tables without custom rows,
    \<open>HighlightTable\<close> for those of the highlights page, whose custom rows stand for settings.
  \<^item> \<open>Hotkeys\<close>, \<open>HotkeyTable\<close>, \<open>HotkeyGroups\<close>: hotkeys, their categories, actions and defaults, the controller's sorted
    list, and the table that groups the hotkeys under headings (also the table of accounts).
  \<^item> \<open>TwitchTags\<close>: unescaping and parsing of tags, badges and the occurrences of emotes, in 32-bit unsigned
    coordinates.  \<open>MessageWords\<close>: sorting the emotes and splitting words around them.  \<open>IgnorePhrases\<close>: blocking
    and replacing phrases, with the bookkeeping of the places of emotes.
  \<^item> \<open>Highlights\<close>: phrases, badges, users, muted channels, nicknames, the list of checks of the controller and the effects of
    a result on a message.
  \<^item> \<open>ChannelTypes\<close>: the types of channels.  \<open>SplitTree\<close>: the tree of nodes of a tab with insertion, release, selection
    and focus, and the building of a tab from a descriptor, whose channels come from the server (an argument).
    \<open>WindowLayouts\<close>: JSON values, encoding and loading of tabs and windows, copies of tabs, and activating a channel.
  \<^item> \<open>Commands\<close>: \<open>src/controllers/commands/CommandController.cpp\<close>, that is the map of the user's commands, the
    registration of built-in and plugin commands, the placeholders of a command with the matcher of their regular
    expression, the execution of a text, and the part of an input that is highlighted as a command.  A built-in
    command that is run is an outcome with its name and words.  \<open>ChannelActions\<close>: the arguments of bans, timeouts,
    polls and predictions (\<open>src/controllers/commands/common/ChannelAction.cpp\<close>) and the names in them
    (\<open>src/util/Twitch.cpp\<close>); Qt's command line parser is an argument.
  \<^item> \<open>EmojiParser\<close>: loading and sorting emojis, splitting a text into emojis, replacing short codes
    (\<open>src/providers/emoji/Emojis.cpp\<close>).
  \<^item> \<open>RatelimitBucket\<close>: the bucket with its queue, budget and timers (\<open>src/util/RatelimitBucket.cpp\<close>), and a step
    relation in which timers fire any time from a tolerance before they are due (Qt's coarse timers may be early).
  \<^item> \<open>Chatters\<close>: the cache of recent chatters (\<open>lib/lrucache\<close>, \<open>src/common/ChatterSet.cpp\<close>), the users that join and
    leave (\<open>src/common/ChannelChatters.cpp\<close>), and the colours of names.

  \<^bold>\<open>What the lemmas show.\<close>  The filter language: type soundness within two restrictions on operands, a parser that returns on every
  text without reading past the last token and logs an error exactly when it rejects, printing of printable trees that
  parses back, agreement of the three tables of identifiers.  The queue: histories of pushes,
  bounds after any sequence of calls, pushes at the front that evict nothing, the three replacements, and what a full queue does on
  insertion.  The channel: its signals are enough to follow it, filled-in messages keep the order,
  the outcome of a timeout and the counting of repeated ones.  Flags are sets; replies follow the
  thread.  Similarity is the longest common substring.  Durations round-trip, the balanced duration
  is exact, its text is a sentence.  Link segments tile the source, IPv4 checks agree with the
  definition, ignored characters do not matter.  The connection pool loses no subscription, leaves
  none stranded and tells each server exactly what its client keeps.  Tables show the items of their vector after every
  sequence of edits and calls; the hotkey table keeps its groups.  Tags and emotes are read back from what was written, words
  show the text around the emotes, literal phrases replace every match, emotes outside a match stay on their words.  The checks
  of the highlight controller are those of the settings, stopping early changes no result.  The split tree stays well formed, a
  new split appears where it was asked for, a released one can go back, a saved tab is restored, a loaded layout has one main
  window at most, and activating a channel selects one tab that shows it.  The map of the user's commands follows
  their list, placeholders become the words and values they name, and a text without short codes that is not highlighted is not executed.  A text is
  split into emojis without losing or overlooking any, and short codes are replaced one by one.  The bucket handles no more
  than its budget in any span of its cooldown less the tolerance of the timers, in the order of the requests.  The set of chatters stays small.
  Some theorems state behaviour that is not what the code means to do; the manifest lists them as
  findings.

  \<^bold>\<open>Bounds, integers, termination.\<close>  Flags are 64-bit words, message counts 32-bit words, the
  components of a balanced duration 16-bit words, parsed durations 64-bit words; queue indices
  returned as \<open>int\<close> are converted explicitly.  Positions and sizes that never leave their range are
  naturals.  Loops are structural or have a measure; the loops over boost's iterators are
  \<open>partial_function\<close>s that are proved to return, as are the loops over the emotes of a word and the matches of a
  literal phrase; \<open>isReplyable\<close> and the parser take fuel, with lemmas
  that the given fuel is enough; the 128 rounds of the loop over matches of a regular expression are the source's.

  \<^bold>\<open>Not modelled.\<close>  Painting, geometry and events of widgets, images, the Lua plugins, the network layer and the API
  clients, the generated EventSub decoders, the settings file and start-up code, which are calls into Qt, boost and the operating
  system; of \<open>MessageBuilder.cpp\<close> everything but stacked messages, words and highlights; of the commands the bodies of the
  built-in ones.  Regular expressions that the user writes, case folding of Qt, key sequences and servers are arguments, and so
  are the emoji parser for the words of a message and the short codes for commands, whose models use different strings.  Where a text may hold any character it is a
  list of UTF-16 code units, elsewhere it is in Latin-1.  Locks are not modelled, each member function is one step; a timer that
  delays a signal is the step at which it fires.
\<close>

end
